(* ===== verification/Prelude.thy ===== *)
theory Prelude
  imports Main "HOL-Library.Word" "HOL-Library.Monad_Syntax"
begin

text \<open>
  Shared vocabulary of the development: bytes and names, C result codes, the
  collections of rewrite rules the component theories add to, the loop
  combinator the translated \<open>for\<close> loops use with its proof rule, the finite
  dictionary interface (a locale) with the association list that models the
  dictionaries of the server, and the single-bit flag lemmas.
\<close>

unbundle bit_operations_syntax

named_theorems flag_defs \<open>definitions of the bit flags of the C headers\<close>
named_theorems flag_simps \<open>reading one bit of a flags word\<close>
named_theorems frame_simps \<open>what an operation leaves unchanged\<close>

section \<open>Types shared by the components\<close>

type_synonym byte = "8 word"
type_synonym bytes = "byte list"
type_synonym u16 = "16 word"
type_synonym u32 = "32 word"
type_synonym u64 = "64 word"

text \<open>Result codes of the C functions (server.h).\<close>

definition C_OK :: int where "C_OK = 0"
definition C_ERR :: int where "C_ERR = -1"

lemma C_OK_neq_C_ERR [simp]: "C_OK \<noteq> C_ERR" "C_ERR \<noteq> C_OK"
  by (simp_all add: C_OK_def C_ERR_def)

section \<open>Computations that may abort\<close>

text \<open>
  A failing \<open>serverAssert\<close> ends the process. A function that contains one
  returns an option; \<open>None\<close> is the abort, and \<open>serverAssert\<close> is the test
  itself, used in \<open>do\<close> blocks.
\<close>

definition serverAssert :: "bool \<Rightarrow> unit option" where
  "serverAssert b = (if b then Some () else None)"

lemma serverAssert_simps [simp]:
  "serverAssert True = Some ()" "serverAssert False = None"
  by (simp_all add: serverAssert_def)

lemma serverAssert_bind [simp]:
  "(serverAssert b \<bind> (\<lambda>_. f)) = (if b then f else None)"
  by (simp add: serverAssert_def)

text \<open>A \<open>for\<close> loop whose body may abort, over the list of index values.\<close>

primrec for_each :: "'a list \<Rightarrow> ('a \<Rightarrow> 's \<Rightarrow> 's option) \<Rightarrow> 's \<Rightarrow> 's option" where
  "for_each [] f s = Some s"
| "for_each (x # xs) f s = (case f x s of None \<Rightarrow> None | Some s' \<Rightarrow> for_each xs f s')"

lemma for_each_append:
  "for_each (xs @ ys) f s = (case for_each xs f s of None \<Rightarrow> None | Some s' \<Rightarrow> for_each ys f s')"
  by (induction xs arbitrary: s) (auto split: option.splits)

text \<open>
  Total correctness of a loop: if the body keeps an assertion over the part of
  the list already processed and never aborts under it, the loop ends in a state
  where the assertion holds of the whole list.
\<close>

lemma for_each_rule_gen:
  assumes "I done s"
    and "\<And>ys y t. done @ xs = ys @ y # drop (Suc (length ys)) (done @ xs) \<Longrightarrow>
            length done \<le> length ys \<Longrightarrow> y \<in> set xs \<Longrightarrow> I ys t \<Longrightarrow>
            \<exists>t'. f y t = Some t' \<and> I (ys @ [y]) t'"
  shows "\<exists>t. for_each xs f s = Some t \<and> I (done @ xs) t"
  using assms
proof (induction xs arbitrary: "done" s)
  case Nil
  then show ?case by simp
next
  case (Cons x xs)
  from Cons.prems(2) [of "done" x s] Cons.prems(1)
  obtain t where t: "f x s = Some t" "I (done @ [x]) t" by auto
  have "\<exists>u. for_each xs f t = Some u \<and> I ((done @ [x]) @ xs) u"
  proof (rule Cons.IH [OF t(2)])
    fix ys y u
    assume eq: "(done @ [x]) @ xs = ys @ y # drop (Suc (length ys)) ((done @ [x]) @ xs)"
      and le: "length (done @ [x]) \<le> length ys" and y: "y \<in> set xs" and I: "I ys u"
    from eq have eq': "done @ x # xs = ys @ y # drop (Suc (length ys)) (done @ x # xs)" by simp
    show "\<exists>t'. f y u = Some t' \<and> I (ys @ [y]) t'"
      using Cons.prems(2) [OF eq' _ _ I] le y by simp
  qed
  then show ?case using t(1) by auto
qed

lemma for_each_rule:
  assumes "I [] s"
    and "\<And>ys y t. \<exists>zs. xs = ys @ y # zs \<Longrightarrow> I ys t \<Longrightarrow> \<exists>t'. f y t = Some t' \<and> I (ys @ [y]) t'"
  shows "\<exists>t. for_each xs f s = Some t \<and> I xs t"
proof -
  have "\<exists>t. for_each xs f s = Some t \<and> I ([] @ xs) t"
  proof (rule for_each_rule_gen [of I, OF assms(1)])
    fix ys y t
    assume "[] @ xs = ys @ y # drop (Suc (length ys)) ([] @ xs)" and "I ys t"
    then show "\<exists>t'. f y t = Some t' \<and> I (ys @ [y]) t'" by (intro assms(2)) auto
  qed
  then show ?thesis by simp
qed

text \<open>What every iteration keeps, the loop keeps.\<close>

lemma for_each_keep:
  assumes "for_each xs f s = Some t" and "\<And>x u v. f x u = Some v \<Longrightarrow> g v = g u"
  shows "g t = g s"
  using assms(1) by (induction xs arbitrary: s) (auto split: option.splits dest: assms(2))

lemma fold_keep:
  assumes "\<And>x u. g (f x u) = g u"
  shows "g (fold f xs s) = g s"
  by (induction xs arbitrary: s) (simp_all add: assms)

text \<open>The same for an assertion that does not mention the progress of the loop.\<close>

lemma for_each_inv:
  assumes "I s" and "\<And>x t. x \<in> set xs \<Longrightarrow> I t \<Longrightarrow> \<exists>t'. f x t = Some t' \<and> I t'"
  shows "\<exists>t. for_each xs f s = Some t \<and> I t"
  using for_each_rule [of "\<lambda>_. I" s xs f] assms by fastforce

text \<open>Loops over the slots of the cluster count upwards from 0.\<close>

lemma for_each_upt_rule:
  assumes "I 0 s" and "\<And>j t. j < n \<Longrightarrow> I j t \<Longrightarrow> \<exists>t'. f j t = Some t' \<and> I (Suc j) t'"
  shows "\<exists>t. for_each [0..<n] f s = Some t \<and> I n t"
proof -
  have "\<exists>t. for_each [0..<n] f s = Some t \<and> I (length [0..<n]) t"
  proof (rule for_each_rule [of "\<lambda>ys. I (length ys)"])
    show "I (length []) s" using assms(1) by simp
  next
    fix ys y t
    assume "\<exists>zs. [0..<n] = ys @ y # zs" and I: "I (length ys) t"
    then obtain zs where zs: "[0..<n] = ys @ y # zs" by blast
    then have "length ys < length [0..<n]" by simp
    moreover have "[0..<n] ! length ys = y" by (simp add: zs)
    ultimately have "y = length ys" "y < n" by auto
    with assms(2) I show "\<exists>t'. f y t = Some t' \<and> I (length (ys @ [y])) t'" by simp
  qed
  then show ?thesis by simp
qed

section \<open>Dictionaries\<close>

text \<open>
  What the cluster code relies on of the dictionaries (dict.c): the value found
  after an insertion and after a deletion, an insertion refused for a key already
  present, and a traversal that visits every entry once. The clients' lemmas are
  proved in the locale; the association list below interprets it.
\<close>

locale dictionary =
  fixes find :: "'d \<Rightarrow> 'k \<Rightarrow> 'v option"
    and add :: "'d \<Rightarrow> 'k \<Rightarrow> 'v \<Rightarrow> 'd option"
    and delete :: "'d \<Rightarrow> 'k \<Rightarrow> 'd option"
    and entries :: "'d \<Rightarrow> ('k \<times> 'v) list"
    and invar :: "'d \<Rightarrow> bool"
  assumes add_present: "invar d \<Longrightarrow> find d k = Some w \<Longrightarrow> add d k v = None"
    and add_absent: "invar d \<Longrightarrow> find d k = None \<Longrightarrow>
          \<exists>d'. add d k v = Some d' \<and> invar d' \<and> find d' = (find d)(k \<mapsto> v)"
    and delete_absent: "invar d \<Longrightarrow> find d k = None \<Longrightarrow> delete d k = None"
    and delete_present: "invar d \<Longrightarrow> find d k = Some w \<Longrightarrow>
          \<exists>d'. delete d k = Some d' \<and> invar d' \<and> find d' = (find d)(k := None)"
    and find_entries: "invar d \<Longrightarrow> find d k = Some v \<longleftrightarrow> (k, v) \<in> set (entries d)"
    and entries_once: "invar d \<Longrightarrow> distinct (map fst (entries d))"
begin

lemma add_then_find: "invar d \<Longrightarrow> add d k v = Some d' \<Longrightarrow> find d' k = Some v \<and> invar d'"
  by (metis add_absent add_present fun_upd_same not_None_eq option.inject option.distinct(1))

lemma add_other: "invar d \<Longrightarrow> add d k v = Some d' \<Longrightarrow> k' \<noteq> k \<Longrightarrow> find d' k' = find d k'"
  by (metis add_absent add_present fun_upd_other not_None_eq option.inject option.distinct(1))

lemma delete_then_find: "invar d \<Longrightarrow> delete d k = Some d' \<Longrightarrow> find d' k = None \<and> invar d'"
  by (metis delete_absent delete_present fun_upd_same not_None_eq option.inject option.distinct(1))

lemma add_delete: "invar d \<Longrightarrow> add d k v = Some d' \<Longrightarrow> \<exists>d''. delete d' k = Some d'' \<and> find d'' = find d"
proof -
  assume "invar d" and add: "add d k v = Some d'"
  then have none: "find d k = None" using add_present by fastforce
  from add_absent [OF \<open>invar d\<close> none, of v] add
  have d': "invar d'" "find d' = (find d)(k \<mapsto> v)" by auto
  then have "find d' k = Some v" by simp
  from delete_present [OF d'(1) this]
  obtain d'' where "delete d' k = Some d''" "find d'' = (find d')(k := None)" by blast
  with d' none show ?thesis by (auto simp: fun_eq_iff)
qed

end

definition dictFind :: "('k \<times> 'v) list \<Rightarrow> 'k \<Rightarrow> 'v option" where
  "dictFind d = map_of d"

definition dictAdd :: "('k \<times> 'v) list \<Rightarrow> 'k \<Rightarrow> 'v \<Rightarrow> ('k \<times> 'v) list option" where
  "dictAdd d k v = (if k \<in> fst ` set d then None else Some (d @ [(k, v)]))"

definition dictDelete :: "('k \<times> 'v) list \<Rightarrow> 'k \<Rightarrow> ('k \<times> 'v) list option" where
  "dictDelete d k = (if k \<in> fst ` set d then Some (filter (\<lambda>e. fst e \<noteq> k) d) else None)"

definition dictOk :: "('k \<times> 'v) list \<Rightarrow> bool" where
  "dictOk d = distinct (map fst d)"

lemma map_of_filter_neq: "map_of (filter (\<lambda>e. fst e \<noteq> k) d) = (map_of d)(k := None)"
  by (induction d) (auto simp: fun_eq_iff)

lemma map_of_snoc:
  assumes "k \<notin> fst ` set d" shows "map_of (d @ [(k, v)]) = (map_of d)(k \<mapsto> v)"
proof
  fix x
  from assms have "map_of d k = None" by (simp add: map_of_eq_None_iff)
  then show "map_of (d @ [(k, v)]) x = ((map_of d)(k \<mapsto> v)) x"
    by (cases "map_of d x") (auto simp: map_add_def)
qed

lemma distinct_map_filter_fst: "distinct (map fst d) \<Longrightarrow> distinct (map fst (filter P d))"
  by (simp add: distinct_map_filter)

interpretation alist: dictionary dictFind dictAdd dictDelete "\<lambda>d. d" dictOk
proof unfold_locales
  fix d :: "('k \<times> 'v) list" and k v w
  assume d: "dictOk d"
  show "dictFind d k = Some w \<Longrightarrow> dictAdd d k v = None"
    by (force simp: dictFind_def dictAdd_def dest: map_of_SomeD)
  show "dictFind d k = None \<Longrightarrow>
          \<exists>d'. dictAdd d k v = Some d' \<and> dictOk d' \<and> dictFind d' = (dictFind d)(k \<mapsto> v)"
    using d by (simp add: dictFind_def dictAdd_def dictOk_def map_of_eq_None_iff map_of_snoc del: map_of_append)
  show "dictFind d k = None \<Longrightarrow> dictDelete d k = None"
    by (simp add: dictFind_def dictDelete_def map_of_eq_None_iff)
  show "dictFind d k = Some w \<Longrightarrow>
          \<exists>d'. dictDelete d k = Some d' \<and> dictOk d' \<and> dictFind d' = (dictFind d)(k := None)"
    using d by (force simp: dictFind_def dictDelete_def dictOk_def fun_eq_iff map_of_filter_neq
        distinct_map_filter_fst dest: map_of_SomeD)
  show "dictFind d k = Some v \<longleftrightarrow> (k, v) \<in> set d"
    using d by (simp add: dictFind_def dictOk_def)
  show "distinct (map fst d)" using d by (simp add: dictOk_def)
qed

section \<open>Strings\<close>

text \<open>A string literal of the C code as bytes, and the decimal digits \<open>%d\<close> prints.\<close>

definition str :: "string \<Rightarrow> bytes" where
  "str cs = map of_char cs"

fun dec_bytes :: "nat \<Rightarrow> bytes" where
  "dec_bytes n = (if n < 10 then [of_nat (48 + n)] else dec_bytes (n div 10) @ [of_nat (48 + n mod 10)])"

declare dec_bytes.simps [simp del]

definition dec_int :: "int \<Rightarrow> bytes" where
  "dec_int i = (if i < 0 then 45 # dec_bytes (nat (- i)) else dec_bytes (nat i))"

definition tolower :: "byte \<Rightarrow> byte" where
  "tolower b = (if 65 \<le> b \<and> b \<le> 90 then b + 32 else b)"

text \<open>\<open>strcasecmp\<close> of two C strings, compared with 0.\<close>

definition strcaseeq :: "bytes \<Rightarrow> bytes \<Rightarrow> bool" where
  "strcaseeq a b \<longleftrightarrow> map tolower a = map tolower b"

text \<open>A string of the server may hold zero bytes; as a C string it ends at the first one.\<close>

definition cstr :: "bytes \<Rightarrow> bytes" where
  "cstr s = takeWhile (\<lambda>b. b \<noteq> 0) s"

text \<open>\<open>strcasecmp\<close> of an argument with a keyword.\<close>

definition arg_is :: "bytes \<Rightarrow> string \<Rightarrow> bool" where
  "arg_is a kw \<longleftrightarrow> strcaseeq (cstr a) (str kw)"

section \<open>Flag words\<close>

text \<open>A test of one bit with a mask, read as \<open>bit\<close>.\<close>

lemma and_push_bit_nonzero:
  fixes w :: "'a::len word"
  assumes "k < LENGTH('a)"
  shows "(w AND push_bit k 1 \<noteq> 0) = bit w k"
proof
  assume "w AND push_bit k 1 \<noteq> 0"
  then obtain i where "bit (w AND push_bit k 1) i" by (auto simp: bit_eq_iff)
  then show "bit w k" by (auto simp: bit_simps)
next
  assume "bit w k"
  then have "bit (w AND push_bit k 1) k" using assms by (auto simp: bit_simps)
  then show "w AND push_bit k 1 \<noteq> 0" by auto
qed

lemma flag_bits32 [flag_simps]:
  fixes w :: u32
  shows "(w AND 1 = 0) = (\<not> bit w 0)" "(w AND 2 = 0) = (\<not> bit w 1)"
    "(w AND 4 = 0) = (\<not> bit w 2)" "(w AND 8 = 0) = (\<not> bit w 3)"
    "(w AND 16 = 0) = (\<not> bit w 4)" "(w AND 32 = 0) = (\<not> bit w 5)"
    "(w AND 64 = 0) = (\<not> bit w 6)" "(w AND 128 = 0) = (\<not> bit w 7)"
    "(w AND 256 = 0) = (\<not> bit w 8)" "(w AND 512 = 0) = (\<not> bit w 9)"
  using and_push_bit_nonzero [of 0 w] and_push_bit_nonzero [of 1 w] and_push_bit_nonzero [of 2 w]
    and_push_bit_nonzero [of 3 w] and_push_bit_nonzero [of 4 w] and_push_bit_nonzero [of 5 w]
    and_push_bit_nonzero [of 6 w] and_push_bit_nonzero [of 7 w] and_push_bit_nonzero [of 8 w]
    and_push_bit_nonzero [of 9 w]
  by (simp_all add: push_bit_eq_mult) auto

lemmas flag_bit_ops [flag_simps] = bit_or_iff bit_and_iff bit_not_iff

end
