(* ===== verification/Crc16.thy ===== *)
theory Crc16
  imports Prelude
begin

text \<open>
  The CRC16 of keys (\<open>crc16.c\<close>): the table, the byte-at-a-time loop, and its
  equivalence with the bit-at-a-time division by the polynomial x^16 + x^12 + x^5 + 1
  (XMODEM), of which the table is a precomputation.
\<close>

definition crc16tab :: "u16 list" where
  "crc16tab = [
    0x0000, 0x1021, 0x2042, 0x3063, 0x4084, 0x50a5, 0x60c6, 0x70e7,
    0x8108, 0x9129, 0xa14a, 0xb16b, 0xc18c, 0xd1ad, 0xe1ce, 0xf1ef,
    0x1231, 0x0210, 0x3273, 0x2252, 0x52b5, 0x4294, 0x72f7, 0x62d6,
    0x9339, 0x8318, 0xb37b, 0xa35a, 0xd3bd, 0xc39c, 0xf3ff, 0xe3de,
    0x2462, 0x3443, 0x0420, 0x1401, 0x64e6, 0x74c7, 0x44a4, 0x5485,
    0xa56a, 0xb54b, 0x8528, 0x9509, 0xe5ee, 0xf5cf, 0xc5ac, 0xd58d,
    0x3653, 0x2672, 0x1611, 0x0630, 0x76d7, 0x66f6, 0x5695, 0x46b4,
    0xb75b, 0xa77a, 0x9719, 0x8738, 0xf7df, 0xe7fe, 0xd79d, 0xc7bc,
    0x48c4, 0x58e5, 0x6886, 0x78a7, 0x0840, 0x1861, 0x2802, 0x3823,
    0xc9cc, 0xd9ed, 0xe98e, 0xf9af, 0x8948, 0x9969, 0xa90a, 0xb92b,
    0x5af5, 0x4ad4, 0x7ab7, 0x6a96, 0x1a71, 0x0a50, 0x3a33, 0x2a12,
    0xdbfd, 0xcbdc, 0xfbbf, 0xeb9e, 0x9b79, 0x8b58, 0xbb3b, 0xab1a,
    0x6ca6, 0x7c87, 0x4ce4, 0x5cc5, 0x2c22, 0x3c03, 0x0c60, 0x1c41,
    0xedae, 0xfd8f, 0xcdec, 0xddcd, 0xad2a, 0xbd0b, 0x8d68, 0x9d49,
    0x7e97, 0x6eb6, 0x5ed5, 0x4ef4, 0x3e13, 0x2e32, 0x1e51, 0x0e70,
    0xff9f, 0xefbe, 0xdfdd, 0xcffc, 0xbf1b, 0xaf3a, 0x9f59, 0x8f78,
    0x9188, 0x81a9, 0xb1ca, 0xa1eb, 0xd10c, 0xc12d, 0xf14e, 0xe16f,
    0x1080, 0x00a1, 0x30c2, 0x20e3, 0x5004, 0x4025, 0x7046, 0x6067,
    0x83b9, 0x9398, 0xa3fb, 0xb3da, 0xc33d, 0xd31c, 0xe37f, 0xf35e,
    0x02b1, 0x1290, 0x22f3, 0x32d2, 0x4235, 0x5214, 0x6277, 0x7256,
    0xb5ea, 0xa5cb, 0x95a8, 0x8589, 0xf56e, 0xe54f, 0xd52c, 0xc50d,
    0x34e2, 0x24c3, 0x14a0, 0x0481, 0x7466, 0x6447, 0x5424, 0x4405,
    0xa7db, 0xb7fa, 0x8799, 0x97b8, 0xe75f, 0xf77e, 0xc71d, 0xd73c,
    0x26d3, 0x36f2, 0x0691, 0x16b0, 0x6657, 0x7676, 0x4615, 0x5634,
    0xd94c, 0xc96d, 0xf90e, 0xe92f, 0x99c8, 0x89e9, 0xb98a, 0xa9ab,
    0x5844, 0x4865, 0x7806, 0x6827, 0x18c0, 0x08e1, 0x3882, 0x28a3,
    0xcb7d, 0xdb5c, 0xeb3f, 0xfb1e, 0x8bf9, 0x9bd8, 0xabbb, 0xbb9a,
    0x4a75, 0x5a54, 0x6a37, 0x7a16, 0x0af1, 0x1ad0, 0x2ab3, 0x3a92,
    0xfd2e, 0xed0f, 0xdd6c, 0xcd4d, 0xbdaa, 0xad8b, 0x9de8, 0x8dc9,
    0x7c26, 0x6c07, 0x5c64, 0x4c45, 0x3ca2, 0x2c83, 0x1ce0, 0x0cc1,
    0xef1f, 0xff3e, 0xcf5d, 0xdf7c, 0xaf9b, 0xbfba, 0x8fd9, 0x9ff8,
    0x6e17, 0x7e36, 0x4e55, 0x5e74, 0x2e93, 0x3eb2, 0x0ed1, 0x1ef0]"

definition crc16_step :: "u16 \<Rightarrow> byte \<Rightarrow> u16" where
  "crc16_step crc b =
     push_bit 8 crc XOR (crc16tab ! unat ((drop_bit 8 crc XOR ucast b) AND 0x00FF))"

definition crc16 :: "bytes \<Rightarrow> u16" where
  "crc16 buf = foldl crc16_step 0 buf"

section \<open>Bit at a time\<close>

text \<open>One step of the long division, and the eight steps that a byte takes.\<close>

definition crc_bit :: "u16 \<Rightarrow> u16" where
  "crc_bit c = (if bit c 15 then push_bit 1 c XOR 0x1021 else push_bit 1 c)"

definition crc_byte :: "u16 \<Rightarrow> byte \<Rightarrow> u16" where
  "crc_byte c b = (crc_bit ^^ 8) (c XOR push_bit 8 (ucast b))"

definition crc16_ref :: "bytes \<Rightarrow> u16" where
  "crc16_ref buf = foldl crc_byte 0 buf"

lemma crc_bit_xor: "crc_bit (a XOR b) = crc_bit a XOR crc_bit b"
  by (auto simp: crc_bit_def bit_xor_iff push_bit_xor xor.assoc xor.left_commute xor.commute)

lemma crc_bits_xor: "(crc_bit ^^ n) (a XOR b) = (crc_bit ^^ n) a XOR (crc_bit ^^ n) b"
  by (induction n) (simp_all add: crc_bit_xor)

text \<open>A value whose top bits are clear is only shifted.\<close>

lemma crc_bits_low:
  assumes "n \<le> 8" "\<And>i. 16 - n \<le> i \<Longrightarrow> i < 16 \<Longrightarrow> \<not> bit c i"
  shows "(crc_bit ^^ n) c = push_bit n c"
  using assms
proof (induction n)
  case (Suc n)
  then have "(crc_bit ^^ n) c = push_bit n c" by simp
  moreover have "\<not> bit (push_bit n c) 15"
    using Suc.prems by (simp add: bit_push_bit_iff)
  ultimately have "crc_bit ((crc_bit ^^ n) c) = push_bit 1 (push_bit n c)" by (simp only: crc_bit_def if_False)
  then show ?case by (simp only: funpow.simps comp_def push_bit_push_bit plus_1_eq_Suc)
qed simp

primrec words_from :: "nat \<Rightarrow> u16 \<Rightarrow> u16 list" where
  "words_from 0 w = []"
| "words_from (Suc n) w = w # words_from n (w + 1)"

lemma length_words_from [simp]: "length (words_from n w) = n"
  by (induction n arbitrary: w) simp_all

lemma nth_words_from: "k < n \<Longrightarrow> words_from n w ! k = w + of_nat k"
  by (induction n arbitrary: w k) (auto simp: nth_Cons split: nat.splits)

definition crc_entry :: "u16 \<Rightarrow> u16" where
  "crc_entry w = crc_bit (crc_bit (crc_bit (crc_bit (crc_bit (crc_bit (crc_bit (crc_bit (push_bit 8 w))))))))"

lemma crc_entry_eq: "crc_entry w = (crc_bit ^^ 8) (push_bit 8 w)"
  by (simp add: crc_entry_def numeral_eq_Suc)

lemma crc_table_0: "map crc_entry (words_from 64 0) = take 64 crc16tab"
  by code_simp
lemma crc_table_1: "map crc_entry (words_from 64 64) = take 64 (drop 64 crc16tab)"
  by code_simp
lemma crc_table_2: "map crc_entry (words_from 64 128) = take 64 (drop 128 crc16tab)"
  by code_simp
lemma crc_table_3: "map crc_entry (words_from 64 192) = take 64 (drop 192 crc16tab)"
  by code_simp

lemma length_crc16tab: "length crc16tab = 256"
  by (simp add: crc16tab_def)

lemma crc_table_chunk:
  assumes "map crc_entry (words_from 64 (of_nat b)) = take 64 (drop b crc16tab)" "b \<le> k" "k < b + 64" "b + 64 \<le> 256"
  shows "crc16tab ! k = crc_entry (of_nat k)"
proof -
  have "crc16tab ! k = take 64 (drop b crc16tab) ! (k - b)"
    using assms(2-4) by (simp add: length_crc16tab)
  also have "\<dots> = crc_entry (words_from 64 (of_nat b) ! (k - b))"
    using assms(2,3) by (simp flip: assms(1))
  also have "words_from 64 (of_nat b) ! (k - b) = of_nat k"
    using assms(2,3) by (simp add: nth_words_from flip: of_nat_add)
  finally show ?thesis .
qed

lemma crc_table:
  assumes "k < 256" shows "crc16tab ! k = (crc_bit ^^ 8) (push_bit 8 (of_nat k))"
proof -
  consider "k < 64" | "64 \<le> k" "k < 128" | "128 \<le> k" "k < 192" | "192 \<le> k" using assms by linarith
  then have "crc16tab ! k = crc_entry (of_nat k)"
  proof cases
    case 1
    then show ?thesis using crc_table_chunk [of 0 k] crc_table_0 by simp
  next
    case 2
    then show ?thesis using crc_table_chunk [of 64 k] crc_table_1 by simp
  next
    case 3
    then show ?thesis using crc_table_chunk [of 128 k] crc_table_2 by simp
  next
    case 4
    then show ?thesis using crc_table_chunk [of 192 k] crc_table_3 assms by simp
  qed
  then show ?thesis by (simp only: crc_entry_eq)
qed

lemma crc16_step_byte: "crc16_step c b = crc_byte c b"
proof -
  define i :: u16 where "i = (drop_bit 8 c XOR ucast b) AND 0x00FF"
  have m: "(0x00FF :: u16) = mask 8" by (simp add: mask_eq_exp_minus_1)
  have bit_i: "bit i j = (j < 8 \<and> (bit c (8 + j) \<noteq> bit b j))" for j
    by (auto simp: i_def m bit_simps)
  have "unat i < 256"
  proof -
    have "i \<le> 0x00FF" by (simp add: i_def word_and_le1)
    then show ?thesis by (simp add: word_le_nat_alt)
  qed
  then have tab: "crc16tab ! unat i = (crc_bit ^^ 8) (push_bit 8 i)"
    using crc_table [of "unat i"] by simp
  have split: "c XOR push_bit 8 (ucast b) = push_bit 8 i XOR take_bit 8 c"
    by (rule bit_eqI) (auto simp: bit_simps bit_i)
  have "(crc_bit ^^ 8) (take_bit 8 c) = push_bit 8 (take_bit 8 c)"
    by (rule crc_bits_low) (auto simp: bit_take_bit_iff)
  also have "\<dots> = push_bit 8 c"
    by (rule bit_eqI) (auto simp: bit_simps)
  finally show ?thesis
    unfolding crc16_step_def crc_byte_def split crc_bits_xor i_def [symmetric] tab
    by (simp only: xor.commute)
qed

lemma crc16_eq_ref: "crc16 buf = crc16_ref buf"
  by (simp add: crc16_def crc16_ref_def crc16_step_byte [abs_def])

text \<open>The check value in the header of \<open>crc16.c\<close>.\<close>

lemma crc16_check_value: "crc16 (str ''123456789'') = 0x31C3"
  by code_simp

end
