(* ===== verification/CommandKeys.thy ===== *)
theory CommandKeys
  imports Prelude
begin

text \<open>
  The keys of a command (\<open>db.c\<close>, from \<open>getKeysUsingCommandTable\<close> to
  \<open>xreadGetKeys\<close>): which arguments of a command line are keys, by the command table
  or by a function of the command. \<open>None\<close> is the \<open>serverPanic\<close> of the table
  lookup, a read outside \<open>argv\<close>, or a loop with \<open>keystep\<close> 0 that never ends. The
  lemmas state that every position that is returned lies inside \<open>argv\<close>.
\<close>

section \<open>Commands\<close>

definition CMD_READONLY :: u32 where [flag_defs]: "CMD_READONLY = 2"
definition CMD_MODULE :: u32 where [flag_defs]: "CMD_MODULE = 8"
definition CMD_ASKING :: u32 where "CMD_ASKING = 4096"
definition CMD_MODULE_GETKEYS :: u32 where "CMD_MODULE_GETKEYS = 16384"

datatype cmd_proc = ExecCommand | MigrateCommand | EvalCommand | EvalShaCommand | OtherCommand

datatype getkeys_proc =
    ZunionInterGetKeys | EvalGetKeys | SortGetKeys | MigrateGetKeys | GeoradiusGetKeys | XreadGetKeys

record redisCommand =
  cmd_proc :: cmd_proc
  arity :: int
  cmd_flags :: u32
  getkeys_proc :: "getkeys_proc option"
  firstkey :: int
  lastkey :: int
  keystep :: int

section \<open>atoi\<close>

text \<open>\<open>atoi\<close> is \<open>strtol\<close> in base 10, saturated to 64 bits and then cut to an \<open>int\<close>.\<close>

definition isspace :: "byte \<Rightarrow> bool" where
  "isspace b \<longleftrightarrow> b = 32 \<or> (9 \<le> b \<and> b \<le> 13)"

definition isdigit :: "byte \<Rightarrow> bool" where
  "isdigit b \<longleftrightarrow> 48 \<le> b \<and> b \<le> 57"

definition atoi :: "bytes \<Rightarrow> int" where
  "atoi s =
     (let s = dropWhile isspace (takeWhile (\<lambda>b. b \<noteq> 0) s);
          (neg, s) = (case s of
                        c # r \<Rightarrow> if c = 45 then (True, r) else if c = 43 then (False, r) else (False, s)
                      | [] \<Rightarrow> (False, s));
          v = foldl (\<lambda>a d. a * 10 + (uint d - 48)) 0 (takeWhile isdigit s);
          v = (if neg then - v else v);
          v = (if v > 2 ^ 63 - 1 then 2 ^ 63 - 1 else if v < - (2 ^ 63) then - (2 ^ 63) else v)
      in sint (word_of_int v :: u32))"

section \<open>The command table\<close>

text \<open>The loop over the positions; the first argument bounds the number of rounds.\<close>

fun table_keys :: "nat \<Rightarrow> redisCommand \<Rightarrow> int \<Rightarrow> int \<Rightarrow> int \<Rightarrow> int list \<Rightarrow> int list option" where
  "table_keys 0 cmd argc l j keys = None"
| "table_keys (Suc n) cmd argc l j keys =
     (if j > l then Some keys
      else if j \<ge> argc
      then if cmd_flags cmd AND CMD_MODULE \<noteq> 0 \<or> arity cmd < 0 then Some [] else None
      else table_keys n cmd argc l (j + keystep cmd) (keys @ [j]))"

definition getKeysUsingCommandTable :: "redisCommand \<Rightarrow> bytes list \<Rightarrow> int list option" where
  "getKeysUsingCommandTable cmd argv =
     (let argc = int (length argv)
      in if firstkey cmd = 0 then Some []
         else
           let l = (if lastkey cmd < 0 then argc + lastkey cmd else lastkey cmd)
           in table_keys (nat (l - firstkey cmd + 1) + 1) cmd argc l (firstkey cmd) [])"

section \<open>Functions of single commands\<close>

definition zunionInterGetKeys :: "bytes list \<Rightarrow> int list option" where
  "zunionInterGetKeys argv =
     (if length argv \<le> 2 then None
      else
        let num = atoi (argv ! 2)
        in if num < 1 \<or> num > int (length argv) - 3 then Some []
           else Some (map (\<lambda>i. 3 + int i) [0..<nat num] @ [1]))"

definition evalGetKeys :: "bytes list \<Rightarrow> int list option" where
  "evalGetKeys argv =
     (if length argv \<le> 2 then None
      else
        let num = atoi (argv ! 2)
        in if num \<le> 0 \<or> num > int (length argv) - 3 then Some []
           else Some (map (\<lambda>i. 3 + int i) [0..<nat num]))"

function sort_scan :: "bytes list \<Rightarrow> nat \<Rightarrow> nat option \<Rightarrow> nat option" where
  "sort_scan argv i store =
     (if i \<ge> length argv then store
      else if arg_is (argv ! i) ''limit'' then sort_scan argv (i + 3) store
      else if arg_is (argv ! i) ''store'' \<and> i + 1 < length argv
      then sort_scan argv (i + 1) (Some (i + 1))
      else if arg_is (argv ! i) ''get'' \<or> arg_is (argv ! i) ''by''
      then sort_scan argv (i + 2) store
      else sort_scan argv (i + 1) store)"
  by pat_completeness auto
termination by (relation "measure (\<lambda>(argv, i, _). length argv - i)") auto

definition sortGetKeys :: "bytes list \<Rightarrow> int list option" where
  "sortGetKeys argv =
     Some (1 # (case sort_scan argv 2 None of Some p \<Rightarrow> [int p] | None \<Rightarrow> []))"

definition migrateGetKeys :: "bytes list \<Rightarrow> int list option" where
  "migrateGetKeys argv =
     (let argc = length argv;
          (first, num) =
            (if argc > 6
             then (case find (\<lambda>i. arg_is (argv ! i) ''keys'' \<and> argv ! 3 = []) [6..<argc] of
                     Some i \<Rightarrow> (i + 1, argc - (i + 1))
                   | None \<Rightarrow> (3, 1))
             else (3, 1))
      in Some (map (\<lambda>i. int (first + i)) [0..<num]))"

function georadius_scan :: "bytes list \<Rightarrow> nat \<Rightarrow> nat option \<Rightarrow> nat option" where
  "georadius_scan argv i stored_key =
     (if i \<ge> length argv then stored_key
      else if (arg_is (argv ! i) ''store'' \<or> arg_is (argv ! i) ''storedist'')
              \<and> i + 1 < length argv
      then georadius_scan argv (i + 2) (Some (i + 1))
      else georadius_scan argv (i + 1) stored_key)"
  by pat_completeness auto
termination by (relation "measure (\<lambda>(argv, i, _). length argv - i)") auto

definition georadiusGetKeys :: "bytes list \<Rightarrow> int list option" where
  "georadiusGetKeys argv =
     Some (1 # (case georadius_scan argv 5 None of Some p \<Rightarrow> [int p] | None \<Rightarrow> []))"

function xread_scan :: "bytes list \<Rightarrow> nat \<Rightarrow> nat option" where
  "xread_scan argv i =
     (if i \<ge> length argv then None
      else if arg_is (argv ! i) ''block'' then xread_scan argv (i + 2)
      else if arg_is (argv ! i) ''count'' then xread_scan argv (i + 2)
      else if arg_is (argv ! i) ''group'' then xread_scan argv (i + 3)
      else if arg_is (argv ! i) ''noack'' then xread_scan argv (i + 1)
      else if arg_is (argv ! i) ''streams'' then Some i
      else None)"
  by pat_completeness auto
termination by (relation "measure (\<lambda>(argv, i). length argv - i)") auto

declare sort_scan.simps [simp del] georadius_scan.simps [simp del] xread_scan.simps [simp del]

definition xreadGetKeys :: "bytes list \<Rightarrow> int list option" where
  "xreadGetKeys argv =
     (let argc = length argv
      in case xread_scan argv 1 of
           None \<Rightarrow> Some []
         | Some streams_pos \<Rightarrow>
             let num = argc - streams_pos - 1
             in if num = 0 \<or> num mod 2 \<noteq> 0 then Some []
                else Some (map int [streams_pos + 1..<argc - num div 2]))"

definition call_getkeys_proc :: "getkeys_proc \<Rightarrow> bytes list \<Rightarrow> int list option" where
  "call_getkeys_proc p argv =
     (case p of
        ZunionInterGetKeys \<Rightarrow> zunionInterGetKeys argv
      | EvalGetKeys \<Rightarrow> evalGetKeys argv
      | SortGetKeys \<Rightarrow> sortGetKeys argv
      | MigrateGetKeys \<Rightarrow> migrateGetKeys argv
      | GeoradiusGetKeys \<Rightarrow> georadiusGetKeys argv
      | XreadGetKeys \<Rightarrow> xreadGetKeys argv)"

text \<open>\<open>module_keys\<close> stands for the key extraction a module registers.\<close>

definition getKeysFromCommand ::
  "(redisCommand \<Rightarrow> bytes list \<Rightarrow> int list option) \<Rightarrow> redisCommand \<Rightarrow> bytes list \<Rightarrow> int list option" where
  "getKeysFromCommand module_keys cmd argv =
     (if cmd_flags cmd AND CMD_MODULE_GETKEYS \<noteq> 0 then module_keys cmd argv
      else case getkeys_proc cmd of
        Some p \<Rightarrow> if cmd_flags cmd AND CMD_MODULE = 0 then call_getkeys_proc p argv
                  else getKeysUsingCommandTable cmd argv
      | None \<Rightarrow> getKeysUsingCommandTable cmd argv)"

section \<open>Every position lies inside argv\<close>

definition positions_ok :: "bytes list \<Rightarrow> int list \<Rightarrow> bool" where
  "positions_ok argv ks \<longleftrightarrow> (\<forall>k \<in> set ks. 0 < k \<and> k < int (length argv))"

lemma table_keys_ok:
  assumes "table_keys n cmd (int (length argv)) l j keys = Some ks" "0 < j" "0 < keystep cmd"
    and "positions_ok argv keys"
  shows "positions_ok argv ks"
  using assms
proof (induction n cmd "int (length argv)" l j keys rule: table_keys.induct)
  case (2 n cmd l j keys)
  then show ?case
    by (auto simp: positions_ok_def split: if_splits)
qed simp

lemma table_keys_fuel:
  assumes "0 < keystep cmd" "l - j + 1 < int n \<and> 0 < n" "l < argc"
  shows "\<exists>ks. table_keys n cmd argc l j keys = Some ks"
  using assms
proof (induction n cmd argc l j keys rule: table_keys.induct)
  case (2 n cmd argc l j keys)
  show ?case
  proof (cases "j > l")
    case False
    then have "\<not> j \<ge> argc" "l - (j + keystep cmd) + 1 < int n \<and> 0 < n" using 2(2-4) by auto
    with 2 False show ?thesis by simp
  qed simp
qed simp

lemma sort_scan_ok: "sort_scan argv i st = Some p \<Longrightarrow> (\<forall>q. st = Some q \<longrightarrow> 0 < q \<and> q < length argv) \<Longrightarrow> 0 < p \<and> p < length argv"
proof (induction argv i st rule: sort_scan.induct)
  case (1 argv i st)
  show ?case
    using 1(5,6) 1(1-4) by (subst (asm) sort_scan.simps) (auto split: if_splits)
qed

lemma georadius_scan_ok:
  "georadius_scan argv i st = Some p \<Longrightarrow> (\<forall>q. st = Some q \<longrightarrow> 0 < q \<and> q < length argv) \<Longrightarrow> 0 < p \<and> p < length argv"
proof (induction argv i st rule: georadius_scan.induct)
  case (1 argv i st)
  show ?case
    using 1(3,4) 1(1-2) by (subst (asm) georadius_scan.simps) (auto split: if_splits)
qed

lemma xread_scan_ok: "xread_scan argv i = Some p \<Longrightarrow> i \<le> p \<and> p < length argv"
proof (induction argv i rule: xread_scan.induct)
  case (1 argv i)
  show ?case
    using 1(5) 1(1-4) by (subst (asm) xread_scan.simps) (auto split: if_splits)
qed

lemma call_getkeys_proc_ok:
  assumes "call_getkeys_proc p argv = Some ks" "2 \<le> length argv" "p = MigrateGetKeys \<Longrightarrow> 4 \<le> length argv"
  shows "positions_ok argv ks"
proof (cases p)
  case SortGetKeys
  then show ?thesis using assms sort_scan_ok [of argv 2 None]
    by (auto simp: call_getkeys_proc_def sortGetKeys_def positions_ok_def split: option.splits)
next
  case GeoradiusGetKeys
  then show ?thesis using assms georadius_scan_ok [of argv 5 None]
    by (auto simp: call_getkeys_proc_def georadiusGetKeys_def positions_ok_def split: option.splits)
next
  case XreadGetKeys
  have "set (map int [i + 1..<n - m]) \<subseteq> {k. 0 < k \<and> k < int n}" for i n m
    using diff_le_self [of n m] by auto
  then show ?thesis using assms XreadGetKeys
    by (fastforce simp: call_getkeys_proc_def xreadGetKeys_def positions_ok_def Let_def
        split: option.splits if_splits)
next
  case MigrateGetKeys
  then show ?thesis using assms
    by (auto simp: call_getkeys_proc_def migrateGetKeys_def positions_ok_def Let_def
        split: option.splits if_splits)
next
  case ZunionInterGetKeys
  then show ?thesis using assms
    by (auto simp: call_getkeys_proc_def zunionInterGetKeys_def positions_ok_def Let_def split: if_splits)
next
  case EvalGetKeys
  then show ?thesis using assms
    by (auto simp: call_getkeys_proc_def evalGetKeys_def positions_ok_def Let_def split: if_splits)
qed

text \<open>
  The dispatcher has checked the arity of the command before its keys are read, which for
  MIGRATE means at least six arguments.
\<close>

lemma getKeysFromCommand_ok:
  assumes keys: "getKeysFromCommand mk cmd argv = Some ks" and "cmd_flags cmd AND CMD_MODULE_GETKEYS = 0"
    and "0 < keystep cmd" "0 \<le> firstkey cmd" "2 \<le> length argv"
    and "getkeys_proc cmd = Some MigrateGetKeys \<Longrightarrow> 6 \<le> length argv"
  shows "positions_ok argv ks"
proof -
  have table: "positions_ok argv ks" if t: "getKeysUsingCommandTable cmd argv = Some ks"
  proof (cases "firstkey cmd = 0")
    case True
    then show ?thesis using t by (simp add: getKeysUsingCommandTable_def positions_ok_def)
  next
    case False
    then have "0 < firstkey cmd" using assms(4) by simp
    with t False show ?thesis unfolding getKeysUsingCommandTable_def Let_def
      by (simp only: if_False) (erule table_keys_ok; simp add: assms(3) positions_ok_def)
  qed
  show ?thesis
  proof (cases "getkeys_proc cmd")
    case None
    then show ?thesis using keys table assms(2) by (simp add: getKeysFromCommand_def)
  next
    case (Some p)
    then have "p = MigrateGetKeys \<Longrightarrow> 4 \<le> length argv" using assms(6) by simp
    then show ?thesis
      using keys table call_getkeys_proc_ok [of p argv ks] assms(2,5) Some
      by (auto simp: getKeysFromCommand_def split: if_splits)
  qed
qed

end
