(* ===== verification/Numbers.thy ===== *)
theory Numbers
  imports Prelude
begin

text \<open>
  Numbers as text (\<open>util.c\<close>): \<open>digits10\<close>, \<open>ll2string\<close> and \<open>string2ll\<close>, with the
  decimal notation \<open>dec_bytes\<close> as the reference. The two conversions are inverse to each
  other on the whole range of \<open>long long\<close>.
\<close>

section \<open>The functions\<close>

definition ULLONG_MAX :: u64 where "ULLONG_MAX = 0xFFFFFFFFFFFFFFFF"
definition LLONG_MAX :: u64 where "LLONG_MAX = 0x7FFFFFFFFFFFFFFF"
definition LLONG_MIN :: u64 where "LLONG_MIN = 0x8000000000000000"

function digits10 :: "u64 \<Rightarrow> u32" where
  "digits10 v =
     (if v < 10 then 1
      else if v < 100 then 2
      else if v < 1000 then 3
      else if v < 1000000000000
      then if v < 100000000
           then if v < 1000000
                then if v < 10000 then 4 else 5 + (if v \<ge> 100000 then 1 else 0)
                else 7 + (if v \<ge> 10000000 then 1 else 0)
           else if v < 10000000000 then 9 + (if v \<ge> 1000000000 then 1 else 0)
           else 11 + (if v \<ge> 100000000000 then 1 else 0)
      else 12 + digits10 (v div 1000000000000))"
  by pat_completeness auto
termination
  by (relation "measure unat") (auto simp: word_less_nat_alt word_le_nat_alt unat_div)

declare digits10.simps [simp del]

definition sdigits10 :: "u64 \<Rightarrow> u32" where
  "sdigits10 v =
     (if v <s 0 then digits10 (if v \<noteq> LLONG_MIN then - v else LLONG_MAX + 1) + 1 else digits10 v)"

text \<open>An assignment \<open>dst[i] = b\<close>; outside the buffer it is undefined.\<close>

definition put :: "bytes \<Rightarrow> nat \<Rightarrow> byte \<Rightarrow> bytes option" where
  "put dst i b = (if i < length dst then Some (dst[i := b]) else None)"

definition digits :: bytes where
  "digits = str (''0001020304050607080910111213141516171819'' @
     ''2021222324252627282930313233343536373839'' @
     ''4041424344454647484950515253545556575859'' @
     ''6061626364656667686970717273747576777879'' @
     ''8081828384858687888990919293949596979899'')"

text \<open>The loop over pairs of digits, and the last one or two.\<close>

function ll2string_digits :: "u64 \<Rightarrow> u32 \<Rightarrow> bytes \<Rightarrow> bytes option" where
  "ll2string_digits v next dst =
     (if v \<ge> 100 then
        let i = unat (v mod 100) * 2 in
        do {
          dst \<leftarrow> put dst (unat next) (digits ! (i + 1));
          dst \<leftarrow> put dst (unat (next - 1)) (digits ! i);
          ll2string_digits (v div 100) (next - 2) dst
        }
      else if v < 10 then put dst (unat next) (48 + ucast v)
      else
        let i = unat (ucast v * 2 :: u32) in
        do {
          dst \<leftarrow> put dst (unat next) (digits ! (i + 1));
          put dst (unat (next - 1)) (digits ! i)
        })"
  by pat_completeness auto
termination
  by (relation "measure (\<lambda>(v, n, d). unat v)") (auto simp: word_le_nat_alt unat_div)

declare ll2string_digits.simps [simp del]

definition ll2string :: "bytes \<Rightarrow> nat \<Rightarrow> u64 \<Rightarrow> (nat \<times> bytes) option" where
  "ll2string dst dstlen svalue =
     (let negative = svalue <s 0;
          v = (if svalue <s 0 then if svalue \<noteq> LLONG_MIN then - svalue else LLONG_MAX + 1 else svalue);
          len = digits10 v + (if negative then 1 else 0)
      in if unat len \<ge> dstlen then Some (0, dst)
         else
           do {
             dst \<leftarrow> put dst (unat len) 0;
             dst \<leftarrow> ll2string_digits v (len - 1) dst;
             dst \<leftarrow> (if negative then put dst 0 45 else Some dst);
             Some (unat len, dst)
           })"

fun string2ll_digits :: "u64 \<Rightarrow> bytes \<Rightarrow> u64 option" where
  "string2ll_digits v [] = Some v"
| "string2ll_digits v (c # p) =
     (if 48 \<le> c \<and> c \<le> 57 then
        if v > ULLONG_MAX div 10 then None
        else if v * 10 > ULLONG_MAX - ucast (c - 48) then None
        else string2ll_digits (v * 10 + ucast (c - 48)) p
      else None)"

definition string2ll :: "bytes \<Rightarrow> int option" where
  "string2ll s =
     (if s = [] then None
      else if s = [48] then Some 0
      else
        let (negative, p) = (if hd s = 45 then (True, tl s) else (False, s))
        in case p of
             [] \<Rightarrow> None
           | c # p \<Rightarrow>
               if 49 \<le> c \<and> c \<le> 57
               then (case string2ll_digits (ucast (c - 48)) p of
                       None \<Rightarrow> None
                     | Some v \<Rightarrow>
                         if negative then if v > LLONG_MAX + 1 then None else Some (sint (- v))
                         else if v > LLONG_MAX then None else Some (sint v))
               else None)"

text \<open>The numbers a 64-bit signed word holds.\<close>

definition llong :: "int \<Rightarrow> bool" where
  "llong i \<longleftrightarrow> - (2 ^ 63) \<le> i \<and> i < 2 ^ 63"


section \<open>Decimal notation\<close>

lemma dec_bytes_small: "n < 10 \<Longrightarrow> dec_bytes n = [of_nat (48 + n)]"
  by (simp add: dec_bytes.simps)

lemma dec_bytes_step: "10 \<le> n \<Longrightarrow> dec_bytes n = dec_bytes (n div 10) @ [of_nat (48 + n mod 10)]"
  by (subst dec_bytes.simps) simp

lemma dec_bytes_not_Nil [simp]: "dec_bytes n \<noteq> []"
  by (subst dec_bytes.simps) simp

definition digit :: "byte \<Rightarrow> bool" where
  "digit b \<longleftrightarrow> 48 \<le> b \<and> b \<le> 57"

definition digits_val :: "nat \<Rightarrow> bytes \<Rightarrow> nat" where
  "digits_val = foldl (\<lambda>a b. a * 10 + unat (b - 48))"

lemma digits_val_simps [simp]:
  "digits_val a [] = a" "digits_val a (b # p) = digits_val (a * 10 + unat (b - 48)) p"
  "digits_val a (p @ [b]) = digits_val a p * 10 + unat (b - 48)"
  by (simp_all add: digits_val_def)

lemma digits_val_ge: "a \<le> digits_val a p"
proof (induction p arbitrary: a)
  case (Cons b p)
  have "a * 10 + unat (b - 48) \<le> digits_val (a * 10 + unat (b - 48)) p" by (rule Cons.IH)
  then show ?case unfolding digits_val_simps by linarith
qed simp

lemma of_nat_digit: "d < 10 \<Longrightarrow> unat (of_nat (48 + d) :: byte) = 48 + d"
  by (simp add: unat_of_nat del: of_nat_add)

lemma digit_of_nat: "d < 10 \<Longrightarrow> digit (of_nat (48 + d))"
  using of_nat_digit [of d] by (simp add: digit_def word_le_nat_alt)

lemma digit_val: "d < 10 \<Longrightarrow> unat (of_nat (48 + d) - 48 :: byte) = d"
  by (simp add: unat_of_nat)

lemma digitD: "digit b \<Longrightarrow> unat (b - 48) < 10 \<and> b = of_nat (48 + unat (b - 48))"
  unfolding digit_def by (auto simp: word_le_nat_alt unat_sub_if_size word_size of_nat_diff)

lemma dec_bytes_digits: "list_all digit (dec_bytes n)"
proof (induction n rule: dec_bytes.induct)
  case (1 n)
  then show ?case
    by (cases "n < 10") (auto simp: dec_bytes_small dec_bytes_step digit_of_nat simp del: of_nat_add)
qed

lemma dec_bytes_val: "digits_val 0 (dec_bytes n) = n"
proof (induction n rule: dec_bytes.induct)
  case (1 n)
  then show ?case
    by (cases "n < 10") (auto simp: dec_bytes_small dec_bytes_step digit_val simp del: of_nat_add)
qed

lemma dec_bytes_hd: "0 < n \<Longrightarrow> \<exists>c p. dec_bytes n = c # p \<and> 49 \<le> c \<and> c \<le> 57"
proof (induction n rule: dec_bytes.induct)
  case (1 n)
  show ?case
  proof (cases "n < 10")
    case True
    have "49 \<le> (of_nat (48 + n) :: byte) \<and> (of_nat (48 + n) :: byte) \<le> 57"
      using of_nat_digit [OF True] 1(2) True by (simp add: word_le_nat_alt)
    then show ?thesis using True by (simp add: dec_bytes_small)
  next
    case False
    then obtain c p where "dec_bytes (n div 10) = c # p" "49 \<le> c" "c \<le> 57" using 1 by fastforce
    then show ?thesis using False by (simp add: dec_bytes_step)
  qed
qed

text \<open>A digit string without a leading zero is the decimal notation of its value.\<close>

lemma dec_bytes_of_val:
  assumes "list_all digit (c # p)" "c \<noteq> 48"
  shows "dec_bytes (digits_val 0 (c # p)) = c # p"
  using assms
proof (induction p rule: rev_induct)
  case Nil
  then show ?case using digitD [of c] by (auto simp: dec_bytes_small)
next
  case (snoc b p)
  have b: "unat (b - 48) < 10" "b = of_nat (48 + unat (b - 48))"
    using snoc.prems(1) digitD [of b] by auto
  have c: "digit c" using snoc.prems(1) by simp
  have "unat (c - 48) \<noteq> 0"
    using snoc.prems(2) by (metis eq_iff_diff_eq_0 unat_eq_zero)
  then have ge: "digits_val 0 (c # p) \<ge> 1"
    using digits_val_ge [of "unat (c - 48)" p] by simp
  let ?v = "digits_val 0 (c # p)"
  have "digits_val 0 (c # p @ [b]) = ?v * 10 + unat (b - 48)"
    using digits_val_simps(3) [of 0 "c # p" b] by simp
  moreover have "dec_bytes (?v * 10 + unat (b - 48)) = dec_bytes ?v @ [of_nat (48 + unat (b - 48))]"
    using ge b(1) by (subst dec_bytes_step) (simp_all del: of_nat_add digits_val_simps)
  ultimately show ?case using snoc b(2) by (simp del: digits_val_simps of_nat_add)
qed

section \<open>The number of digits\<close>

lemma length_dec_bytes_step: "10 \<le> n \<Longrightarrow> length (dec_bytes n) = Suc (length (dec_bytes (n div 10)))"
  by (simp add: dec_bytes_step)

lemma length_dec_bytes: "10 ^ k \<le> n \<Longrightarrow> n < 10 ^ Suc k \<Longrightarrow> length (dec_bytes n) = Suc k"
proof (induction k arbitrary: n)
  case 0
  then show ?case by (simp add: dec_bytes_small)
next
  case (Suc k)
  have ge: "10 \<le> n" using Suc.prems(1) by (rule order_trans [rotated]) simp
  have "10 ^ k \<le> n div 10" "n div 10 < 10 ^ Suc k"
    using Suc.prems by (auto simp: less_eq_div_iff_mult_less_eq div_less_iff_less_mult mult.commute)
  then show ?case using Suc.IH ge by (simp add: length_dec_bytes_step)
qed

lemma length_dec_bytes_pow:
  "10 ^ k \<le> n \<Longrightarrow> length (dec_bytes n) = k + length (dec_bytes (n div 10 ^ k))"
proof (induction k arbitrary: n)
  case 0
  then show ?case by simp
next
  case (Suc k)
  have ge: "10 \<le> n" using Suc.prems by (rule order_trans [rotated]) simp
  have "10 ^ k \<le> n div 10" using Suc.prems by (auto simp: less_eq_div_iff_mult_less_eq mult.commute)
  then show ?case using Suc.IH [of "n div 10"] ge
    by (simp add: length_dec_bytes_step div_mult2_eq)
qed

lemma length_dec_bytes_le: "n < 10 ^ Suc k \<Longrightarrow> length (dec_bytes n) \<le> Suc k"
proof (induction k arbitrary: n)
  case 0
  then show ?case by (simp add: dec_bytes_small)
next
  case (Suc k)
  then have "n div 10 < 10 ^ Suc k" by (auto simp: div_less_iff_less_mult mult.commute)
  then show ?case
    using Suc.IH by (cases "n < 10") (simp_all add: dec_bytes_small length_dec_bytes_step)
qed

lemma digits10_length: "unat (digits10 v) = length (dec_bytes (unat v))"
proof (induction v rule: digits10.induct)
  case (1 v)
  note len = length_dec_bytes [of _ "unat v"]
  note cmp = word_less_nat_alt word_le_nat_alt
  show ?case
  proof (cases "v < 1000000000000")
    case True
    have "unat v < 1000000000000" using True by (simp add: word_less_nat_alt)
    then consider (a) "unat v < 10"
      | (b) "10 \<le> unat v" "unat v < 100"
      | (c) "100 \<le> unat v" "unat v < 1000"
      | (d) "1000 \<le> unat v" "unat v < 10000"
      | (e) "10000 \<le> unat v" "unat v < 100000"
      | (f) "100000 \<le> unat v" "unat v < 1000000"
      | (g) "1000000 \<le> unat v" "unat v < 10000000"
      | (h) "10000000 \<le> unat v" "unat v < 100000000"
      | (i) "100000000 \<le> unat v" "unat v < 1000000000"
      | (j) "1000000000 \<le> unat v" "unat v < 10000000000"
      | (k) "10000000000 \<le> unat v" "unat v < 100000000000"
      | (l) "100000000000 \<le> unat v" "unat v < 1000000000000"
      by (meson not_less)
    then show ?thesis
    proof cases
      case a
      then show ?thesis using dec_bytes_small [of "unat v"] by (simp add: digits10.simps [of v] cmp)
    next
      case b
      then show ?thesis using len [of 1] by (simp add: digits10.simps [of v] cmp)
    next
      case c
      then show ?thesis using len [of 2] by (simp add: digits10.simps [of v] cmp)
    next
      case d
      then show ?thesis using len [of 3] by (simp add: digits10.simps [of v] cmp)
    next
      case e
      then show ?thesis using len [of 4] by (simp add: digits10.simps [of v] cmp)
    next
      case f
      then show ?thesis using len [of 5] by (simp add: digits10.simps [of v] cmp)
    next
      case g
      then show ?thesis using len [of 6] by (simp add: digits10.simps [of v] cmp)
    next
      case h
      then show ?thesis using len [of 7] by (simp add: digits10.simps [of v] cmp)
    next
      case i
      then show ?thesis using len [of 8] by (simp add: digits10.simps [of v] cmp)
    next
      case j
      then show ?thesis using len [of 9] by (simp add: digits10.simps [of v] cmp)
    next
      case k
      then show ?thesis using len [of 10] by (simp add: digits10.simps [of v] cmp)
    next
      case l
      then show ?thesis using len [of 11] by (simp add: digits10.simps [of v] cmp)
    qed
  next
    case False
    then have ge: "10 ^ 12 \<le> unat v" by (simp add: word_less_nat_alt)
    have v: "\<not> v < 10" "\<not> v < 100" "\<not> v < 1000"
      using ge by (simp_all add: word_less_nat_alt)
    have d: "unat (v div 1000000000000) = unat v div 10 ^ 12" by (simp add: unat_div)
    have "unat v < 2 ^ 64" using unsigned_less [of v] by simp
    then have "unat v div 10 ^ 12 < 10 ^ 8" by (simp add: div_less_iff_less_mult)
    moreover have "m < 10 ^ 8 \<Longrightarrow> length (dec_bytes m) \<le> 20" for m
      using length_dec_bytes_le [of m 7] by simp
    ultimately have small: "unat (digits10 (v div 1000000000000)) \<le> 20"
      using 1 [OF v False] d by simp
    show ?thesis
      using 1 [OF v False] small length_dec_bytes_pow [OF ge] d v False
      by (subst digits10.simps) (simp add: unat_word_ariths)
  qed
qed

section \<open>\<open>ll2string\<close>\<close>

lemma digits_pairs: "digits = concat (map (\<lambda>i. [of_nat (48 + i div 10), of_nat (48 + i mod 10)]) [0..<100])"
  by (simp add: digits_def str_def upt_rec)

lemma concat_pairs_nth:
  "i < n \<Longrightarrow> concat (map (\<lambda>i. [f i, g i]) [m..<m + n]) ! (2 * i) = f (m + i)"
  "i < n \<Longrightarrow> concat (map (\<lambda>i. [f i, g i]) [m..<m + n]) ! Suc (2 * i) = g (m + i)"
proof (induction n arbitrary: m i)
  case (Suc n)
  have u: "[m..<Suc (m + n)] = m # [Suc m..<Suc (m + n)]" for m by (simp add: upt_conv_Cons)
  { case 1 then show ?case using Suc(1) [of "i - 1" "Suc m"] by (cases i) (simp_all add: u del: upt_Suc) }
  { case 2 then show ?case using Suc(2) [of "i - 1" "Suc m"] by (cases i) (simp_all add: u del: upt_Suc) }
qed simp_all

lemma digits_nth:
  assumes "i < 100"
  shows "digits ! (i * 2) = of_nat (48 + i div 10)" "digits ! (i * 2 + 1) = of_nat (48 + i mod 10)"
  using assms concat_pairs_nth [of i 100 _ _ 0] by (simp_all add: digits_pairs mult.commute del: of_nat_add)

lemma dec_bytes_step2:
  assumes "100 \<le> n"
  shows "dec_bytes n = dec_bytes (n div 100) @ [of_nat (48 + n mod 100 div 10), of_nat (48 + n mod 100 mod 10)]"
proof -
  have m: "n mod 100 = 10 * (n div 10 mod 10) + n mod 10" using mod_mult2_eq [of n 10 10] by simp
  have "n div 10 mod 10 = n mod 100 div 10" "n mod 100 mod 10 = n mod 10" unfolding m by simp_all
  moreover have "10 \<le> n div 10" using assms by (simp add: less_eq_div_iff_mult_less_eq)
  ultimately show ?thesis
    using assms dec_bytes_step [of n] dec_bytes_step [of "n div 10"] div_mult2_eq [of n 10 10]
    by (simp del: of_nat_add)
qed

lemma dec_bytes_two:
  assumes "10 \<le> n" "n < 100"
  shows "dec_bytes n = [of_nat (48 + n div 10), of_nat (48 + n mod 10)]"
  using assms dec_bytes_step [of n] dec_bytes_small [of "n div 10"] by (simp del: of_nat_add)

lemma put_two:
  assumes "k + 2 \<le> length dst"
  shows "(put dst (Suc k) b \<bind> (\<lambda>dst. put dst k a)) = Some (take k dst @ [a, b] @ drop (k + 2) dst)"
  using assms
  by (simp add: put_def upd_conv_take_nth_drop [of k] drop_update_swap Cons_nth_drop_Suc [symmetric, of "Suc k"])

lemma unat_index: "n < 2 ^ 32 \<Longrightarrow> unat (of_nat n :: u32) = n"
  by (simp add: unat_of_nat)

lemma ll2string_digits_step:
  assumes "100 \<le> v" "k + 2 \<le> length dst" "length dst < 2 ^ 32"
  shows "ll2string_digits v (of_nat (Suc k)) dst =
     ll2string_digits (v div 100) (of_nat k - 1)
       (take k dst @ [of_nat (48 + unat v mod 100 div 10), of_nat (48 + unat v mod 100 mod 10)] @ drop (k + 2) dst)"
proof -
  have n: "unat (of_nat (Suc k) :: u32) = Suc k" "of_nat (Suc k) - 1 = (of_nat k :: u32)"
    "of_nat (Suc k) - 2 = (of_nat k - 1 :: u32)" "unat (of_nat k :: u32) = k"
    using assms unat_index [of "Suc k"] unat_index [of k] by simp_all
  have p: "put dst (Suc k) b \<bind> (\<lambda>dst. put dst k a \<bind> h) = h (take k dst @ [a, b] @ drop (k + 2) dst)" for a b h
    using put_two [OF assms(2), of b a] by (simp add: bind_assoc [symmetric])
  show ?thesis
    using assms(1) digits_nth [of "unat v mod 100"]
    by (subst ll2string_digits.simps) (simp add: n p Let_def unat_mod del: of_nat_add of_nat_Suc)
qed

lemma ll2string_digits_last:
  assumes "v < 100" "off + length (dec_bytes (unat v)) \<le> length dst" "length dst < 2 ^ 32"
  shows "ll2string_digits v (of_nat (off + length (dec_bytes (unat v))) - 1) dst =
     Some (take off dst @ dec_bytes (unat v) @ drop (off + length (dec_bytes (unat v))) dst)"
proof (cases "v < 10")
  case True
  then have d: "dec_bytes (unat v) = [of_nat (48 + unat v)]" by (simp add: dec_bytes_small word_less_nat_alt)
  have "(48 + ucast v :: byte) = of_nat (48 + unat v)" by (simp add: unsigned_ucast_eq)
  moreover have "\<not> 100 \<le> v" using assms(1) by simp
  ultimately show ?thesis
    using assms True unat_index [of off] unfolding d
    by (subst ll2string_digits.simps) (simp add: put_def upd_conv_take_nth_drop)
next
  case False
  then have v: "10 \<le> unat v" "unat v < 100" using assms(1) by (simp_all add: word_less_nat_alt)
  have n: "of_nat (Suc (Suc off)) - 1 = (of_nat (Suc off) :: u32)" "of_nat (Suc off) - 1 = (of_nat off :: u32)"
    "unat (of_nat (Suc off) :: u32) = Suc off" "unat (of_nat off :: u32) = off"
    using assms dec_bytes_two [OF v] unat_index [of "Suc off"] unat_index [of off] by simp_all
  have i: "unat (ucast v * 2 :: u32) = unat v * 2"
    using v(2) by (simp add: unat_word_ariths unsigned_ucast_eq unsigned_take_bit_eq take_bit_nat_eq_self)
  show ?thesis
    using assms False digits_nth [OF v(2)] dec_bytes_two [OF v] put_two [of off dst]
    by (subst ll2string_digits.simps) (simp add: n i Let_def word_le_nat_alt word_less_nat_alt del: of_nat_add of_nat_Suc)
qed

lemma ll2string_digits_correct:
  assumes "off + length (dec_bytes (unat v)) \<le> length dst" "length dst < 2 ^ 32"
  shows "ll2string_digits v (of_nat (off + length (dec_bytes (unat v))) - 1) dst =
           Some (take off dst @ dec_bytes (unat v) @ drop (off + length (dec_bytes (unat v))) dst)"
  using assms
proof (induction "unat v" arbitrary: v dst rule: less_induct)
  case less
  show ?case
  proof (cases "v < 100")
    case False
    then have v: "100 \<le> v" "100 \<le> unat v" "unat (v div 100) < unat v"
      by (auto simp: word_le_nat_alt word_less_nat_alt unat_div)
    let ?k = "off + length (dec_bytes (unat (v div 100)))"
    have d: "dec_bytes (unat v) = dec_bytes (unat (v div 100)) @ [of_nat (48 + unat v mod 100 div 10), of_nat (48 + unat v mod 100 mod 10)]"
      using dec_bytes_step2 [OF v(2)] by (simp add: unat_div)
    have len: "off + length (dec_bytes (unat v)) = Suc (Suc ?k)" by (simp add: d)
    have k: "?k + 2 \<le> length dst" using less.prems len by simp
    let ?dst = "take ?k dst @ [of_nat (48 + unat v mod 100 div 10), of_nat (48 + unat v mod 100 mod 10)] @ drop (?k + 2) dst"
    have "ll2string_digits v (of_nat (Suc ?k)) dst = ll2string_digits (v div 100) (of_nat ?k - 1) ?dst"
      by (rule ll2string_digits_step [OF v(1) k less.prems(2)])
    also have "\<dots> = Some (take off ?dst @ dec_bytes (unat (v div 100)) @ drop ?k ?dst)"
      by (rule less.hyps [OF v(3)]) (use k less.prems in simp_all)
    finally show ?thesis using k unfolding len by (simp add: d)
  qed (rule ll2string_digits_last [OF _ less.prems])
qed

lemma length_dec_bytes_word: "length (dec_bytes (unat (v :: u64))) \<le> 20"
proof -
  have "unat v < 2 ^ 64" using unsigned_less [of v] by simp
  then show ?thesis using length_dec_bytes_le [of "unat v" 19] by simp
qed

lemma digits10_of_nat: "digits10 v = of_nat (length (dec_bytes (unat v)))"
  unfolding digits10_length [symmetric] by simp

lemma sint_twos:
  "sint (v :: u64) = (if v <s 0 then uint v - 2 ^ 64 else uint v)"
proof -
  have "sint v = signed_take_bit 63 (uint v)" by (simp add: signed_take_bit_eq sint_uint)
  then have "sint v = take_bit 64 (uint v) - 2 ^ 64 * of_bool (bit (uint v) 63)"
    by (simp add: signed_take_bit_eq_take_bit_minus)
  moreover have "take_bit 64 (uint v) = uint v"
    using uint_lt2p [of v] by (simp add: take_bit_int_eq_self)
  moreover have "v <s 0 \<longleftrightarrow> bit (uint v) 63"
    by (simp add: word_sless_alt signed_take_bit_negative_iff sint_uint)
  ultimately show ?thesis by simp
qed

lemma twos_abs: "v <s 0 \<Longrightarrow> unat (if v \<noteq> LLONG_MIN then - v else LLONG_MAX + 1) = nat (- sint v)"
proof -
  assume "v <s 0"
  have "(if v \<noteq> LLONG_MIN then - v else LLONG_MAX + 1) = - v"
    by (simp add: LLONG_MIN_def LLONG_MAX_def)
  moreover have "uint (- v) = 2 ^ 64 - uint v" if "v \<noteq> 0"
    using that uint_lt2p [of v]
    by (simp add: uint_word_ariths zmod_zminus1_eq_if mod_pos_pos_trivial unsigned_eq_0_iff)
  moreover have "v \<noteq> 0" using \<open>v <s 0\<close> by auto
  ultimately show ?thesis using \<open>v <s 0\<close> by (simp add: sint_twos unat_eq_nat_uint)
qed

text \<open>
  \<open>ll2string\<close> writes the decimal notation and a terminator when the buffer has room for
  both, and otherwise returns 0 and leaves the buffer alone. It never writes outside.
\<close>

lemma ll2string_correct:
  assumes "dstlen \<le> length dst" "length dst < 2 ^ 32"
  shows "ll2string dst dstlen v =
     (let s = dec_int (sint v)
      in if length s < dstlen then Some (length s, s @ [0] @ drop (Suc (length s)) dst) else Some (0, dst))"
proof (cases "v <s 0")
  case True
  define w where "w = (if v \<noteq> LLONG_MIN then - v else LLONG_MAX + 1)"
  have w: "unat w = nat (- sint v)" using twos_abs [OF True] by (simp add: w_def)
  let ?d = "dec_bytes (unat w)"
  have s: "dec_int (sint v) = 45 # ?d" using True w by (simp add: dec_int_def word_sless_alt)
  have len: "unat (digits10 w + 1) = Suc (length ?d)" "digits10 w + 1 - 1 = (of_nat (1 + length ?d) - 1 :: u32)"
    using length_dec_bytes_word [of w] by (simp_all add: digits10_of_nat unat_word_ariths unat_of_nat)
  show ?thesis
  proof (cases "Suc (length ?d) < dstlen")
    case short: True
    let ?dst = "dst[Suc (length ?d) := 0]"
    have "ll2string_digits w (of_nat (1 + length ?d) - 1) ?dst =
        Some (take 1 ?dst @ ?d @ drop (1 + length ?d) ?dst)"
      by (rule ll2string_digits_correct) (use short assms in simp_all)
    then have 1: "ll2string_digits w (digits10 w) ?dst = Some (take 1 ?dst @ ?d @ drop (1 + length ?d) ?dst)"
      by (simp add: digits10_of_nat)
    have 2: "put dst (Suc (length ?d)) 0 = Some ?dst" using short assms by (simp add: put_def)
    have 3: "drop (1 + length ?d) ?dst = 0 # drop (Suc (Suc (length ?d))) dst"
      using short assms by (simp add: drop_update_swap Cons_nth_drop_Suc [symmetric])
    have 4: "put (take 1 ?dst @ l) 0 45 = Some (45 # l)" for l
      using short assms by (cases dst) (simp_all add: put_def)
    have "ll2string dst dstlen v =
       do {
         dst \<leftarrow> put dst (Suc (length ?d)) 0;
         dst \<leftarrow> ll2string_digits w (digits10 w) dst;
         dst \<leftarrow> put dst 0 45;
         Some (Suc (length ?d), dst)
       }"
      using True short unfolding ll2string_def w_def [symmetric] by (simp add: len(1) Let_def)
    also have "\<dots> = Some (Suc (length ?d), 45 # ?d @ 0 # drop (Suc (Suc (length ?d))) dst)"
      by (simp only: 1 2 3 4 bind.simps)
    finally show ?thesis using short by (simp add: s)
  next
    case False
    then show ?thesis using True unfolding ll2string_def w_def [symmetric] by (simp add: s len Let_def)
  qed
next
  case False
  then have "sint v = uint v" using sint_twos [of v] by simp
  then have w: "unat v = nat (sint v)" by (simp only: unat_eq_nat_uint)
  let ?d = "dec_bytes (unat v)"
  have s: "dec_int (sint v) = ?d" using False unfolding w by (simp add: dec_int_def word_sless_alt)
  have len: "unat (digits10 v) = length ?d" "digits10 v - 1 = (of_nat (0 + length ?d) - 1 :: u32)"
    using length_dec_bytes_word [of v] by (simp_all add: digits10_of_nat unat_of_nat)
  show ?thesis
  proof (cases "length ?d < dstlen")
    case short: True
    let ?dst = "dst[length ?d := 0]"
    have "ll2string_digits v (of_nat (0 + length ?d) - 1) ?dst =
        Some (take 0 ?dst @ ?d @ drop (0 + length ?d) ?dst)"
      by (rule ll2string_digits_correct) (use short assms in simp_all)
    then show ?thesis using False short assms unfolding ll2string_def
      by (simp add: s len Let_def put_def drop_update_swap Cons_nth_drop_Suc [symmetric])
  next
    case long: False
    then show ?thesis using False unfolding ll2string_def by (simp add: s len Let_def)
  qed
qed

section \<open>\<open>string2ll\<close>\<close>

text \<open>The two overflow tests of one step.\<close>

lemma string2ll_overflow:
  assumes "d < 10"
  shows "(v > ULLONG_MAX div 10 \<or> v * 10 > ULLONG_MAX - of_nat d) \<longleftrightarrow> \<not> unat v * 10 + d < 2 ^ 64"
    and "unat v * 10 + d < 2 ^ 64 \<Longrightarrow> unat (v * 10 + of_nat d) = unat v * 10 + d"
proof -
  have d: "unat (of_nat d :: u64) = d" using assms by (simp add: unat_of_nat)
  have m: "unat (ULLONG_MAX - of_nat d) = 2 ^ 64 - 1 - d"
    using assms d by (subst unat_sub_if_size) (simp_all add: ULLONG_MAX_def word_size)
  have v: "unat (v * 10) = unat v * 10" if "unat v \<le> 1844674407370955161"
    using that by (simp add: unat_word_ariths)
  have "v > ULLONG_MAX div 10 \<longleftrightarrow> unat v > 1844674407370955161"
    by (simp add: word_less_nat_alt ULLONG_MAX_def unat_div)
  then show "(v > ULLONG_MAX div 10 \<or> v * 10 > ULLONG_MAX - of_nat d) \<longleftrightarrow> \<not> unat v * 10 + d < 2 ^ 64"
    using v m assms by (cases "unat v \<le> 1844674407370955161") (auto simp: word_less_nat_alt)
  show "unat (v * 10 + of_nat d) = unat v * 10 + d" if "unat v * 10 + d < 2 ^ 64"
    using that v d by (simp add: unat_word_ariths)
qed

lemma string2ll_digits_val:
  "string2ll_digits v p =
     (if list_all digit p \<and> digits_val (unat v) p < 2 ^ 64 then Some (of_nat (digits_val (unat v) p)) else None)"
proof (induction p arbitrary: v)
  case Nil
  then show ?case using unsigned_less [of v] by simp
next
  case (Cons c p)
  show ?case
  proof (cases "digit c")
    case True
    let ?d = "unat (c - 48)"
    have d: "?d < 10" "(ucast (c - 48) :: u64) = of_nat ?d" using digitD [OF True] by simp_all
    have c: "48 \<le> c \<and> c \<le> 57" using True by (simp add: digit_def)
    show ?thesis
    proof (cases "unat v * 10 + ?d < 2 ^ 64")
      case fits: True
      then show ?thesis using c True string2ll_overflow [OF d(1), of v] Cons.IH [of "v * 10 + of_nat ?d"]
        by (auto simp: d(2) simp del: of_nat_unat)
    next
      case False
      moreover have "unat v * 10 + ?d \<le> digits_val (unat v) (c # p)" by (simp add: digits_val_ge)
      ultimately show ?thesis using c True string2ll_overflow [OF d(1), of v]
        by (auto simp: d(2) simp del: of_nat_unat digits_val_simps)
    qed
  qed (auto simp: digit_def)
qed

lemma sint_of_nat:
  assumes "n \<le> 2 ^ 63"
  shows "n < 2 ^ 63 \<Longrightarrow> sint (of_nat n :: u64) = int n" and "sint (- of_nat n :: u64) = - int n"
proof -
  show "sint (of_nat n :: u64) = int n" if "n < 2 ^ 63"
  proof -
    have "sint (of_nat n :: u64) = sint (word_of_int (int n) :: u64)" by simp
    also have "\<dots> = signed_take_bit 63 (int n)" by (simp only: sint_sbintrunc') simp
    also have "\<dots> = int n" using that by (intro signed_take_bit_int_eq_self) simp_all
    finally show ?thesis .
  qed
  have "sint (- of_nat n :: u64) = sint (word_of_int (- int n) :: u64)" by simp
  also have "\<dots> = signed_take_bit 63 (- int n)" by (simp only: sint_sbintrunc') simp
  also have "\<dots> = - int n" using assms by (intro signed_take_bit_int_eq_self) simp_all
  finally show "sint (- of_nat n :: u64) = - int n" .
qed

definition nonzero_number :: "bytes \<Rightarrow> bool" where
  "nonzero_number p \<longleftrightarrow> (case p of [] \<Rightarrow> False | c # _ \<Rightarrow> c \<noteq> 48 \<and> list_all digit p)"

lemma nonzero_number_dec: "0 < n \<Longrightarrow> nonzero_number (dec_bytes n)"
  using dec_bytes_hd [of n] dec_bytes_digits [of n] by (auto simp: nonzero_number_def)

lemma nonzero_number_val: "nonzero_number p \<Longrightarrow> p = dec_bytes (digits_val 0 p)"
  using dec_bytes_of_val by (auto simp: nonzero_number_def split: list.splits)

lemma nonzero_number_simps [simp]:
  "\<not> nonzero_number []"
  "nonzero_number (c # p) \<longleftrightarrow> 49 \<le> c \<and> c \<le> 57 \<and> list_all digit p"
proof -
  have "c \<noteq> 48 \<and> digit c \<longleftrightarrow> 49 \<le> c \<and> c \<le> 57"
    unfolding digit_def by (auto simp: word_le_nat_alt word_unat_eq_iff)
  then show "\<not> nonzero_number []" "nonzero_number (c # p) \<longleftrightarrow> 49 \<le> c \<and> c \<le> 57 \<and> list_all digit p"
    by (auto simp: nonzero_number_def)
qed

lemma unat_byte: "unat (ucast (b :: byte) :: u64) = unat b"
proof -
  have "unat b < 2 ^ 8" using unsigned_less [of b] by simp
  then show ?thesis by (simp add: unsigned_ucast_eq unsigned_take_bit_eq take_bit_nat_eq_self)
qed

lemma string2ll_unfold:
  "string2ll s =
     (if s = [48] then Some 0
      else if s \<noteq> [] \<and> hd s = 45
      then if nonzero_number (tl s) \<and> digits_val 0 (tl s) \<le> 2 ^ 63 then Some (- int (digits_val 0 (tl s))) else None
      else if nonzero_number s \<and> digits_val 0 s < 2 ^ 63 then Some (int (digits_val 0 s)) else None)"
proof -
  have pos: "string2ll_digits (ucast (c - 48)) p =
      (if list_all digit p \<and> digits_val 0 (c # p) < 2 ^ 64 then Some (of_nat (digits_val 0 (c # p))) else None)" for c p
    using string2ll_digits_val [of "ucast (c - 48)" p] by (simp add: unat_byte)
  have cmp: "of_nat n > LLONG_MAX \<longleftrightarrow> 2 ^ 63 \<le> n" "of_nat n > LLONG_MAX + 1 \<longleftrightarrow> 2 ^ 63 < n" if "n < 2 ^ 64" for n
    using that by (simp_all add: LLONG_MAX_def word_less_nat_alt unat_of_nat) auto
  have case_pos: "(case p of [] \<Rightarrow> None | c # p \<Rightarrow>
      if 49 \<le> c \<and> c \<le> 57
      then (case string2ll_digits (ucast (c - 48)) p of None \<Rightarrow> None | Some v \<Rightarrow> f v) else None) =
    (if nonzero_number p \<and> digits_val 0 p < 2 ^ 64 then f (of_nat (digits_val 0 p)) else None)" for p and f :: "u64 \<Rightarrow> int option"
    by (auto simp: pos split: list.splits)
  show ?thesis
    unfolding string2ll_def Let_def case_prod_beta case_pos
    using sint_of_nat cmp by (auto simp del: digits_val_simps simp add: not_le not_less)
qed

lemma string2ll_dec_int: "llong i \<Longrightarrow> string2ll (dec_int i) = Some i"
proof (cases "i < 0")
  case True
  moreover assume "llong i"
  ultimately show ?thesis
    using nonzero_number_dec [of "nat (- i)"] by (simp add: string2ll_unfold dec_int_def dec_bytes_val llong_def)
next
  case False
  moreover assume "llong i"
  moreover have "hd (dec_bytes (nat i)) \<noteq> 45 \<and> dec_bytes (nat i) \<noteq> [48]" if "i \<noteq> 0"
    using that False dec_bytes_hd [of "nat i"] by auto
  ultimately show ?thesis
    using nonzero_number_dec [of "nat i"]
    by (cases "i = 0") (simp_all add: string2ll_unfold dec_int_def dec_bytes_val llong_def dec_bytes_small)
qed

lemma string2ll_sound:
  assumes "string2ll s = Some i"
  shows "llong i \<and> s = dec_int i"
proof -
  have pos: "digits_val 0 p > 0" if "nonzero_number p" for p
    using nonzero_number_val [OF that] that by (cases "digits_val 0 p = 0") (auto simp: dec_bytes_small)
  show ?thesis
    using assms pos [of s] pos [of "tl s"] nonzero_number_val [of s] nonzero_number_val [of "tl s"]
    by (cases s) (auto simp: string2ll_unfold dec_int_def llong_def dec_bytes_small simp del: digits_val_simps split: if_splits)
qed

lemma string2ll_iff: "string2ll s = Some i \<longleftrightarrow> llong i \<and> s = dec_int i"
  using string2ll_sound string2ll_dec_int by blast

text \<open>\<open>ll2string\<close> writes a terminator, stays inside the buffer and changes nothing if it is too short.\<close>

lemma ll2string_fits:
  assumes "dstlen \<le> length dst" "length dst < 2 ^ 32"
  shows "let s = dec_int (sint v) in
     string2ll s = Some (sint v) \<and>
     ll2string dst dstlen v =
       (if length s < dstlen then Some (length s, s @ [0] @ drop (Suc (length s)) dst) else Some (0, dst))"
proof -
  have "llong (sint v)" using sint_ge [of v] sint_lt [of v] by (simp add: llong_def)
  then show ?thesis using ll2string_correct [OF assms, of v] string2ll_dec_int by (simp add: Let_def)
qed

end
