(* ===== verification/Bytes.thy ===== *)
theory Bytes
  imports Prelude
begin

text \<open>
  Integers in memory and on the wire: the bytes of an integer on a little-endian host, and
  in the order of the network, which \<open>htons\<close>, \<open>htonl\<close> and \<open>htonu64\<close> produce.
\<close>

section \<open>In memory\<close>

text \<open>The bytes of an \<open>n\<close>-byte integer; the lowest byte comes first.\<close>

definition le_bytes :: "nat \<Rightarrow> int \<Rightarrow> bytes" where
  "le_bytes n v = map (\<lambda>i. word_of_int (v div 256 ^ i)) [0..<n]"

definition le_uint :: "bytes \<Rightarrow> int" where
  "le_uint bs = foldr (\<lambda>b a. uint b + 256 * a) bs 0"

lemma length_le_bytes [simp]: "length (le_bytes e v) = e"
  by (simp add: le_bytes_def)

lemma le_bytes_Suc: "le_bytes (Suc e) v = word_of_int v # le_bytes e (v div 256)"
  by (simp add: le_bytes_def upt_conv_Cons map_Suc_upt [symmetric] zdiv_zmult2_eq comp_def del: upt_Suc)

lemma le_bytes_zero: "le_bytes e 0 = replicate e 0"
  by (simp add: le_bytes_def map_replicate_const)

lemma le_uint_le_bytes: "le_uint (le_bytes e v) = v mod 256 ^ e"
proof (induction e arbitrary: v)
  case 0
  then show ?case by (simp add: le_uint_def le_bytes_def)
next
  case (Suc e)
  have "le_uint (le_bytes (Suc e) v) = v mod 256 + 256 * (v div 256 mod 256 ^ e)"
    using Suc [of "v div 256"]
    by (simp add: le_bytes_Suc le_uint_def uint_word_of_int)
  also have "\<dots> = v mod 256 ^ Suc e"
    by (simp add: mod_mult2_eq' zmod_zmult2_eq)
  finally show ?case .
qed

section \<open>On the wire\<close>

definition be_bytes :: "nat \<Rightarrow> int \<Rightarrow> bytes" where
  "be_bytes n v = rev (le_bytes n v)"

definition be_uint :: "bytes \<Rightarrow> int" where
  "be_uint bs = le_uint (rev bs)"

lemma length_be_bytes [simp]: "length (be_bytes n v) = n"
  by (simp add: be_bytes_def)

lemma be_uint_be_bytes: "be_uint (be_bytes n v) = v mod 256 ^ n"
  by (simp add: be_uint_def be_bytes_def le_uint_le_bytes)

text \<open>A word is read back from as many bytes as it has.\<close>

lemma be_word [simp]:
  "word_of_int (be_uint (be_bytes 2 (uint (w2 :: u16)))) = w2"
  "word_of_int (be_uint (be_bytes 4 (uint (w4 :: u32)))) = w4"
  "word_of_int (be_uint (be_bytes 8 (uint (w8 :: u64)))) = w8"
  using uint_lt2p [of w2] uint_lt2p [of w4] uint_lt2p [of w8] by (simp_all add: be_uint_be_bytes)

lemma le_word [simp]: "word_of_int (le_uint (le_bytes 8 (uint (w :: u64)))) = w"
  using uint_lt2p [of w] by (simp add: le_uint_le_bytes)

end
