(* ===== verification/Intset.thy ===== *)
theory Intset
  imports Bytes
begin

text \<open>
  Sets of integers in one block of memory (\<open>intset.c\<close>): the elements are stored in
  increasing order, all with 2, 4 or 8 bytes. The contents are modelled byte by byte, on a
  little-endian host, where the conversions of \<open>endianconv.c\<close> do nothing. An access
  outside the block is undefined and the result is then \<open>None\<close>.
\<close>

section \<open>Integers in memory\<close>

text \<open>The signed integer in a block of bytes.\<close>

definition le_sint :: "bytes \<Rightarrow> int" where
  "le_sint bs =
     (let u = le_uint bs; m = 256 ^ length bs in if 2 * u \<ge> m then u - m else u)"

definition load :: "bytes \<Rightarrow> nat \<Rightarrow> nat \<Rightarrow> int option" where
  "load c off n = (if off + n \<le> length c then Some (le_sint (take n (drop off c))) else None)"

definition store :: "bytes \<Rightarrow> nat \<Rightarrow> nat \<Rightarrow> int \<Rightarrow> bytes option" where
  "store c off n v = (if off + n \<le> length c then Some (take off c @ le_bytes n v @ drop (off + n) c) else None)"

definition memmove :: "bytes \<Rightarrow> nat \<Rightarrow> nat \<Rightarrow> nat \<Rightarrow> bytes option" where
  "memmove c dst src n =
     (if src + n \<le> length c \<and> dst + n \<le> length c
      then Some (take dst c @ take n (drop src c) @ drop (dst + n) c) else None)"

section \<open>The operations\<close>

record intset =
  encoding :: u32
  is_length :: u32
  contents :: bytes

definition INTSET_ENC_INT16 :: u32 where "INTSET_ENC_INT16 = 2"
definition INTSET_ENC_INT32 :: u32 where "INTSET_ENC_INT32 = 4"
definition INTSET_ENC_INT64 :: u32 where "INTSET_ENC_INT64 = 8"

lemmas enc_defs = INTSET_ENC_INT16_def INTSET_ENC_INT32_def INTSET_ENC_INT64_def

text \<open>The width that an encoding selects in the chains of tests of the code.\<close>

definition enc_size :: "u32 \<Rightarrow> nat" where
  "enc_size enc = (if enc = INTSET_ENC_INT64 then 8 else if enc = INTSET_ENC_INT32 then 4 else 2)"

definition intsetValueEncoding :: "int \<Rightarrow> u32" where
  "intsetValueEncoding v =
     (if v < - 2147483648 \<or> v > 2147483647 then INTSET_ENC_INT64
      else if v < - 32768 \<or> v > 32767 then INTSET_ENC_INT32
      else INTSET_ENC_INT16)"

definition intsetGetEncoded :: "intset \<Rightarrow> int \<Rightarrow> u32 \<Rightarrow> int option" where
  "intsetGetEncoded is pos enc =
     (if pos < 0 then None else load (contents is) (nat pos * enc_size enc) (enc_size enc))"

definition intsetGet_pos :: "intset \<Rightarrow> int \<Rightarrow> int option" where
  "intsetGet_pos is pos = intsetGetEncoded is pos (encoding is)"

definition intsetSet :: "intset \<Rightarrow> int \<Rightarrow> int \<Rightarrow> intset option" where
  "intsetSet is pos v =
     (if pos < 0 then None
      else map_option (\<lambda>c. is\<lparr>contents := c\<rparr>)
             (store (contents is) (nat pos * enc_size (encoding is)) (enc_size (encoding is)) v))"

definition intsetNew :: intset where
  "intsetNew = \<lparr>encoding = INTSET_ENC_INT16, is_length = 0, contents = []\<rparr>"

text \<open>
  \<open>size\<close> is a \<open>uint32_t\<close>, so that the product wraps. The bytes that \<open>zrealloc\<close> adds are
  indeterminate; they are zero here and every operation writes them before it reads them.
\<close>

definition intsetResize :: "intset \<Rightarrow> u32 \<Rightarrow> intset" where
  "intsetResize is len =
     (let size = unat (len * encoding is)
      in is\<lparr>contents := take size (contents is) @ replicate (size - length (contents is)) 0\<rparr>)"

text \<open>The loop of the binary search, which returns \<open>min\<close>, \<open>mid\<close> and \<open>cur\<close>.\<close>

partial_function (option) search_loop :: "intset \<Rightarrow> int \<Rightarrow> int \<Rightarrow> int \<Rightarrow> int \<Rightarrow> int \<Rightarrow> (int \<times> int \<times> int) option" where
  "search_loop is v mn mx mid cur =
     (if mx \<ge> mn then
        let mid = sint (drop_bit 1 (word_of_int mn + word_of_int mx :: u32)) in
        Option.bind (intsetGet_pos is mid) (\<lambda>cur.
          if v > cur then search_loop is v (mid + 1) mx mid cur
          else if v < cur then search_loop is v mn (mid - 1) mid cur
          else Some (mn, mid, cur))
      else Some (mn, mid, cur))"

definition intsetSearch :: "intset \<Rightarrow> int \<Rightarrow> (bool \<times> u32) option" where
  "intsetSearch is v =
     (let mx = sint (is_length is - 1)
      in if is_length is = 0 then Some (False, 0)
         else do {
           lst \<leftarrow> intsetGet_pos is mx;
           if v > lst then Some (False, is_length is)
           else do {
             fst' \<leftarrow> intsetGet_pos is 0;
             if v < fst' then Some (False, 0)
             else do {
               (mn, mid, cur) \<leftarrow> search_loop is v 0 mx (-1) (-1);
               Some (if v = cur then (True, word_of_int mid) else (False, word_of_int mn))
             }
           }
         })"

text \<open>
  The element at position \<open>i\<close> is read in the old encoding and written in the new one. A
  negative \<open>length\<close>, from \<open>2 ^ 31\<close> elements on, makes the first access of the loop one
  outside the block.
\<close>

definition upgrade_step :: "u32 \<Rightarrow> int \<Rightarrow> nat \<Rightarrow> intset \<Rightarrow> intset option" where
  "upgrade_step curenc prepend i is =
     Option.bind (intsetGetEncoded is (int i) curenc) (\<lambda>x. intsetSet is (int i + prepend) x)"

definition intsetUpgradeAndAdd :: "intset \<Rightarrow> int \<Rightarrow> intset option" where
  "intsetUpgradeAndAdd is v =
     (let curenc = encoding is; newenc = intsetValueEncoding v; len = sint (is_length is);
          prepend = (if v < 0 then 1 else 0);
          is = intsetResize (is\<lparr>encoding := newenc\<rparr>) (is_length is + 1)
      in if len < 0 then None
         else do {
           is \<leftarrow> for_each (rev [0..<nat len]) (upgrade_step curenc prepend) is;
           is \<leftarrow> (if prepend = 1 then intsetSet is 0 v else intsetSet is (sint (is_length is)) v);
           Some (is\<lparr>is_length := is_length is + 1\<rparr>)
         })"

definition intsetMoveTail :: "intset \<Rightarrow> u32 \<Rightarrow> u32 \<Rightarrow> intset option" where
  "intsetMoveTail is from to =
     (let n = enc_size (encoding is); byts = (is_length is - from) * of_nat n
      in map_option (\<lambda>c. is\<lparr>contents := c\<rparr>)
           (memmove (contents is) (unat to * n) (unat from * n) (unat byts)))"

text \<open>The result of \<open>intsetAdd\<close> and \<open>intsetRemove\<close> comes with \<open>success\<close>.\<close>

definition intsetAdd :: "intset \<Rightarrow> int \<Rightarrow> (bool \<times> intset) option" where
  "intsetAdd is v =
     (if intsetValueEncoding v > encoding is
      then map_option (Pair True) (intsetUpgradeAndAdd is v)
      else do {
        (found, pos) \<leftarrow> intsetSearch is v;
        if found then Some (False, is)
        else do {
          let is = intsetResize is (is_length is + 1);
          is \<leftarrow> (if pos < is_length is then intsetMoveTail is pos (pos + 1) else Some is);
          is \<leftarrow> intsetSet is (sint pos) v;
          Some (True, is\<lparr>is_length := is_length is + 1\<rparr>)
        }
      })"

definition intsetRemove :: "intset \<Rightarrow> int \<Rightarrow> (bool \<times> intset) option" where
  "intsetRemove is v =
     (if intsetValueEncoding v \<le> encoding is then do {
        (found, pos) \<leftarrow> intsetSearch is v;
        if found then do {
          let len = is_length is;
          is \<leftarrow> (if pos < len - 1 then intsetMoveTail is (pos + 1) pos else Some is);
          let is = intsetResize is (len - 1);
          Some (True, is\<lparr>is_length := len - 1\<rparr>)
        } else Some (False, is)
      } else Some (False, is))"

definition intsetFind :: "intset \<Rightarrow> int \<Rightarrow> bool option" where
  "intsetFind is v =
     (if intsetValueEncoding v \<le> encoding is then map_option fst (intsetSearch is v) else Some False)"

text \<open>\<open>r\<close> is the value of \<open>rand()\<close>; a division by zero is undefined.\<close>

definition intsetRandom :: "int \<Rightarrow> intset \<Rightarrow> int option" where
  "intsetRandom r is =
     (if is_length is = 0 then None else intsetGet_pos is (sint (word_of_int r mod is_length is)))"

definition intsetGet :: "intset \<Rightarrow> u32 \<Rightarrow> int option option" where
  "intsetGet is pos =
     (if pos < is_length is then map_option Some (intsetGet_pos is (sint pos)) else Some None)"

definition intsetLen :: "intset \<Rightarrow> u32" where
  "intsetLen is = is_length is"

text \<open>The header takes two \<open>uint32_t\<close>; here too the product has 32 bits.\<close>

definition intsetBlobLen :: "intset \<Rightarrow> u64" where
  "intsetBlobLen is = 8 + ucast (is_length is * encoding is)"

section \<open>Blocks of encoded integers\<close>

definition encode :: "nat \<Rightarrow> int list \<Rightarrow> bytes" where
  "encode e xs = concat (map (le_bytes e) xs)"

definition fits :: "nat \<Rightarrow> int \<Rightarrow> bool" where
  "fits e v \<longleftrightarrow> - (256 ^ e) \<le> 2 * v \<and> 2 * v < 256 ^ e"

lemma encode_simps [simp]:
  "encode e [] = []"
  "encode e (x # xs) = le_bytes e x @ encode e xs"
  "encode e (xs @ ys) = encode e xs @ encode e ys"
  by (simp_all add: encode_def)

lemma length_encode [simp]: "length (encode e xs) = length xs * e"
  by (induction xs) simp_all

lemma take_encode [simp]: "take (i * e) (encode e xs) = encode e (take i xs)"
proof (induction xs arbitrary: i)
  case (Cons x xs)
  then show ?case by (cases i) simp_all
qed simp

lemma drop_encode [simp]: "drop (i * e) (encode e xs) = encode e (drop i xs)"
proof (induction xs arbitrary: i)
  case (Cons x xs)
  then show ?case by (cases i) simp_all
qed simp

lemma le_sint_le_bytes [simp]: "fits e v \<Longrightarrow> le_sint (le_bytes e v) = v"
proof -
  assume v: "fits e v"
  show ?thesis
  proof (cases "0 \<le> v")
    case True
    then have "v mod 256 ^ e = v" using v by (simp add: fits_def)
    then show ?thesis using v True by (simp add: le_sint_def le_uint_le_bytes fits_def)
  next
    case False
    then have "v mod 256 ^ e = v + 256 ^ e"
      using v by (intro int_mod_pos_eq [where q = "-1"]) (auto simp: fits_def)
    then show ?thesis using v False by (simp add: le_sint_def le_uint_le_bytes fits_def)
  qed
qed

lemma load_encode:
  assumes "i < length xs" and "fits e (xs ! i)"
  shows "load (encode e xs @ r) (i * e) e = Some (xs ! i)"
proof -
  have "Suc i * e \<le> length xs * e" using assms(1) by (intro mult_le_mono1) simp
  then have l: "i * e + e \<le> length xs * e" by (simp add: add.commute)
  have "drop i xs = xs ! i # drop (Suc i) xs" using assms(1) by (rule Cons_nth_drop_Suc [symmetric])
  then show ?thesis using l assms by (simp add: load_def)
qed

lemma store_encode:
  assumes "i < length xs"
  shows "store (encode e xs) (i * e) e v = Some (encode e (xs[i := v]))"
proof -
  have "Suc i * e \<le> length xs * e" using assms by (intro mult_le_mono1) simp
  moreover have "drop (i * e + e) (encode e xs) = encode e (drop (Suc i) xs)"
    using drop_encode [of "Suc i" e xs] by (simp add: add.commute)
  ultimately show ?thesis using assms by (simp add: store_def upd_conv_take_nth_drop add.commute)
qed

lemma memmove_encode:
  assumes "from + n \<le> length xs" and "to + n \<le> length xs"
  shows "memmove (encode e xs) (to * e) (from * e) (n * e) =
    Some (encode e (take to xs @ take n (drop from xs) @ drop (to + n) xs))"
proof -
  have "(from + n) * e \<le> length xs * e" "(to + n) * e \<le> length xs * e"
    using assms by (intro mult_le_mono1; simp)+
  moreover have "drop (to * e + n * e) (encode e xs) = encode e (drop (to + n) xs)"
    using drop_encode [of "to + n" e xs] by (simp add: add_mult_distrib)
  ultimately show ?thesis by (simp add: memmove_def add_mult_distrib)
qed

section \<open>Well-formed sets\<close>

text \<open>The elements in memory order, and the invariant of a set.\<close>

definition elements :: "intset \<Rightarrow> int list" where
  "elements is =
     (let e = enc_size (encoding is) in map (\<lambda>i. le_sint (take e (drop (i * e) (contents is)))) [0..<unat (is_length is)])"

definition intset_rep :: "intset \<Rightarrow> int list \<Rightarrow> bool" where
  "intset_rep is xs \<longleftrightarrow>
     encoding is \<in> {INTSET_ENC_INT16, INTSET_ENC_INT32, INTSET_ENC_INT64} \<and>
     contents is = encode (enc_size (encoding is)) xs \<and>
     unat (is_length is) = length xs \<and> length xs * enc_size (encoding is) < 2 ^ 32 \<and>
     list_all (fits (enc_size (encoding is))) xs \<and> sorted_wrt (<) xs"

definition intset_inv :: "intset \<Rightarrow> bool" where
  "intset_inv is \<longleftrightarrow> intset_rep is (elements is)"

lemma intset_repD:
  assumes "intset_rep is xs"
  shows "contents is = encode (enc_size (encoding is)) xs" and "is_length is = of_nat (length xs)"
    and "length xs * enc_size (encoding is) < 2 ^ 32" and "length xs < 2 ^ 31" and "sorted_wrt (<) xs"
    and "encoding is = of_nat (enc_size (encoding is))" and "enc_size (encoding is) \<in> {2, 4, 8}"
    and "\<And>x. x \<in> set xs \<Longrightarrow> fits (enc_size (encoding is)) x"
proof -
  have "of_nat (unat (is_length is)) = is_length is" by simp
  then show "is_length is = of_nat (length xs)"
    using assms by (simp add: intset_rep_def del: of_nat_unat)
  show enc: "encoding is = of_nat (enc_size (encoding is))" "enc_size (encoding is) \<in> {2, 4, 8}"
    using assms by (auto simp: intset_rep_def enc_size_def enc_defs)
  show len: "length xs * enc_size (encoding is) < 2 ^ 32"
    using assms by (simp add: intset_rep_def)
  then show "length xs < 2 ^ 31" using enc(2) by auto
qed (use assms in \<open>simp_all add: intset_rep_def list_all_iff\<close>)

lemma elements_rep: "intset_rep is xs \<Longrightarrow> elements is = xs"
proof -
  assume rep: "intset_rep is xs"
  have "le_sint (take (enc_size (encoding is)) (drop (i * enc_size (encoding is)) (contents is))) = xs ! i"
    if "i < length xs" for i
    using load_encode [where r = "[]", OF that intset_repD(8) [OF rep]] that intset_repD(1) [OF rep]
    by (auto simp: load_def split: if_splits)
  moreover have "unat (is_length is) = length xs" using rep by (simp add: intset_rep_def)
  ultimately show ?thesis
    by (auto simp: elements_def Let_def intro: nth_equalityI)
qed

lemma intset_inv_iff: "intset_inv is \<longleftrightarrow> (\<exists>xs. intset_rep is xs)"
  using elements_rep by (auto simp: intset_inv_def)

lemma rep_get:
  assumes "intset_rep is xs" and "i < length xs"
  shows "intsetGet_pos is (int i) = Some (xs ! i)"
  using load_encode [where r = "[]", of i xs "enc_size (encoding is)"] assms intset_repD [OF assms(1)]
  by (simp add: intsetGet_pos_def intsetGetEncoded_def)

section \<open>Searching\<close>

text \<open>The number of smaller elements is where a value is, or where it belongs.\<close>

definition rank :: "int \<Rightarrow> int list \<Rightarrow> nat" where
  "rank v xs = length (filter (\<lambda>x. x < v) xs)"

lemma sorted_wrt_less_nth: "sorted_wrt (<) (xs :: int list) \<Longrightarrow> i \<le> j \<Longrightarrow> j < length xs \<Longrightarrow> xs ! i \<le> xs ! j"
  by (cases "i = j") (auto dest!: sorted_wrt_nth_less [of _ _ i j])

lemma rank_eqI:
  assumes "i \<le> length xs" and "\<And>j. j < i \<Longrightarrow> xs ! j < v" and "\<And>j. i \<le> j \<Longrightarrow> j < length xs \<Longrightarrow> v \<le> xs ! j"
  shows "rank v xs = i"
proof -
  have "filter (\<lambda>x. x < v) (take i xs) = take i xs"
    using assms(1,2) by (auto simp: filter_id_conv in_set_conv_nth)
  moreover have "filter (\<lambda>x. x < v) (drop i xs) = []"
    using assms(3) by (auto simp: filter_empty_conv in_set_conv_nth not_less)
  ultimately show ?thesis
    using assms(1) by (metis append_take_drop_id filter_append append_Nil2 length_take min.absorb2 rank_def)
qed

lemma rank_le: "rank v xs \<le> length xs"
  by (simp add: rank_def)

lemma rank_Cons:
  assumes "sorted_wrt (<) (x # xs)"
  shows "rank v (x # xs) = (if x < v then Suc (rank v xs) else 0)"
  using assms by (auto simp: rank_def filter_empty_conv)

lemma rank_split:
  assumes "sorted_wrt (<) xs"
  shows "(\<forall>x \<in> set (take (rank v xs) xs). x < v) \<and> (\<forall>x \<in> set (drop (rank v xs) xs). v \<le> x)"
  using assms
proof (induction xs)
  case (Cons x xs)
  then show ?case by (auto simp: rank_Cons)
qed simp

lemma sint_u32:
  assumes "0 \<le> a" and "a < 2 ^ 31"
  shows "sint (word_of_int a :: u32) = a"
proof -
  have "sint (word_of_int a :: u32) = signed_take_bit 31 a" by (simp only: sint_sbintrunc') simp
  also have "\<dots> = a" using assms by (intro signed_take_bit_int_eq_self) simp_all
  finally show ?thesis .
qed

lemma search_mid:
  assumes "0 \<le> a" and "a \<le> b" and "b < 2 ^ 31"
  shows "sint (drop_bit 1 (word_of_int a + word_of_int b :: u32)) = (a + b) div 2"
proof -
  have "uint (word_of_int a + word_of_int b :: u32) = a + b"
    using assms by (simp add: uint_word_ariths uint_word_of_int)
  then have "uint (drop_bit 1 (word_of_int a + word_of_int b :: u32)) = (a + b) div 2"
    by (simp add: drop_bit_eq_div uint_div)
  then have "drop_bit 1 (word_of_int a + word_of_int b :: u32) = word_of_int ((a + b) div 2)"
    by (metis word_of_int_uint)
  then show ?thesis using assms by (simp add: sint_u32)
qed

lemma search_loop_correct:
  assumes rep: "intset_rep is xs"
    and bounds: "0 \<le> mn" "mn \<le> mx + 1" "mx < int (length xs)" and cur: "mn \<le> mx \<or> cur \<noteq> v"
    and below: "\<forall>j < nat mn. xs ! j < v" and above: "\<forall>j < length xs. mx < int j \<longrightarrow> v < xs ! j"
  shows "\<exists>mn' mid' cur'. search_loop is v mn mx mid cur = Some (mn', mid', cur') \<and>
    (if cur' = v then v \<in> set xs \<and> mid' = int (rank v xs) else v \<notin> set xs \<and> mn' = int (rank v xs))"
  using bounds cur below above
proof (induction "nat (mx - mn + 1)" arbitrary: mn mx mid cur rule: less_induct)
  case less
  note sorted = intset_repD(5) [OF rep]
  show ?case
  proof (cases "mn \<le> mx")
    case False
    then have mx: "mx = mn - 1" using less.prems by linarith
    have r: "rank v xs = nat mn"
      using less.prems mx by (intro rank_eqI) (auto simp: less_imp_le nat_less_iff nat_le_iff)
    have "xs ! j \<noteq> v" if "j < length xs" for j
      using less.prems(5,6) that mx by (cases "j < nat mn") (auto simp: not_less)
    then have "v \<notin> set xs" by (auto simp: in_set_conv_nth)
    then show ?thesis using False r less.prems by (subst search_loop.simps) simp
  next
    case True
    define m where "m = (mn + mx) div 2"
    have m: "mn \<le> m" "m \<le> mx" "m = int (nat m)" "nat m < length xs"
      using True less.prems by (auto simp: m_def)
    have mid: "sint (drop_bit 1 (word_of_int mn + word_of_int mx :: u32)) = m"
      unfolding m_def using True less.prems intset_repD(4) [OF rep] by (intro search_mid) auto
    have get: "intsetGet_pos is m = Some (xs ! nat m)"
      using rep_get [OF rep m(4)] m(3) by simp
    have step: "search_loop is v mn mx mid cur =
      (if v > xs ! nat m then search_loop is v (m + 1) mx m (xs ! nat m)
       else if v < xs ! nat m then search_loop is v mn (m - 1) m (xs ! nat m)
       else Some (mn, m, xs ! nat m))"
      using True by (subst search_loop.simps) (simp only: mid get Let_def if_True Option.bind.bind_lunit)
    have lt: "xs ! j \<le> xs ! nat m" if "int j \<le> m" for j
      using sorted_wrt_less_nth [OF sorted, of j "nat m"] that m by auto
    have gt: "xs ! nat m \<le> xs ! j" if "m \<le> int j" "j < length xs" for j
      using sorted_wrt_less_nth [OF sorted, of "nat m" j] that m by auto
    consider "v > xs ! nat m" | "v < xs ! nat m" | "v = xs ! nat m" by linarith
    then show ?thesis
    proof cases
      case 1
      have "m + 1 \<le> mx \<or> xs ! nat m \<noteq> v" using 1 by simp
      moreover have "\<forall>j < nat (m + 1). xs ! j < v"
        using lt 1 by (auto simp: zless_nat_eq_int_zless intro: le_less_trans)
      ultimately have "\<exists>mn' mid' cur'. search_loop is v (m + 1) mx m (xs ! nat m) = Some (mn', mid', cur') \<and>
        (if cur' = v then v \<in> set xs \<and> mid' = int (rank v xs) else v \<notin> set xs \<and> mn' = int (rank v xs))"
        using less.prems m by (intro less.hyps) auto
      then show ?thesis using 1 by (simp only: step if_True)
    next
      case 2
      have "mn \<le> m - 1 \<or> xs ! nat m \<noteq> v" using 2 by simp
      moreover have "\<forall>j < length xs. m - 1 < int j \<longrightarrow> v < xs ! j"
        using gt 2 by (auto intro: less_le_trans)
      ultimately have "\<exists>mn' mid' cur'. search_loop is v mn (m - 1) m (xs ! nat m) = Some (mn', mid', cur') \<and>
        (if cur' = v then v \<in> set xs \<and> mid' = int (rank v xs) else v \<notin> set xs \<and> mn' = int (rank v xs))"
        using less.prems m by (intro less.hyps) auto
      then show ?thesis using 2 by (simp add: step)
    next
      case 3
      have "rank v xs = nat m"
      proof (rule rank_eqI)
        show "xs ! j < v" if "j < nat m" for j
          using sorted_wrt_nth_less [OF sorted that m(4)] 3 by simp
        show "v \<le> xs ! j" if "nat m \<le> j" "j < length xs" for j
          using gt [of j] that 3 by simp
      qed (use m in simp)
      then have "m = int (rank v xs)" using m by simp
      moreover have "search_loop is v mn mx mid cur = Some (mn, m, v)" unfolding step using 3 by simp
      moreover have "v \<in> set xs" using nth_mem [OF m(4)] 3 by simp
      ultimately show ?thesis by simp
    qed
  qed
qed

lemma intsetSearch_correct:
  assumes rep: "intset_rep is xs"
  shows "intsetSearch is v = Some (v \<in> set xs, of_nat (rank v xs))"
proof (cases "xs = []")
  case True
  then show ?thesis using intset_repD(2) [OF rep] by (simp add: intsetSearch_def rank_def)
next
  case False
  note D = intset_repD [OF rep]
  have len: "is_length is \<noteq> 0"
    using False rep by (auto simp: intset_rep_def)
  have "is_length is - 1 = word_of_int (int (length xs) - 1)"
    using D(2) by simp
  then have mx: "sint (is_length is - 1) = int (length xs) - 1"
    using sint_u32 [of "int (length xs) - 1"] False D(4) by (simp add: Suc_le_eq)
  have get: "intsetGet_pos is (int (length xs) - 1) = Some (last xs)" "intsetGet_pos is 0 = Some (hd xs)"
    using rep_get [OF rep, of "length xs - 1"] rep_get [OF rep, of 0] False
    by (auto simp: last_conv_nth hd_conv_nth of_nat_diff Suc_le_eq)
  have last: "x \<le> last xs" and hd: "hd xs \<le> x" if "x \<in> set xs" for x
    using that sorted_wrt_less_nth [OF D(5)] False
    by (auto simp: in_set_conv_nth last_conv_nth hd_conv_nth)
  have step: "intsetSearch is v =
    (if v > last xs then Some (False, is_length is) else if v < hd xs then Some (False, 0)
     else Option.bind (search_loop is v 0 (int (length xs) - 1) (- 1) (- 1))
       (\<lambda>(mn, mid, cur). Some (if v = cur then (True, word_of_int mid) else (False, word_of_int mn))))"
    using len by (simp only: intsetSearch_def mx get Let_def if_False Option.bind.bind_lunit)
  show ?thesis
  proof (cases "v > last xs \<or> v < hd xs")
    case True
    have "filter (\<lambda>x. x < v) xs = (if v > last xs then xs else [])"
    proof (cases "v > last xs")
      case gt: True
      then have "filter (\<lambda>x. x < v) xs = xs" using last by (fastforce simp: filter_id_conv)
      then show ?thesis using gt by simp
    next
      case le: False
      then have "filter (\<lambda>x. x < v) xs = []" using True hd by (fastforce simp: filter_empty_conv)
      then show ?thesis using le by simp
    qed
    then have "rank v xs = (if v > last xs then length xs else 0)" by (simp add: rank_def)
    then show ?thesis
      using True last [of v] hd [of v] D(2) by (auto simp: step)
  next
    case inside: False
    obtain mn mid cur where
      "search_loop is v 0 (int (length xs) - 1) (- 1) (- 1) = Some (mn, mid, cur)"
      "if cur = v then v \<in> set xs \<and> mid = int (rank v xs) else v \<notin> set xs \<and> mn = int (rank v xs)"
      using search_loop_correct [OF rep, of 0 "int (length xs) - 1" "- 1" v "- 1"] False by (auto simp: Suc_le_eq)
    then show ?thesis
      using inside by (auto simp: step split: if_splits)
  qed
qed

section \<open>Insertion and removal\<close>

lemma sorted_insert_rank:
  assumes "sorted_wrt (<) xs" and "v \<notin> set xs"
  shows "sorted_wrt (<) (take (rank v xs) xs @ v # drop (rank v xs) xs)"
    and "set (take (rank v xs) xs @ v # drop (rank v xs) xs) = insert v (set xs)"
proof -
  have split: "xs = take (rank v xs) xs @ drop (rank v xs) xs" by simp
  have "\<forall>x \<in> set (drop (rank v xs) xs). v < x"
    using rank_split [OF assms(1), of v] assms(2) by (metis in_set_dropD order_le_less)
  moreover have "\<forall>x \<in> set (take (rank v xs) xs). x < v" using rank_split [OF assms(1)] by blast
  moreover have "sorted_wrt (<) (take (rank v xs) xs @ drop (rank v xs) xs)" using assms(1) by simp
  ultimately show "sorted_wrt (<) (take (rank v xs) xs @ v # drop (rank v xs) xs)"
    unfolding sorted_wrt_append by (auto intro: less_trans)
  show "set (take (rank v xs) xs @ v # drop (rank v xs) xs) = insert v (set xs)"
    by (subst (3) split) (simp only: set_append list.set, blast)
qed

lemma rank_nth:
  assumes "sorted_wrt (<) xs" and "v \<in> set xs"
  shows "rank v xs < length xs" and "xs ! rank v xs = v"
proof -
  obtain i where i: "i < length xs" "xs ! i = v" using assms(2) by (auto simp: in_set_conv_nth)
  then have "rank v xs = i"
    using sorted_wrt_nth_less [OF assms(1), of _ i] sorted_wrt_less_nth [OF assms(1), of i]
    by (intro rank_eqI) auto
  then show "rank v xs < length xs" "xs ! rank v xs = v" using i by simp_all
qed

lemma sorted_remove_rank:
  assumes "sorted_wrt (<) xs" and "v \<in> set xs"
  shows "sorted_wrt (<) (take (rank v xs) xs @ drop (Suc (rank v xs)) xs)"
    and "set (take (rank v xs) xs @ drop (Suc (rank v xs)) xs) = set xs - {v}"
proof -
  let ?i = "rank v xs"
  have split: "xs = take ?i xs @ v # drop (Suc ?i) xs"
    using rank_nth [OF assms] by (metis id_take_nth_drop)
  have "sorted_wrt (<) (take ?i xs @ v # drop (Suc ?i) xs)" using assms(1) split by simp
  then have *: "sorted_wrt (<) (take ?i xs @ drop (Suc ?i) xs)" "v \<notin> set (take ?i xs)" "v \<notin> set (drop (Suc ?i) xs)"
    by (auto simp: sorted_wrt_append)
  then show "sorted_wrt (<) (take ?i xs @ drop (Suc ?i) xs)" by simp
  have "set xs = insert v (set (take ?i xs @ drop (Suc ?i) xs))" using arg_cong [OF split, of set] by simp
  then show "set (take ?i xs @ drop (Suc ?i) xs) = set xs - {v}" using * by auto
qed

lemma fits_mono:
  assumes "fits e v" and "e \<le> e'"
  shows "fits e' v"
proof -
  have "(256 :: int) ^ e \<le> 256 ^ e'" using assms(2) by (rule power_increasing) simp
  then show ?thesis using assms(1) unfolding fits_def by linarith
qed

lemma encoding_of_value:
  assumes "fits 8 v"
  shows "intsetValueEncoding v \<in> {INTSET_ENC_INT16, INTSET_ENC_INT32, INTSET_ENC_INT64}"
    and "e \<in> {2, 4, 8} \<Longrightarrow> enc_size (intsetValueEncoding v) \<le> e \<longleftrightarrow> fits e v"
  using assms by (auto simp: intsetValueEncoding_def enc_size_def enc_defs fits_def)

lemma encoding_le:
  assumes "intset_rep is xs" and "fits 8 v"
  shows "intsetValueEncoding v \<le> encoding is \<longleftrightarrow> fits (enc_size (encoding is)) v"
proof -
  have "intsetValueEncoding v \<le> encoding is \<longleftrightarrow> enc_size (intsetValueEncoding v) \<le> enc_size (encoding is)"
    using assms encoding_of_value(1) [OF assms(2)] by (auto simp: intset_rep_def enc_size_def enc_defs)
  then show ?thesis using encoding_of_value(2) [OF assms(2)] intset_repD(7) [OF assms(1)] by simp
qed

lemma intset_repI:
  assumes "encoding is \<in> {INTSET_ENC_INT16, INTSET_ENC_INT32, INTSET_ENC_INT64}"
    and "contents is = encode (enc_size (encoding is)) xs" and "is_length is = of_nat (length xs)"
    and "length xs * enc_size (encoding is) < 2 ^ 32"
    and "\<And>x. x \<in> set xs \<Longrightarrow> fits (enc_size (encoding is)) x" and "sorted_wrt (<) xs"
  shows "intset_rep is xs"
proof -
  have "length xs * 1 \<le> length xs * enc_size (encoding is)"
    by (intro mult_le_mono2) (simp add: enc_size_def)
  then have "length xs < 2 ^ 32" using assms(4) by linarith
  then have "unat (is_length is) = length xs"
    using assms(3) by (simp add: unat_of_nat)
  then show ?thesis using assms by (simp add: intset_rep_def list_all_iff)
qed

lemma intsetResize_size:
  assumes "encoding is = of_nat e" and "n * e < 2 ^ 32"
  shows "intsetResize is (of_nat n) =
    is\<lparr>contents := take (n * e) (contents is) @ replicate (n * e - length (contents is)) 0\<rparr>"
proof -
  have "unat (of_nat (n * e) :: u32) = n * e" using assms(2) by (simp only: unat_of_nat) simp
  then show ?thesis using assms(1) by (simp add: intsetResize_def Let_def)
qed

lemma encode_grow: "encode e xs @ replicate e 0 = encode e (xs @ [0])"
  by (simp add: le_bytes_zero)

lemma fits_zero: "fits e 0"
  by (simp add: fits_def)

lemma intsetResize_grow:
  assumes rep: "intset_rep is xs" and room: "Suc (length xs) * enc_size (encoding is) < 2 ^ 32"
  shows "intsetResize is (is_length is + 1) = is\<lparr>contents := encode (enc_size (encoding is)) (xs @ [0])\<rparr>"
proof -
  have "is_length is + 1 = of_nat (Suc (length xs))" using intset_repD(2) [OF rep] by simp
  then show ?thesis
    using intsetResize_size [OF intset_repD(6) [OF rep] room] intset_repD(1) [OF rep]
    by (simp add: le_bytes_zero add.commute)
qed

lemma intsetSet_encode:
  assumes "contents is = encode (enc_size (encoding is)) xs" and "i < length xs"
  shows "intsetSet is (int i) v = Some (is\<lparr>contents := encode (enc_size (encoding is)) (xs[i := v])\<rparr>)"
  using assms by (simp add: intsetSet_def store_encode)

lemma intsetMoveTail_encode:
  assumes "contents is = encode (enc_size (encoding is)) xs"
    and "from \<le> n" and "from + (n - from) \<le> length xs" "to + (n - from) \<le> length xs"
    and "is_length is = of_nat n" and "length xs * enc_size (encoding is) < 2 ^ 32"
  shows "intsetMoveTail is (of_nat from) (of_nat to) = Some (is\<lparr>contents :=
    encode (enc_size (encoding is)) (take to xs @ take (n - from) (drop from xs) @ drop (to + (n - from)) xs)\<rparr>)"
proof -
  let ?e = "enc_size (encoding is)"
  have le: "k * ?e < 2 ^ 32" "k < 2 ^ 32" if "k \<le> length xs" for k
  proof -
    have "k * ?e \<le> length xs * ?e" "length xs * 1 \<le> length xs * ?e"
      using that by (auto intro!: mult_le_mono simp: enc_size_def)
    then show "k * ?e < 2 ^ 32" "k < 2 ^ 32" using assms(6) that by linarith+
  qed
  have "(is_length is - of_nat from) * of_nat ?e = of_nat ((n - from) * ?e)"
    using assms(2,5) by (simp add: of_nat_diff)
  moreover have "unat (of_nat ((n - from) * ?e) :: u32) = (n - from) * ?e"
    using le(1) [of "n - from"] assms by (simp only: unat_of_nat) simp
  moreover have "unat (of_nat from :: u32) = from" "unat (of_nat to :: u32) = to"
    using le(2) [of "from"] le(2) [of to] assms by (simp_all only: unat_of_nat) simp_all
  ultimately show ?thesis
    using memmove_encode [OF assms(3,4), of ?e] assms(1) by (simp add: intsetMoveTail_def Let_def del: of_nat_mult)
qed

lemma intsetAdd_plain:
  assumes rep: "intset_rep is xs" and v: "fits (enc_size (encoding is)) v" "fits 8 v" "v \<notin> set xs"
    and room: "Suc (length xs) * enc_size (encoding is) < 2 ^ 32"
  shows "\<exists>is' ys. intsetAdd is v = Some (True, is') \<and> intset_rep is' ys \<and> set ys = insert v (set xs)"
proof -
  let ?e = "enc_size (encoding is)" and ?i = "rank v xs"
  let ?ys = "take ?i xs @ v # drop ?i xs"
  note D = intset_repD [OF rep]
  have i: "?i \<le> length xs" by (rule rank_le)
  have "Suc (length xs) < 2 ^ 31" using room D(7) by auto
  then have pos: "sint (of_nat ?i :: u32) = int ?i" "unat (of_nat ?i :: u32) = ?i" "unat (is_length is) = length xs"
    using sint_u32 [of "int ?i"] i D(2) by (simp_all add: unat_of_nat)
  define s where "s = is\<lparr>contents := encode ?e (xs @ [0])\<rparr>"
  have s: "intsetResize is (is_length is + 1) = s" "is_length s = is_length is"
    unfolding s_def using intsetResize_grow [OF rep room] by simp_all
  define zs where "zs = take (Suc ?i) (xs @ [0]) @ drop ?i xs"
  define u where "u = is\<lparr>contents := encode ?e zs\<rparr>"
  have u: "contents u = encode (enc_size (encoding u)) zs" "encoding u = encoding is" by (simp_all add: u_def)
  have zs: "zs[?i := v] = ?ys" "?i < length zs"
    using i take_Suc_conv_app_nth [of ?i "xs @ [0]"] by (simp_all add: zs_def list_update_append)
  have "intsetMoveTail s (of_nat ?i) (of_nat ?i + 1) = Some u" if "?i < length xs"
    using intsetMoveTail_encode [of s "xs @ [0]" ?i "length xs" "Suc ?i"] i room D(2) that
    by (simp add: s_def u_def zs_def add.commute)
  moreover have "s = u" if "\<not> ?i < length xs"
    using that i by (simp add: zs_def u_def s_def)
  ultimately have mv: "(if of_nat ?i < is_length is then intsetMoveTail s (of_nat ?i) (of_nat ?i + 1) else Some s) = Some u"
    using pos by (auto simp: word_less_nat_alt)
  define t where "t = is\<lparr>contents := encode ?e ?ys, is_length := is_length is + 1\<rparr>"
  have set: "intsetSet u (int ?i) v = Some (is\<lparr>contents := encode ?e ?ys\<rparr>)"
    using intsetSet_encode [OF u(1) zs(2)] u(2) zs(1) by (simp only:) (simp add: u_def)
  have "\<not> encoding is < intsetValueEncoding v"
    using v(1) encoding_le [OF rep v(2)] by auto
  then have "intsetAdd is v = Some (True, t)"
    using v(3)
    by (simp add: intsetAdd_def intsetSearch_correct [OF rep] s mv pos set t_def del: encode_simps)
  moreover have "intset_rep t ?ys"
    using sorted_insert_rank [OF D(5) v(3)] rep room v D(2,8) i
    by (intro intset_repI) (auto simp: t_def intset_rep_def)
  ultimately show ?thesis using sorted_insert_rank(2) [OF D(5) v(3)] by blast
qed

lemma intsetAdd_present:
  assumes "intset_rep is xs" and "fits 8 v" and "v \<in> set xs"
  shows "intsetAdd is v = Some (False, is)"
  using assms encoding_le [OF assms(1,2)] intset_repD(8) [OF assms(1)]
  by (simp add: intsetAdd_def not_less intsetSearch_correct)

lemma intsetFind_correct:
  assumes "intset_rep is xs" and "fits 8 v"
  shows "intsetFind is v = Some (v \<in> set xs)"
  using encoding_le [OF assms] intset_repD(8) [OF assms(1)]
  by (auto simp: intsetFind_def intsetSearch_correct [OF assms(1)])

lemma intsetRemove_absent:
  assumes "intset_rep is xs" and "v \<notin> set xs"
  shows "intsetRemove is v = Some (False, is)"
  using assms by (simp add: intsetRemove_def intsetSearch_correct)

lemma intsetRemove_present:
  assumes rep: "intset_rep is xs" and v: "fits 8 v" "v \<in> set xs"
  shows "\<exists>is' ys. intsetRemove is v = Some (True, is') \<and> intset_rep is' ys \<and> set ys = set xs - {v}"
proof -
  let ?e = "enc_size (encoding is)" and ?i = "rank v xs"
  let ?ys = "take ?i xs @ drop (Suc ?i) xs"
  note D = intset_repD [OF rep]
  have i: "?i < length xs" by (rule rank_nth(1) [OF D(5) v(2)])
  have len: "is_length is - 1 = of_nat (length xs - 1)" using D(2) i by (simp add: of_nat_diff)
  have pos: "unat (of_nat ?i :: u32) = ?i" "unat (of_nat (length xs - 1) :: u32) = length xs - 1"
    using i D(4) by (simp_all only: unat_of_nat) simp_all
  define zs where "zs = ?ys @ drop (length xs - 1) xs"
  have zs: "length zs = length xs" "take (length xs - 1) zs = ?ys" using i by (auto simp: zs_def)
  have "intsetMoveTail is (of_nat ?i + 1) (of_nat ?i) = Some (is\<lparr>contents := encode ?e zs\<rparr>)"
    using intsetMoveTail_encode [of "is" xs "Suc ?i" "length xs" ?i] i D(1,2,3)
    by (simp add: add.commute zs_def)
  moreover have "zs = xs" if "\<not> ?i < length xs - 1"
  proof -
    have "?i = length xs - 1" using that i by linarith
    then show ?thesis using i by (simp add: zs_def)
  qed
  ultimately have mv: "(if of_nat ?i < is_length is - 1 then intsetMoveTail is (of_nat ?i + 1) (of_nat ?i) else Some is) =
      Some (is\<lparr>contents := encode ?e zs\<rparr>)"
    using pos D(1) by (auto simp: word_less_nat_alt len)
  have size: "(length xs - 1) * ?e < 2 ^ 32"
    using D(3) by (meson diff_le_self le_less_trans mult_le_mono1)
  define t where "t = is\<lparr>contents := encode ?e ?ys, is_length := is_length is - 1\<rparr>"
  have "intsetResize (is\<lparr>contents := encode ?e zs\<rparr>) (is_length is - 1) = is\<lparr>contents := encode ?e ?ys\<rparr>"
    using intsetResize_size [OF _ size, of "is\<lparr>contents := encode ?e zs\<rparr>"] D(6) zs
    by (simp add: len)
  then have "intsetRemove is v = Some (True, t)"
    using v encoding_le [OF rep v(1)] mv D(8) [OF v(2)]
    by (simp add: intsetRemove_def intsetSearch_correct [OF rep] t_def Let_def)
  moreover have "intset_rep t ?ys"
    using sorted_remove_rank [OF D(5) v(2)] rep size D(8) i len
    by (intro intset_repI) (auto simp: t_def intset_rep_def)
  ultimately show ?thesis using sorted_remove_rank(2) [OF D(5) v(2)] by blast
qed

section \<open>Changing the encoding\<close>

text \<open>
  The loop rewrites the block from its end: when positions from \<open>k\<close> on are done, the elements
  before \<open>k\<close> are still there in the old encoding, in front of the space the new ones need.
\<close>

definition upgrading :: "nat \<Rightarrow> nat \<Rightarrow> nat \<Rightarrow> int list \<Rightarrow> nat \<Rightarrow> bytes \<Rightarrow> bool" where
  "upgrading e e' p xs k c \<longleftrightarrow>
     (\<exists>pre post. c = pre @ encode e' (drop k xs) @ post \<and> length pre = (k + p) * e' \<and>
        length post = (1 - p) * e' \<and> take (k * e) pre = encode e (take k xs))"

lemma upgrading_get:
  assumes "upgrading e e' p xs (Suc k) c" and "e \<le> e'" and "k < length xs" and "fits e (xs ! k)"
  shows "load c (k * e) e = Some (xs ! k)"
proof -
  obtain pre post where c: "c = pre @ post" "length pre = (Suc k + p) * e'"
    "take (Suc k * e) pre = encode e (take (Suc k) xs)"
    using assms(1) by (auto simp: upgrading_def)
  have "Suc k * e \<le> (Suc k + p) * e'" using assms(2) by (intro mult_le_mono) auto
  then have "pre = encode e (take (Suc k) xs) @ drop (Suc k * e) pre"
    using c(3) by (metis append_take_drop_id)
  then have "c = encode e (take (Suc k) xs) @ drop (Suc k * e) pre @ post" using c(1) by (metis append.assoc)
  then show ?thesis using load_encode [of k "take (Suc k) xs" e] assms(3,4) by simp
qed

lemma upgrading_set:
  assumes "upgrading e e' p xs (Suc k) c" and "e \<le> e'" and "k < length xs"
  shows "\<exists>c'. store c ((k + p) * e') e' (xs ! k) = Some c' \<and> upgrading e e' p xs k c'"
proof -
  obtain pre post where c: "c = pre @ encode e' (drop (Suc k) xs) @ post" "length pre = (Suc k + p) * e'"
    "length post = (1 - p) * e'" "take (Suc k * e) pre = encode e (take (Suc k) xs)"
    using assms(1) by (auto simp: upgrading_def)
  let ?pre = "take ((k + p) * e') pre"
  let ?c = "?pre @ encode e' (drop k xs) @ post"
  have len: "length pre = (k + p) * e' + e'" using c(2) by simp
  have "store c ((k + p) * e') e' (xs ! k) = Some ?c"
    using c(1) len Cons_nth_drop_Suc [OF assms(3), symmetric] by (simp add: store_def)
  moreover have "take (k * e) ?pre = encode e (take k xs)"
  proof -
    have "k * e \<le> (k + p) * e'" using assms(2) by (intro mult_le_mono) auto
    then have "take (k * e) ?pre = take (k * e) (take (Suc k * e) pre)" by (simp add: min_def)
    also have "\<dots> = encode e (take k (take (Suc k) xs))" by (simp only: c(4) take_encode)
    finally show ?thesis by simp
  qed
  ultimately show ?thesis
    using c(3) len unfolding upgrading_def
    by (intro exI [of _ ?c] conjI exI [of _ ?pre] exI [of _ post]) auto
qed

lemma upgrade_loop:
  assumes "upgrading (enc_size curenc) (enc_size (encoding is)) p xs k (contents is)"
    and "enc_size curenc \<le> enc_size (encoding is)" and "k \<le> length xs" and "\<forall>x \<in> set xs. fits (enc_size curenc) x"
  shows "\<exists>c. for_each (rev [0..<k]) (upgrade_step curenc (int p)) is = Some (is\<lparr>contents := c\<rparr>) \<and>
    upgrading (enc_size curenc) (enc_size (encoding is)) p xs 0 c"
  using assms(1-3)
proof (induction k arbitrary: "is")
  case 0
  then show ?case by (intro exI [of _ "contents is"]) simp
next
  case (Suc k)
  have "load (contents is) (k * enc_size curenc) (enc_size curenc) = Some (xs ! k)"
    using upgrading_get [OF Suc.prems(1,2)] Suc.prems(3) assms(4) by auto
  moreover obtain c where c: "store (contents is) ((k + p) * enc_size (encoding is)) (enc_size (encoding is)) (xs ! k) = Some c"
    "upgrading (enc_size curenc) (enc_size (encoding is)) p xs k c"
    using upgrading_set [OF Suc.prems(1,2)] Suc.prems(3) by auto
  moreover have "nat (int k + int p) = k + p" by simp
  ultimately have "upgrade_step curenc (int p) k is = Some (is\<lparr>contents := c\<rparr>)"
    by (simp add: upgrade_step_def intsetGetEncoded_def intsetSet_def)
  then show ?case using Suc.IH [of "is\<lparr>contents := c\<rparr>"] c(2) Suc.prems by simp
qed

text \<open>A value of another encoding is below all elements or above them all.\<close>

lemma beyond_elements:
  assumes "fits e x" and "\<not> fits e v"
  shows "if v < 0 then v < x else x < v"
  using assms by (auto simp: fits_def)

lemma intsetUpgradeAndAdd_correct:
  assumes rep: "intset_rep is xs" and v: "fits 8 v" "\<not> fits (enc_size (encoding is)) v"
    and room: "Suc (length xs) * enc_size (intsetValueEncoding v) < 2 ^ 32"
  shows "\<exists>is' ys. intsetUpgradeAndAdd is v = Some is' \<and> intset_rep is' ys \<and> set ys = insert v (set xs)"
proof -
  let ?e = "enc_size (encoding is)" and ?enc = "intsetValueEncoding v"
  let ?e' = "enc_size ?enc"
  define p where "p = (if v < 0 then 1 else 0 :: nat)"
  note D = intset_repD [OF rep]
  have enc: "?enc = of_nat ?e'" "?e' \<in> {2, 4, 8}"
    using encoding_of_value(1) [OF v(1)] by (auto simp: enc_size_def enc_defs)
  have wide: "?e \<le> ?e'" and fits: "fits ?e' v"
    using encoding_of_value(2) [OF v(1) D(7)] encoding_of_value(2) [OF v(1) enc(2)] v(2) by auto
  define is0 where "is0 = intsetResize (is\<lparr>encoding := ?enc\<rparr>) (is_length is + 1)"
  have suc: "is_length is + 1 = of_nat (Suc (length xs))" using D(2) by simp
  define c0 where "c0 = encode ?e xs @ replicate (Suc (length xs) * ?e' - length xs * ?e) 0"
  have le: "length xs * ?e \<le> (length xs + p) * ?e'" "(length xs + p) * ?e' \<le> Suc (length xs) * ?e'"
    using wide by (intro mult_le_mono; simp add: p_def)+
  have is0: "is0 = is\<lparr>encoding := ?enc, contents := c0\<rparr>"
    unfolding is0_def suc using intsetResize_size [OF _ room, of "is\<lparr>encoding := ?enc\<rparr>"] enc(1) D(1) le
    by (simp add: c0_def)
  have start: "upgrading ?e ?e' p xs (length xs) c0"
  proof -
    define n where "n = (length xs + p) * ?e'"
    have c0: "length c0 = Suc (length xs) * ?e'" "n + (1 - p) * ?e' = Suc (length xs) * ?e'"
      using le by (simp_all add: c0_def n_def p_def)
    have "take (length xs * ?e) (take n c0) = encode ?e (take (length xs) xs)"
      using le(1) by (simp add: c0_def n_def [symmetric] min_absorb1)
    then show ?thesis
      using c0 unfolding upgrading_def
      by (intro exI [of _ "take n c0"] exI [of _ "drop n c0"]) (simp add: n_def [symmetric])
  qed
  have len: "sint (is_length is) = int (length xs)" "unat (is_length is) = length xs"
    using sint_u32 [of "int (length xs)"] D(2,4) by (simp_all add: unat_of_nat)
  obtain c where loop: "for_each (rev [0..<length xs]) (upgrade_step (encoding is) (int p)) is0 = Some (is0\<lparr>contents := c\<rparr>)"
    and c: "upgrading ?e ?e' p xs 0 c"
    using upgrade_loop [of "encoding is" is0 p xs "length xs"] start wide D(8) is0 by auto
  define ys where "ys = (if v < 0 then v # xs else xs @ [v])"
  have "store c (p' * ?e') ?e' v = Some (encode ?e' ys)" if "p' = (if v < 0 then 0 else length xs)" for p'
    using c that by (auto simp: upgrading_def store_def ys_def p_def)
  then have set: "(if (if v < 0 then 1 else 0) = (1 :: int) then intsetSet (is0\<lparr>contents := c\<rparr>) 0 v
      else intsetSet (is0\<lparr>contents := c\<rparr>) (int (length xs)) v) = Some (is0\<lparr>contents := encode ?e' ys\<rparr>)"
    by (cases "v < 0") (simp_all add: intsetSet_def is0)
  define t where "t = is0\<lparr>contents := encode ?e' ys, is_length := is_length is + 1\<rparr>"
  have "(if v < 0 then 1 else 0) = int p" by (simp add: p_def)
  then have "intsetUpgradeAndAdd is v = Some t"
    using loop set len
    by (cases "int p = 1") (simp_all add: intsetUpgradeAndAdd_def Let_def is0_def [symmetric] t_def is0 del: of_nat_eq_1_iff)
  moreover have "intset_rep t ys"
  proof (rule intset_repI)
    have "\<forall>x \<in> set xs. if v < 0 then v < x else x < v" using D(8) beyond_elements v(2) by blast
    then show "sorted_wrt (<) ys" using D(5) by (auto simp: ys_def sorted_wrt_append)
    show "fits (enc_size (encoding t)) x" if "x \<in> set ys" for x
      using that fits fits_mono [OF D(8) wide] by (auto simp: t_def is0 ys_def split: if_splits)
  qed (use encoding_of_value(1) [OF v(1)] suc room in \<open>auto simp: t_def is0 ys_def\<close>)
  moreover have "set ys = insert v (set xs)" by (simp add: ys_def)
  ultimately show ?thesis by blast
qed

section \<open>A set of integers\<close>

text \<open>
  What users of the type rely on: a finite set whose operations may be undefined, as memory
  allows, where an insertion succeeds below a number of elements.
\<close>

locale bounded_set =
  fixes empty :: 's
    and insert_elem :: "'s \<Rightarrow> 'a \<Rightarrow> (bool \<times> 's) option"
    and delete :: "'s \<Rightarrow> 'a \<Rightarrow> (bool \<times> 's) option"
    and member :: "'s \<Rightarrow> 'a \<Rightarrow> bool option"
    and set_of :: "'s \<Rightarrow> 'a set"
    and inv :: "'s \<Rightarrow> bool"
    and valid :: "'a \<Rightarrow> bool"
    and cap :: nat
  assumes empty: "inv empty" "set_of empty = {}"
    and finite_set: "inv s \<Longrightarrow> finite (set_of s)"
    and insert_elem: "inv s \<Longrightarrow> valid x \<Longrightarrow> card (set_of s) < cap \<Longrightarrow>
      \<exists>s'. insert_elem s x = Some (x \<notin> set_of s, s') \<and> inv s' \<and> set_of s' = insert x (set_of s)"
    and delete: "inv s \<Longrightarrow> valid x \<Longrightarrow>
      \<exists>s'. delete s x = Some (x \<in> set_of s, s') \<and> inv s' \<and> set_of s' = set_of s - {x}"
    and member: "inv s \<Longrightarrow> valid x \<Longrightarrow> member s x = Some (x \<in> set_of s)"
begin

lemma insert_all:
  assumes "inv s" and "list_all valid xs" and "card (set_of s) + length xs \<le> cap"
  shows "\<exists>s'. for_each xs (\<lambda>x s. map_option snd (insert_elem s x)) s = Some s' \<and> inv s' \<and> set_of s' = set_of s \<union> set xs"
  using assms
proof (induction xs arbitrary: s)
  case (Cons x xs)
  then obtain t where t: "insert_elem s x = Some (x \<notin> set_of s, t)" "inv t" "set_of t = insert x (set_of s)"
    using insert_elem [of s x] by auto
  have "card (set_of t) + length xs \<le> cap"
    using t(3) Cons.prems finite_set [OF Cons.prems(1)] card_insert_le_m1 by (auto simp: card_insert_if)
  then show ?case using Cons.IH [OF t(2)] Cons.prems(2) t by auto
qed simp

lemma insert_then_delete:
  assumes "inv s" and "valid x" and "card (set_of s) < cap" and "x \<notin> set_of s"
  shows "\<exists>s' s''. insert_elem s x = Some (True, s') \<and> delete s' x = Some (True, s'') \<and> inv s'' \<and> set_of s'' = set_of s"
proof -
  obtain t where t: "insert_elem s x = Some (True, t)" "inv t" "set_of t = insert x (set_of s)"
    using insert_elem [OF assms(1-3)] assms(4) by auto
  then show ?thesis using delete [OF t(2) assms(2)] assms(4) by auto
qed

lemma built_member:
  assumes "list_all valid xs" and "length xs \<le> cap" and "valid y"
  shows "Option.bind (for_each xs (\<lambda>x s. map_option snd (insert_elem s x)) empty) (\<lambda>s. member s y) = Some (y \<in> set xs)"
  using insert_all [OF empty(1) assms(1)] assms(2,3) empty(2) member by auto

end

definition int64 :: "int \<Rightarrow> bool" where
  "int64 v \<longleftrightarrow> - (2 ^ 63) \<le> v \<and> v < 2 ^ 63"

lemma int64_fits: "int64 v \<longleftrightarrow> fits 8 v"
  by (auto simp: int64_def fits_def)

text \<open>
  A set takes a new element when the block with one more element, in the encoding that the
  result has, stays below \<open>2 ^ 32\<close> bytes.
\<close>

definition room_for :: "intset \<Rightarrow> int \<Rightarrow> bool" where
  "room_for is v \<longleftrightarrow>
     Suc (unat (is_length is)) * max (enc_size (encoding is)) (enc_size (intsetValueEncoding v)) < 2 ^ 32"

lemma intsetAdd_new:
  assumes rep: "intset_rep is xs" and v: "fits 8 v" "v \<notin> set xs" and room: "room_for is v"
  shows "\<exists>is' ys. intsetAdd is v = Some (True, is') \<and> intset_rep is' ys \<and> set ys = insert v (set xs)"
proof (cases "fits (enc_size (encoding is)) v")
  case True
  then have "enc_size (intsetValueEncoding v) \<le> enc_size (encoding is)"
    using encoding_of_value(2) [OF v(1) intset_repD(7) [OF rep]] by simp
  then show ?thesis
    using intsetAdd_plain [OF rep True v] room rep by (simp add: room_for_def intset_rep_def max_def)
next
  case False
  then have "enc_size (encoding is) \<le> enc_size (intsetValueEncoding v)" "encoding is < intsetValueEncoding v"
    using encoding_of_value(2) [OF v(1) intset_repD(7) [OF rep]] encoding_le [OF rep v(1)] by auto
  then show ?thesis
    using intsetUpgradeAndAdd_correct [OF rep v(1) False] room rep
    by (auto simp: intsetAdd_def room_for_def intset_rep_def max_def)
qed

lemma intset_inv_rep: "intset_inv is \<Longrightarrow> intset_rep is (elements is)"
  by (simp add: intset_inv_def)

lemma intsetNew_rep: "intset_rep intsetNew []"
  by (simp add: intset_rep_def intsetNew_def)

lemma intset_insert:
  assumes "intset_inv is" and "int64 v" and "room_for is v"
  shows "\<exists>is'. intsetAdd is v = Some (v \<notin> set (elements is), is') \<and> intset_inv is' \<and>
    set (elements is') = insert v (set (elements is))"
proof (cases "v \<in> set (elements is)")
  case True
  then show ?thesis
    using assms intsetAdd_present [OF intset_inv_rep] by (auto simp: int64_fits)
next
  case False
  then obtain is' ys where "intsetAdd is v = Some (True, is')" "intset_rep is' ys" "set ys = insert v (set (elements is))"
    using assms intsetAdd_new [OF intset_inv_rep [OF assms(1)], of v] by (auto simp: int64_fits)
  then show ?thesis using False by (auto simp: elements_rep intset_inv_iff)
qed

lemma intset_delete:
  assumes "intset_inv is" and "int64 v"
  shows "\<exists>is'. intsetRemove is v = Some (v \<in> set (elements is), is') \<and> intset_inv is' \<and>
    set (elements is') = set (elements is) - {v}"
proof (cases "v \<in> set (elements is)")
  case True
  then obtain is' ys where "intsetRemove is v = Some (True, is')" "intset_rep is' ys" "set ys = set (elements is) - {v}"
    using assms intsetRemove_present [OF intset_inv_rep [OF assms(1)], of v] by (auto simp: int64_fits)
  then show ?thesis using True by (auto simp: elements_rep intset_inv_iff)
next
  case False
  then show ?thesis using assms intsetRemove_absent [OF intset_inv_rep] by auto
qed

lemma card_elements: "intset_inv is \<Longrightarrow> card (set (elements is)) = unat (is_length is)"
  using strict_sorted_iff distinct_card by (fastforce simp: intset_inv_def intset_rep_def)

interpretation intsets: bounded_set intsetNew intsetAdd intsetRemove intsetFind "\<lambda>is. set (elements is)"
  intset_inv int64 "2 ^ 29 - 1"
proof unfold_locales
  show "intset_inv intsetNew" "set (elements intsetNew) = {}"
    using intsetNew_rep by (auto simp: intset_inv_iff elements_rep)
  show "intsetFind s x = Some (x \<in> set (elements s))" if "intset_inv s" "int64 x" for s x
    using that intsetFind_correct [OF intset_inv_rep] by (simp add: int64_fits)
  show "\<exists>s'. intsetAdd s x = Some (x \<notin> set (elements s), s') \<and> intset_inv s' \<and> set (elements s') = insert x (set (elements s))"
    if "intset_inv s" "int64 x" "card (set (elements s)) < 2 ^ 29 - 1" for s x
  proof (rule intset_insert)
    have "max (enc_size (encoding s)) (enc_size (intsetValueEncoding x)) \<le> 8"
      by (simp add: enc_size_def)
    then have "Suc (unat (is_length s)) * max (enc_size (encoding s)) (enc_size (intsetValueEncoding x)) \<le> Suc (unat (is_length s)) * 8"
      by (rule mult_le_mono2)
    then show "room_for s x" using that card_elements by (simp add: room_for_def)
  qed (use that in simp_all)
qed (auto simp: intset_delete)

section \<open>The size of the block wraps\<close>

lemma resize_wraps:
  assumes "encoding is = INTSET_ENC_INT64" and "is_length is = 2 ^ 29 - 1"
  shows "intsetResize is (is_length is + 1) = is\<lparr>contents := []\<rparr>"
  using assms by (simp add: intsetResize_def enc_defs)

lemma intsetAdd_wraps:
  assumes rep: "intset_rep is xs" and enc: "encoding is = INTSET_ENC_INT64" and len: "is_length is = 2 ^ 29 - 1"
    and v: "fits 8 v" "v \<notin> set xs"
  shows "intsetAdd is v = None"
proof -
  have e: "enc_size (encoding is) = 8" using enc by (simp add: enc_size_def)
  have n: "length xs = 2 ^ 29 - 1" using rep len by (simp add: intset_rep_def)
  have i: "rank v xs \<le> 2 ^ 29 - 1" using rank_le [of v xs] n by simp
  have pos: "unat (of_nat (rank v xs) :: u32) = rank v xs" using i by (simp add: unat_of_nat)
  have set: "intsetSet (is\<lparr>contents := []\<rparr>) p v = None" for p
    using e by (simp add: intsetSet_def store_def)
  have move: "intsetMoveTail (is\<lparr>contents := []\<rparr>) (of_nat (rank v xs)) to = None" if "rank v xs < 2 ^ 29 - 1" for to
  proof -
    have "(is_length is - of_nat (rank v xs)) * 8 = of_nat ((2 ^ 29 - 1 - rank v xs) * 8)"
      using that len by (simp add: of_nat_diff)
    moreover have "unat (of_nat ((2 ^ 29 - 1 - rank v xs) * 8) :: u32) = (2 ^ 29 - 1 - rank v xs) * 8"
      using that by (simp only: unat_of_nat) simp
    ultimately show ?thesis using that e by (simp add: intsetMoveTail_def memmove_def Let_def)
  qed
  have "\<not> encoding is < intsetValueEncoding v"
    using encoding_le [OF rep v(1)] v(1) e by auto
  moreover have "rank v xs < 2 ^ 29 - 1" if "(of_nat (rank v xs) :: u32) < is_length is"
    using that len pos by (simp add: word_less_nat_alt)
  ultimately show ?thesis
    using v(2) move set
    by (auto simp: intsetAdd_def intsetSearch_correct [OF rep] resize_wraps [OF enc len] Let_def)
qed

lemma full_set:
  assumes "n * 8 < 2 ^ 32"
  shows "\<exists>is. intset_rep is (map int [0..<n]) \<and> encoding is = INTSET_ENC_INT64 \<and> is_length is = of_nat n"
proof -
  let ?is = "\<lparr>encoding = INTSET_ENC_INT64, is_length = of_nat n, contents = encode 8 (map int [0..<n])\<rparr>"
  have "intset_rep ?is (map int [0..<n])"
    using assms by (intro intset_repI) (auto simp: enc_size_def fits_def sorted_wrt_map)
  then show ?thesis by (intro exI [of _ ?is]) simp
qed

text \<open>The set of 1, 5 and 300, as it lies in memory.\<close>

definition sample_set :: intset where
  "sample_set = \<lparr>encoding = INTSET_ENC_INT16, is_length = 3, contents = [1, 0, 5, 0, 44, 1]\<rparr>"

lemma sample_set_rep: "intset_rep sample_set [1, 5, 300]"
proof -
  have "encode 2 [1, 5, 300] = [1, 0, 5, 0, 44, 1]"
    by (simp add: le_bytes_def upt_conv_Cons)
  then show ?thesis
    by (intro intset_repI) (auto simp: sample_set_def enc_size_def enc_defs fits_def)
qed

lemma sample_set_inv: "intset_inv sample_set" "elements sample_set = [1, 5, 300]"
  using sample_set_rep by (auto simp: intset_inv_iff elements_rep)

end
