(* ===== verification/Sds.thy ===== *)
theory Sds
  imports CommandKeys Numbers
begin

text \<open>
  Strings of \<open>sds.c\<close> that lines of text are made of: quoting a string, cutting a line into
  arguments, and cutting a string. A line is a C string, so that it ends at its first NUL.
\<close>

section \<open>Quoting and splitting\<close>

definition isprint :: "byte \<Rightarrow> bool" where
  "isprint b \<longleftrightarrow> 32 \<le> b \<and> b < 127"

text \<open>The two digits of \<open>%02x\<close>.\<close>

definition hexchar :: "nat \<Rightarrow> byte" where
  "hexchar n = of_nat (if n < 10 then 48 + n else 87 + n)"

definition repr_byte :: "byte \<Rightarrow> bytes" where
  "repr_byte b =
     (if b = 92 \<or> b = 34 then [92, b]
      else if b = 10 then [92, 110]
      else if b = 13 then [92, 114]
      else if b = 9 then [92, 116]
      else if b = 7 then [92, 97]
      else if b = 8 then [92, 98]
      else if isprint b then [b]
      else [92, 120, hexchar (unat b div 16), hexchar (unat b mod 16)])"

definition sdscatrepr :: "bytes \<Rightarrow> bytes \<Rightarrow> bytes" where
  "sdscatrepr s p = s @ 34 # concat (map repr_byte p) @ [34]"

definition is_hex_digit :: "byte \<Rightarrow> bool" where
  "is_hex_digit c \<longleftrightarrow> (48 \<le> c \<and> c \<le> 57) \<or> (97 \<le> c \<and> c \<le> 102) \<or> (65 \<le> c \<and> c \<le> 70)"

definition hex_digit_to_int :: "byte \<Rightarrow> nat" where
  "hex_digit_to_int c =
     (if 48 \<le> c \<and> c \<le> 57 then unat c - 48
      else if 97 \<le> c \<and> c \<le> 102 then unat c - 87
      else if 65 \<le> c \<and> c \<le> 70 then unat c - 55
      else 0)"

definition unescape :: "byte \<Rightarrow> byte" where
  "unescape c =
     (if c = 110 then 10 else if c = 114 then 13 else if c = 116 then 9
      else if c = 98 then 8 else if c = 97 then 7 else c)"

text \<open>
  A token, inside double quotes, inside single quotes and outside: the characters
  collected so far and the rest of the line. The results are the token and the line after
  the character that ended it; \<open>None\<close> is the jump to \<open>err\<close>. A closing quote must be
  followed by a space or the end.
\<close>

definition quote_closed :: "bytes \<Rightarrow> bool" where
  "quote_closed p \<longleftrightarrow> p = [] \<or> isspace (hd p)"

fun in_quotes :: "bytes \<Rightarrow> bytes \<Rightarrow> (bytes \<times> bytes) option" where
  "in_quotes cur [] = None"
| "in_quotes cur (c # p) =
     (if c = 92 \<and> length p \<ge> 3 \<and> p ! 0 = 120 \<and> is_hex_digit (p ! 1) \<and> is_hex_digit (p ! 2)
      then in_quotes (cur @ [of_nat (hex_digit_to_int (p ! 1) * 16 + hex_digit_to_int (p ! 2))]) (drop 3 p)
      else if c = 92 \<and> p \<noteq> [] then in_quotes (cur @ [unescape (hd p)]) (tl p)
      else if c = 34 then (if quote_closed p then Some (cur, p) else None)
      else in_quotes (cur @ [c]) p)"

fun in_single_quotes :: "bytes \<Rightarrow> bytes \<Rightarrow> (bytes \<times> bytes) option" where
  "in_single_quotes cur [] = None"
| "in_single_quotes cur (c # p) =
     (if c = 92 \<and> p \<noteq> [] \<and> hd p = 39 then in_single_quotes (cur @ [39]) (tl p)
      else if c = 39 then (if quote_closed p then Some (cur, p) else None)
      else in_single_quotes (cur @ [c]) p)"

fun split_token :: "bytes \<Rightarrow> bytes \<Rightarrow> (bytes \<times> bytes) option" where
  "split_token cur [] = Some (cur, [])"
| "split_token cur (c # p) =
     (if c = 32 \<or> c = 10 \<or> c = 13 \<or> c = 9 then Some (cur, p)
      else if c = 34 then in_quotes cur p
      else if c = 39 then in_single_quotes cur p
      else split_token (cur @ [c]) p)"

lemma in_quotes_length: "in_quotes cur p = Some (t, r) \<Longrightarrow> length r < length p"
  by (induction cur p rule: in_quotes.induct) (auto split: if_splits)

lemma in_single_quotes_length: "in_single_quotes cur p = Some (t, r) \<Longrightarrow> length r < length p"
  by (induction cur p rule: in_single_quotes.induct) (auto split: if_splits)

lemma split_token_length: "split_token cur p = Some (t, r) \<Longrightarrow> p \<noteq> [] \<Longrightarrow> length r < length p"
proof (induction cur p rule: split_token.induct)
  case (2 cur c p)
  then show ?case
    by (cases "p = []") (auto split: if_splits dest: in_quotes_length in_single_quotes_length)
qed simp

function split_args :: "bytes \<Rightarrow> bytes list option" where
  "split_args line =
     (let p = dropWhile isspace line
      in if p = [] then Some []
         else case split_token [] p of
                None \<Rightarrow> None
              | Some (tok, r) \<Rightarrow> map_option (Cons tok) (split_args r))"
  by pat_completeness auto
termination
proof (relation "measure length")
  fix line p x2 tok r
  assume "p = dropWhile isspace line" "p \<noteq> []" "split_token [] p = Some x2" "(tok, r) = x2"
  then have "length r < length (dropWhile isspace line)" using split_token_length by metis
  then show "(r, line) \<in> measure length" by (simp add: less_le_trans [OF _ length_dropWhile_le])
qed simp

declare split_args.simps [simp del]

definition sdssplitargs :: "bytes \<Rightarrow> bytes list option" where
  "sdssplitargs line = split_args (takeWhile (\<lambda>b. b \<noteq> 0) line)"

section \<open>Substrings\<close>

text \<open>\<open>ssize_t\<close> arithmetic; the length of a string is below \<open>2 ^ 63\<close>.\<close>

definition sdsrange :: "bytes \<Rightarrow> int \<Rightarrow> int \<Rightarrow> bytes" where
  "sdsrange s start stop =
     (let len = int (length s)
      in if len = 0 then s
         else
           let start = (if start < 0 then max 0 (len + start) else start);
               stop = (if stop < 0 then max 0 (len + stop) else stop);
               newlen = (if start > stop then 0 else stop - start + 1);
               (start, newlen) =
                 (if newlen \<noteq> 0
                  then if start \<ge> len then (start, 0)
                       else if stop \<ge> len then (start, if start > len - 1 then 0 else len - 1 - start + 1)
                       else (start, newlen)
                  else (0, newlen))
           in take (nat newlen) (drop (nat start) s))"

section \<open>Quoted strings are read back\<close>

lemma hexchar_digit:
  assumes "n < 16"
  shows "is_hex_digit (hexchar n)" and "hex_digit_to_int (hexchar n) = n"
proof -
  have "list_all (\<lambda>n. is_hex_digit (hexchar n) \<and> hex_digit_to_int (hexchar n) = n) [0..<16]"
    by code_simp
  then show "is_hex_digit (hexchar n)" "hex_digit_to_int (hexchar n) = n"
    using assms by (simp_all add: list_all_iff)
qed

lemma hex_halves:
  "unat (b :: byte) div 16 < 16" "unat b mod 16 < 16" "of_nat (unat b div 16 * 16 + unat b mod 16) = b"
proof -
  have "unat b < 2 ^ LENGTH(8)" by (rule unsigned_less)
  then show "unat b div 16 < 16" "unat b mod 16 < 16" by auto
  show "of_nat (unat b div 16 * 16 + unat b mod 16) = b" by (simp only: div_mult_mod_eq) simp
qed

lemma in_quotes_hex:
  "in_quotes cur (92 # 120 # hexchar (unat b div 16) # hexchar (unat b mod 16) # r) = in_quotes (cur @ [b]) r"
  by (subst in_quotes.simps) (simp add: hexchar_digit hex_halves del: of_nat_add of_nat_mult in_quotes.simps)

lemma in_quotes_repr: "in_quotes cur (repr_byte b @ r) = in_quotes (cur @ [b]) r"
proof -
  consider "b \<in> {92, 34, 10, 13, 9, 7, 8}" | "b \<notin> {92, 34, 10, 13, 9, 7, 8}" "isprint b"
    | "b \<notin> {92, 34, 10, 13, 9, 7, 8}" "\<not> isprint b" by blast
  then show ?thesis
  proof cases
    case 1
    then have "repr_byte b = [92, hd (tl (repr_byte b))] \<and> unescape (hd (tl (repr_byte b))) = b \<and>
        hd (tl (repr_byte b)) \<noteq> 120"
      by (auto simp: repr_byte_def unescape_def)
    then obtain c where "repr_byte b = [92, c]" "unescape c = b" "c \<noteq> 120" by blast
    then show ?thesis by simp
  next
    case 2
    then have "repr_byte b = [b]" by (simp add: repr_byte_def)
    then show ?thesis using 2 by simp
  next
    case 3
    then have "repr_byte b = [92, 120, hexchar (unat b div 16), hexchar (unat b mod 16)]" by (simp add: repr_byte_def)
    then show ?thesis by (simp only: append_Cons append_Nil in_quotes_hex)
  qed
qed

lemma in_quotes_reprs:
  "in_quotes cur (concat (map repr_byte p) @ r) = in_quotes (cur @ p) r"
  by (induction p arbitrary: cur) (simp_all add: in_quotes_repr del: in_quotes.simps)

lemma repr_nonzero: "0 \<notin> set (repr_byte b)"
proof -
  have hex: "n < 16 \<Longrightarrow> hexchar n \<noteq> 0" for n
    using hexchar_digit(1) [of n] by (auto simp: is_hex_digit_def)
  have "\<not> isprint 0" by (simp add: isprint_def)
  then show ?thesis
    using hex [OF hex_halves(1) [of b]] hex [OF hex_halves(2) [of b]] by (auto simp: repr_byte_def)
qed

lemma split_args_quoted:
  assumes "quote_closed r"
  shows "split_args (34 # concat (map repr_byte p) @ 34 # r) = map_option (Cons p) (split_args r)"
  using assms by (subst split_args.simps) (simp add: isspace_def in_quotes_reprs)

lemma split_args_space: "isspace c \<Longrightarrow> split_args (c # r) = split_args r"
  by (subst (1 2) split_args.simps) simp

lemma split_args_Nil: "split_args [] = Some []"
  by (subst split_args.simps) simp

lemma split_args_reprs: "split_args (concat (map (\<lambda>p. sdscatrepr [] p @ [32]) ps)) = Some ps"
proof (induction ps)
  case (Cons p ps)
  have "quote_closed (32 # r)" for r by (simp add: quote_closed_def isspace_def)
  then show ?case
    using Cons by (simp add: sdscatrepr_def split_args_quoted split_args_space isspace_def)
qed (simp add: split_args_Nil)

text \<open>Tokens that need no quotes.\<close>

definition plain_token :: "bytes \<Rightarrow> bool" where
  "plain_token t \<longleftrightarrow> t \<noteq> [] \<and> list_all (\<lambda>c. \<not> isspace c \<and> c \<noteq> 0 \<and> c \<noteq> 34 \<and> c \<noteq> 39) t"

lemma split_token_plain:
  assumes "list_all (\<lambda>c. \<not> isspace c \<and> c \<noteq> 0 \<and> c \<noteq> 34 \<and> c \<noteq> 39) t" and "c = 32 \<or> c = 10"
  shows "split_token cur (t @ c # r) = Some (cur @ t, r)"
  using assms by (induction t arbitrary: cur) (auto simp: isspace_def)

lemma split_args_plain:
  assumes "plain_token t" and "c = 32 \<or> c = 10"
  shows "split_args (t @ c # r) = map_option (Cons t) (split_args r)"
proof -
  have "dropWhile isspace (t @ c # r) = t @ c # r"
    using assms(1) by (cases t) (auto simp: plain_token_def)
  then show ?thesis
    using assms split_token_plain [of t c "[]" r]
    by (subst split_args.simps) (auto simp: plain_token_def)
qed

lemma takeWhile_nonzero: "0 \<notin> set s \<Longrightarrow> takeWhile (\<lambda>b. b \<noteq> 0) (s :: bytes) = s"
  by (auto simp: takeWhile_eq_all_conv)

lemma sdssplitargs_reprs: "sdssplitargs (concat (map (\<lambda>p. sdscatrepr [] p @ [32]) ps)) = Some ps"
proof -
  have "0 \<notin> set (concat (map (\<lambda>p. sdscatrepr [] p @ [32]) ps))"
    using repr_nonzero by (auto simp: sdscatrepr_def)
  then show ?thesis unfolding sdssplitargs_def by (subst takeWhile_nonzero) (simp_all only: split_args_reprs not_False_eq_True)
qed

lemma split_args_line:
  assumes "list_all plain_token ts" and "ts \<noteq> []"
  shows "split_args (concat (map (\<lambda>t. t @ [32]) (butlast ts)) @ last ts @ [10]) = Some ts"
  using assms
proof (induction ts)
  case (Cons t ts)
  show ?case
  proof (cases "ts = []")
    case True
    then show ?thesis using Cons.prems by (simp add: split_args_plain split_args_Nil)
  next
    case False
    then show ?thesis using Cons by (simp add: split_args_plain)
  qed
qed simp

end
