(* ===== verification/ClusterState.thy ===== *)
theory ClusterState
  imports Prelude
begin

text \<open>
  The state of a cluster node as \<open>cluster.h\<close>, \<open>zklink.h\<close> and the part of
  \<open>struct redisServer\<close> that \<open>cluster.c\<close> reads and writes declare it: the
  constants, the node structure, the messages of the cluster bus, the ZooKeeper
  client, and one record \<open>server\<close> that joins \<open>clusterState\<close> with the server
  fields. Node structures live in a store addressed by \<open>naddr\<close>, because the code
  compares and keeps pointers to them; message links are addresses \<open>laddr\<close>.
  Multi-byte message fields hold the host-order value.

  What the code does outside the modelled state (sending a message, saving the
  configuration file, starting replication) is appended to the \<open>effects\<close> field in
  the order the code does it. Log lines have no effect. \<open>mstime()\<close>, \<open>time(NULL)\<close>
  (\<open>sys_time\<close>) and the cached clocks \<open>server.mstime\<close> (\<open>server_mstime\<close>) and
  \<open>server.unixtime\<close> are fields that are constant during one handler call.
  \<open>dictGetRandomKey\<close>, \<open>random()\<close> and the node identifiers that
  \<open>getRandomHexChars\<close> produces read an oracle stream in the state, and the answers
  of the operating system (the peer and the local address of a socket, whether a
  connection can be started, the normal form of an address that \<open>inet_pton\<close> and
  \<open>inet_ntop\<close> compute) are fields.
\<close>

section \<open>Constants of cluster.h\<close>

definition CLUSTER_SLOTS :: nat where "CLUSTER_SLOTS = 16384"
definition CLUSTER_NAMELEN :: nat where "CLUSTER_NAMELEN = 40"
definition CLUSTER_OK :: int where "CLUSTER_OK = 0"
definition CLUSTER_FAIL :: int where "CLUSTER_FAIL = 1"
definition CLUSTER_PORT_INCR :: int where "CLUSTER_PORT_INCR = 10000"

definition CLUSTER_FAIL_REPORT_VALIDITY_MULT :: int where "CLUSTER_FAIL_REPORT_VALIDITY_MULT = 2"
definition CLUSTER_FAIL_UNDO_TIME_MULT :: int where "CLUSTER_FAIL_UNDO_TIME_MULT = 2"
definition CLUSTER_MF_TIMEOUT :: int where "CLUSTER_MF_TIMEOUT = 5000"
definition CLUSTER_MF_PAUSE_MULT :: int where "CLUSTER_MF_PAUSE_MULT = 2"
definition CLUSTER_SLAVE_MIGRATION_DELAY :: int where "CLUSTER_SLAVE_MIGRATION_DELAY = 5000"

definition CLUSTER_NODE_MASTER :: u32 where [flag_defs]: "CLUSTER_NODE_MASTER = 1"
definition CLUSTER_NODE_SLAVE :: u32 where [flag_defs]: "CLUSTER_NODE_SLAVE = 2"
definition CLUSTER_NODE_PFAIL :: u32 where [flag_defs]: "CLUSTER_NODE_PFAIL = 4"
definition CLUSTER_NODE_FAIL :: u32 where [flag_defs]: "CLUSTER_NODE_FAIL = 8"
definition CLUSTER_NODE_MYSELF :: u32 where [flag_defs]: "CLUSTER_NODE_MYSELF = 16"
definition CLUSTER_NODE_HANDSHAKE :: u32 where [flag_defs]: "CLUSTER_NODE_HANDSHAKE = 32"
definition CLUSTER_NODE_NOADDR :: u32 where [flag_defs]: "CLUSTER_NODE_NOADDR = 64"
definition CLUSTER_NODE_MEET :: u32 where [flag_defs]: "CLUSTER_NODE_MEET = 128"
definition CLUSTER_NODE_MIGRATE_TO :: u32 where [flag_defs]: "CLUSTER_NODE_MIGRATE_TO = 256"
definition CLUSTER_NODE_NOFAILOVER :: u32 where [flag_defs]: "CLUSTER_NODE_NOFAILOVER = 512"

definition CLUSTER_CANT_FAILOVER_NONE :: int where "CLUSTER_CANT_FAILOVER_NONE = 0"
definition CLUSTER_CANT_FAILOVER_DATA_AGE :: int where "CLUSTER_CANT_FAILOVER_DATA_AGE = 1"
definition CLUSTER_CANT_FAILOVER_WAITING_DELAY :: int where "CLUSTER_CANT_FAILOVER_WAITING_DELAY = 2"
definition CLUSTER_CANT_FAILOVER_EXPIRED :: int where "CLUSTER_CANT_FAILOVER_EXPIRED = 3"
definition CLUSTER_CANT_FAILOVER_WAITING_VOTES :: int where "CLUSTER_CANT_FAILOVER_WAITING_VOTES = 4"
definition CLUSTER_CANT_FAILOVER_RELOG_PERIOD :: int where "CLUSTER_CANT_FAILOVER_RELOG_PERIOD = 300"

definition CLUSTER_TODO_HANDLE_FAILOVER :: u32 where [flag_defs]: "CLUSTER_TODO_HANDLE_FAILOVER = 1"
definition CLUSTER_TODO_UPDATE_STATE :: u32 where [flag_defs]: "CLUSTER_TODO_UPDATE_STATE = 2"
definition CLUSTER_TODO_SAVE_CONFIG :: u32 where [flag_defs]: "CLUSTER_TODO_SAVE_CONFIG = 4"
definition CLUSTER_TODO_FSYNC_CONFIG :: u32 where [flag_defs]: "CLUSTER_TODO_FSYNC_CONFIG = 8"

definition CLUSTERMSG_TYPE_PING :: nat where "CLUSTERMSG_TYPE_PING = 0"
definition CLUSTERMSG_TYPE_PONG :: nat where "CLUSTERMSG_TYPE_PONG = 1"
definition CLUSTERMSG_TYPE_MEET :: nat where "CLUSTERMSG_TYPE_MEET = 2"
definition CLUSTERMSG_TYPE_FAIL :: nat where "CLUSTERMSG_TYPE_FAIL = 3"
definition CLUSTERMSG_TYPE_PUBLISH :: nat where "CLUSTERMSG_TYPE_PUBLISH = 4"
definition CLUSTERMSG_TYPE_FAILOVER_AUTH_REQUEST :: nat where "CLUSTERMSG_TYPE_FAILOVER_AUTH_REQUEST = 5"
definition CLUSTERMSG_TYPE_FAILOVER_AUTH_ACK :: nat where "CLUSTERMSG_TYPE_FAILOVER_AUTH_ACK = 6"
definition CLUSTERMSG_TYPE_UPDATE :: nat where "CLUSTERMSG_TYPE_UPDATE = 7"
definition CLUSTERMSG_TYPE_MFSTART :: nat where "CLUSTERMSG_TYPE_MFSTART = 8"
definition CLUSTERMSG_TYPE_MODULE :: nat where "CLUSTERMSG_TYPE_MODULE = 9"

lemmas msgtype_defs =
  CLUSTERMSG_TYPE_PING_def CLUSTERMSG_TYPE_PONG_def CLUSTERMSG_TYPE_MEET_def
  CLUSTERMSG_TYPE_FAIL_def CLUSTERMSG_TYPE_PUBLISH_def
  CLUSTERMSG_TYPE_FAILOVER_AUTH_REQUEST_def CLUSTERMSG_TYPE_FAILOVER_AUTH_ACK_def
  CLUSTERMSG_TYPE_UPDATE_def CLUSTERMSG_TYPE_MFSTART_def CLUSTERMSG_TYPE_MODULE_def

definition CLUSTERMSG_FLAG0_PAUSED :: byte where "CLUSTERMSG_FLAG0_PAUSED = 1"
definition CLUSTERMSG_FLAG0_FORCEACK :: byte where "CLUSTERMSG_FLAG0_FORCEACK = 2"

definition CLUSTER_MODULE_FLAG_NO_FAILOVER :: u32 where "CLUSTER_MODULE_FLAG_NO_FAILOVER = 2"
definition CLUSTER_MODULE_FLAG_NO_REDIRECTION :: u32 where "CLUSTER_MODULE_FLAG_NO_REDIRECTION = 4"

definition CLUSTERMSG_TYPE_COUNT :: nat where "CLUSTERMSG_TYPE_COUNT = 10"
definition CLUSTER_PROTO_VER :: u16 where "CLUSTER_PROTO_VER = 1"

text \<open>
  Sizes of the message structures, from their fields: the header without the
  union \<open>data\<close>, and the members of the union.
\<close>

definition NET_IP_STR_LEN :: nat where "NET_IP_STR_LEN = 46"
definition CLUSTERMSG_MIN_LEN :: u32 where "CLUSTERMSG_MIN_LEN = 2256"
definition sizeof_clusterMsgDataGossip :: u32 where "sizeof_clusterMsgDataGossip = 104"
definition sizeof_clusterMsgDataFail :: u32 where "sizeof_clusterMsgDataFail = 40"
definition sizeof_clusterMsgDataPublish :: u32 where "sizeof_clusterMsgDataPublish = 16"
definition sizeof_clusterMsgDataUpdate :: u32 where "sizeof_clusterMsgDataUpdate = 2096"
definition sizeof_clusterMsgModule :: u32 where "sizeof_clusterMsgModule = 16"

definition CLUSTER_NODE_NULL_NAME :: bytes where
  "CLUSTER_NODE_NULL_NAME = replicate CLUSTER_NAMELEN 0"

section \<open>Nodes\<close>

type_synonym naddr = nat
type_synonym laddr = nat

text \<open>
  \<open>struct clusterNode\<close>. The array \<open>slaves\<close> with its length \<open>numslaves\<close> is a
  list; an address is the C string it holds; times are milliseconds.
\<close>

record clusterNode =
  ctime :: int
  name :: bytes
  flags :: u32
  configEpoch :: u64
  node_slots :: bytes
  numslots :: int
  slaves :: "naddr list"
  slaveof :: "naddr option"
  ping_sent :: int
  pong_received :: int
  data_received :: int
  fail_time :: int
  voted_time :: int
  repl_offset_time :: int
  orphaned_time :: int
  repl_offset :: int
  ip :: bytes
  port :: int
  cport :: int
  link :: "laddr option"
  fail_reports :: "(naddr \<times> int) list"

definition nodeIsMaster :: "clusterNode \<Rightarrow> bool" where
  "nodeIsMaster n \<longleftrightarrow> flags n AND CLUSTER_NODE_MASTER \<noteq> 0"
definition nodeIsSlave :: "clusterNode \<Rightarrow> bool" where
  "nodeIsSlave n \<longleftrightarrow> flags n AND CLUSTER_NODE_SLAVE \<noteq> 0"
definition nodeInHandshake :: "clusterNode \<Rightarrow> bool" where
  "nodeInHandshake n \<longleftrightarrow> flags n AND CLUSTER_NODE_HANDSHAKE \<noteq> 0"
definition nodeHasAddr :: "clusterNode \<Rightarrow> bool" where
  "nodeHasAddr n \<longleftrightarrow> flags n AND CLUSTER_NODE_NOADDR = 0"
definition nodeTimedOut :: "clusterNode \<Rightarrow> bool" where
  "nodeTimedOut n \<longleftrightarrow> flags n AND CLUSTER_NODE_PFAIL \<noteq> 0"
definition nodeFailed :: "clusterNode \<Rightarrow> bool" where
  "nodeFailed n \<longleftrightarrow> flags n AND CLUSTER_NODE_FAIL \<noteq> 0"
definition nodeCantFailover :: "clusterNode \<Rightarrow> bool" where
  "nodeCantFailover n \<longleftrightarrow> flags n AND CLUSTER_NODE_NOFAILOVER \<noteq> 0"

lemmas node_flag_defs = nodeIsMaster_def nodeIsSlave_def nodeInHandshake_def nodeHasAddr_def
  nodeTimedOut_def nodeFailed_def nodeCantFailover_def

text \<open>Every macro reads one bit of the flags.\<close>

lemma node_flag_bits:
  "nodeIsMaster n = bit (flags n) 0" "nodeIsSlave n = bit (flags n) 1"
  "nodeTimedOut n = bit (flags n) 2" "nodeFailed n = bit (flags n) 3"
  "nodeInHandshake n = bit (flags n) 5" "nodeHasAddr n = (\<not> bit (flags n) 6)"
  "nodeCantFailover n = bit (flags n) 9"
  by (simp_all add: node_flag_defs flag_defs flag_simps)

section \<open>Messages of the cluster bus\<close>

record clusterMsgDataGossip =
  g_nodename :: bytes
  g_ping_sent :: u32
  g_pong_received :: u32
  g_ip :: bytes
  g_port :: u16
  g_cport :: u16
  g_flags :: u16

datatype clusterMsgData =
    NoData
  | PingData "clusterMsgDataGossip list"
  | FailData bytes
  | PublishData u32 u32 bytes
  | UpdateData u64 bytes bytes
  | ModuleData u64 u32 byte bytes

text \<open>
  \<open>clusterMsg\<close>. The signature, checked by \<open>clusterReadHandler\<close> before a packet is
  processed, is left out. The union \<open>data\<close> is the member that the type of the
  message selects; \<open>PublishData\<close> and \<open>ModuleData\<close> keep the announced lengths
  apart from the bytes that follow.
\<close>

record clusterMsg =
  h_totlen :: u32
  h_ver :: u16
  h_port :: u16
  h_type :: nat
  h_count :: u16
  h_currentEpoch :: u64
  h_configEpoch :: u64
  h_offset :: u64
  h_sender :: bytes
  h_myslots :: bytes
  h_slaveof :: bytes
  h_myip :: bytes
  h_cport :: u16
  h_flags :: u16
  h_state :: byte
  h_mflags0 :: byte
  h_data :: clusterMsgData

datatype effect =
    SendMessage laddr clusterMsg
  | FreeLink laddr
  | SaveConfig bool
  | ReplicationSetMaster bytes int
  | ReplicationUnsetMaster
  | DelKeysInSlot nat
  | UnblockClients
  | PublishMessage bytes bytes
  | CallClusterReceivers bytes u64 byte bytes
  | EmptyDb

section \<open>The ZooKeeper client of a node (zklink.h)\<close>

datatype zklinkState = ZKS_UNINIT | ZKS_WAIT_CONNECT | ZKS_CONNECTED | ZKS_DIS_CONNECT

text \<open>\<open>zh\<close> tells whether the handle is non-NULL.\<close>

record zklinkClient =
  zh :: bool
  zkstate :: zklinkState
  zk_create_path :: int
  zk_on_wath :: int
  replace_path :: "bytes option"
  replace_path_del_tm :: int

section \<open>The server\<close>

text \<open>
  \<open>next_addr\<close> is the address the next \<open>zmalloc\<close> of a node returns: freed
  addresses are not handed out again in the model.
\<close>

record server =
  heap :: "naddr \<Rightarrow> clusterNode"
  link_node :: "laddr \<Rightarrow> naddr option"
  link_ctime :: "laddr \<Rightarrow> int"
  link_peer :: "laddr \<Rightarrow> bytes"
  link_sockname :: "laddr \<Rightarrow> bytes option"
  next_link :: laddr
  \<comment> \<open>struct clusterState\<close>
  myself :: naddr
  currentEpoch :: u64
  state :: int
  cluster_size :: int
  nodes :: "(bytes \<times> naddr) list"
  nodes_black_list :: "(bytes \<times> int) list"
  migrating_slots_to :: "nat \<Rightarrow> naddr option"
  importing_slots_from :: "nat \<Rightarrow> naddr option"
  slots :: "nat \<Rightarrow> naddr option"
  failover_auth_time :: int
  failover_auth_count :: int
  failover_auth_sent :: int
  failover_auth_rank :: int
  failover_auth_epoch :: u64
  cant_failover_reason :: int
  mf_end :: int
  mf_slave :: "naddr option"
  mf_master_offset :: int
  mf_can_start :: int
  lastVoteEpoch :: u64
  todo_before_sleep :: u32
  stats_pfail_nodes :: int
  stats_bus_messages_sent :: "nat \<Rightarrow> int"
  stats_bus_messages_received :: "nat \<Rightarrow> int"
  \<comment> \<open>struct redisServer\<close>
  cluster_node_timeout :: int
  cluster_slave_validity_factor :: int
  cluster_migration_barrier :: int
  cluster_require_full_coverage :: bool
  cluster_slave_no_failover :: bool
  cluster_module_flags :: u32
  cluster_announce_ip :: "bytes option"
  server_port :: int
  cluster_announce_port :: int
  cluster_announce_bus_port :: int
  masterhost :: "bytes option"
  masterport :: int
  master_reploff :: "int option"
  master_closing :: bool
  cached_master_reploff :: "int option"
  master_repl_offset :: int
  master_lastinteraction :: int
  repl_connected :: bool
  repl_down_since :: int
  repl_ping_slave_period :: int
  clients_paused :: bool
  clients_pause_end_time :: int
  pubsub_in_use :: bool
  zk_host :: "bytes option"
  zk_port :: int
  zklc :: "zklinkClient option"
  countKeysInSlot :: "nat \<Rightarrow> nat"
  db_sizes :: "nat list"
  \<comment> \<open>static variables of clusterUpdateState, clusterLogCantFailover and clusterCron\<close>
  among_minority_time :: int
  first_call_time :: int
  lastlog_time :: int
  cron_iteration :: nat
  prev_announce_ip :: "bytes option"
  \<comment> \<open>clocks and oracles\<close>
  mstime :: int
  unixtime :: int
  server_mstime :: int
  sys_time :: int
  connect_ok :: "bytes \<Rightarrow> int \<Rightarrow> bool"
  inet_norm :: "bytes \<Rightarrow> bytes option"
  random_key :: "nat \<Rightarrow> naddr"
  random_num :: "nat \<Rightarrow> int"
  random_hex :: "nat \<Rightarrow> bytes"
  random_pos :: nat
  next_addr :: naddr
  effects :: "effect list"

section \<open>Small operations used everywhere\<close>

text \<open>The structure a pointer points to, and an assignment through it.\<close>

abbreviation nd :: "server \<Rightarrow> naddr \<Rightarrow> clusterNode" where
  "nd s a \<equiv> heap s a"

definition upd_node :: "naddr \<Rightarrow> (clusterNode \<Rightarrow> clusterNode) \<Rightarrow> server \<Rightarrow> server" where
  "upd_node a f s = s\<lparr>heap := (heap s)(a := f (heap s a))\<rparr>"

abbreviation me :: "server \<Rightarrow> clusterNode" where
  "me s \<equiv> heap s (myself s)"

definition clusterDoBeforeSleep :: "u32 \<Rightarrow> server \<Rightarrow> server" where
  "clusterDoBeforeSleep fl s = s\<lparr>todo_before_sleep := todo_before_sleep s OR fl\<rparr>"

definition emit :: "effect \<Rightarrow> server \<Rightarrow> server" where
  "emit e s = s\<lparr>effects := effects s @ [e]\<rparr>"

text \<open>
  \<open>clusterSaveConfigOrDie\<close>: writing the file is an effect; the flags that asked for
  it are cleared by \<open>clusterSaveConfig\<close>. A failing write ends the process.
\<close>

definition clusterSaveConfigOrDie :: "bool \<Rightarrow> server \<Rightarrow> server" where
  "clusterSaveConfigOrDie do_fsync s =
     emit (SaveConfig do_fsync)
       (s\<lparr>todo_before_sleep :=
            todo_before_sleep s AND NOT CLUSTER_TODO_SAVE_CONFIG
              AND NOT (if do_fsync then CLUSTER_TODO_FSYNC_CONFIG else 0)\<rparr>)"

text \<open>The addresses in the nodes table: the nodes that are allocated and known.\<close>

definition live :: "server \<Rightarrow> naddr set" where
  "live s = snd ` set (nodes s)"

lemma heap_upd_node [simp]: "heap (upd_node a f s) = (heap s)(a := f (heap s a))"
  by (simp add: upd_node_def)

text \<open>
  Views of the state: what a group of invariants depends on. An operation that
  keeps a view keeps every invariant that reads only that view.
\<close>

definition slot_view :: "server \<Rightarrow> (bytes \<times> naddr) list \<times> (nat \<Rightarrow> naddr option) \<times> (naddr \<Rightarrow> bytes \<times> int)" where
  "slot_view s = (nodes s, slots s, \<lambda>a. (node_slots (heap s a), numslots (heap s a)))"

definition name_view :: "server \<Rightarrow> (bytes \<times> naddr) list \<times> (naddr \<Rightarrow> bytes) \<times> naddr" where
  "name_view s = (nodes s, \<lambda>a. name (heap s a), next_addr s)"

definition report_view :: "server \<Rightarrow> (bytes \<times> naddr) list \<times> (naddr \<Rightarrow> (naddr \<times> int) list)" where
  "report_view s = (nodes s, \<lambda>a. fail_reports (heap s a))"

text \<open>The votes a node granted: the acknowledgements it sent.\<close>

definition is_ack :: "effect \<Rightarrow> bool" where
  "is_ack e \<longleftrightarrow> (case e of SendMessage l m \<Rightarrow> h_type m = CLUSTERMSG_TYPE_FAILOVER_AUTH_ACK | _ \<Rightarrow> False)"

definition acks :: "server \<Rightarrow> effect list" where
  "acks s = filter is_ack (effects s)"

definition epoch_view :: "server \<Rightarrow> u64 \<times> u64 \<times> naddr \<times> effect list" where
  "epoch_view s = (currentEpoch s, lastVoteEpoch s, myself s, acks s)"

lemmas view_defs = slot_view_def name_view_def report_view_def epoch_view_def live_def acks_def

lemma is_ack_simps [simp]:
  "is_ack (SendMessage l m) = (h_type m = CLUSTERMSG_TYPE_FAILOVER_AUTH_ACK)"
  "\<not> is_ack (FreeLink l)" "\<not> is_ack (SaveConfig b)" "\<not> is_ack (ReplicationSetMaster h p)"
  "\<not> is_ack ReplicationUnsetMaster" "\<not> is_ack (DelKeysInSlot j)" "\<not> is_ack UnblockClients"
  "\<not> is_ack (PublishMessage ch m')" "\<not> is_ack (CallClusterReceivers nm i t pl)" "\<not> is_ack EmptyDb"
  by (simp_all add: is_ack_def)

lemma view_same:
  "nodes s = nodes t \<Longrightarrow> live s = live t"
  "slot_view s = slot_view t \<Longrightarrow> live s = live t"
  by (simp_all add: view_defs)

lemma epoch_viewD:
  "epoch_view s = epoch_view t \<Longrightarrow>
   currentEpoch s = currentEpoch t \<and> lastVoteEpoch s = lastVoteEpoch t \<and> myself s = myself t \<and> acks s = acks t"
  by (simp add: epoch_view_def)

lemma upd_node_frame [simp]:
  "link_node (upd_node a f s) = link_node s" "myself (upd_node a f s) = myself s"
  "currentEpoch (upd_node a f s) = currentEpoch s" "nodes (upd_node a f s) = nodes s"
  "importing_slots_from (upd_node a f s) = importing_slots_from s" "slots (upd_node a f s) = slots s"
  "migrating_slots_to (upd_node a f s) = migrating_slots_to s"
  "lastVoteEpoch (upd_node a f s) = lastVoteEpoch s" "zklc (upd_node a f s) = zklc s"
  "mstime (upd_node a f s) = mstime s" "effects (upd_node a f s) = effects s"
  "live (upd_node a f s) = live s" "epoch_view (upd_node a f s) = epoch_view s"
  "next_addr (upd_node a f s) = next_addr s" "cluster_size (upd_node a f s) = cluster_size s"
  "mf_end (upd_node a f s) = mf_end s" "cluster_module_flags (upd_node a f s) = cluster_module_flags s"
  "failover_auth_epoch (upd_node a f s) = failover_auth_epoch s"
  by (simp_all add: upd_node_def view_defs)

lemma upd_node_slot_view:
  "(\<And>n. node_slots (f n) = node_slots n \<and> numslots (f n) = numslots n) \<Longrightarrow>
   slot_view (upd_node a f s) = slot_view s"
  by (auto simp: slot_view_def)

lemma upd_node_name_view:
  "(\<And>n. name (f n) = name n) \<Longrightarrow> name_view (upd_node a f s) = name_view s"
  by (auto simp: name_view_def)

lemma upd_node_report_view:
  "(\<And>n. fail_reports (f n) = fail_reports n) \<Longrightarrow> report_view (upd_node a f s) = report_view s"
  by (auto simp: report_view_def)

lemmas upd_node_views = upd_node_slot_view upd_node_name_view upd_node_report_view

lemma clusterDoBeforeSleep_frame [simp]:
  "heap (clusterDoBeforeSleep fl s) = heap s" "myself (clusterDoBeforeSleep fl s) = myself s"
  "currentEpoch (clusterDoBeforeSleep fl s) = currentEpoch s"
  "lastVoteEpoch (clusterDoBeforeSleep fl s) = lastVoteEpoch s"
  "nodes (clusterDoBeforeSleep fl s) = nodes s" "slots (clusterDoBeforeSleep fl s) = slots s"
  "importing_slots_from (clusterDoBeforeSleep fl s) = importing_slots_from s"
  "migrating_slots_to (clusterDoBeforeSleep fl s) = migrating_slots_to s"
  "effects (clusterDoBeforeSleep fl s) = effects s" "live (clusterDoBeforeSleep fl s) = live s"
  "mstime (clusterDoBeforeSleep fl s) = mstime s" "zklc (clusterDoBeforeSleep fl s) = zklc s"
  "link_node (clusterDoBeforeSleep fl s) = link_node s"
  "cluster_module_flags (clusterDoBeforeSleep fl s) = cluster_module_flags s"
  "countKeysInSlot (clusterDoBeforeSleep fl s) = countKeysInSlot s"
  "epoch_view (clusterDoBeforeSleep fl s) = epoch_view s"
  "slot_view (clusterDoBeforeSleep fl s) = slot_view s"
  "name_view (clusterDoBeforeSleep fl s) = name_view s"
  "report_view (clusterDoBeforeSleep fl s) = report_view s"
  by (simp_all add: clusterDoBeforeSleep_def view_defs)

lemma emit_frame [simp]:
  "heap (emit e s) = heap s" "myself (emit e s) = myself s"
  "currentEpoch (emit e s) = currentEpoch s" "nodes (emit e s) = nodes s" "slots (emit e s) = slots s"
  "importing_slots_from (emit e s) = importing_slots_from s" "live (emit e s) = live s"
  "effects (emit e s) = effects s @ [e]" "mstime (emit e s) = mstime s" "zklc (emit e s) = zklc s"
  "link_node (emit e s) = link_node s"
  "slot_view (emit e s) = slot_view s" "name_view (emit e s) = name_view s"
  "report_view (emit e s) = report_view s"
  "\<not> is_ack e \<Longrightarrow> epoch_view (emit e s) = epoch_view s"
  by (simp_all add: emit_def view_defs)

lemma clusterSaveConfigOrDie_frame [simp]:
  "heap (clusterSaveConfigOrDie b s) = heap s" "myself (clusterSaveConfigOrDie b s) = myself s"
  "currentEpoch (clusterSaveConfigOrDie b s) = currentEpoch s"
  "nodes (clusterSaveConfigOrDie b s) = nodes s" "slots (clusterSaveConfigOrDie b s) = slots s"
  "live (clusterSaveConfigOrDie b s) = live s" "link_node (clusterSaveConfigOrDie b s) = link_node s"
  "importing_slots_from (clusterSaveConfigOrDie b s) = importing_slots_from s"
  "effects (clusterSaveConfigOrDie b s) = effects s @ [SaveConfig b]"
  "epoch_view (clusterSaveConfigOrDie b s) = epoch_view s"
  "slot_view (clusterSaveConfigOrDie b s) = slot_view s"
  "name_view (clusterSaveConfigOrDie b s) = name_view s"
  "report_view (clusterSaveConfigOrDie b s) = report_view s"
  by (simp_all add: clusterSaveConfigOrDie_def emit_def view_defs)

end
