(* ===== verification/ClusterSlots.thy ===== *)
theory ClusterSlots
  imports ClusterState
begin

text \<open>
  Slots management of \<open>cluster.c\<close> (from \<open>bitmapTestBit\<close> to
  \<open>clusterCloseAllSlots\<close>): the slot bitmap of a node, the table
  \<open>server.cluster->slots\<close> and the counters \<open>numslots\<close>. The invariant
  \<open>slot_inv\<close> says that the table, the bitmaps and the counters agree; under it
  no operation runs into the assertion of \<open>clusterDelSlot\<close>, and each operation's
  effect on the table is the obvious update of a map.
\<close>

section \<open>Bitmaps\<close>

definition bitmapTestBit :: "bytes \<Rightarrow> nat \<Rightarrow> bool" where
  "bitmapTestBit bitmap pos =
     (let byt = pos div 8; b = pos AND 7
      in bitmap ! byt AND push_bit b 1 \<noteq> 0)"

definition bitmapSetBit :: "bytes \<Rightarrow> nat \<Rightarrow> bytes" where
  "bitmapSetBit bitmap pos =
     (let byt = pos div 8; b = pos AND 7
      in bitmap[byt := bitmap ! byt OR push_bit b 1])"

definition bitmapClearBit :: "bytes \<Rightarrow> nat \<Rightarrow> bytes" where
  "bitmapClearBit bitmap pos =
     (let byt = pos div 8; b = pos AND 7
      in bitmap[byt := bitmap ! byt AND NOT (push_bit b 1)])"

lemma and7 [simp]: "(n::nat) AND 7 = n mod 8"
proof -
  have "n AND mask 3 = take_bit 3 n" by (simp add: take_bit_eq_mask)
  moreover have "mask 3 = (7::nat)" by (simp add: mask_eq_exp_minus_1)
  ultimately show ?thesis by (simp add: take_bit_eq_mod)
qed

lemma bitmapTestBit_bit: "bitmapTestBit bm p = bit (bm ! (p div 8)) (p mod 8)"
  using and_push_bit_nonzero [of "p mod 8" "bm ! (p div 8)"] by (simp add: bitmapTestBit_def)

lemma length_bitmap [simp]:
  "length (bitmapSetBit bm p) = length bm" "length (bitmapClearBit bm p) = length bm"
  by (simp_all add: bitmapSetBit_def bitmapClearBit_def Let_def)

lemma div_mod_8_eq: "(p::nat) div 8 = q div 8 \<Longrightarrow> p mod 8 = q mod 8 \<Longrightarrow> p = q"
  by (metis mult_div_mod_eq)

lemma bit_set_byte: "k < 8 \<Longrightarrow> m < 8 \<Longrightarrow> bit ((w :: byte) OR push_bit k 1) m = (m = k \<or> bit w m)"
  by (auto simp: bit_or_iff bit_exp_iff)

lemma bit_clear_byte: "k < 8 \<Longrightarrow> m < 8 \<Longrightarrow> bit ((w :: byte) AND NOT (push_bit k 1)) m = (m \<noteq> k \<and> bit w m)"
  by (auto simp: bit_and_iff bit_not_iff bit_exp_iff)

lemma bitmapTestBit_Set:
  assumes "p div 8 < length bm"
  shows "bitmapTestBit (bitmapSetBit bm p) q = (q = p \<or> bitmapTestBit bm q)"
proof (cases "p div 8 = q div 8")
  case True
  then show ?thesis using assms div_mod_8_eq [of q p]
    by (auto simp: bitmapTestBit_bit bitmapSetBit_def Let_def bit_set_byte simp del: push_bit_of_1)
next
  case False
  then show ?thesis using assms by (auto simp: bitmapTestBit_bit bitmapSetBit_def Let_def)
qed

lemma bitmapTestBit_Clear:
  assumes "p div 8 < length bm"
  shows "bitmapTestBit (bitmapClearBit bm p) q = (q \<noteq> p \<and> bitmapTestBit bm q)"
proof (cases "p div 8 = q div 8")
  case True
  then show ?thesis using assms div_mod_8_eq [of q p]
    by (auto simp: bitmapTestBit_bit bitmapClearBit_def Let_def bit_clear_byte simp del: push_bit_of_1)
next
  case False
  then show ?thesis using assms by (auto simp: bitmapTestBit_bit bitmapClearBit_def Let_def)
qed

section \<open>Slots of a node\<close>

definition clusterMastersHaveSlaves :: "server \<Rightarrow> bool" where
  "clusterMastersHaveSlaves s =
     (sum_list (map (\<lambda>(nm, a). if nodeIsSlave (nd s a) then 0 else length (slaves (nd s a)))
        (nodes s)) \<noteq> 0)"

definition clusterNodeSetSlotBit :: "naddr \<Rightarrow> nat \<Rightarrow> server \<Rightarrow> bool \<times> server" where
  "clusterNodeSetSlotBit n slot s =
     (let old = bitmapTestBit (node_slots (nd s n)) slot;
          s = upd_node n (\<lambda>x. x\<lparr>node_slots := bitmapSetBit (node_slots x) slot\<rparr>) s
      in if \<not> old
         then let s = upd_node n (\<lambda>x. x\<lparr>numslots := numslots x + 1\<rparr>) s
              in (old, if numslots (nd s n) = 1 \<and> clusterMastersHaveSlaves s
                       then upd_node n (\<lambda>x. x\<lparr>flags := flags x OR CLUSTER_NODE_MIGRATE_TO\<rparr>) s
                       else s)
         else (old, s))"

definition clusterNodeClearSlotBit :: "naddr \<Rightarrow> nat \<Rightarrow> server \<Rightarrow> bool \<times> server" where
  "clusterNodeClearSlotBit n slot s =
     (let old = bitmapTestBit (node_slots (nd s n)) slot;
          s = upd_node n (\<lambda>x. x\<lparr>node_slots := bitmapClearBit (node_slots x) slot\<rparr>) s
      in (old, if old then upd_node n (\<lambda>x. x\<lparr>numslots := numslots x - 1\<rparr>) s else s))"

definition clusterNodeGetSlotBit :: "naddr \<Rightarrow> nat \<Rightarrow> server \<Rightarrow> bool" where
  "clusterNodeGetSlotBit n slot s = bitmapTestBit (node_slots (nd s n)) slot"

definition clusterAddSlot :: "naddr \<Rightarrow> nat \<Rightarrow> server \<Rightarrow> int \<times> server" where
  "clusterAddSlot n slot s =
     (if slots s slot \<noteq> None then (C_ERR, s)
      else let s = snd (clusterNodeSetSlotBit n slot s)
           in (C_OK, s\<lparr>slots := (slots s)(slot := Some n)\<rparr>))"

definition clusterDelSlot :: "nat \<Rightarrow> server \<Rightarrow> (int \<times> server) option" where
  "clusterDelSlot slot s =
     (case slots s slot of
        None \<Rightarrow> Some (C_ERR, s)
      | Some n \<Rightarrow> do {
          let (old, s) = clusterNodeClearSlotBit n slot s;
          serverAssert old;
          Some (C_OK, s\<lparr>slots := (slots s)(slot := None)\<rparr>)
        })"

definition clusterDelNodeSlots :: "naddr \<Rightarrow> server \<Rightarrow> (nat \<times> server) option" where
  "clusterDelNodeSlots node s =
     for_each [0..<CLUSTER_SLOTS]
       (\<lambda>j (deleted, s).
          if clusterNodeGetSlotBit node j s
          then do { (_, s) \<leftarrow> clusterDelSlot j s; Some (deleted + 1, s) }
          else Some (deleted, s))
       (0, s)"

definition clusterCloseAllSlots :: "server \<Rightarrow> server" where
  "clusterCloseAllSlots s =
     s\<lparr>migrating_slots_to := (\<lambda>_. None), importing_slots_from := (\<lambda>_. None)\<rparr>"

section \<open>The invariant\<close>

definition owned :: "server \<Rightarrow> naddr \<Rightarrow> nat set" where
  "owned s a = {j. j < CLUSTER_SLOTS \<and> bitmapTestBit (node_slots (nd s a)) j}"

definition slot_inv :: "server \<Rightarrow> bool" where
  "slot_inv s \<longleftrightarrow>
     (\<forall>a \<in> live s. length (node_slots (nd s a)) = CLUSTER_SLOTS div 8 \<and>
                   numslots (nd s a) = int (card (owned s a)) \<and>
                   (\<forall>j < CLUSTER_SLOTS. bitmapTestBit (node_slots (nd s a)) j = (slots s j = Some a))) \<and>
     (\<forall>j < CLUSTER_SLOTS. \<forall>a. slots s j = Some a \<longrightarrow> a \<in> live s)"

lemma slot_inv_cong: "slot_view s = slot_view t \<Longrightarrow> slot_inv s = slot_inv t"
  by (auto simp: slot_view_def slot_inv_def owned_def live_def fun_eq_iff)

lemma owned_finite [simp]: "finite (owned s a)"
  by (simp add: owned_def)

lemma slot_div_8: "j < CLUSTER_SLOTS \<Longrightarrow> j div 8 < CLUSTER_SLOTS div 8"
  by (simp add: CLUSTER_SLOTS_def)

lemma slot_inv_owned: "slot_inv s \<Longrightarrow> a \<in> live s \<Longrightarrow> owned s a = {j. j < CLUSTER_SLOTS \<and> slots s j = Some a}"
  by (auto simp: slot_inv_def owned_def)

lemma slot_inv_live: "slot_inv s \<Longrightarrow> j < CLUSTER_SLOTS \<Longrightarrow> slots s j = Some a \<Longrightarrow> a \<in> live s"
  by (auto simp: slot_inv_def)

lemma slot_inv_bit: "slot_inv s \<Longrightarrow> a \<in> live s \<Longrightarrow> j < CLUSTER_SLOTS \<Longrightarrow>
    clusterNodeGetSlotBit a j s = (slots s j = Some a)"
  by (auto simp: slot_inv_def clusterNodeGetSlotBit_def)

lemma slot_inv_length: "slot_inv s \<Longrightarrow> a \<in> live s \<Longrightarrow> length (node_slots (nd s a)) = CLUSTER_SLOTS div 8"
  by (auto simp: slot_inv_def)

lemma slot_inv_numslots: "slot_inv s \<Longrightarrow> a \<in> live s \<Longrightarrow>
    numslots (nd s a) = int (card {j. j < CLUSTER_SLOTS \<and> slots s j = Some a})"
  using slot_inv_owned [of s a] by (auto simp: slot_inv_def)

lemma slot_invI:
  assumes "\<And>a. a \<in> live s \<Longrightarrow> length (node_slots (nd s a)) = CLUSTER_SLOTS div 8"
    and "\<And>a. a \<in> live s \<Longrightarrow> numslots (nd s a) = int (card {j. j < CLUSTER_SLOTS \<and> slots s j = Some a})"
    and "\<And>a j. a \<in> live s \<Longrightarrow> j < CLUSTER_SLOTS \<Longrightarrow>
           bitmapTestBit (node_slots (nd s a)) j = (slots s j = Some a)"
    and "\<And>a j. j < CLUSTER_SLOTS \<Longrightarrow> slots s j = Some a \<Longrightarrow> a \<in> live s"
  shows "slot_inv s"
proof -
  have "owned s a = {j. j < CLUSTER_SLOTS \<and> slots s j = Some a}" if "a \<in> live s" for a
    using assms(3) [OF that] by (auto simp: owned_def)
  with assms show ?thesis by (auto simp: slot_inv_def)
qed

text \<open>
  Everything the slot operations do not write: the state with the slot table,
  the bitmaps, the counters and the migration-target flag blanked out. So are the
  flags of the work to do before sleeping, which the loops over the slots set.
\<close>

definition slot_frame :: "server \<Rightarrow> server" where
  "slot_frame s = s\<lparr>slots := (\<lambda>_. None), todo_before_sleep := 0,
     heap := (\<lambda>a. (heap s a)\<lparr>node_slots := [], numslots := 0,
                       flags := flags (heap s a) AND NOT CLUSTER_NODE_MIGRATE_TO\<rparr>)\<rparr>"

lemma slot_frame_heap:
  "slot_frame s = slot_frame t \<Longrightarrow>
   (heap s a)\<lparr>node_slots := [], numslots := 0, flags := flags (heap s a) AND NOT CLUSTER_NODE_MIGRATE_TO\<rparr> =
   (heap t a)\<lparr>node_slots := [], numslots := 0, flags := flags (heap t a) AND NOT CLUSTER_NODE_MIGRATE_TO\<rparr>"
  by (drule arg_cong [of _ _ heap]) (simp add: slot_frame_def fun_eq_iff)

lemma slot_frame_node:
  assumes "slot_frame s = slot_frame t"
  shows "configEpoch (heap s a) = configEpoch (heap t a)" "name (heap s a) = name (heap t a)"
    "slaves (heap s a) = slaves (heap t a)" "slaveof (heap s a) = slaveof (heap t a)"
    "nodeIsMaster (heap s a) = nodeIsMaster (heap t a)" "nodeIsSlave (heap s a) = nodeIsSlave (heap t a)"
    "nodeFailed (heap s a) = nodeFailed (heap t a)" "nodeTimedOut (heap s a) = nodeTimedOut (heap t a)"
    "link (heap s a) = link (heap t a)" "ip (heap s a) = ip (heap t a)"
    "fail_reports (heap s a) = fail_reports (heap t a)"
proof -
  note eq = slot_frame_heap [OF assms, of a]
  from arg_cong [OF eq, of configEpoch] arg_cong [OF eq, of name] arg_cong [OF eq, of slaves]
    arg_cong [OF eq, of slaveof] arg_cong [OF eq, of link] arg_cong [OF eq, of ip] arg_cong [OF eq, of fail_reports]
  show "configEpoch (heap s a) = configEpoch (heap t a)" "name (heap s a) = name (heap t a)"
    "slaves (heap s a) = slaves (heap t a)" "slaveof (heap s a) = slaveof (heap t a)"
    "link (heap s a) = link (heap t a)" "ip (heap s a) = ip (heap t a)"
    "fail_reports (heap s a) = fail_reports (heap t a)" by simp_all
  have "flags (heap s a) AND NOT CLUSTER_NODE_MIGRATE_TO = flags (heap t a) AND NOT CLUSTER_NODE_MIGRATE_TO"
    using arg_cong [OF eq, of flags] by simp
  then have "bit (flags (heap s a) AND NOT CLUSTER_NODE_MIGRATE_TO) k =
             bit (flags (heap t a) AND NOT CLUSTER_NODE_MIGRATE_TO) k" for k by simp
  from this [of 0] this [of 1] this [of 2] this [of 3]
  show "nodeIsMaster (heap s a) = nodeIsMaster (heap t a)" "nodeIsSlave (heap s a) = nodeIsSlave (heap t a)"
    "nodeFailed (heap s a) = nodeFailed (heap t a)" "nodeTimedOut (heap s a) = nodeTimedOut (heap t a)"
    by (simp_all add: node_flag_bits flag_defs flag_simps)
qed

lemma slot_frame_server:
  assumes "slot_frame s = slot_frame t"
  shows "nodes s = nodes t" "myself s = myself t" "currentEpoch s = currentEpoch t"
    "lastVoteEpoch s = lastVoteEpoch t" "importing_slots_from s = importing_slots_from t"
    "migrating_slots_to s = migrating_slots_to t" "effects s = effects t" "mstime s = mstime t"
    "cluster_module_flags s = cluster_module_flags t" "live s = live t" "epoch_view s = epoch_view t"
    "countKeysInSlot s = countKeysInSlot t" "mf_end s = mf_end t" "zklc s = zklc t"
    "next_addr s = next_addr t" "link_node s = link_node t"
proof -
  note eq = assms [unfolded slot_frame_def]
  from arg_cong [OF eq, of nodes] arg_cong [OF eq, of myself] arg_cong [OF eq, of currentEpoch]
    arg_cong [OF eq, of lastVoteEpoch] arg_cong [OF eq, of importing_slots_from]
    arg_cong [OF eq, of migrating_slots_to] arg_cong [OF eq, of effects] arg_cong [OF eq, of mstime]
    arg_cong [OF eq, of cluster_module_flags] arg_cong [OF eq, of countKeysInSlot]
    arg_cong [OF eq, of mf_end] arg_cong [OF eq, of zklc] arg_cong [OF eq, of next_addr] arg_cong [OF eq, of link_node]
  show "nodes s = nodes t" "myself s = myself t" "currentEpoch s = currentEpoch t"
    "lastVoteEpoch s = lastVoteEpoch t" "importing_slots_from s = importing_slots_from t"
    "migrating_slots_to s = migrating_slots_to t" "effects s = effects t" "mstime s = mstime t"
    "cluster_module_flags s = cluster_module_flags t" "live s = live t" "epoch_view s = epoch_view t"
    "countKeysInSlot s = countKeysInSlot t" "mf_end s = mf_end t" "zklc s = zklc t"
    "next_addr s = next_addr t" "link_node s = link_node t"
    by (simp_all add: view_defs)
qed

section \<open>What the operations do\<close>

lemma clusterNodeSetSlotBit_effect:
  assumes "s' = snd (clusterNodeSetSlotBit n j s)"
  shows "node_slots (heap s' a) = (if a = n then bitmapSetBit (node_slots (heap s a)) j else node_slots (heap s a))"
    and "numslots (heap s' a) =
           (if a = n \<and> \<not> bitmapTestBit (node_slots (heap s n)) j then numslots (heap s a) + 1 else numslots (heap s a))"
    and "slots s' = slots s" and "slot_frame s' = slot_frame s"
proof -
  have m: "(w OR CLUSTER_NODE_MIGRATE_TO) AND NOT CLUSTER_NODE_MIGRATE_TO = w AND NOT CLUSTER_NODE_MIGRATE_TO" for w
    by (rule bit_eqI) (auto simp: bit_or_iff bit_and_iff bit_not_iff)
  show "node_slots (heap s' a) = (if a = n then bitmapSetBit (node_slots (heap s a)) j else node_slots (heap s a))"
    "numslots (heap s' a) =
       (if a = n \<and> \<not> bitmapTestBit (node_slots (heap s n)) j then numslots (heap s a) + 1 else numslots (heap s a))"
    "slots s' = slots s"
    using assms by (auto simp: clusterNodeSetSlotBit_def Let_def upd_node_def)
  show "slot_frame s' = slot_frame s"
    using assms by (auto simp: clusterNodeSetSlotBit_def Let_def slot_frame_def upd_node_def m fun_eq_iff)
qed

lemma clusterNodeClearSlotBit_effect:
  assumes "(old, s') = clusterNodeClearSlotBit n j s"
  shows "old = bitmapTestBit (node_slots (heap s n)) j"
    and "node_slots (heap s' a) = (if a = n then bitmapClearBit (node_slots (heap s a)) j else node_slots (heap s a))"
    and "numslots (heap s' a) = (if a = n \<and> old then numslots (heap s a) - 1 else numslots (heap s a))"
    and "slots s' = slots s" and "slot_frame s' = slot_frame s"
  using assms
  by (auto simp: clusterNodeClearSlotBit_def Let_def slot_frame_def upd_node_def fun_eq_iff split: if_splits)

text \<open>How one more or one less owned slot changes the count.\<close>

lemma card_slot_add:
  assumes "j < CLUSTER_SLOTS" "f j = None"
  shows "card {i. i < CLUSTER_SLOTS \<and> (f(j \<mapsto> n)) i = Some a} =
         (if a = n then Suc (card {i. i < CLUSTER_SLOTS \<and> f i = Some a})
          else card {i. i < CLUSTER_SLOTS \<and> f i = Some a})"
proof (cases "a = n")
  case True
  have "{i. i < CLUSTER_SLOTS \<and> (f(j \<mapsto> n)) i = Some n} = insert j {i. i < CLUSTER_SLOTS \<and> f i = Some n}"
    using assms by auto
  then show ?thesis using assms True by simp
next
  case False
  then have "{i. i < CLUSTER_SLOTS \<and> (f(j \<mapsto> n)) i = Some a} = {i. i < CLUSTER_SLOTS \<and> f i = Some a}"
    using assms by auto
  then show ?thesis using False by simp
qed

lemma card_slot_del:
  assumes "j < CLUSTER_SLOTS" "f j = Some n"
  shows "int (card {i. i < CLUSTER_SLOTS \<and> (f(j := None)) i = Some a}) =
         (if a = n then int (card {i. i < CLUSTER_SLOTS \<and> f i = Some a}) - 1
          else int (card {i. i < CLUSTER_SLOTS \<and> f i = Some a}))"
proof -
  have "(f(j := None)) j = None" "(f(j := None))(j \<mapsto> n) = f" using assms by auto
  with card_slot_add [OF assms(1), where f = "f(j := None)" and n = n and a = a] show ?thesis
    by (cases "a = n") (simp_all del: fun_upd_apply)
qed

lemma clusterAddSlot_free:
  assumes inv: "slot_inv s" and j: "j < CLUSTER_SLOTS" and n: "n \<in> live s" and free: "slots s j = None"
  shows "\<exists>s'. clusterAddSlot n j s = (C_OK, s') \<and> slot_inv s' \<and> slots s' = (slots s)(j \<mapsto> n) \<and>
              slot_frame s' = slot_frame s \<and> live s' = live s"
proof -
  define s1 where "s1 = snd (clusterNodeSetSlotBit n j s)"
  define s2 where "s2 = s1\<lparr>slots := (slots s1)(j \<mapsto> n)\<rparr>"
  note eff = clusterNodeSetSlotBit_effect [OF s1_def]
  have fr: "slot_frame s2 = slot_frame s" using eff(4) by (simp add: slot_frame_def s2_def)
  note lv = slot_frame_server(10) [OF fr]
  have old: "\<not> bitmapTestBit (node_slots (heap s n)) j"
    using inv n j free by (auto simp: slot_inv_def)
  have "slot_inv s2"
  proof (rule slot_invI)
    fix a assume a: "a \<in> live s2"
    then have a': "a \<in> live s" using lv by simp
    note len = slot_inv_length [OF inv a']
    show "length (node_slots (nd s2 a)) = CLUSTER_SLOTS div 8"
      using len by (auto simp: s2_def eff)
    show "numslots (nd s2 a) = int (card {i. i < CLUSTER_SLOTS \<and> slots s2 i = Some a})"
      using slot_inv_numslots [OF inv a'] old card_slot_add [OF j, where f = "slots s", OF free, of n a]
      by (auto simp: s2_def eff)
    fix i assume i: "i < CLUSTER_SLOTS"
    have "bitmapTestBit (node_slots (nd s a)) i = (slots s i = Some a)"
      using inv a' i by (auto simp: slot_inv_def)
    then show "bitmapTestBit (node_slots (nd s2 a)) i = (slots s2 i = Some a)"
      using bitmapTestBit_Set [of j "node_slots (heap s a)" i] len slot_div_8 [OF j] free
      by (auto simp: s2_def eff)
  next
    fix a i assume "i < CLUSTER_SLOTS" "slots s2 i = Some a"
    then show "a \<in> live s2" using n lv slot_inv_live [OF inv, of i a]
      by (cases "i = j") (auto simp: s2_def eff)
  qed
  moreover have "clusterAddSlot n j s = (C_OK, s2)"
    using free by (simp add: clusterAddSlot_def s2_def s1_def Let_def)
  ultimately show ?thesis using fr lv by (auto simp: s2_def eff)
qed

lemma clusterDelSlot_effect:
  assumes inv: "slot_inv s" and j: "j < CLUSTER_SLOTS"
  shows "\<exists>r s'. clusterDelSlot j s = Some (r, s') \<and> (r = C_OK) = (slots s j \<noteq> None) \<and> slot_inv s' \<and>
              slots s' = (slots s)(j := None) \<and> slot_frame s' = slot_frame s \<and> live s' = live s"
proof (cases "slots s j")
  case None
  then show ?thesis using inv by (auto simp: clusterDelSlot_def fun_upd_idem)
next
  case (Some n)
  have n: "n \<in> live s" using slot_inv_live [OF inv j Some] .
  obtain old s1 where c: "(old, s1) = clusterNodeClearSlotBit n j s"
    by (metis surj_pair)
  define s2 where "s2 = s1\<lparr>slots := (slots s1)(j := None)\<rparr>"
  note eff = clusterNodeClearSlotBit_effect [OF c]
  have fr: "slot_frame s2 = slot_frame s" using eff(5) by (simp add: slot_frame_def s2_def)
  note lv = slot_frame_server(10) [OF fr]
  have old: old using inv n j Some eff(1) by (auto simp: slot_inv_def)
  have "slot_inv s2"
  proof (rule slot_invI)
    fix a assume a: "a \<in> live s2"
    then have a': "a \<in> live s" using lv by simp
    note len = slot_inv_length [OF inv a']
    show "length (node_slots (nd s2 a)) = CLUSTER_SLOTS div 8"
      using len by (auto simp: s2_def eff)
    show "numslots (nd s2 a) = int (card {i. i < CLUSTER_SLOTS \<and> slots s2 i = Some a})"
      using slot_inv_numslots [OF inv a'] old card_slot_del [where f = "slots s", OF j Some, of a]
      by (auto simp: s2_def eff)
    fix i assume i: "i < CLUSTER_SLOTS"
    have "bitmapTestBit (node_slots (nd s a)) i = (slots s i = Some a)"
      using inv a' i by (auto simp: slot_inv_def)
    then show "bitmapTestBit (node_slots (nd s2 a)) i = (slots s2 i = Some a)"
      using bitmapTestBit_Clear [of j "node_slots (heap s a)" i] len slot_div_8 [OF j] Some
      by (auto simp: s2_def eff)
  next
    fix a i assume "i < CLUSTER_SLOTS" "slots s2 i = Some a"
    then show "a \<in> live s2" using lv slot_inv_live [OF inv, of i a]
      by (cases "i = j") (auto simp: s2_def eff)
  qed
  moreover have "clusterDelSlot j s = Some (C_OK, s2)"
    using Some old by (simp add: clusterDelSlot_def s2_def c [symmetric])
  ultimately show ?thesis using fr lv Some by (auto simp: s2_def eff)
qed

section \<open>The slot table as an interface\<close>

text \<open>
  The functions that reassign slots (configuration updates, failover, reset) use
  the table only through these two operations. The laws say what each does to the
  table and that everything in the frame stays; the lemmas are about reassigning
  one slot and about a loop over all the slots.
\<close>

locale slot_table =
  fixes owner :: "'s \<Rightarrow> nat \<Rightarrow> naddr option"
    and known :: "'s \<Rightarrow> naddr set"
    and invar :: "'s \<Rightarrow> bool"
    and frame :: "'s \<Rightarrow> 'f"
    and add_slot :: "naddr \<Rightarrow> nat \<Rightarrow> 's \<Rightarrow> int \<times> 's"
    and del_slot :: "nat \<Rightarrow> 's \<Rightarrow> (int \<times> 's) option"
  assumes del: "invar s \<Longrightarrow> j < CLUSTER_SLOTS \<Longrightarrow>
      \<exists>r s'. del_slot j s = Some (r, s') \<and> (r = C_OK) = (owner s j \<noteq> None) \<and> invar s' \<and>
             owner s' = (owner s)(j := None) \<and> frame s' = frame s \<and> known s' = known s"
    and add: "invar s \<Longrightarrow> j < CLUSTER_SLOTS \<Longrightarrow> a \<in> known s \<Longrightarrow> owner s j = None \<Longrightarrow>
      \<exists>s'. add_slot a j s = (C_OK, s') \<and> invar s' \<and> owner s' = (owner s)(j \<mapsto> a) \<and>
           frame s' = frame s \<and> known s' = known s"
    and add_taken: "owner s j \<noteq> None \<Longrightarrow> add_slot a j s = (C_ERR, s)"
begin

lemma rebind:
  assumes "invar s" "j < CLUSTER_SLOTS" "a \<in> known s"
  shows "\<exists>r s1 s2. del_slot j s = Some (r, s1) \<and> add_slot a j s1 = (C_OK, s2) \<and> invar s2 \<and>
           owner s2 = (owner s)(j \<mapsto> a) \<and> frame s2 = frame s \<and> known s2 = known s"
proof -
  obtain r s1 where s1: "del_slot j s = Some (r, s1)" "invar s1" "owner s1 = (owner s)(j := None)"
    "frame s1 = frame s" "known s1 = known s"
    using del [OF assms(1,2)] by blast
  from add [OF s1(2) assms(2), of a] s1 assms(3)
  obtain s2 where "add_slot a j s1 = (C_OK, s2)" "invar s2" "owner s2 = (owner s1)(j \<mapsto> a)"
    "frame s2 = frame s1" "known s2 = known s1" by auto
  with s1 show ?thesis by auto
qed

text \<open>
  A loop over all slots whose body gives slot \<open>j\<close> to \<open>a\<close> when \<open>P j\<close> and leaves
  the table alone otherwise; the body may also change what the frame does not see.
\<close>

lemma rebind_loop:
  assumes s: "invar s" "a \<in> known s"
    and body: "\<And>j x t. j < CLUSTER_SLOTS \<Longrightarrow> invar t \<Longrightarrow> frame t = frame s \<Longrightarrow>
        owner t = (\<lambda>i. if i < j \<and> P i then Some a else owner s i) \<Longrightarrow> known t = known s \<Longrightarrow> I j x \<Longrightarrow>
        \<exists>x' t'. f j (x, t) = Some (x', t') \<and> I (Suc j) x' \<and>
          (if P j then \<exists>r t1 t2. del_slot j t = Some (r, t1) \<and> add_slot a j t1 = (C_OK, t2) \<and>
                      invar t' = invar t2 \<and> owner t' = owner t2 \<and> frame t' = frame t2 \<and> known t' = known t2
           else t' = t)"
    and x: "I 0 x"
  shows "\<exists>x' t. for_each [0..<CLUSTER_SLOTS] f (x, s) = Some (x', t) \<and> I CLUSTER_SLOTS x' \<and>
           invar t \<and> frame t = frame s \<and> known t = known s \<and>
           owner t = (\<lambda>i. if i < CLUSTER_SLOTS \<and> P i then Some a else owner s i)"
proof -
  let ?J = "\<lambda>j (x, t). I j x \<and> invar t \<and> frame t = frame s \<and> known t = known s \<and>
              owner t = (\<lambda>i. if i < j \<and> P i then Some a else owner s i)"
  have "\<exists>p. for_each [0..<CLUSTER_SLOTS] f (x, s) = Some p \<and> ?J CLUSTER_SLOTS p"
  proof (rule for_each_upt_rule)
    show "?J 0 (x, s)" using s x by simp
  next
    fix j p assume j: "j < CLUSTER_SLOTS" and J: "?J j p"
    obtain y t where p: "p = (y, t)" by force
    with J have t: "I j y" "invar t" "frame t = frame s" "known t = known s"
      "owner t = (\<lambda>i. if i < j \<and> P i then Some a else owner s i)" by auto
    obtain y' t' where f: "f j (y, t) = Some (y', t')" "I (Suc j) y'" and
      c: "if P j then \<exists>r t1 t2. del_slot j t = Some (r, t1) \<and> add_slot a j t1 = (C_OK, t2) \<and>
                      invar t' = invar t2 \<and> owner t' = owner t2 \<and> frame t' = frame t2 \<and> known t' = known t2
           else t' = t"
      using body [OF j t(2,3,5,4,1)] by blast
    have "?J (Suc j) (y', t')"
    proof (cases "P j")
      case False
      with c have "t' = t" by simp
      with t f(2) False show ?thesis by (auto simp: less_Suc_eq fun_eq_iff)
    next
      case True
      obtain r t1 t2 where r: "del_slot j t = Some (r, t1)" "add_slot a j t1 = (C_OK, t2)" "invar t2"
        "owner t2 = (owner t)(j \<mapsto> a)" "frame t2 = frame t" "known t2 = known t"
        using rebind [OF t(2) j, of a] s(2) t(4) by auto
      with True c have "invar t'" "owner t' = owner t2" "frame t' = frame t2" "known t' = known t2" by auto
      with r t f(2) True show ?thesis by (auto simp: less_Suc_eq fun_eq_iff)
    qed
    then show "\<exists>p'. f j p = Some p' \<and> ?J (Suc j) p'" using f p by blast
  qed
  then show ?thesis by auto
qed

text \<open>The same for a loop that carries nothing but the state.\<close>

lemma rebind_loop_plain:
  assumes s: "invar s" "a \<in> known s"
    and body: "\<And>j t. j < CLUSTER_SLOTS \<Longrightarrow> invar t \<Longrightarrow> frame t = frame s \<Longrightarrow>
        owner t = (\<lambda>i. if i < j \<and> P i then Some a else owner s i) \<Longrightarrow> known t = known s \<Longrightarrow>
        (if P j then \<exists>r t1 t2. del_slot j t = Some (r, t1) \<and> add_slot a j t1 = (C_OK, t2) \<and> f j t = Some t2
         else f j t = Some t)"
  shows "\<exists>t. for_each [0..<CLUSTER_SLOTS] f s = Some t \<and> invar t \<and> frame t = frame s \<and> known t = known s \<and>
           owner t = (\<lambda>i. if i < CLUSTER_SLOTS \<and> P i then Some a else owner s i)"
proof (rule for_each_upt_rule [where I = "\<lambda>j t. invar t \<and> frame t = frame s \<and> known t = known s \<and>
           owner t = (\<lambda>i. if i < j \<and> P i then Some a else owner s i)"])
  show "invar s \<and> frame s = frame s \<and> known s = known s \<and>
          owner s = (\<lambda>i. if i < 0 \<and> P i then Some a else owner s i)" using s by simp
next
  fix j t assume j: "j < CLUSTER_SLOTS" and t: "invar t \<and> frame t = frame s \<and> known t = known s \<and>
           owner t = (\<lambda>i. if i < j \<and> P i then Some a else owner s i)"
  have c: "if P j then \<exists>r t1 t2. del_slot j t = Some (r, t1) \<and> add_slot a j t1 = (C_OK, t2) \<and> f j t = Some t2
         else f j t = Some t"
    using body [OF j] t by blast
  show "\<exists>t'. f j t = Some t' \<and> invar t' \<and> frame t' = frame s \<and> known t' = known s \<and>
           owner t' = (\<lambda>i. if i < Suc j \<and> P i then Some a else owner s i)"
  proof (cases "P j")
    case False
    with c t show ?thesis by (auto simp: less_Suc_eq fun_eq_iff)
  next
    case True
    obtain r t1 t2 where "del_slot j t = Some (r, t1)" "add_slot a j t1 = (C_OK, t2)" "invar t2"
      "owner t2 = (owner t)(j \<mapsto> a)" "frame t2 = frame t" "known t2 = known t"
      using rebind [of t j a] t j s(2) by auto
    with c t True show ?thesis by (auto simp: less_Suc_eq fun_eq_iff)
  qed
qed

end

interpretation st: slot_table slots live slot_inv slot_frame clusterAddSlot clusterDelSlot
proof unfold_locales
  fix s :: server and j a
  show "slot_inv s \<Longrightarrow> j < CLUSTER_SLOTS \<Longrightarrow>
      \<exists>r s'. clusterDelSlot j s = Some (r, s') \<and> (r = C_OK) = (slots s j \<noteq> None) \<and> slot_inv s' \<and>
        slots s' = (slots s)(j := None) \<and> slot_frame s' = slot_frame s \<and> live s' = live s"
    by (rule clusterDelSlot_effect)
  show "slot_inv s \<Longrightarrow> j < CLUSTER_SLOTS \<Longrightarrow> a \<in> live s \<Longrightarrow> slots s j = None \<Longrightarrow>
      \<exists>s'. clusterAddSlot a j s = (C_OK, s') \<and> slot_inv s' \<and> slots s' = (slots s)(j \<mapsto> a) \<and>
        slot_frame s' = slot_frame s \<and> live s' = live s"
    by (rule clusterAddSlot_free)
  show "slots s j \<noteq> None \<Longrightarrow> clusterAddSlot a j s = (C_ERR, s)"
    by (simp add: clusterAddSlot_def)
qed

text \<open>Deleting all the slots of a node.\<close>

lemma clusterDelNodeSlots_effect:
  assumes inv: "slot_inv s" and n: "n \<in> live s"
  shows "\<exists>d s'. clusterDelNodeSlots n s = Some (d, s') \<and> slot_inv s' \<and> slot_frame s' = slot_frame s \<and>
           live s' = live s \<and> d = card (owned s n) \<and>
           slots s' = (\<lambda>j. if j < CLUSTER_SLOTS \<and> slots s j = Some n then None else slots s j)"
proof -
  let ?J = "\<lambda>j (d, t). slot_inv t \<and> slot_frame t = slot_frame s \<and> live t = live s \<and>
      d = card {i. i < j \<and> slots s i = Some n} \<and>
      slots t = (\<lambda>i. if i < j \<and> slots s i = Some n then None else slots s i)"
  have "\<exists>p. clusterDelNodeSlots n s = Some p \<and> ?J CLUSTER_SLOTS p"
    unfolding clusterDelNodeSlots_def
  proof (rule for_each_upt_rule)
    show "?J 0 (0, s)" using inv by simp
  next
    fix j p assume j: "j < CLUSTER_SLOTS" and J: "?J j p"
    obtain d t where p: "p = (d, t)" by force
    with J have t: "slot_inv t" "slot_frame t = slot_frame s" "live t = live s"
      "d = card {i. i < j \<and> slots s i = Some n}"
      "slots t = (\<lambda>i. if i < j \<and> slots s i = Some n then None else slots s i)" by auto
    have bit: "clusterNodeGetSlotBit n j t = (slots s j = Some n)"
      using slot_inv_bit [OF t(1) _ j, of n] n t(3,5) by simp
    have step: "{i. i < Suc j \<and> slots s i = Some n} =
        (if slots s j = Some n then insert j {i. i < j \<and> slots s i = Some n}
         else {i. i < j \<and> slots s i = Some n})"
      by (auto simp: less_Suc_eq)
    obtain r t1 where "clusterDelSlot j t = Some (r, t1)" "slot_inv t1" "slots t1 = (slots t)(j := None)"
      "slot_frame t1 = slot_frame t" "live t1 = live t"
      using st.del [OF t(1) j] by blast
    then show "\<exists>p'. (case p of (deleted, s) \<Rightarrow>
          if clusterNodeGetSlotBit n j s
          then do { (_, s) \<leftarrow> clusterDelSlot j s; Some (deleted + 1, s) }
          else Some (deleted, s)) = Some p' \<and> ?J (Suc j) p'"
      using t bit step by (auto simp: p less_Suc_eq fun_eq_iff)
  qed
  then show ?thesis using slot_inv_owned [OF inv n] by auto
qed

section \<open>What the slot operations leave alone, whatever the state\<close>

lemma slot_ops_frame:
  "slot_frame (snd (clusterAddSlot n j s)) = slot_frame s"
  "clusterDelSlot j s = Some (r, t) \<Longrightarrow> slot_frame t = slot_frame s"
proof -
  have "slot_frame (u\<lparr>slots := f\<rparr>) = slot_frame u" for u f by (simp add: slot_frame_def)
  then show "slot_frame (snd (clusterAddSlot n j s)) = slot_frame s"
    using clusterNodeSetSlotBit_effect(4) [OF refl, of n j s] by (simp add: clusterAddSlot_def Let_def)
  assume del: "clusterDelSlot j s = Some (r, t)"
  show "slot_frame t = slot_frame s"
  proof (cases "slots s j")
    case (Some m)
    obtain old u where c: "(old, u) = clusterNodeClearSlotBit m j s" by (metis surj_pair)
    have "t = u\<lparr>slots := (slots u)(j := None)\<rparr>"
      using del Some c [symmetric] by (auto simp: clusterDelSlot_def split: option.splits if_splits bind_splits)
    then show ?thesis using clusterNodeClearSlotBit_effect(5) [OF c] by (simp add: slot_frame_def)
  qed (use del in \<open>simp add: clusterDelSlot_def\<close>)
qed

end
