(* ===== verification/ClusterNodes.thy ===== *)
theory ClusterNodes
  imports ClusterSlots
begin

text \<open>
  The node API of \<open>cluster.c\<close> (from \<open>createClusterNode\<close> to
  \<open>clusterRenameNode\<close>), the links of a node, and the nodes blacklist: creating,
  registering, finding and deleting nodes, the failure reports a node collects and
  the two-way link between a master and its replicas. \<open>node_inv\<close> states that the
  table of nodes is keyed by the nodes' names and that replicas and masters point
  at each other; deleting a node leaves no pointer to it in the tables.
\<close>

section \<open>Links\<close>

definition freeClusterLink :: "laddr \<Rightarrow> server \<Rightarrow> server" where
  "freeClusterLink l s =
     emit (FreeLink l)
       (case link_node s l of
          None \<Rightarrow> s
        | Some n \<Rightarrow> upd_node n (\<lambda>x. x\<lparr>link := None\<rparr>) s)"

section \<open>Creating nodes\<close>

definition createClusterNode :: "bytes option \<Rightarrow> u32 \<Rightarrow> server \<Rightarrow> naddr \<times> server" where
  "createClusterNode nodename fl s =
     (let a = next_addr s;
          (nm, s) = (case nodename of
                       Some nm \<Rightarrow> (nm, s)
                     | None \<Rightarrow> (random_hex s (random_pos s), s\<lparr>random_pos := random_pos s + 1\<rparr>));
          node = \<lparr>ctime = mstime s, name = nm, flags = fl, configEpoch = 0,
                  node_slots = replicate (CLUSTER_SLOTS div 8) 0, numslots = 0, slaves = [],
                  slaveof = None, ping_sent = 0, pong_received = 0, data_received = 0,
                  fail_time = 0, voted_time = 0, repl_offset_time = 0, orphaned_time = 0,
                  repl_offset = 0, ip = [], port = 0, cport = 0, link = None, fail_reports = []\<rparr>
      in (a, s\<lparr>heap := (heap s)(a := node), next_addr := Suc a\<rparr>))"

section \<open>Failure reports\<close>

fun update_report :: "naddr \<Rightarrow> int \<Rightarrow> (naddr \<times> int) list \<Rightarrow> (naddr \<times> int) list option" where
  "update_report sender now [] = None"
| "update_report sender now ((n, t) # l) =
     (if n = sender then Some ((n, now) # l) else map_option (Cons (n, t)) (update_report sender now l))"

definition clusterNodeAddFailureReport :: "naddr \<Rightarrow> naddr \<Rightarrow> server \<Rightarrow> int \<times> server" where
  "clusterNodeAddFailureReport failing sender s =
     (case update_report sender (mstime s) (fail_reports (nd s failing)) of
        Some l \<Rightarrow> (0, upd_node failing (\<lambda>x. x\<lparr>fail_reports := l\<rparr>) s)
      | None \<Rightarrow>
          (1, upd_node failing (\<lambda>x. x\<lparr>fail_reports := fail_reports x @ [(sender, mstime s)]\<rparr>) s))"

definition clusterNodeCleanupFailureReports :: "naddr \<Rightarrow> server \<Rightarrow> server" where
  "clusterNodeCleanupFailureReports node s =
     (let maxtime = cluster_node_timeout s * CLUSTER_FAIL_REPORT_VALIDITY_MULT;
          now = mstime s
      in upd_node node
           (\<lambda>x. x\<lparr>fail_reports := filter (\<lambda>(_, t). \<not> now - t > maxtime) (fail_reports x)\<rparr>) s)"

fun remove_report :: "naddr \<Rightarrow> (naddr \<times> int) list \<Rightarrow> (naddr \<times> int) list option" where
  "remove_report sender [] = None"
| "remove_report sender ((n, t) # l) =
     (if n = sender then Some l else map_option (Cons (n, t)) (remove_report sender l))"

definition clusterNodeDelFailureReport :: "naddr \<Rightarrow> naddr \<Rightarrow> server \<Rightarrow> int \<times> server" where
  "clusterNodeDelFailureReport node sender s =
     (case remove_report sender (fail_reports (nd s node)) of
        None \<Rightarrow> (0, s)
      | Some l \<Rightarrow>
          (1, clusterNodeCleanupFailureReports node (upd_node node (\<lambda>x. x\<lparr>fail_reports := l\<rparr>) s)))"

definition clusterNodeFailureReportsCount :: "naddr \<Rightarrow> server \<Rightarrow> int \<times> server" where
  "clusterNodeFailureReportsCount node s =
     (let s = clusterNodeCleanupFailureReports node s
      in (int (length (fail_reports (nd s node))), s))"

section \<open>Masters and replicas\<close>

definition clusterNodeRemoveSlave :: "naddr \<Rightarrow> naddr \<Rightarrow> server \<Rightarrow> int \<times> server" where
  "clusterNodeRemoveSlave master slave s =
     (if slave \<in> set (slaves (nd s master))
      then let s = upd_node master (\<lambda>x. x\<lparr>slaves := remove1 slave (slaves x)\<rparr>) s
           in (C_OK, if slaves (nd s master) = []
                     then upd_node master (\<lambda>x. x\<lparr>flags := flags x AND NOT CLUSTER_NODE_MIGRATE_TO\<rparr>) s
                     else s)
      else (C_ERR, s))"

definition clusterNodeAddSlave :: "naddr \<Rightarrow> naddr \<Rightarrow> server \<Rightarrow> int \<times> server" where
  "clusterNodeAddSlave master slave s =
     (if slave \<in> set (slaves (nd s master)) then (C_ERR, s)
      else (C_OK, upd_node master
              (\<lambda>x. x\<lparr>slaves := slaves x @ [slave], flags := flags x OR CLUSTER_NODE_MIGRATE_TO\<rparr>) s))"

definition clusterCountNonFailingSlaves :: "naddr \<Rightarrow> server \<Rightarrow> int" where
  "clusterCountNonFailingSlaves n s =
     int (length (filter (\<lambda>b. \<not> nodeFailed (nd s b)) (slaves (nd s n))))"

section \<open>The nodes table\<close>

definition freeClusterNode :: "naddr \<Rightarrow> server \<Rightarrow> server option" where
  "freeClusterNode n s = do {
     let s = fold (\<lambda>b. upd_node b (\<lambda>x. x\<lparr>slaveof := None\<rparr>)) (slaves (nd s n)) s;
     let s = (case slaveof (nd s n) of
                Some m \<Rightarrow> if nodeIsSlave (nd s n) then snd (clusterNodeRemoveSlave m n s) else s
              | None \<Rightarrow> s);
     d \<leftarrow> dictDelete (nodes s) (name (nd s n));
     let s = s\<lparr>nodes := d\<rparr>;
     Some (case link (nd s n) of Some l \<Rightarrow> freeClusterLink l s | None \<Rightarrow> s)
   }"

definition clusterAddNode :: "naddr \<Rightarrow> server \<Rightarrow> int \<times> server" where
  "clusterAddNode node s =
     (case dictAdd (nodes s) (name (nd s node)) node of
        Some d \<Rightarrow> (C_OK, s\<lparr>nodes := d\<rparr>)
      | None \<Rightarrow> (C_ERR, s))"

definition clusterDelNode_slot :: "naddr \<Rightarrow> nat \<Rightarrow> server \<Rightarrow> server option" where
  "clusterDelNode_slot delnode j s =
     (let s = (if importing_slots_from s j = Some delnode
               then s\<lparr>importing_slots_from := (importing_slots_from s)(j := None)\<rparr> else s);
          s = (if migrating_slots_to s j = Some delnode
               then s\<lparr>migrating_slots_to := (migrating_slots_to s)(j := None)\<rparr> else s)
      in if slots s j = Some delnode then map_option snd (clusterDelSlot j s) else Some s)"

definition clusterDelNode :: "naddr \<Rightarrow> server \<Rightarrow> server option" where
  "clusterDelNode delnode s = do {
     s \<leftarrow> for_each [0..<CLUSTER_SLOTS] (clusterDelNode_slot delnode) s;
     let s = fold (\<lambda>(nm, node) s. if node = delnode then s
                                   else snd (clusterNodeDelFailureReport node delnode s)) (nodes s) s;
     freeClusterNode delnode s
   }"

definition clusterLookupNode :: "bytes \<Rightarrow> server \<Rightarrow> naddr option" where
  "clusterLookupNode nm s = dictFind (nodes s) nm"

definition clusterRenameNode :: "naddr \<Rightarrow> bytes \<Rightarrow> server \<Rightarrow> server option" where
  "clusterRenameNode node newname s = do {
     d \<leftarrow> dictDelete (nodes s) (name (nd s node));
     let s = upd_node node (\<lambda>x. x\<lparr>name := newname\<rparr>) (s\<lparr>nodes := d\<rparr>);
     Some (snd (clusterAddNode node s))
   }"

section \<open>The blacklist\<close>

definition CLUSTER_BLACKLIST_TTL :: int where "CLUSTER_BLACKLIST_TTL = 60"

definition clusterBlacklistCleanup :: "server \<Rightarrow> server" where
  "clusterBlacklistCleanup s =
     s\<lparr>nodes_black_list := filter (\<lambda>(_, expire). \<not> expire < unixtime s) (nodes_black_list s)\<rparr>"

definition clusterBlacklistAddNode :: "naddr \<Rightarrow> server \<Rightarrow> server" where
  "clusterBlacklistAddNode node s =
     (let s = clusterBlacklistCleanup s;
          i = name (nd s node);
          d = (case dictAdd (nodes_black_list s) i 0 of Some d \<Rightarrow> d | None \<Rightarrow> nodes_black_list s)
      in s\<lparr>nodes_black_list :=
             map (\<lambda>(k, v). if k = i then (k, sys_time s + CLUSTER_BLACKLIST_TTL) else (k, v)) d\<rparr>)"

definition clusterBlacklistExists :: "bytes \<Rightarrow> server \<Rightarrow> bool \<times> server" where
  "clusterBlacklistExists nodeid s =
     (let s = clusterBlacklistCleanup s
      in (dictFind (nodes_black_list s) nodeid \<noteq> None, s))"

section \<open>Invariants\<close>

text \<open>The table is a dictionary keyed by the names of the nodes, all of them allocated.\<close>

definition names_inv :: "server \<Rightarrow> bool" where
  "names_inv s \<longleftrightarrow> dictOk (nodes s) \<and> (\<forall>(nm, a) \<in> set (nodes s). name (nd s a) = nm) \<and>
     (\<forall>a \<in> live s. a < next_addr s)"

text \<open>Masters and replicas point at each other, and a node with a master is a replica.\<close>

definition repl_inv :: "server \<Rightarrow> bool" where
  "repl_inv s \<longleftrightarrow>
     (\<forall>a \<in> live s. distinct (slaves (nd s a)) \<and>
        (\<forall>b. b \<in> set (slaves (nd s a)) \<longleftrightarrow> b \<in> live s \<and> slaveof (nd s b) = Some a) \<and>
        (\<forall>m. slaveof (nd s a) = Some m \<longrightarrow> m \<in> live s \<and> m \<noteq> a \<and> nodeIsSlave (nd s a)))"

text \<open>A node collects at most one report per reporting node.\<close>

definition reports_inv :: "server \<Rightarrow> bool" where
  "reports_inv s \<longleftrightarrow> (\<forall>a \<in> live s. distinct (map fst (fail_reports (nd s a))))"

definition reporters :: "server \<Rightarrow> naddr \<Rightarrow> naddr set" where
  "reporters s a = fst ` set (fail_reports (nd s a))"

lemma names_inv_name: "names_inv s \<Longrightarrow> (nm, a) \<in> set (nodes s) \<Longrightarrow> name (nd s a) = nm"
  by (auto simp: names_inv_def)

lemma live_entry: "names_inv s \<Longrightarrow> a \<in> live s \<Longrightarrow> (name (nd s a), a) \<in> set (nodes s)"
  by (auto simp: live_def names_inv_def)

lemma clusterLookupNode_live: "clusterLookupNode nm s = Some a \<Longrightarrow> a \<in> live s"
  by (force simp: clusterLookupNode_def dictFind_def live_def dest: map_of_SomeD)

lemma clusterLookupNode_name:
  "names_inv s \<Longrightarrow> clusterLookupNode nm s = Some a \<longleftrightarrow> a \<in> live s \<and> name (nd s a) = nm"
  by (force simp: clusterLookupNode_def alist.find_entries names_inv_def live_def)

lemma names_live_inj: "names_inv s \<Longrightarrow> a \<in> live s \<Longrightarrow> b \<in> live s \<Longrightarrow> name (nd s a) = name (nd s b) \<Longrightarrow> a = b"
  using clusterLookupNode_name [of s "name (nd s b)" a] clusterLookupNode_name [of s "name (nd s b)" b] by simp

section \<open>Failure reports: what the operations do\<close>

lemma update_report_None: "update_report n now l = None \<longleftrightarrow> n \<notin> fst ` set l"
  by (induction n now l rule: update_report.induct) auto

lemma update_report_Some:
  "update_report n now l = Some l' \<Longrightarrow>
     map fst l' = map fst l \<and> (distinct (map fst l) \<longrightarrow> map_of l' = (map_of l)(n \<mapsto> now))"
  by (induction l arbitrary: l') (auto split: if_splits simp: fun_upd_twist)

lemma remove_report_None: "remove_report n l = None \<longleftrightarrow> n \<notin> fst ` set l"
  by (induction n l rule: remove_report.induct) auto

lemma remove_report_Some:
  "remove_report n l = Some l' \<Longrightarrow> distinct (map fst l) \<Longrightarrow>
     l' = filter (\<lambda>e. fst e \<noteq> n) l \<and> n \<in> fst ` set l"
proof (induction l arbitrary: l')
  case (Cons e l)
  obtain m t where e: "e = (m, t)" by force
  show ?case
  proof (cases "m = n")
    case True
    with Cons.prems e have "l' = l" "n \<notin> fst ` set l" by auto
    then have "filter (\<lambda>e. fst e \<noteq> n) l = l'" by (auto simp: filter_id_conv)
    with True e show ?thesis by simp
  next
    case False
    with Cons e show ?thesis by auto
  qed
qed simp

lemma clusterNodeDelFailureReport_effect:
  assumes "s' = snd (clusterNodeDelFailureReport a b s)"
  shows "c \<noteq> a \<Longrightarrow> heap s' c = heap s c"
    and "heap s' a = (heap s a)\<lparr>fail_reports := fail_reports (heap s' a)\<rparr>"
    and "s' = s\<lparr>heap := heap s'\<rparr>"
    and "distinct (map fst (fail_reports (heap s a))) \<Longrightarrow> b \<notin> reporters s' a"
    and "distinct (map fst (fail_reports (heap s a))) \<Longrightarrow> distinct (map fst (fail_reports (heap s' a)))"
  using assms
  by (auto simp: clusterNodeDelFailureReport_def clusterNodeCleanupFailureReports_def Let_def upd_node_def
      reporters_def remove_report_None distinct_map_filter_fst split: option.splits
      dest!: remove_report_Some)

text \<open>Only the reports of nodes change while a node's reports are withdrawn everywhere.\<close>

definition report_frame :: "server \<Rightarrow> server" where
  "report_frame s = s\<lparr>heap := (\<lambda>a. (heap s a)\<lparr>fail_reports := []\<rparr>)\<rparr>"

lemma clusterNodeDelFailureReport_frame:
  "s' = snd (clusterNodeDelFailureReport a b s) \<Longrightarrow> report_frame s' = report_frame s"
  by (auto simp: clusterNodeDelFailureReport_def clusterNodeCleanupFailureReports_def Let_def upd_node_def
      report_frame_def fun_eq_iff split: option.splits)

lemma report_frame_heap: "report_frame s = report_frame t \<Longrightarrow> (heap s a)\<lparr>fail_reports := []\<rparr> = (heap t a)\<lparr>fail_reports := []\<rparr>"
  by (drule arg_cong [of _ _ heap]) (simp add: report_frame_def fun_eq_iff)

lemma report_frame_fields:
  assumes "report_frame s = report_frame t"
  shows "slot_view s = slot_view t" "names_inv s = names_inv t" "repl_inv s = repl_inv t"
    "live s = live t" "nodes s = nodes t" "slots s = slots t"
    "importing_slots_from s = importing_slots_from t" "migrating_slots_to s = migrating_slots_to t"
    "name (heap s a) = name (heap t a)" "epoch_view s = epoch_view t" "link_node s = link_node t"
    "slaves (heap s a) = slaves (heap t a)" "slaveof (heap s a) = slaveof (heap t a)"
    "nodeIsSlave (heap s a) = nodeIsSlave (heap t a)"
proof -
  have h: "node_slots (heap s a) = node_slots (heap t a)" "numslots (heap s a) = numslots (heap t a)"
    "name (heap s a) = name (heap t a)" "slaves (heap s a) = slaves (heap t a)"
    "slaveof (heap s a) = slaveof (heap t a)" "flags (heap s a) = flags (heap t a)" for a
    using arg_cong [OF report_frame_heap [OF assms, of a], of node_slots]
      arg_cong [OF report_frame_heap [OF assms, of a], of numslots]
      arg_cong [OF report_frame_heap [OF assms, of a], of name]
      arg_cong [OF report_frame_heap [OF assms, of a], of slaves]
      arg_cong [OF report_frame_heap [OF assms, of a], of slaveof]
      arg_cong [OF report_frame_heap [OF assms, of a], of flags] by simp_all
  note eq = assms [unfolded report_frame_def]
  have v: "nodes s = nodes t" "slots s = slots t" "importing_slots_from s = importing_slots_from t"
    "migrating_slots_to s = migrating_slots_to t" "next_addr s = next_addr t" "link_node s = link_node t"
    "currentEpoch s = currentEpoch t" "lastVoteEpoch s = lastVoteEpoch t" "myself s = myself t"
    "effects s = effects t"
    using arg_cong [OF eq, of link_node] arg_cong [OF eq, of currentEpoch] arg_cong [OF eq, of lastVoteEpoch]
      arg_cong [OF eq, of myself] arg_cong [OF eq, of effects]
      arg_cong [OF eq, of nodes] arg_cong [OF eq, of slots] arg_cong [OF eq, of importing_slots_from]
      arg_cong [OF eq, of migrating_slots_to] arg_cong [OF eq, of next_addr] by simp_all
  then have l: "live s = live t" by (simp add: live_def)
  from h v l show "slot_view s = slot_view t" "names_inv s = names_inv t" "repl_inv s = repl_inv t"
    "live s = live t" "nodes s = nodes t" "slots s = slots t"
    "importing_slots_from s = importing_slots_from t" "migrating_slots_to s = migrating_slots_to t"
    "name (heap s a) = name (heap t a)" "epoch_view s = epoch_view t" "link_node s = link_node t"
    "slaves (heap s a) = slaves (heap t a)" "slaveof (heap s a) = slaveof (heap t a)"
    "nodeIsSlave (heap s a) = nodeIsSlave (heap t a)"
    by (simp_all add: view_defs names_inv_def repl_inv_def nodeIsSlave_def)
qed

lemma withdraw_reports:
  fixes d :: naddr
  defines "g \<equiv> (\<lambda>(nm, node) s. if node = d then s else snd (clusterNodeDelFailureReport node d s))"
  assumes "\<forall>a \<in> snd ` set ns. distinct (map fst (fail_reports (nd s a)))"
  shows "report_frame (fold g ns s) = report_frame s \<and>
    (\<forall>a. a \<notin> snd ` set ns \<longrightarrow> heap (fold g ns s) a = heap s a) \<and>
    (\<forall>a. distinct (map fst (fail_reports (nd s a))) \<longrightarrow> distinct (map fst (fail_reports (nd (fold g ns s) a)))) \<and>
    (\<forall>a \<in> snd ` set ns. a \<noteq> d \<longrightarrow> d \<notin> reporters (fold g ns s) a)"
  using assms(2)
proof (induction ns arbitrary: s)
  case Nil
  then show ?case by simp
next
  case (Cons e ns)
  obtain nm a where e: "e = (nm, a)" by force
  show ?case
  proof (cases "a = d")
    case True
    then have "g e s = s" by (simp add: g_def e)
    with Cons show ?thesis by (auto simp: e True)
  next
    case False
    define t where "t = g e s"
    have t: "t = snd (clusterNodeDelFailureReport a d s)" by (simp add: t_def g_def e False)
    note eff = clusterNodeDelFailureReport_effect [OF t]
    have dist: "distinct (map fst (fail_reports (nd s c))) \<Longrightarrow> distinct (map fst (fail_reports (nd t c)))" for c
      using eff(1,5) by (cases "c = a") auto
    note fr = clusterNodeDelFailureReport_frame [OF t]
    have da: "d \<notin> reporters t a" using eff(4) Cons.prems by (simp add: e)
    from Cons.IH [of t] Cons.prems dist
    have IH: "report_frame (fold g ns t) = report_frame t"
      "\<forall>c. c \<notin> snd ` set ns \<longrightarrow> heap (fold g ns t) c = heap t c"
      "\<forall>c. distinct (map fst (fail_reports (nd t c))) \<longrightarrow> distinct (map fst (fail_reports (nd (fold g ns t) c)))"
      "\<forall>c \<in> snd ` set ns. c \<noteq> d \<longrightarrow> d \<notin> reporters (fold g ns t) c" by simp_all
    have f: "fold g (e # ns) s = fold g ns t" by (simp add: t_def)
    have "d \<notin> reporters (fold g ns t) a"
      using IH(2,4) da False by (cases "a \<in> snd ` set ns") (auto simp: reporters_def)
    then show ?thesis unfolding f using IH fr eff(1) dist by (auto simp: e)
  qed
qed


section \<open>Releasing a node\<close>

lemma fold_unset_slaveof:
  "fold (\<lambda>b. upd_node b (\<lambda>x. x\<lparr>slaveof := None\<rparr>)) bs s =
     s\<lparr>heap := (\<lambda>a. if a \<in> set bs then (heap s a)\<lparr>slaveof := None\<rparr> else heap s a)\<rparr>"
  by (induction bs arbitrary: s) (auto simp: upd_node_def fun_eq_iff)

text \<open>What a pointer-level operation on replicas and links keeps: the slots, the names, the reports.\<close>

definition table_frame :: "server \<Rightarrow> _" where
  "table_frame s = (nodes s, slots s, importing_slots_from s, migrating_slots_to s, next_addr s, myself s,
     epoch_view s, link_node s,
     \<lambda>a. (node_slots (heap s a), numslots (heap s a), name (heap s a), fail_reports (heap s a)))"

lemma table_frameD:
  assumes "table_frame s = table_frame t"
  shows "nodes s = nodes t" "slots s = slots t" "importing_slots_from s = importing_slots_from t"
    "migrating_slots_to s = migrating_slots_to t" "next_addr s = next_addr t" "myself s = myself t"
    "node_slots (heap s a) = node_slots (heap t a)" "numslots (heap s a) = numslots (heap t a)"
    "name (heap s a) = name (heap t a)" "fail_reports (heap s a) = fail_reports (heap t a)"
    "epoch_view s = epoch_view t" "link_node s = link_node t" "live s = live t"
  using assms by (auto simp: table_frame_def fun_eq_iff live_def)

lemma table_frame_views:
  assumes "table_frame s = table_frame t"
  shows "slot_view s = slot_view t" "name_view s = name_view t" "report_view s = report_view t"
    "epoch_view s = epoch_view t"
  using table_frameD [OF assms] by (simp_all add: slot_view_def name_view_def report_view_def)

lemma clusterNodeRemoveSlave_effect:
  "table_frame (snd (clusterNodeRemoveSlave m n s)) = table_frame s"
  "slaves (heap (snd (clusterNodeRemoveSlave m n s)) a) =
     (if a = m then remove1 n (slaves (heap s a)) else slaves (heap s a))"
  "slaveof (heap (snd (clusterNodeRemoveSlave m n s)) a) = slaveof (heap s a)"
  "nodeIsSlave (heap (snd (clusterNodeRemoveSlave m n s)) a) = nodeIsSlave (heap s a)"
  "nodeIsMaster (heap (snd (clusterNodeRemoveSlave m n s)) a) = nodeIsMaster (heap s a)"
  "fst (clusterNodeRemoveSlave m n s) = (if n \<in> set (slaves (heap s m)) then C_OK else C_ERR)"
  by (auto simp: clusterNodeRemoveSlave_def Let_def table_frame_def upd_node_def fun_eq_iff view_defs
      remove1_idem node_flag_bits flag_simps flag_defs bit_simps)

lemma clusterNodeAddSlave_effect:
  "table_frame (snd (clusterNodeAddSlave m n s)) = table_frame s"
  "slaves (heap (snd (clusterNodeAddSlave m n s)) a) =
     (if a = m \<and> n \<notin> set (slaves (heap s a)) then slaves (heap s a) @ [n] else slaves (heap s a))"
  "slaveof (heap (snd (clusterNodeAddSlave m n s)) a) = slaveof (heap s a)"
  "nodeIsSlave (heap (snd (clusterNodeAddSlave m n s)) a) = nodeIsSlave (heap s a)"
  "nodeIsMaster (heap (snd (clusterNodeAddSlave m n s)) a) = nodeIsMaster (heap s a)"
  by (auto simp: clusterNodeAddSlave_def Let_def table_frame_def upd_node_def fun_eq_iff view_defs
      node_flag_bits flag_simps flag_defs bit_simps)

lemma freeClusterLink_effect:
  "table_frame (freeClusterLink l s) = table_frame s"
  "slaves (heap (freeClusterLink l s) a) = slaves (heap s a)"
  "slaveof (heap (freeClusterLink l s) a) = slaveof (heap s a)"
  "flags (heap (freeClusterLink l s) a) = flags (heap s a)"
  "nodeIsSlave (heap (freeClusterLink l s) a) = nodeIsSlave (heap s a)"
  by (auto simp: freeClusterLink_def Let_def table_frame_def upd_node_def fun_eq_iff emit_def nodeIsSlave_def
      view_defs split: option.splits)

lemma freeClusterNode_effect:
  assumes names: "names_inv s" and n: "n \<in> live s"
  shows "\<exists>s'. freeClusterNode n s = Some s' \<and>
           table_frame s' = table_frame (s\<lparr>nodes := filter (\<lambda>e. fst e \<noteq> name (nd s n)) (nodes s)\<rparr>) \<and>
           (\<forall>a. slaveof (heap s' a) = (if a \<in> set (slaves (nd s n)) then None else slaveof (heap s a))) \<and>
           (\<forall>a. nodeIsSlave (heap s' a) = nodeIsSlave (heap s a)) \<and>
           (\<forall>a. slaves (heap s' a) =
              (if slaveof (nd s n) = Some a \<and> n \<notin> set (slaves (nd s n)) \<and> nodeIsSlave (nd s n)
               then remove1 n (slaves (heap s a)) else slaves (heap s a)))"
proof -
  define s1 where "s1 = fold (\<lambda>b. upd_node b (\<lambda>x. x\<lparr>slaveof := None\<rparr>)) (slaves (nd s n)) s"
  have s1: "table_frame s1 = table_frame s" "slaves (heap s1 a) = slaves (heap s a)"
    "slaveof (heap s1 a) = (if a \<in> set (slaves (nd s n)) then None else slaveof (heap s a))"
    "nodeIsSlave (heap s1 a) = nodeIsSlave (heap s a)" for a
    by (auto simp: s1_def fold_unset_slaveof table_frame_def fun_eq_iff nodeIsSlave_def view_defs)
  define s2 where "s2 = (case slaveof (nd s1 n) of
      Some m \<Rightarrow> if nodeIsSlave (nd s1 n) then snd (clusterNodeRemoveSlave m n s1) else s1 | None \<Rightarrow> s1)"
  have s2: "table_frame s2 = table_frame s" "slaveof (heap s2 a) = slaveof (heap s1 a)"
    "nodeIsSlave (heap s2 a) = nodeIsSlave (heap s a)"
    "slaves (heap s2 a) =
       (if slaveof (nd s1 n) = Some a \<and> nodeIsSlave (nd s n) then remove1 n (slaves (heap s a)) else slaves (heap s a))" for a
    using s1 by (auto simp: s2_def clusterNodeRemoveSlave_effect split: option.splits)
  note fr = table_frameD [OF s2(1)]
  have del: "dictDelete (nodes s2) (name (nd s2 n)) = Some (filter (\<lambda>e. fst e \<noteq> name (nd s n)) (nodes s))"
    using live_entry [OF names n] fr by (force simp: dictDelete_def)
  define s3 where "s3 = s2\<lparr>nodes := filter (\<lambda>e. fst e \<noteq> name (nd s n)) (nodes s)\<rparr>"
  have "freeClusterNode n s = Some (case link (nd s3 n) of Some l \<Rightarrow> freeClusterLink l s3 | None \<Rightarrow> s3)"
    unfolding freeClusterNode_def Let_def s1_def [symmetric] s2_def [symmetric] using del by (simp add: s3_def cong: option.case_cong split: option.split)
  moreover have "table_frame s3 = table_frame (s\<lparr>nodes := filter (\<lambda>e. fst e \<noteq> name (nd s n)) (nodes s)\<rparr>)"
    using s2(1) by (simp add: s3_def table_frame_def view_defs)
  moreover have "slaves (heap s3 a) = slaves (heap s2 a)" "slaveof (heap s3 a) = slaveof (heap s2 a)"
    "nodeIsSlave (heap s3 a) = nodeIsSlave (heap s2 a)" for a
    by (simp_all add: s3_def)
  ultimately show ?thesis using s1 s2 by (auto split: option.splits simp: freeClusterLink_effect)
qed

section \<open>Forgetting a node\<close>

lemma live_filter:
  assumes "names_inv s" "n \<in> live s"
  shows "snd ` set (filter (\<lambda>e. fst e \<noteq> name (nd s n)) (nodes s)) = live s - {n}"
proof
  show "snd ` set (filter (\<lambda>e. fst e \<noteq> name (nd s n)) (nodes s)) \<subseteq> live s - {n}"
  proof
    fix a assume "a \<in> snd ` set (filter (\<lambda>e. fst e \<noteq> name (nd s n)) (nodes s))"
    then obtain nm where "(nm, a) \<in> set (nodes s)" "nm \<noteq> name (nd s n)" by auto
    with names_inv_name [OF assms(1)] show "a \<in> live s - {n}" by (force simp: live_def)
  qed
  show "live s - {n} \<subseteq> snd ` set (filter (\<lambda>e. fst e \<noteq> name (nd s n)) (nodes s))"
  proof
    fix a assume a: "a \<in> live s - {n}"
    then have "(name (nd s a), a) \<in> set (nodes s)" using live_entry [OF assms(1)] by simp
    moreover have "name (nd s a) \<noteq> name (nd s n)" using names_live_inj [OF assms(1), of a n] a assms(2) by auto
    ultimately show "a \<in> snd ` set (filter (\<lambda>e. fst e \<noteq> name (nd s n)) (nodes s))"
      by (intro image_eqI [where x = "(name (nd s a), a)"]) auto
  qed
qed

lemma repl_inv_cong:
  assumes "live s = live t" "\<And>a. slaves (heap s a) = slaves (heap t a)"
    "\<And>a. slaveof (heap s a) = slaveof (heap t a)" "\<And>a. nodeIsSlave (heap s a) = nodeIsSlave (heap t a)"
  shows "repl_inv s = repl_inv t"
  by (simp only: repl_inv_def assms)

text \<open>A node that owns no slot can leave the table.\<close>

lemma slot_inv_shrink:
  assumes "slot_inv s" "live t = live s - {d}" "slots t = slots s"
    and "\<And>a. node_slots (heap t a) = node_slots (heap s a)" "\<And>a. numslots (heap t a) = numslots (heap s a)"
    and "\<And>j. j < CLUSTER_SLOTS \<Longrightarrow> slots s j \<noteq> Some d"
  shows "slot_inv t"
proof (rule slot_invI)
  fix a assume "a \<in> live t"
  then have a: "a \<in> live s" using assms(2) by simp
  show "length (node_slots (nd t a)) = CLUSTER_SLOTS div 8"
    "numslots (nd t a) = int (card {j. j < CLUSTER_SLOTS \<and> slots t j = Some a})"
    using slot_inv_length [OF assms(1) a] slot_inv_numslots [OF assms(1) a] assms(3,4,5) by simp_all
  fix j assume "j < CLUSTER_SLOTS"
  then show "bitmapTestBit (node_slots (nd t a)) j = (slots t j = Some a)"
    using assms(1,3,4) a by (simp add: slot_inv_def)
next
  fix a j assume "j < CLUSTER_SLOTS" "slots t j = Some a"
  then show "a \<in> live t" using slot_inv_live [OF assms(1), of j a] assms(2,3,6) by auto
qed

text \<open>A node that is in no list of replicas and has no replica can leave the table.\<close>

lemma repl_inv_shrink:
  assumes inv: "repl_inv s" and d: "d \<in> live s" and live: "live t = live s - {d}"
    and so: "\<And>a. slaveof (heap t a) = (if a \<in> set (slaves (nd s d)) then None else slaveof (heap s a))"
    and sl: "\<And>a. nodeIsSlave (heap t a) = nodeIsSlave (heap s a)"
    and ss: "\<And>a. slaves (heap t a) =
          (if slaveof (nd s d) = Some a \<and> d \<notin> set (slaves (nd s d)) \<and> nodeIsSlave (nd s d)
           then remove1 d (slaves (heap s a)) else slaves (heap s a))"
  shows "repl_inv t" "a \<in> live t \<Longrightarrow> d \<notin> set (slaves (nd t a)) \<and> slaveof (nd t a) \<noteq> Some d"
proof -
  have mem: "b \<in> set (slaves (nd s a)) \<longleftrightarrow> b \<in> live s \<and> slaveof (nd s b) = Some a"
    and dis: "distinct (slaves (nd s a))" if "a \<in> live s" for a b
    using inv that unfolding repl_inv_def by blast+
  have mas: "m \<in> live s" "m \<noteq> a" "nodeIsSlave (nd s a)" if "a \<in> live s" "slaveof (nd s a) = Some m" for a m
    using inv that unfolding repl_inv_def by blast+
  have dd: "d \<notin> set (slaves (nd s d))" using mem [OF d, of d] mas(2) [OF d] by auto
  have set_t: "set (slaves (nd t a)) = set (slaves (nd s a)) - {d}" if "a \<in> live t" for a
  proof (cases "slaveof (nd s d) = Some a")
    case True
    with mas(3) [OF d True] dd show ?thesis using dis [of a] that live by (simp add: ss)
  next
    case False
    have "a \<in> live s" using that live by simp
    from mem [OF this, of d] False have "d \<notin> set (slaves (nd s a))" by simp
    then show ?thesis using False by (simp add: ss)
  qed
  have so_t: "slaveof (nd t a) = (if slaveof (nd s a) = Some d then None else slaveof (nd s a))" if "a \<in> live t" for a
    using that mem [OF d, of a] unfolding so live by simp
  show last: "d \<notin> set (slaves (nd t a)) \<and> slaveof (nd t a) \<noteq> Some d" if "a \<in> live t" for a
    unfolding set_t [OF that] so_t [OF that] by simp
  show "repl_inv t" unfolding repl_inv_def
  proof (intro ballI conjI allI impI)
    fix a assume a: "a \<in> live t"
    then have a': "a \<in> live s" "a \<noteq> d" using live by simp_all
    show "distinct (slaves (nd t a))" unfolding ss using dis [OF a'(1)] by simp
    show "(b \<in> set (slaves (nd t a))) = (b \<in> live t \<and> slaveof (nd t b) = Some a)" for b
    proof (cases "b \<in> live t")
      case True
      then have "b \<in> live s" "b \<noteq> d" using live by simp_all
      with True show ?thesis unfolding set_t [OF a] so_t [OF True] using mem [OF a'(1), of b] a'(2) by simp
    next
      case False
      then show ?thesis unfolding set_t [OF a] using mem [OF a'(1), of b] live by blast
    qed
    fix m assume "slaveof (nd t a) = Some m"
    then have m: "slaveof (nd s a) = Some m" "m \<noteq> d" unfolding so_t [OF a] by (simp_all split: if_splits)
    show "m \<in> live t" "m \<noteq> a" "nodeIsSlave (nd t a)"
      unfolding live sl using mas [OF a'(1) m(1)] m(2) by simp_all
  qed
qed

lemma names_inv_del:
  assumes "names_inv s" "n \<in> live s" "nodes t = filter (\<lambda>e. fst e \<noteq> name (nd s n)) (nodes s)"
    "\<And>a. name (heap t a) = name (heap s a)" "next_addr t = next_addr s"
  shows "names_inv t" "live t = live s - {n}"
proof -
  show l: "live t = live s - {n}" using live_filter [OF assms(1,2)] assms(3) by (simp add: live_def)
  from assms l show "names_inv t"
    by (auto simp: names_inv_def dictOk_def distinct_map_filter_fst)
qed

text \<open>The first loop of \<open>clusterDelNode\<close>, over the slot tables.\<close>

text \<open>What the loop keeps of the state it started from.\<close>

definition delnode_keep :: "server \<Rightarrow> _" where
  "delnode_keep s = (nodes s, myself s, next_addr s, epoch_view s, link_node s,
     \<lambda>a. (name (heap s a), slaves (heap s a), slaveof (heap s a), nodeIsSlave (heap s a), fail_reports (heap s a)))"

lemma delnode_keepD:
  assumes "delnode_keep s = delnode_keep t"
  shows "nodes s = nodes t" "myself s = myself t" "next_addr s = next_addr t" "live s = live t"
    "name (heap s a) = name (heap t a)" "slaves (heap s a) = slaves (heap t a)"
    "slaveof (heap s a) = slaveof (heap t a)" "nodeIsSlave (heap s a) = nodeIsSlave (heap t a)"
    "fail_reports (heap s a) = fail_reports (heap t a)" "epoch_view s = epoch_view t" "link_node s = link_node t"
  using assms by (auto simp: delnode_keep_def fun_eq_iff live_def)

lemma clusterDelNode_slot_effect:
  assumes inv: "slot_inv s" and j: "j < CLUSTER_SLOTS"
  shows "\<exists>t. clusterDelNode_slot n j s = Some t \<and> slot_inv t \<and> delnode_keep t = delnode_keep s \<and>
     (\<forall>i. importing_slots_from t i =
           (if i = j \<and> importing_slots_from s i = Some n then None else importing_slots_from s i)) \<and>
     (\<forall>i. migrating_slots_to t i =
           (if i = j \<and> migrating_slots_to s i = Some n then None else migrating_slots_to s i)) \<and>
     slots t = (\<lambda>i. if i = j \<and> slots s i = Some n then None else slots s i)"
proof -
  define imp where "imp = (\<lambda>i. if i = j \<and> importing_slots_from s i = Some n then None else importing_slots_from s i)"
  define mig where "mig = (\<lambda>i. if i = j \<and> migrating_slots_to s i = Some n then None else migrating_slots_to s i)"
  define s2 where "s2 = s\<lparr>importing_slots_from := imp, migrating_slots_to := mig\<rparr>"
  have "(importing_slots_from s)(j := None) = imp" if "importing_slots_from s j = Some n"
    using that by (auto simp: imp_def)
  moreover have "imp = importing_slots_from s" if "importing_slots_from s j \<noteq> Some n"
    using that by (auto simp: imp_def)
  moreover have "(migrating_slots_to s)(j := None) = mig" if "migrating_slots_to s j = Some n"
    using that by (auto simp: mig_def)
  moreover have "mig = migrating_slots_to s" if "migrating_slots_to s j \<noteq> Some n"
    using that by (auto simp: mig_def)
  ultimately have s2: "clusterDelNode_slot n j s = (if slots s j = Some n then map_option snd (clusterDelSlot j s2) else Some s2)"
    by (cases "importing_slots_from s j = Some n"; cases "migrating_slots_to s j = Some n")
      (simp_all add: clusterDelNode_slot_def s2_def)
  have view: "slot_view s2 = slot_view s" "delnode_keep s2 = delnode_keep s" "slots s2 = slots s"
    by (simp_all add: s2_def delnode_keep_def view_defs)
  have inv2: "slot_inv s2" using slot_inv_cong [OF view(1)] inv by simp
  show ?thesis
  proof (cases "slots s j = Some n")
    case False
    then have "slots s = (\<lambda>i. if i = j \<and> slots s i = Some n then None else slots s i)" by auto
    with s2 False inv2 view show ?thesis by (simp add: s2_def imp_def mig_def)
  next
    case True
    obtain r t where t: "clusterDelSlot j s2 = Some (r, t)" "slot_inv t" "slots t = (slots s2)(j := None)"
      "slot_frame t = slot_frame s2"
      using st.del [OF inv2 j] by blast
    have "delnode_keep t = delnode_keep s2"
      using slot_frame_node [OF t(4)] slot_frame_server [OF t(4)] by (simp add: delnode_keep_def)
    moreover have "slots t = (\<lambda>i. if i = j \<and> slots s i = Some n then None else slots s i)"
      using t(3) view(3) True by auto
    moreover have "importing_slots_from t = importing_slots_from s2" "migrating_slots_to t = migrating_slots_to s2"
      using slot_frame_server [OF t(4)] by simp_all
    ultimately show ?thesis using s2 t True view by (simp add: s2_def imp_def mig_def)
  qed
qed

lemma clusterDelNode_slots:
  assumes inv: "slot_inv s"
  shows "\<exists>t. for_each [0..<CLUSTER_SLOTS] (clusterDelNode_slot n) s = Some t \<and>
     slot_inv t \<and> delnode_keep t = delnode_keep s \<and>
     (\<forall>j<CLUSTER_SLOTS. importing_slots_from t j \<noteq> Some n \<and> migrating_slots_to t j \<noteq> Some n) \<and>
     slots t = (\<lambda>i. if i < CLUSTER_SLOTS \<and> slots s i = Some n then None else slots s i)"
proof -
  let ?J = "\<lambda>k t. slot_inv t \<and> delnode_keep t = delnode_keep s \<and>
     (\<forall>j<k. importing_slots_from t j \<noteq> Some n \<and> migrating_slots_to t j \<noteq> Some n) \<and>
     slots t = (\<lambda>i. if i < k \<and> slots s i = Some n then None else slots s i)"
  show ?thesis
  proof (rule for_each_upt_rule [of ?J])
    show "?J 0 s" using inv by simp
  next
    fix j t assume j: "j < CLUSTER_SLOTS" and J: "?J j t"
    then obtain u where u: "clusterDelNode_slot n j t = Some u" "slot_inv u" "delnode_keep u = delnode_keep t"
      "\<forall>i. importing_slots_from u i = (if i = j \<and> importing_slots_from t i = Some n then None else importing_slots_from t i)"
      "\<forall>i. migrating_slots_to u i = (if i = j \<and> migrating_slots_to t i = Some n then None else migrating_slots_to t i)"
      "slots u = (\<lambda>i. if i = j \<and> slots t i = Some n then None else slots t i)"
      using clusterDelNode_slot_effect [of t j n] by blast
    have "\<forall>i<Suc j. importing_slots_from u i \<noteq> Some n \<and> migrating_slots_to u i \<noteq> Some n"
      using J u(4,5) by (auto simp: less_Suc_eq)
    moreover have "slots u = (\<lambda>i. if i < Suc j \<and> slots s i = Some n then None else slots s i)"
      using J u(6) by (auto simp: fun_eq_iff less_Suc_eq)
    ultimately have "?J (Suc j) u" using J u(2,3) by simp
    with u(1) show "\<exists>t'. clusterDelNode_slot n j t = Some t' \<and> ?J (Suc j) t'" by blast
  qed
qed

text \<open>
  \<open>clusterDelNode\<close> leaves no trace of the node: not in the tables of slots, not
  among the failure reports, not as a replica or as a master, not in the table of nodes.
\<close>

lemma clusterDelNode_core:
  assumes inv: "slot_inv s" and names: "names_inv s" and rep: "reports_inv s" and d: "d \<in> live s"
  shows "\<exists>t. clusterDelNode d s = Some t \<and> slot_inv t \<and> names_inv t \<and> reports_inv t \<and>
     live t = live s - {d} \<and> clusterLookupNode (name (nd s d)) t = None \<and> epoch_view t = epoch_view s \<and>
     link_node t = link_node s \<and>
     slots t = (\<lambda>i. if i < CLUSTER_SLOTS \<and> slots s i = Some d then None else slots s i) \<and>
     (\<forall>j<CLUSTER_SLOTS. importing_slots_from t j \<noteq> Some d \<and> migrating_slots_to t j \<noteq> Some d) \<and>
     (\<forall>a \<in> live t. d \<notin> reporters t a) \<and>
     (\<forall>a. slaveof (heap t a) = (if a \<in> set (slaves (nd s d)) then None else slaveof (heap s a))) \<and>
     (\<forall>a. nodeIsSlave (heap t a) = nodeIsSlave (heap s a)) \<and>
     (\<forall>a. slaves (heap t a) =
         (if slaveof (nd s d) = Some a \<and> d \<notin> set (slaves (nd s d)) \<and> nodeIsSlave (nd s d)
          then remove1 d (slaves (heap s a)) else slaves (heap s a)))"
proof -
  obtain t1 where t1: "for_each [0..<CLUSTER_SLOTS] (clusterDelNode_slot d) s = Some t1" "slot_inv t1"
    "delnode_keep t1 = delnode_keep s"
    "\<forall>j<CLUSTER_SLOTS. importing_slots_from t1 j \<noteq> Some d \<and> migrating_slots_to t1 j \<noteq> Some d"
    "slots t1 = (\<lambda>i. if i < CLUSTER_SLOTS \<and> slots s i = Some d then None else slots s i)"
    using clusterDelNode_slots [OF inv] by blast
  note k = delnode_keepD [OF t1(3)]
  define t2 where "t2 = fold (\<lambda>(nm, node) s. if node = d then s
                                   else snd (clusterNodeDelFailureReport node d s)) (nodes t1) t1"
  have "\<forall>a \<in> snd ` set (nodes t1). distinct (map fst (fail_reports (nd t1 a)))"
    using rep k by (simp add: reports_inv_def live_def)
  from withdraw_reports [OF this, of d]
  have t2: "report_frame t2 = report_frame t1"
    "\<forall>a. distinct (map fst (fail_reports (nd t1 a))) \<longrightarrow> distinct (map fst (fail_reports (nd t2 a)))"
    "\<forall>a \<in> live t1. a \<noteq> d \<longrightarrow> d \<notin> reporters t2 a"
    by (auto simp: t2_def live_def)
  note f = report_frame_fields [OF t2(1)]
  have names2: "names_inv t2" using names k f by (simp add: names_inv_def)
  have d2: "d \<in> live t2" using d f k by simp
  obtain t where t: "freeClusterNode d t2 = Some t"
    "table_frame t = table_frame (t2\<lparr>nodes := filter (\<lambda>e. fst e \<noteq> name (nd t2 d)) (nodes t2)\<rparr>)"
    "\<forall>a. slaveof (heap t a) = (if a \<in> set (slaves (nd t2 d)) then None else slaveof (heap t2 a))"
    "\<forall>a. nodeIsSlave (heap t a) = nodeIsSlave (heap t2 a)"
    "\<forall>a. slaves (heap t a) =
              (if slaveof (nd t2 d) = Some a \<and> d \<notin> set (slaves (nd t2 d)) \<and> nodeIsSlave (nd t2 d)
               then remove1 d (slaves (heap t2 a)) else slaves (heap t2 a))"
    using freeClusterNode_effect [OF names2 d2] by blast
  note tf = table_frameD [OF t(2), simplified]
  have nm: "names_inv t" "live t = live s - {d}"
    using names_inv_del [OF names2 d2 tf(1) tf(9) tf(5)] f k by simp_all
  have "clusterDelNode d s = Some t"
    using t1(1) t(1) by (simp add: clusterDelNode_def t2_def)
  moreover have "slot_inv t"
  proof (rule slot_inv_shrink [where s = t2])
    show "slot_inv t2" using slot_inv_cong [OF f(1)] t1(2) by simp
    show "live t = live t2 - {d}" using nm f k by simp
    show "slots t = slots t2" by (rule tf)
    show "slots t2 j \<noteq> Some d" if "j < CLUSTER_SLOTS" for j using t1(5) f that by auto
  qed (rule tf)+
  moreover have "reports_inv t" "\<forall>a \<in> live t. d \<notin> reporters t a"
    using rep nm tf t2(2,3) k by (auto simp: reports_inv_def reporters_def)
  moreover have "clusterLookupNode (name (nd s d)) t = None"
    using tf(1) f k by (force simp: clusterLookupNode_def dictFind_def map_of_eq_None_iff)
  moreover have "epoch_view (t2\<lparr>nodes := ns\<rparr>) = epoch_view t2" for ns by (simp add: view_defs)
  then have "epoch_view t = epoch_view s" using tf(11) f k by simp
  moreover have "link_node t = link_node s" using tf(12) f k by simp
  moreover have "slots t = (\<lambda>i. if i < CLUSTER_SLOTS \<and> slots s i = Some d then None else slots s i)"
    "\<forall>j<CLUSTER_SLOTS. importing_slots_from t j \<noteq> Some d \<and> migrating_slots_to t j \<noteq> Some d"
    using tf f t1(4,5) by simp_all
  ultimately show ?thesis using nm t(3-5) by (simp add: f k)
qed

lemma clusterDelNode_effect:
  assumes inv: "slot_inv s" and names: "names_inv s" and repl: "repl_inv s" and rep: "reports_inv s"
    and d: "d \<in> live s"
  shows "\<exists>t. clusterDelNode d s = Some t \<and> slot_inv t \<and> names_inv t \<and> repl_inv t \<and> reports_inv t \<and>
     live t = live s - {d} \<and> clusterLookupNode (name (nd s d)) t = None \<and> epoch_view t = epoch_view s \<and>
     slots t = (\<lambda>i. if i < CLUSTER_SLOTS \<and> slots s i = Some d then None else slots s i) \<and>
     (\<forall>j<CLUSTER_SLOTS. importing_slots_from t j \<noteq> Some d \<and> migrating_slots_to t j \<noteq> Some d) \<and>
     (\<forall>a \<in> live t. d \<notin> reporters t a \<and> d \<notin> set (slaves (nd t a)) \<and> slaveof (nd t a) \<noteq> Some d)"
proof -
  obtain t where t: "clusterDelNode d s = Some t" "slot_inv t" "names_inv t" "reports_inv t"
    "live t = live s - {d}" "clusterLookupNode (name (nd s d)) t = None" "epoch_view t = epoch_view s"
    "slots t = (\<lambda>i. if i < CLUSTER_SLOTS \<and> slots s i = Some d then None else slots s i)"
    "\<forall>j<CLUSTER_SLOTS. importing_slots_from t j \<noteq> Some d \<and> migrating_slots_to t j \<noteq> Some d"
    "\<forall>a \<in> live t. d \<notin> reporters t a"
    and r: "\<And>a. slaveof (heap t a) = (if a \<in> set (slaves (nd s d)) then None else slaveof (heap s a))"
    "\<And>a. nodeIsSlave (heap t a) = nodeIsSlave (heap s a)"
    "\<And>a. slaves (heap t a) =
         (if slaveof (nd s d) = Some a \<and> d \<notin> set (slaves (nd s d)) \<and> nodeIsSlave (nd s d)
          then remove1 d (slaves (heap s a)) else slaves (heap s a))"
    using clusterDelNode_core [OF inv names rep d] by blast
  from repl_inv_shrink [OF repl d t(5) r] t show ?thesis by blast
qed

section \<open>The invariant of the tables\<close>

text \<open>
  What every handler keeps: slots, names and reports are consistent and the node
  itself is in the table. It depends on the state only through \<open>inv_view\<close>.
\<close>

definition cluster_inv :: "server \<Rightarrow> bool" where
  "cluster_inv s \<longleftrightarrow> slot_inv s \<and> names_inv s \<and> reports_inv s \<and> myself s \<in> live s"

text \<open>Before a node has a name of its own, while it loads its configuration, only the tables count.\<close>

definition tables_inv :: "server \<Rightarrow> bool" where
  "tables_inv s \<longleftrightarrow> slot_inv s \<and> names_inv s \<and> reports_inv s"

lemma cluster_inv_tables: "cluster_inv s \<longleftrightarrow> tables_inv s \<and> myself s \<in> live s"
  by (auto simp: cluster_inv_def tables_inv_def)

definition inv_view :: "server \<Rightarrow> _" where
  "inv_view s = (slot_view s, name_view s, report_view s, myself s)"

lemma names_inv_cong: "name_view s = name_view t \<Longrightarrow> names_inv s = names_inv t"
  by (auto simp: view_defs names_inv_def fun_eq_iff)

lemma reports_inv_cong: "report_view s = report_view t \<Longrightarrow> reports_inv s = reports_inv t"
  by (auto simp: view_defs reports_inv_def fun_eq_iff)

lemma cluster_inv_cong: "inv_view s = inv_view t \<Longrightarrow> cluster_inv s = cluster_inv t"
  using slot_inv_cong [of s t] names_inv_cong [of s t] reports_inv_cong [of s t] view_same(2) [of s t]
  by (simp add: inv_view_def cluster_inv_def)

lemma inv_view_live: "inv_view s = inv_view t \<Longrightarrow> live s = live t"
  using view_same(2) [of s t] by (simp add: inv_view_def)

lemma inv_view_nodes: "inv_view s = inv_view t \<Longrightarrow> nodes s = nodes t \<and> myself s = myself t \<and> slots s = slots t"
  by (simp add: inv_view_def slot_view_def)

lemma cluster_invD:
  assumes "cluster_inv s"
  shows "slot_inv s" "names_inv s" "reports_inv s" "myself s \<in> live s"
  using assms by (simp_all add: cluster_inv_def)

lemma table_frame_inv_view: "table_frame s = table_frame t \<Longrightarrow> inv_view s = inv_view t"
  using table_frame_views [of s t] table_frameD(6) [of s t] by (simp add: inv_view_def)

text \<open>Which operations keep the view, and the epochs.\<close>

lemma upd_node_inv_view:
  "(\<And>n. node_slots (f n) = node_slots n \<and> numslots (f n) = numslots n) \<Longrightarrow> (\<And>n. name (f n) = name n) \<Longrightarrow>
   (\<And>n. fail_reports (f n) = fail_reports n) \<Longrightarrow> inv_view (upd_node a f s) = inv_view s"
  by (simp add: inv_view_def upd_node_slot_view upd_node_name_view upd_node_report_view)

lemma keep_simple [simp]:
  "inv_view (clusterDoBeforeSleep fl s) = inv_view s" "inv_view (emit e s) = inv_view s"
  "inv_view (clusterSaveConfigOrDie b s) = inv_view s"
  by (simp_all add: inv_view_def)

lemma keep_slaves [simp]:
  "inv_view (snd (clusterNodeRemoveSlave m n s)) = inv_view s"
  "epoch_view (snd (clusterNodeRemoveSlave m n s)) = epoch_view s"
  "link_node (snd (clusterNodeRemoveSlave m n s)) = link_node s"
  "inv_view (snd (clusterNodeAddSlave m n s)) = inv_view s"
  "epoch_view (snd (clusterNodeAddSlave m n s)) = epoch_view s"
  "link_node (snd (clusterNodeAddSlave m n s)) = link_node s"
  using table_frame_inv_view [OF clusterNodeRemoveSlave_effect(1)] table_frameD [OF clusterNodeRemoveSlave_effect(1)]
    table_frame_inv_view [OF clusterNodeAddSlave_effect(1)] table_frameD [OF clusterNodeAddSlave_effect(1)]
  by simp_all

lemma keep_freeClusterLink [simp]:
  "inv_view (freeClusterLink l s) = inv_view s" "epoch_view (freeClusterLink l s) = epoch_view s"
  "link_node (freeClusterLink l s) = link_node s"
  using table_frame_inv_view [OF freeClusterLink_effect(1)] table_frameD [OF freeClusterLink_effect(1)]
  by simp_all

lemma keep_blacklist [simp]:
  "inv_view (clusterBlacklistCleanup s) = inv_view s" "epoch_view (clusterBlacklistCleanup s) = epoch_view s"
  "link_node (clusterBlacklistCleanup s) = link_node s"
  "inv_view (clusterBlacklistAddNode n s) = inv_view s" "epoch_view (clusterBlacklistAddNode n s) = epoch_view s"
  "inv_view (snd (clusterBlacklistExists nm s)) = inv_view s"
  "epoch_view (snd (clusterBlacklistExists nm s)) = epoch_view s"
  "link_node (snd (clusterBlacklistExists nm s)) = link_node s"
  by (simp_all add: clusterBlacklistCleanup_def clusterBlacklistAddNode_def clusterBlacklistExists_def
      Let_def inv_view_def view_defs)

text \<open>Failure reports change nothing but the reports of one node, which stay distinct.\<close>

lemma report_frame_views:
  assumes "report_frame s = report_frame t"
  shows "slot_view s = slot_view t" "name_view s = name_view t" "epoch_view s = epoch_view t"
    "link_node s = link_node t" "myself s = myself t" "live s = live t"
proof -
  note f = report_frame_fields [OF assms]
  have "next_addr s = next_addr t" "myself s = myself t"
    using arg_cong [OF assms [unfolded report_frame_def], of next_addr]
      arg_cong [OF assms [unfolded report_frame_def], of myself] by simp_all
  with f show "slot_view s = slot_view t" "name_view s = name_view t" "epoch_view s = epoch_view t"
    "link_node s = link_node t" "myself s = myself t" "live s = live t"
    by (simp_all add: name_view_def)
qed

lemma cluster_inv_reports:
  assumes "cluster_inv s" "report_frame t = report_frame s" "reports_inv t"
  shows "cluster_inv t"
  using assms slot_inv_cong [OF report_frame_views(1) [OF assms(2)]]
    names_inv_cong [OF report_frame_views(2) [OF assms(2)]] report_frame_views [OF assms(2)]
  by (simp add: cluster_inv_def)

lemma clusterNodeAddFailureReport_frame:
  "report_frame (snd (clusterNodeAddFailureReport a b s)) = report_frame s"
  by (auto simp: clusterNodeAddFailureReport_def upd_node_def report_frame_def fun_eq_iff split: option.splits)

lemma clusterNodeCleanupFailureReports_frame:
  "report_frame (clusterNodeCleanupFailureReports a s) = report_frame s"
  by (auto simp: clusterNodeCleanupFailureReports_def Let_def upd_node_def report_frame_def fun_eq_iff)

lemma clusterNodeAddFailureReport_reports:
  assumes "distinct (map fst (fail_reports (nd s a)))"
  shows "fst (clusterNodeAddFailureReport a b s) = (if b \<in> reporters s a then 0 else 1)"
    and "map_of (fail_reports (nd (snd (clusterNodeAddFailureReport a b s)) a)) =
           (map_of (fail_reports (nd s a)))(b \<mapsto> mstime s)"
    and "distinct (map fst (fail_reports (nd (snd (clusterNodeAddFailureReport a b s)) a)))"
proof -
  have none: "update_report b (mstime s) (fail_reports (nd s a)) = None \<longleftrightarrow> b \<notin> reporters s a"
    by (simp add: update_report_None reporters_def)
  show "fst (clusterNodeAddFailureReport a b s) = (if b \<in> reporters s a then 0 else 1)"
    using none by (auto simp: clusterNodeAddFailureReport_def split: option.splits)
  show "map_of (fail_reports (nd (snd (clusterNodeAddFailureReport a b s)) a)) =
           (map_of (fail_reports (nd s a)))(b \<mapsto> mstime s)"
    using assms none map_of_snoc [of b "fail_reports (nd s a)" "mstime s"] update_report_Some [of b "mstime s"]
    by (auto simp: clusterNodeAddFailureReport_def reporters_def simp del: map_of_append split: option.splits)
  show "distinct (map fst (fail_reports (nd (snd (clusterNodeAddFailureReport a b s)) a)))"
    using assms none update_report_Some [of b "mstime s"]
    by (auto simp: clusterNodeAddFailureReport_def reporters_def split: option.splits)
qed

lemma clusterNodeAddFailureReport_other:
  "c \<noteq> a \<Longrightarrow> heap (snd (clusterNodeAddFailureReport a b s)) c = heap s c"
  by (auto simp: clusterNodeAddFailureReport_def split: option.splits)

lemma clusterNodeCleanupFailureReports_reports:
  "fail_reports (nd (clusterNodeCleanupFailureReports a s) a) =
     filter (\<lambda>(_, t). \<not> mstime s - t > cluster_node_timeout s * CLUSTER_FAIL_REPORT_VALIDITY_MULT)
       (fail_reports (nd s a))"
  "c \<noteq> a \<Longrightarrow> heap (clusterNodeCleanupFailureReports a s) c = heap s c"
  by (simp_all add: clusterNodeCleanupFailureReports_def Let_def)

lemma keep_reports:
  assumes "cluster_inv s"
  shows "cluster_inv (snd (clusterNodeAddFailureReport a b s))"
    "cluster_inv (snd (clusterNodeDelFailureReport a b s))"
    "cluster_inv (snd (clusterNodeFailureReportsCount a s))"
proof -
  note r = cluster_invD(3) [OF assms]
  have "reports_inv (snd (clusterNodeAddFailureReport a b s))"
    unfolding reports_inv_def
  proof
    fix c assume "c \<in> live (snd (clusterNodeAddFailureReport a b s))"
    then have "distinct (map fst (fail_reports (nd s c)))"
      using r report_frame_views(6) [OF clusterNodeAddFailureReport_frame [of a b s]]
      by (auto simp: reports_inv_def)
    then show "distinct (map fst (fail_reports (nd (snd (clusterNodeAddFailureReport a b s)) c)))"
      using clusterNodeAddFailureReport_reports(3) [where a = a and b = b and s = s]
        clusterNodeAddFailureReport_other [where a = a and b = b and s = s and c = c]
      by (cases "c = a") auto
  qed
  then show "cluster_inv (snd (clusterNodeAddFailureReport a b s))"
    by (rule cluster_inv_reports [OF assms clusterNodeAddFailureReport_frame])
  have "reports_inv (snd (clusterNodeDelFailureReport a b s))"
    unfolding reports_inv_def
  proof
    fix c assume "c \<in> live (snd (clusterNodeDelFailureReport a b s))"
    then have "distinct (map fst (fail_reports (nd s c)))"
      using r report_frame_views(6) [OF clusterNodeDelFailureReport_frame [where a = a and b = b and s = s, OF refl]]
      by (auto simp: reports_inv_def)
    then show "distinct (map fst (fail_reports (nd (snd (clusterNodeDelFailureReport a b s)) c)))"
      using clusterNodeDelFailureReport_effect(1,5) [where a = a and b = b and s = s, OF refl]
      by (cases "c = a") auto
  qed
  then show "cluster_inv (snd (clusterNodeDelFailureReport a b s))"
    by (rule cluster_inv_reports [OF assms clusterNodeDelFailureReport_frame [OF refl]])
  have "reports_inv (clusterNodeCleanupFailureReports a s)"
    unfolding reports_inv_def
  proof
    fix c assume "c \<in> live (clusterNodeCleanupFailureReports a s)"
    then have "distinct (map fst (fail_reports (nd s c)))"
      using r report_frame_views(6) [OF clusterNodeCleanupFailureReports_frame [of a s]]
      by (auto simp: reports_inv_def)
    then show "distinct (map fst (fail_reports (nd (clusterNodeCleanupFailureReports a s) c)))"
      using clusterNodeCleanupFailureReports_reports [where a = a and s = s]
      by (cases "c = a") (auto simp: distinct_map_filter_fst)
  qed
  then show "cluster_inv (snd (clusterNodeFailureReportsCount a s))"
    using cluster_inv_reports [OF assms clusterNodeCleanupFailureReports_frame [of a s]]
    by (simp add: clusterNodeFailureReportsCount_def Let_def)
qed

lemma keep_reports_views [simp]:
  "epoch_view (snd (clusterNodeAddFailureReport a b s)) = epoch_view s"
  "epoch_view (snd (clusterNodeDelFailureReport a b s)) = epoch_view s"
  "epoch_view (snd (clusterNodeFailureReportsCount a s)) = epoch_view s"
  "link_node (snd (clusterNodeAddFailureReport a b s)) = link_node s"
  "link_node (snd (clusterNodeDelFailureReport a b s)) = link_node s"
  "link_node (snd (clusterNodeFailureReportsCount a s)) = link_node s"
  "live (snd (clusterNodeAddFailureReport a b s)) = live s"
  "live (snd (clusterNodeDelFailureReport a b s)) = live s"
  "live (snd (clusterNodeFailureReportsCount a s)) = live s"
  using report_frame_views [OF clusterNodeAddFailureReport_frame [of a b s]]
    report_frame_views [OF clusterNodeDelFailureReport_frame [where a = a and b = b and s = s, OF refl]]
    report_frame_views [OF clusterNodeCleanupFailureReports_frame [of a s]]
  by (simp_all add: clusterNodeFailureReportsCount_def Let_def)

section \<open>New nodes\<close>

text \<open>A node that is allocated and not yet in the table.\<close>

definition fresh_node :: "server \<Rightarrow> naddr \<Rightarrow> bool" where
  "fresh_node s n \<longleftrightarrow> n \<notin> live s \<and> n < next_addr s \<and> length (node_slots (nd s n)) = CLUSTER_SLOTS div 8 \<and>
     owned s n = {} \<and> numslots (nd s n) = 0 \<and> fail_reports (nd s n) = []"

lemma owned_zero: "node_slots (heap s n) = replicate (CLUSTER_SLOTS div 8) 0 \<Longrightarrow> owned s n = {}"
  by (auto simp: owned_def bitmapTestBit_bit slot_div_8)

lemma createClusterNode_tables:
  assumes inv: "tables_inv s" and c: "(a, t) = createClusterNode nm fl s"
  shows "tables_inv t" "fresh_node t a" "live t = live s" "epoch_view t = epoch_view s"
    "link_node t = link_node s" "nodes t = nodes s" "myself t = myself s"
    "flags (nd t a) = fl" "nm = Some m \<Longrightarrow> name (nd t a) = m"
proof -
  note i = inv [unfolded tables_inv_def, THEN conjunct1] inv [unfolded tables_inv_def, THEN conjunct2, THEN conjunct1]
    inv [unfolded tables_inv_def, THEN conjunct2, THEN conjunct2]
  have t: "nodes t = nodes s" "slots t = slots s" "next_addr t = Suc (next_addr s)" "a = next_addr s"
    "myself t = myself s" "\<And>b. b \<noteq> a \<Longrightarrow> heap t b = heap s b"
    "node_slots (heap t a) = replicate (CLUSTER_SLOTS div 8) 0" "numslots (heap t a) = 0"
    "fail_reports (heap t a) = []"
    using c by (auto simp: createClusterNode_def Let_def split: option.splits)
  show "epoch_view t = epoch_view s" "link_node t = link_node s" "nodes t = nodes s" "myself t = myself s"
    "flags (nd t a) = fl" "nm = Some m \<Longrightarrow> name (nd t a) = m"
    using c by (auto simp: createClusterNode_def Let_def view_defs split: option.splits)
  have l: "live t = live s" by (simp add: live_def t(1))
  then show "live t = live s" .
  have na: "b \<noteq> a" if "b \<in> live s" for b using i(2) that t(4) by (auto simp: names_inv_def)
  have same: "heap t b = heap s b" if "b \<in> live s" for b using t(6) na that by simp
  have "slot_inv t" unfolding slot_inv_def owned_def l
    using i(1) same t(2) by (simp add: slot_inv_def owned_def)
  moreover have "names_inv t" unfolding names_inv_def t(1) l
  proof (intro conjI ballI)
    show "dictOk (nodes s)" using i(2) by (simp add: names_inv_def)
    fix e assume e: "e \<in> set (nodes s)"
    obtain nm b where eq: "e = (nm, b)" by force
    with e have "b \<in> live s" by (force simp: live_def)
    with same names_inv_name [OF i(2), of nm b] e eq
    show "case e of (nm, a) \<Rightarrow> name (nd t a) = nm" by simp
  next
    fix b assume "b \<in> live s"
    then show "b < next_addr t" using i(2) t(3) by (simp add: names_inv_def less_SucI)
  qed
  moreover have "reports_inv t" unfolding reports_inv_def l using i(3) same by (simp add: reports_inv_def)
  ultimately show "tables_inv t" by (simp add: tables_inv_def)
  have "a \<notin> live t" using na l by auto
  then show "fresh_node t a" using t owned_zero [OF t(7)] by (simp add: fresh_node_def)
qed

lemma createClusterNode_fresh:
  assumes inv: "cluster_inv s" and c: "(a, t) = createClusterNode nm fl s"
  shows "cluster_inv t" "fresh_node t a" "live t = live s" "epoch_view t = epoch_view s"
    "link_node t = link_node s" "nodes t = nodes s"
    "flags (nd t a) = fl" "nm = Some m \<Longrightarrow> name (nd t a) = m"
  using createClusterNode_tables [OF _ c] inv by (simp_all add: cluster_inv_tables)

lemma clusterAddNode_tables:
  assumes inv: "tables_inv s" and n: "fresh_node s n"
  shows "tables_inv (snd (clusterAddNode n s))" "live (snd (clusterAddNode n s)) \<subseteq> insert n (live s)"
    "live s \<subseteq> live (snd (clusterAddNode n s))"
proof -
  note i = inv [unfolded tables_inv_def, THEN conjunct1] inv [unfolded tables_inv_def, THEN conjunct2, THEN conjunct1]
    inv [unfolded tables_inv_def, THEN conjunct2, THEN conjunct2]
  define t where "t = snd (clusterAddNode n s)"
  have *: "tables_inv t \<and> live t \<subseteq> insert n (live s) \<and> live s \<subseteq> live t"
  proof (cases "dictAdd (nodes s) (name (nd s n)) n")
    case None
    then show ?thesis using inv by (simp add: t_def clusterAddNode_def subset_insertI)
  next
    case (Some d)
    then have t: "t = s\<lparr>nodes := d\<rparr>" and d: "d = nodes s @ [(name (nd s n), n)]"
      by (simp_all add: t_def clusterAddNode_def dictAdd_def split: if_splits)
    have ok: "dictOk d"
      using alist.add_then_find [OF _ Some] i(2) by (simp add: names_inv_def)
    have l: "live t = insert n (live s)" by (simp add: t d live_def)
    have fr: "n \<notin> live s" "n < next_addr s" "length (node_slots (nd s n)) = CLUSTER_SLOTS div 8"
      "owned s n = {}" "numslots (nd s n) = 0" "fail_reports (nd s n) = []"
      using n by (simp_all add: fresh_node_def)
    have "slots s j \<noteq> Some n" if "j < CLUSTER_SLOTS" for j
      using slot_inv_live [OF i(1) that] fr(1) by auto
    then have "slot_inv t" unfolding slot_inv_def l
      using i(1) fr by (auto simp: slot_inv_def owned_def t)
    moreover have "names_inv t" unfolding names_inv_def l
      using i(2) fr ok by (auto simp: names_inv_def t d)
    moreover have "reports_inv t" unfolding reports_inv_def l
      using i(3) fr by (simp add: reports_inv_def t)
    ultimately show ?thesis using l by (auto simp: tables_inv_def t)
  qed
  then show "tables_inv (snd (clusterAddNode n s))" "live (snd (clusterAddNode n s)) \<subseteq> insert n (live s)"
    "live s \<subseteq> live (snd (clusterAddNode n s))" by (simp_all add: t_def)
qed

lemma keep_clusterAddNode [simp]:
  "epoch_view (snd (clusterAddNode n s)) = epoch_view s" "link_node (snd (clusterAddNode n s)) = link_node s"
  "heap (snd (clusterAddNode n s)) = heap s" "myself (snd (clusterAddNode n s)) = myself s"
  by (simp_all add: clusterAddNode_def view_defs split: option.splits)

lemma clusterAddNode_inv:
  assumes inv: "cluster_inv s" and n: "fresh_node s n"
  shows "cluster_inv (snd (clusterAddNode n s))" "live (snd (clusterAddNode n s)) \<subseteq> insert n (live s)"
    "live s \<subseteq> live (snd (clusterAddNode n s))"
  using clusterAddNode_tables [OF _ n] inv by (auto simp: cluster_inv_tables)

lemma fresh_node_upd:
  "fresh_node s n \<Longrightarrow> (\<And>x. node_slots (f x) = node_slots x \<and> numslots (f x) = numslots x) \<Longrightarrow>
   (\<And>x. fail_reports (f x) = fail_reports x) \<Longrightarrow> fresh_node (upd_node n f s) n"
  by (simp add: fresh_node_def owned_def upd_node_def live_def)

lemma cluster_inv_upd_fresh:
  assumes "cluster_inv s" "n \<notin> live s" shows "cluster_inv (upd_node n f s)"
proof -
  have "slot_inv (upd_node n f s) = slot_inv s"
    using assms(2) by (auto simp: slot_inv_def owned_def)
  moreover have "names_inv (upd_node n f s) = names_inv s"
    using assms(2) by (force simp: names_inv_def live_def)
  moreover have "reports_inv (upd_node n f s) = reports_inv s"
    using assms(2) by (auto simp: reports_inv_def)
  ultimately show ?thesis using assms by (simp add: cluster_inv_def)
qed

text \<open>Giving a node a new name that no other node has.\<close>

lemma clusterRenameNode_inv:
  assumes inv: "cluster_inv s" and n: "n \<in> live s" and new: "clusterLookupNode newname s = None"
  shows "\<exists>t. clusterRenameNode n newname s = Some t \<and> cluster_inv t \<and> live t = live s \<and>
           epoch_view t = epoch_view s \<and> link_node t = link_node s \<and>
           clusterLookupNode newname t = Some n \<and> clusterLookupNode (name (nd s n)) t = None \<and>
           (\<forall>a. heap t a = (if a = n then (heap s a)\<lparr>name := newname\<rparr> else heap s a))"
proof -
  note i = cluster_invD [OF inv]
  define d where "d = filter (\<lambda>e. fst e \<noteq> name (nd s n)) (nodes s)"
  have del: "dictDelete (nodes s) (name (nd s n)) = Some d"
    using live_entry [OF i(2) n] by (force simp: dictDelete_def d_def)
  have ld: "snd ` set d = live s - {n}" using live_filter [OF i(2) n] by (simp add: d_def)
  have fresh: "newname \<notin> fst ` set d"
    using new by (auto simp: clusterLookupNode_def dictFind_def d_def map_of_eq_None_iff)
  have old: "name (nd s n) \<noteq> newname"
    using new clusterLookupNode_name [OF i(2), of newname n] n by auto
  define t where "t = upd_node n (\<lambda>x. x\<lparr>name := newname\<rparr>) (s\<lparr>nodes := d @ [(newname, n)]\<rparr>)"
  have t: "clusterRenameNode n newname s = Some t"
    using del fresh by (simp add: clusterRenameNode_def Let_def clusterAddNode_def dictAdd_def t_def upd_node_def)
  have l: "live t = live s" using ld n by (auto simp: live_def t_def)
  have nodes: "nodes t = d @ [(newname, n)]" by (simp add: t_def)
  have ok: "dictOk (nodes t)"
    using i(2) fresh by (simp add: nodes names_inv_def dictOk_def d_def distinct_map_filter_fst)
  have nm: "\<forall>(nm, a) \<in> set (nodes t). name (nd t a) = nm"
  proof (clarify)
    fix nm a assume "(nm, a) \<in> set (nodes t)"
    then consider "(nm, a) \<in> set d" | "nm = newname" "a = n" using nodes by auto
    then show "name (nd t a) = nm"
    proof cases
      case 1
      then have "a \<noteq> n" using ld by force
      with 1 names_inv_name [OF i(2), of nm a] show ?thesis by (simp add: t_def d_def)
    next
      case 2 then show ?thesis by (simp add: t_def)
    qed
  qed
  have names: "names_inv t" using ok nm i(2) l by (simp add: names_inv_def t_def upd_node_def)
  have "slot_inv t" using i(1) l unfolding slot_inv_def owned_def by (simp add: t_def)
  moreover have "reports_inv t" using i(3) l by (simp add: reports_inv_def t_def)
  ultimately have "cluster_inv t" using names i(4) l by (simp add: cluster_inv_def t_def upd_node_def)
  moreover have "clusterLookupNode newname t = Some n"
    using clusterLookupNode_name [OF names, of newname n] n l by (simp add: t_def)
  moreover have "clusterLookupNode (name (nd s n)) t = None"
    using old by (auto simp: clusterLookupNode_def dictFind_def nodes d_def map_of_eq_None_iff)
  ultimately show ?thesis using t l by (auto simp: t_def view_defs upd_node_def)
qed

lemma clusterDelNode_inv:
  assumes inv: "cluster_inv s" and d: "d \<in> live s" "d \<noteq> myself s"
  shows "\<exists>t. clusterDelNode d s = Some t \<and> cluster_inv t \<and> live t = live s - {d} \<and>
           epoch_view t = epoch_view s \<and> link_node t = link_node s"
proof -
  note i = cluster_invD [OF inv]
  obtain t where t: "clusterDelNode d s = Some t" "slot_inv t" "names_inv t" "reports_inv t"
    "live t = live s - {d}" "epoch_view t = epoch_view s" "link_node t = link_node s"
    using clusterDelNode_core [OF i(1-3) d(1)] by blast
  then have "myself t = myself s" by (simp add: epoch_view_def)
  with t i(4) d show ?thesis by (auto simp: cluster_inv_def)
qed

section \<open>The blacklist: what the operations do\<close>

lemma clusterBlacklistExists_iff:
  "fst (clusterBlacklistExists nm s) \<longleftrightarrow> (\<exists>e. (nm, e) \<in> set (nodes_black_list s) \<and> \<not> e < unixtime s)"
proof -
  have "map_of (filter (\<lambda>(_, e). \<not> e < unixtime s) d) nm \<noteq> None \<longleftrightarrow> (\<exists>e. (nm, e) \<in> set d \<and> \<not> e < unixtime s)" for d
    by (auto simp: map_of_eq_None_iff image_iff)
  then show ?thesis by (simp add: clusterBlacklistExists_def clusterBlacklistCleanup_def dictFind_def Let_def)
qed

lemma clusterBlacklistAddNode_entries:
  "(k, e) \<in> set (nodes_black_list (clusterBlacklistAddNode n s)) \<longleftrightarrow>
     (if k = name (nd s n) then e = sys_time s + CLUSTER_BLACKLIST_TTL
      else (k, e) \<in> set (nodes_black_list s) \<and> \<not> e < unixtime s)"
proof -
  define i where "i = name (nd s n)"
  define old where "old = filter (\<lambda>(_, e). \<not> e < unixtime s) (nodes_black_list s)"
  define d where "d = (case dictAdd old i 0 of Some d \<Rightarrow> d | None \<Rightarrow> old)"
  have add: "nodes_black_list (clusterBlacklistAddNode n s) =
      map (\<lambda>(k, v). if k = i then (k, sys_time s + CLUSTER_BLACKLIST_TTL) else (k, v)) d"
    by (simp add: clusterBlacklistAddNode_def clusterBlacklistCleanup_def Let_def i_def old_def d_def cong: if_cong option.case_cong)
  have "\<exists>v. (i, v) \<in> set d" "k \<noteq> i \<Longrightarrow> (k, v) \<in> set d \<longleftrightarrow> (k, v) \<in> set old" for k v
    by (auto simp: d_def dictAdd_def split: option.splits)
  then show ?thesis unfolding add i_def [symmetric] by (auto simp: old_def image_iff split: prod.splits)
qed

lemma clusterBlacklist_expiry:
  assumes "unixtime s \<le> now"
  shows "fst (clusterBlacklistExists nm ((clusterBlacklistAddNode n s)\<lparr>unixtime := now\<rparr>)) \<longleftrightarrow>
     (if nm = name (nd s n) then now \<le> sys_time s + CLUSTER_BLACKLIST_TTL
      else fst (clusterBlacklistExists nm (s\<lparr>unixtime := now\<rparr>)))"
  using assms by (auto simp: clusterBlacklistExists_iff clusterBlacklistAddNode_entries)

end
