(* ===== verification/ClusterMsg.thy ===== *)
theory ClusterMsg
  imports ClusterNodes
begin

text \<open>
  Sending messages on the cluster bus: the header every message carries
  (\<open>clusterBuildMessageHdr\<close>), the gossip section of PING, PONG and MEET, and the
  messages that announce a failure, a configuration update, a vote, a request for
  votes and the start of a manual failover. A message that is sent is an effect; the
  lemmas say which state each sender leaves alone and what the messages carry.
\<close>

section \<open>Queueing and broadcasting\<close>

definition clusterSendMessage :: "laddr \<Rightarrow> clusterMsg \<Rightarrow> server \<Rightarrow> server" where
  "clusterSendMessage l msg s =
     (let s = emit (SendMessage l msg) s; type = h_type msg
      in if type < CLUSTERMSG_TYPE_COUNT
         then s\<lparr>stats_bus_messages_sent :=
                  (stats_bus_messages_sent s)(type := stats_bus_messages_sent s type + 1)\<rparr>
         else s)"

definition clusterBroadcastMessage :: "clusterMsg \<Rightarrow> server \<Rightarrow> server" where
  "clusterBroadcastMessage msg s =
     fold (\<lambda>(nm, node) s.
       case link (nd s node) of
         None \<Rightarrow> s
       | Some l \<Rightarrow>
           if flags (nd s node) AND (CLUSTER_NODE_MYSELF OR CLUSTER_NODE_HANDSHAKE) \<noteq> 0 then s
           else clusterSendMessage l msg s) (nodes s) s"

section \<open>The header\<close>

definition replicationGetSlaveOffset :: "server \<Rightarrow> int" where
  "replicationGetSlaveOffset s =
     (let offset = (if masterhost s \<noteq> None
                    then (case master_reploff s of
                            Some r \<Rightarrow> r
                          | None \<Rightarrow> (case cached_master_reploff s of Some r \<Rightarrow> r | None \<Rightarrow> 0))
                    else 0)
      in if offset < 0 then 0 else offset)"

definition clusterBuildMessageHdr :: "nat \<Rightarrow> server \<Rightarrow> clusterMsg" where
  "clusterBuildMessageHdr type s =
     (let master = (case slaveof (me s) of
                      Some m \<Rightarrow> if nodeIsSlave (me s) then m else myself s
                    | None \<Rightarrow> myself s);
          announced_port = (if cluster_announce_port s \<noteq> 0 then cluster_announce_port s else server_port s);
          announced_cport = (if cluster_announce_bus_port s \<noteq> 0 then cluster_announce_bus_port s
                             else server_port s + CLUSTER_PORT_INCR);
          offset = (if nodeIsSlave (me s) then replicationGetSlaveOffset s else master_repl_offset s)
      in \<lparr>h_totlen = (if type = CLUSTERMSG_TYPE_FAIL then CLUSTERMSG_MIN_LEN + sizeof_clusterMsgDataFail
                      else if type = CLUSTERMSG_TYPE_UPDATE then CLUSTERMSG_MIN_LEN + sizeof_clusterMsgDataUpdate
                      else 0),
          h_ver = CLUSTER_PROTO_VER,
          h_port = word_of_int announced_port,
          h_type = type,
          h_count = 0,
          h_currentEpoch = currentEpoch s,
          h_configEpoch = configEpoch (nd s master),
          h_offset = word_of_int offset,
          h_sender = name (me s),
          h_myslots = node_slots (nd s master),
          h_slaveof = (case slaveof (me s) of
                         Some m \<Rightarrow> name (nd s m) | None \<Rightarrow> replicate CLUSTER_NAMELEN 0),
          h_myip = (case cluster_announce_ip s of
                      Some a \<Rightarrow> take (NET_IP_STR_LEN - 1) a | None \<Rightarrow> []),
          h_cport = word_of_int announced_cport,
          h_flags = ucast (flags (me s)),
          h_state = word_of_int (state s),
          h_mflags0 = (if nodeIsMaster (me s) \<and> mf_end s \<noteq> 0 then CLUSTERMSG_FLAG0_PAUSED else 0),
          h_data = NoData\<rparr>)"

section \<open>PING, PONG and MEET\<close>

definition clusterNodeIsInGossipSection :: "clusterMsgDataGossip list \<Rightarrow> clusterNode \<Rightarrow> bool" where
  "clusterNodeIsInGossipSection gossip n = list_ex (\<lambda>g. g_nodename g = name n) gossip"

definition clusterSetGossipEntry :: "clusterNode \<Rightarrow> clusterMsgDataGossip" where
  "clusterSetGossipEntry n =
     \<lparr>g_nodename = name n,
      g_ping_sent = word_of_int (ping_sent n div 1000),
      g_pong_received = word_of_int (pong_received n div 1000),
      g_ip = ip n,
      g_port = word_of_int (port n),
      g_cport = word_of_int (cport n),
      g_flags = ucast (flags n)\<rparr>"

text \<open>
  The loop of \<open>clusterSendPing\<close> that picks random nodes; the first argument is
  \<open>maxiterations\<close>.
\<close>

fun gossip_random ::
  "nat \<Rightarrow> int \<Rightarrow> int \<Rightarrow> clusterMsgDataGossip list \<Rightarrow> server \<Rightarrow> clusterMsgDataGossip list \<times> server" where
  "gossip_random 0 freshnodes wanted gossip s = (gossip, s)"
| "gossip_random (Suc maxiterations) freshnodes wanted gossip s =
     (if \<not> (freshnodes > 0 \<and> int (length gossip) < wanted) then (gossip, s)
      else
        let this = random_key s (random_pos s);
            s = s\<lparr>random_pos := random_pos s + 1\<rparr>
        in if this = myself s then gossip_random maxiterations freshnodes wanted gossip s
           else if flags (nd s this) AND CLUSTER_NODE_PFAIL \<noteq> 0
           then gossip_random maxiterations freshnodes wanted gossip s
           else if flags (nd s this) AND (CLUSTER_NODE_HANDSHAKE OR CLUSTER_NODE_NOADDR) \<noteq> 0
                   \<or> (link (nd s this) = None \<and> numslots (nd s this) = 0)
           then gossip_random maxiterations (freshnodes - 1) wanted gossip s
           else if clusterNodeIsInGossipSection gossip (nd s this)
           then gossip_random maxiterations freshnodes wanted gossip s
           else gossip_random maxiterations (freshnodes - 1) wanted
                  (gossip @ [clusterSetGossipEntry (nd s this)]) s)"

text \<open>The loop that adds the nodes in PFAIL state, at most \<open>pfail_wanted\<close> of them.\<close>

fun gossip_pfail ::
  "(bytes \<times> naddr) list \<Rightarrow> int \<Rightarrow> clusterMsgDataGossip list \<Rightarrow> server \<Rightarrow> clusterMsgDataGossip list" where
  "gossip_pfail [] pfail_wanted gossip s = gossip"
| "gossip_pfail ((nm, node) # ns) pfail_wanted gossip s =
     (if \<not> pfail_wanted > 0 then gossip
      else if flags (nd s node) AND CLUSTER_NODE_HANDSHAKE \<noteq> 0 then gossip_pfail ns pfail_wanted gossip s
      else if flags (nd s node) AND CLUSTER_NODE_NOADDR \<noteq> 0 then gossip_pfail ns pfail_wanted gossip s
      else if flags (nd s node) AND CLUSTER_NODE_PFAIL = 0 then gossip_pfail ns pfail_wanted gossip s
      else gossip_pfail ns (pfail_wanted - 1) (gossip @ [clusterSetGossipEntry (nd s node)]) s)"

definition clusterSendPing :: "laddr \<Rightarrow> nat \<Rightarrow> server \<Rightarrow> server" where
  "clusterSendPing l type s =
     (let freshnodes = int (length (nodes s)) - 2;
          wanted = int (length (nodes s) div 10);
          wanted = (if wanted < 3 then 3 else wanted);
          wanted = (if wanted > freshnodes then freshnodes else wanted);
          pfail_wanted = stats_pfail_nodes s;
          s = (case link_node s l of
                 Some n \<Rightarrow> if type = CLUSTERMSG_TYPE_PING
                           then upd_node n (\<lambda>x. x\<lparr>ping_sent := mstime s\<rparr>) s else s
               | None \<Rightarrow> s);
          hdr = clusterBuildMessageHdr type s;
          (gossip, s) = gossip_random (nat (wanted * 3)) freshnodes wanted [] s;
          gossip = (if pfail_wanted \<noteq> 0 then gossip_pfail (nodes s) pfail_wanted gossip s else gossip);
          hdr = hdr\<lparr>h_count := of_nat (length gossip),
                    h_totlen := CLUSTERMSG_MIN_LEN + sizeof_clusterMsgDataGossip * of_nat (length gossip),
                    h_data := PingData gossip\<rparr>
      in clusterSendMessage l hdr s)"

definition CLUSTER_BROADCAST_ALL :: int where "CLUSTER_BROADCAST_ALL = 0"
definition CLUSTER_BROADCAST_LOCAL_SLAVES :: int where "CLUSTER_BROADCAST_LOCAL_SLAVES = 1"

definition clusterBroadcastPong :: "int \<Rightarrow> server \<Rightarrow> server" where
  "clusterBroadcastPong target s =
     fold (\<lambda>(nm, node) s.
       case link (nd s node) of
         None \<Rightarrow> s
       | Some l \<Rightarrow>
           if node = myself s \<or> nodeInHandshake (nd s node) then s
           else if target = CLUSTER_BROADCAST_LOCAL_SLAVES \<and>
                   \<not> (nodeIsSlave (nd s node) \<and> slaveof (nd s node) \<noteq> None \<and>
                      (slaveof (nd s node) = Some (myself s) \<or>
                       slaveof (nd s node) = slaveof (me s)))
           then s
           else clusterSendPing l CLUSTERMSG_TYPE_PONG s) (nodes s) s"

section \<open>The other messages\<close>

definition clusterSendPublish :: "laddr option \<Rightarrow> bytes \<Rightarrow> bytes \<Rightarrow> server \<Rightarrow> server" where
  "clusterSendPublish l channel message s =
     (let channel_len = of_nat (length channel) :: u32;
          message_len = of_nat (length message) :: u32;
          hdr = (clusterBuildMessageHdr CLUSTERMSG_TYPE_PUBLISH s)
                  \<lparr>h_totlen := CLUSTERMSG_MIN_LEN + (sizeof_clusterMsgDataPublish - 8 + channel_len + message_len),
                   h_data := PublishData channel_len message_len (channel @ message)\<rparr>
      in case l of Some l \<Rightarrow> clusterSendMessage l hdr s | None \<Rightarrow> clusterBroadcastMessage hdr s)"

definition clusterPropagatePublish :: "bytes \<Rightarrow> bytes \<Rightarrow> server \<Rightarrow> server" where
  "clusterPropagatePublish channel message s = clusterSendPublish None channel message s"

definition clusterSendFail :: "bytes \<Rightarrow> server \<Rightarrow> server" where
  "clusterSendFail nodename s =
     clusterBroadcastMessage ((clusterBuildMessageHdr CLUSTERMSG_TYPE_FAIL s)\<lparr>h_data := FailData nodename\<rparr>) s"

definition clusterSendUpdate :: "laddr option \<Rightarrow> naddr \<Rightarrow> server \<Rightarrow> server" where
  "clusterSendUpdate l node s =
     (case l of
        None \<Rightarrow> s
      | Some l \<Rightarrow>
          clusterSendMessage l
            ((clusterBuildMessageHdr CLUSTERMSG_TYPE_UPDATE s)
               \<lparr>h_data := UpdateData (configEpoch (nd s node)) (name (nd s node)) (node_slots (nd s node))\<rparr>) s)"

definition clusterSendModule :: "laddr option \<Rightarrow> u64 \<Rightarrow> byte \<Rightarrow> bytes \<Rightarrow> server \<Rightarrow> server" where
  "clusterSendModule l module_id type payload s =
     (let len = of_nat (length payload) :: u32;
          hdr = (clusterBuildMessageHdr CLUSTERMSG_TYPE_MODULE s)
                  \<lparr>h_totlen := CLUSTERMSG_MIN_LEN + (sizeof_clusterMsgModule - 3 + len),
                   h_data := ModuleData module_id len type payload\<rparr>
      in case l of Some l \<Rightarrow> clusterSendMessage l hdr s | None \<Rightarrow> clusterBroadcastMessage hdr s)"

definition clusterSendModuleMessageToTarget ::
  "bytes option \<Rightarrow> u64 \<Rightarrow> byte \<Rightarrow> bytes \<Rightarrow> server \<Rightarrow> int \<times> server" where
  "clusterSendModuleMessageToTarget target module_id type payload s =
     (case target of
        None \<Rightarrow> (C_OK, clusterSendModule None module_id type payload s)
      | Some nm \<Rightarrow>
          (case clusterLookupNode nm s of
             None \<Rightarrow> (C_ERR, s)
           | Some node \<Rightarrow>
               (case link (nd s node) of
                  None \<Rightarrow> (C_ERR, s)
                | Some l \<Rightarrow> (C_OK, clusterSendModule (Some l) module_id type payload s))))"

definition clusterRequestFailoverAuth :: "server \<Rightarrow> server" where
  "clusterRequestFailoverAuth s =
     (let hdr = clusterBuildMessageHdr CLUSTERMSG_TYPE_FAILOVER_AUTH_REQUEST s;
          hdr = (if mf_end s \<noteq> 0 then hdr\<lparr>h_mflags0 := h_mflags0 hdr OR CLUSTERMSG_FLAG0_FORCEACK\<rparr> else hdr)
      in clusterBroadcastMessage (hdr\<lparr>h_totlen := CLUSTERMSG_MIN_LEN\<rparr>) s)"

definition clusterSendFailoverAuth :: "naddr \<Rightarrow> server \<Rightarrow> server" where
  "clusterSendFailoverAuth node s =
     (case link (nd s node) of
        None \<Rightarrow> s
      | Some l \<Rightarrow>
          clusterSendMessage l
            ((clusterBuildMessageHdr CLUSTERMSG_TYPE_FAILOVER_AUTH_ACK s)\<lparr>h_totlen := CLUSTERMSG_MIN_LEN\<rparr>) s)"

definition clusterSendMFStart :: "naddr \<Rightarrow> server \<Rightarrow> server" where
  "clusterSendMFStart node s =
     (case link (nd s node) of
        None \<Rightarrow> s
      | Some l \<Rightarrow>
          clusterSendMessage l
            ((clusterBuildMessageHdr CLUSTERMSG_TYPE_MFSTART s)\<lparr>h_totlen := CLUSTERMSG_MIN_LEN\<rparr>) s)"

section \<open>What sending changes\<close>

text \<open>A state after some copies of a message were sent.\<close>

definition sent :: "clusterMsg \<Rightarrow> server \<Rightarrow> server \<Rightarrow> bool" where
  "sent m s t \<longleftrightarrow> (\<exists>ls st. t = s\<lparr>effects := effects s @ map (\<lambda>l. SendMessage l m) ls,
                               stats_bus_messages_sent := st\<rparr>)"

lemma sent_refl: "sent m s s"
  unfolding sent_def by (rule exI [of _ "[]"]) (auto intro: exI [of _ "stats_bus_messages_sent s"])

lemma sent_trans:
  assumes "sent m s t" "sent m t u" shows "sent m s u"
proof -
  from assms obtain ls st ls' st' where
    "t = s\<lparr>effects := effects s @ map (\<lambda>l. SendMessage l m) ls, stats_bus_messages_sent := st\<rparr>"
    "u = t\<lparr>effects := effects t @ map (\<lambda>l. SendMessage l m) ls', stats_bus_messages_sent := st'\<rparr>"
    unfolding sent_def by blast
  then have "u = s\<lparr>effects := effects s @ map (\<lambda>l. SendMessage l m) (ls @ ls'), stats_bus_messages_sent := st'\<rparr>"
    by simp
  then show ?thesis unfolding sent_def by blast
qed

lemma sent_message: "sent m s (clusterSendMessage l m s)"
  unfolding sent_def
  by (rule exI [of _ "[l]"], rule exI [of _ "stats_bus_messages_sent (clusterSendMessage l m s)"])
    (simp add: clusterSendMessage_def emit_def Let_def)

lemma sent_broadcast: "sent m s (clusterBroadcastMessage m s)"
proof -
  have "sent m s (fold (\<lambda>(nm, node) s.
       case link (nd s node) of
         None \<Rightarrow> s
       | Some l \<Rightarrow>
           if flags (nd s node) AND (CLUSTER_NODE_MYSELF OR CLUSTER_NODE_HANDSHAKE) \<noteq> 0 then s
           else clusterSendMessage l m s) ns s)" for ns
  proof (induction ns arbitrary: s)
    case (Cons e ns)
    show ?case
      using sent_trans [OF sent_message Cons.IH] Cons.IH by (auto split: prod.splits option.splits)
  qed (simp add: sent_refl)
  then show ?thesis by (simp add: clusterBroadcastMessage_def)
qed

lemma sentD:
  assumes "sent m s t"
  shows "heap t = heap s" "nodes t = nodes s" "slots t = slots s" "myself t = myself s" "link_node t = link_node s"
    "zklc t = zklc s" "mstime t = mstime s" "currentEpoch t = currentEpoch s" "lastVoteEpoch t = lastVoteEpoch s"
    "failover_auth_epoch t = failover_auth_epoch s" "cluster_size t = cluster_size s" "next_addr t = next_addr s"
    "importing_slots_from t = importing_slots_from s" "migrating_slots_to t = migrating_slots_to s"
    "inv_view t = inv_view s" "live t = live s" "mf_end t = mf_end s"
    "h_type m \<noteq> CLUSTERMSG_TYPE_FAILOVER_AUTH_ACK \<Longrightarrow> epoch_view t = epoch_view s"
  using assms by (auto simp: sent_def inv_view_def view_defs filter_empty_conv)

lemma h_type_hdr [simp]: "h_type (clusterBuildMessageHdr type s) = type"
  by (simp add: clusterBuildMessageHdr_def Let_def)

lemma msgtype_neq [simp]:
  "CLUSTERMSG_TYPE_FAIL \<noteq> CLUSTERMSG_TYPE_FAILOVER_AUTH_ACK"
  "CLUSTERMSG_TYPE_UPDATE \<noteq> CLUSTERMSG_TYPE_FAILOVER_AUTH_ACK"
  "CLUSTERMSG_TYPE_PUBLISH \<noteq> CLUSTERMSG_TYPE_FAILOVER_AUTH_ACK"
  "CLUSTERMSG_TYPE_MODULE \<noteq> CLUSTERMSG_TYPE_FAILOVER_AUTH_ACK"
  "CLUSTERMSG_TYPE_MFSTART \<noteq> CLUSTERMSG_TYPE_FAILOVER_AUTH_ACK"
  "CLUSTERMSG_TYPE_FAILOVER_AUTH_REQUEST \<noteq> CLUSTERMSG_TYPE_FAILOVER_AUTH_ACK"
  "CLUSTERMSG_TYPE_PING \<noteq> CLUSTERMSG_TYPE_FAILOVER_AUTH_ACK"
  "CLUSTERMSG_TYPE_PONG \<noteq> CLUSTERMSG_TYPE_FAILOVER_AUTH_ACK"
  "CLUSTERMSG_TYPE_MEET \<noteq> CLUSTERMSG_TYPE_FAILOVER_AUTH_ACK"
  by (simp_all add: msgtype_defs)

lemma sent_fail: "\<exists>m. h_type m = CLUSTERMSG_TYPE_FAIL \<and> h_data m = FailData nm \<and> sent m s (clusterSendFail nm s)"
  unfolding clusterSendFail_def
  by (rule exI, rule conjI [OF _ conjI [OF _ sent_broadcast]]) simp_all

lemma sent_request:
  "\<exists>m. h_type m = CLUSTERMSG_TYPE_FAILOVER_AUTH_REQUEST \<and> sent m s (clusterRequestFailoverAuth s)"
  unfolding clusterRequestFailoverAuth_def Let_def
  by (rule exI, rule conjI [OF _ sent_broadcast]) simp

lemma sent_update:
  "\<exists>m. h_type m = CLUSTERMSG_TYPE_UPDATE \<and> sent m s (clusterSendUpdate l n s)"
proof (cases l)
  case None
  then show ?thesis
    using sent_refl [of "clusterBuildMessageHdr CLUSTERMSG_TYPE_UPDATE s" s]
    by (auto simp: clusterSendUpdate_def intro!: exI [of _ "clusterBuildMessageHdr CLUSTERMSG_TYPE_UPDATE s"])
next
  case (Some l')
  show ?thesis unfolding clusterSendUpdate_def Some option.case
    by (rule exI, rule conjI [OF _ sent_message]) simp
qed

text \<open>The vote itself: one acknowledgement that carries the current epoch.\<close>

lemma clusterSendFailoverAuth_effect:
  "\<exists>m. sent m s (clusterSendFailoverAuth n s) \<and> h_type m = CLUSTERMSG_TYPE_FAILOVER_AUTH_ACK \<and>
       h_currentEpoch m = currentEpoch s \<and>
       acks (clusterSendFailoverAuth n s) =
         acks s @ (case link (nd s n) of Some l \<Rightarrow> [SendMessage l m] | None \<Rightarrow> [])"
proof -
  define m where "m = (clusterBuildMessageHdr CLUSTERMSG_TYPE_FAILOVER_AUTH_ACK s)\<lparr>h_totlen := CLUSTERMSG_MIN_LEN\<rparr>"
  have "sent m s (clusterSendFailoverAuth n s)"
    by (auto simp: clusterSendFailoverAuth_def m_def [symmetric] sent_refl sent_message split: option.split)
  moreover have "acks (clusterSendFailoverAuth n s) =
      acks s @ (case link (nd s n) of Some l \<Rightarrow> [SendMessage l m] | None \<Rightarrow> [])"
    by (auto simp: clusterSendFailoverAuth_def m_def clusterSendMessage_def emit_def acks_def Let_def
        split: option.split)
  ultimately show ?thesis
    by (intro exI [of _ m]) (simp add: m_def clusterBuildMessageHdr_def Let_def)
qed

text \<open>A state after pings and pongs were sent: only \<open>ping_sent\<close> of nodes may differ.\<close>

definition pinged :: "server \<Rightarrow> server \<Rightarrow> bool" where
  "pinged s t \<longleftrightarrow> (\<exists>e st p h. t = s\<lparr>effects := effects s @ e, stats_bus_messages_sent := st, random_pos := p, heap := h\<rparr> \<and>
     (\<forall>x \<in> set e. \<not> is_ack x) \<and> (\<forall>a. \<exists>v. h a = (heap s a)\<lparr>ping_sent := v\<rparr>))"

lemma same_ping: "\<forall>a. \<exists>v. heap s a = (heap s a)\<lparr>ping_sent := v\<rparr>"
proof
  fix a
  have "heap s a = (heap s a)\<lparr>ping_sent := ping_sent (heap s a)\<rparr>" by simp
  then show "\<exists>v. heap s a = (heap s a)\<lparr>ping_sent := v\<rparr>" ..
qed

lemma pinged_refl: "pinged s s"
proof -
  have "s = s\<lparr>effects := effects s @ [], stats_bus_messages_sent := stats_bus_messages_sent s,
              random_pos := random_pos s, heap := heap s\<rparr>" by simp
  moreover have "\<forall>a. \<exists>v. heap s a = (heap s a)\<lparr>ping_sent := v\<rparr>"
    by (rule same_ping)
  ultimately show ?thesis unfolding pinged_def by (metis empty_iff list.set(1))
qed

lemma pinged_trans:
  assumes "pinged s t" "pinged t u" shows "pinged s u"
proof -
  from assms(1) obtain e st p h where t:
    "t = s\<lparr>effects := effects s @ e, stats_bus_messages_sent := st, random_pos := p, heap := h\<rparr>"
    "\<forall>x \<in> set e. \<not> is_ack x" "\<forall>a. \<exists>v. h a = (heap s a)\<lparr>ping_sent := v\<rparr>" unfolding pinged_def by blast
  from assms(2) obtain e' st' p' h' where u:
    "u = t\<lparr>effects := effects t @ e', stats_bus_messages_sent := st', random_pos := p', heap := h'\<rparr>"
    "\<forall>x \<in> set e'. \<not> is_ack x" "\<forall>a. \<exists>v. h' a = (heap t a)\<lparr>ping_sent := v\<rparr>" unfolding pinged_def by blast
  have "u = s\<lparr>effects := effects s @ (e @ e'), stats_bus_messages_sent := st', random_pos := p', heap := h'\<rparr>"
    using t(1) u(1) by simp
  moreover have "\<exists>v. h' a = (heap s a)\<lparr>ping_sent := v\<rparr>" for a
  proof -
    obtain v v' where "h a = (heap s a)\<lparr>ping_sent := v\<rparr>" "h' a = (h a)\<lparr>ping_sent := v'\<rparr>"
      using t(1,3) u(3) by (metis server.select_convs(1) server.simps(1) server.surjective server.update_convs(1))
    then have "h' a = (heap s a)\<lparr>ping_sent := v'\<rparr>" by simp
    then show ?thesis ..
  qed
  ultimately show ?thesis unfolding pinged_def using t(2) u(2) by (metis Un_iff set_append)
qed

lemma pinged_sent:
  assumes "sent m s t" "h_type m \<noteq> CLUSTERMSG_TYPE_FAILOVER_AUTH_ACK" shows "pinged s t"
proof -
  from assms(1) obtain ls st where
    t: "t = s\<lparr>effects := effects s @ map (\<lambda>l. SendMessage l m) ls, stats_bus_messages_sent := st\<rparr>"
    unfolding sent_def by blast
  then have "t = s\<lparr>effects := effects s @ map (\<lambda>l. SendMessage l m) ls, stats_bus_messages_sent := st,
                  random_pos := random_pos s, heap := heap s\<rparr>" by simp
  moreover have "\<forall>x \<in> set (map (\<lambda>l. SendMessage l m) ls). \<not> is_ack x" using assms(2) by auto
  moreover have "\<forall>a. \<exists>v. heap s a = (heap s a)\<lparr>ping_sent := v\<rparr>"
    by (rule same_ping)
  ultimately show ?thesis unfolding pinged_def by blast
qed

lemma pinged_random_pos: "pinged s (s\<lparr>random_pos := p\<rparr>)"
proof -
  have "s\<lparr>random_pos := p\<rparr> = s\<lparr>effects := effects s @ [], stats_bus_messages_sent := stats_bus_messages_sent s,
              random_pos := p, heap := heap s\<rparr>" by simp
  moreover have "\<forall>a. \<exists>v. heap s a = (heap s a)\<lparr>ping_sent := v\<rparr>"
    by (rule same_ping)
  ultimately show ?thesis unfolding pinged_def by (metis empty_iff list.set(1))
qed

lemma pinged_upd: "pinged s (upd_node n (\<lambda>x. x\<lparr>ping_sent := v\<rparr>) s)"
proof -
  have "upd_node n (\<lambda>x. x\<lparr>ping_sent := v\<rparr>) s = s\<lparr>effects := effects s @ [], stats_bus_messages_sent := stats_bus_messages_sent s,
              random_pos := random_pos s, heap := (heap s)(n := (heap s n)\<lparr>ping_sent := v\<rparr>)\<rparr>"
    by (simp add: upd_node_def)
  moreover have "\<exists>v'. ((heap s)(n := (heap s n)\<lparr>ping_sent := v\<rparr>)) a = (heap s a)\<lparr>ping_sent := v'\<rparr>" for a
    by (cases "a = n") (auto intro: exI [of _ "ping_sent (heap s a)"])
  ultimately show ?thesis unfolding pinged_def by (metis empty_iff list.set(1))
qed

lemma pinged_gossip_random: "pinged s (snd (gossip_random k f w g s))"
proof (induction k f w g s rule: gossip_random.induct)
  case (2 k f w g s)
  show ?case
    using pinged_trans [OF pinged_random_pos 2(1)] pinged_trans [OF pinged_random_pos 2(2)]
      pinged_trans [OF pinged_random_pos 2(3)] pinged_trans [OF pinged_random_pos 2(4)]
      pinged_trans [OF pinged_random_pos 2(5)] by (simp add: Let_def pinged_refl)
qed (simp add: pinged_refl)

lemma pinged_ping:
  assumes "type \<noteq> CLUSTERMSG_TYPE_FAILOVER_AUTH_ACK"
  shows "pinged s (clusterSendPing l type s)"
proof -
  define s1 where "s1 = (case link_node s l of
                 Some n \<Rightarrow> if type = CLUSTERMSG_TYPE_PING
                           then upd_node n (\<lambda>x. x\<lparr>ping_sent := mstime s\<rparr>) s else s
               | None \<Rightarrow> s)"
  have s1: "pinged s s1"
    by (auto simp: s1_def pinged_refl pinged_upd split: option.split)
  have "\<exists>k f w m. clusterSendPing l type s = clusterSendMessage l m (snd (gossip_random k f w [] s1)) \<and> h_type m = type"
    unfolding clusterSendPing_def Let_def s1_def [symmetric] case_prod_beta
    by (intro exI conjI, rule refl) simp
  then obtain k f w m where m: "h_type m = type"
    "clusterSendPing l type s = clusterSendMessage l m (snd (gossip_random k f w [] s1))" by blast
  have "pinged s (snd (gossip_random k f w [] s1))" using pinged_trans [OF s1 pinged_gossip_random] .
  then show ?thesis
    using pinged_trans [OF _ pinged_sent [OF sent_message]] m assms by simp
qed

lemma pinged_broadcastPong: "pinged s (clusterBroadcastPong target s)"
proof -
  have "pinged s (fold (\<lambda>(nm, node) s.
       case link (nd s node) of
         None \<Rightarrow> s
       | Some l \<Rightarrow>
           if node = myself s \<or> nodeInHandshake (nd s node) then s
           else if target = CLUSTER_BROADCAST_LOCAL_SLAVES \<and>
                   \<not> (nodeIsSlave (nd s node) \<and> slaveof (nd s node) \<noteq> None \<and>
                      (slaveof (nd s node) = Some (myself s) \<or>
                       slaveof (nd s node) = slaveof (me s)))
           then s
           else clusterSendPing l CLUSTERMSG_TYPE_PONG s) ns s)" for ns
  proof (induction ns arbitrary: s)
    case (Cons e ns)
    show ?case
      using pinged_trans [OF pinged_ping [of CLUSTERMSG_TYPE_PONG] Cons.IH] Cons.IH
      by (auto split: prod.splits option.splits)
  qed (simp add: pinged_refl)
  then show ?thesis by (simp add: clusterBroadcastPong_def)
qed

lemma pingedD:
  assumes "pinged s t"
  shows "nodes t = nodes s" "slots t = slots s" "myself t = myself s" "link_node t = link_node s"
    "zklc t = zklc s" "mstime t = mstime s" "currentEpoch t = currentEpoch s" "lastVoteEpoch t = lastVoteEpoch s"
    "failover_auth_epoch t = failover_auth_epoch s" "cluster_size t = cluster_size s" "next_addr t = next_addr s"
    "importing_slots_from t = importing_slots_from s" "migrating_slots_to t = migrating_slots_to s"
    "inv_view t = inv_view s" "live t = live s" "epoch_view t = epoch_view s" "mf_end t = mf_end s"
    "flags (heap t a) = flags (heap s a)" "configEpoch (heap t a) = configEpoch (heap s a)"
    "slaveof (heap t a) = slaveof (heap s a)" "slaves (heap t a) = slaves (heap s a)"
    "link (heap t a) = link (heap s a)" "name (heap t a) = name (heap s a)"
    "nodeIsMaster (heap t a) = nodeIsMaster (heap s a)" "nodeIsSlave (heap t a) = nodeIsSlave (heap s a)"
    "nodeFailed (heap t a) = nodeFailed (heap s a)" "numslots (heap t a) = numslots (heap s a)"
    "node_slots (heap t a) = node_slots (heap s a)"
proof -
  from assms obtain e st p h where t:
    "t = s\<lparr>effects := effects s @ e, stats_bus_messages_sent := st, random_pos := p, heap := h\<rparr>"
    "\<forall>x \<in> set e. \<not> is_ack x" "\<forall>a. \<exists>v. h a = (heap s a)\<lparr>ping_sent := v\<rparr>" unfolding pinged_def by blast
  have h: "\<exists>v. heap t a = (heap s a)\<lparr>ping_sent := v\<rparr>" for a using t(1,3) by simp
  have f: "flags (heap t a) = flags (heap s a)" "configEpoch (heap t a) = configEpoch (heap s a)"
    "slaveof (heap t a) = slaveof (heap s a)" "slaves (heap t a) = slaves (heap s a)"
    "link (heap t a) = link (heap s a)" "name (heap t a) = name (heap s a)"
    "numslots (heap t a) = numslots (heap s a)" "fail_reports (heap t a) = fail_reports (heap s a)"
    "node_slots (heap t a) = node_slots (heap s a)" for a
    using h [of a] by auto
  have v: "nodes t = nodes s" "slots t = slots s" "myself t = myself s" "link_node t = link_node s"
    "zklc t = zklc s" "mstime t = mstime s" "currentEpoch t = currentEpoch s" "lastVoteEpoch t = lastVoteEpoch s"
    "failover_auth_epoch t = failover_auth_epoch s" "cluster_size t = cluster_size s" "next_addr t = next_addr s"
    "importing_slots_from t = importing_slots_from s" "migrating_slots_to t = migrating_slots_to s" "mf_end t = mf_end s"
    "acks t = acks s"
    using t(1,2) by (simp_all add: acks_def filter_empty_conv)
  from f v show "nodes t = nodes s" "slots t = slots s" "myself t = myself s" "link_node t = link_node s"
    "zklc t = zklc s" "mstime t = mstime s" "currentEpoch t = currentEpoch s" "lastVoteEpoch t = lastVoteEpoch s"
    "failover_auth_epoch t = failover_auth_epoch s" "cluster_size t = cluster_size s" "next_addr t = next_addr s"
    "importing_slots_from t = importing_slots_from s" "migrating_slots_to t = migrating_slots_to s" "mf_end t = mf_end s"
    "inv_view t = inv_view s" "live t = live s" "epoch_view t = epoch_view s"
    "flags (heap t a) = flags (heap s a)" "configEpoch (heap t a) = configEpoch (heap s a)"
    "slaveof (heap t a) = slaveof (heap s a)" "slaves (heap t a) = slaves (heap s a)"
    "link (heap t a) = link (heap s a)" "name (heap t a) = name (heap s a)"
    "nodeIsMaster (heap t a) = nodeIsMaster (heap s a)" "nodeIsSlave (heap t a) = nodeIsSlave (heap s a)"
    "nodeFailed (heap t a) = nodeFailed (heap s a)" "numslots (heap t a) = numslots (heap s a)"
    "node_slots (heap t a) = node_slots (heap s a)"
    by (simp_all add: inv_view_def slot_view_def name_view_def report_view_def live_def epoch_view_def node_flag_defs)
qed

lemma pinged_sends:
  "pinged s (clusterSendFail nm s)" "pinged s (clusterRequestFailoverAuth s)" "pinged s (clusterSendUpdate l n s)"
  using sent_fail [of nm s] sent_request [of s] sent_update [of s l n] pinged_sent msgtype_neq by metis+

lemmas keep_sends [simp] =
  pingedD(1-17) [OF pinged_sends(1)] pingedD(1-17) [OF pinged_sends(2)] pingedD(1-17) [OF pinged_sends(3)]
  pingedD(1-17) [OF pinged_broadcastPong]
  pingedD(1-17) [OF pinged_ping [OF msgtype_neq(7)]]
  pingedD(1-17) [OF pinged_ping [OF msgtype_neq(8)]]
  pingedD(1-17) [OF pinged_ping [OF msgtype_neq(9)]]

lemma heap_sends [simp]:
  "heap (clusterSendFail nm s) = heap s" "heap (clusterRequestFailoverAuth s) = heap s"
  "heap (clusterSendUpdate l n s) = heap s" "heap (clusterSendFailoverAuth n s) = heap s"
  using sent_fail [of nm s] sent_request [of s] sent_update [of s l n] clusterSendFailoverAuth_effect [of s n] sentD(1) by metis+

text \<open>Who gets a broadcast: every node of the table with a link, except this node and handshakes.\<close>

definition broadcast_links :: "server \<Rightarrow> laddr list" where
  "broadcast_links s =
     concat (map (\<lambda>(nm, a). case link (nd s a) of
                     Some l \<Rightarrow> if flags (nd s a) AND (CLUSTER_NODE_MYSELF OR CLUSTER_NODE_HANDSHAKE) = 0
                               then [l] else []
                   | None \<Rightarrow> []) (nodes s))"

lemma clusterBroadcastMessage_effects:
  "effects (clusterBroadcastMessage m s) = effects s @ map (\<lambda>l. SendMessage l m) (broadcast_links s)"
proof -
  have *: "effects (fold (\<lambda>(nm, node) s.
       case link (nd s node) of
         None \<Rightarrow> s
       | Some l \<Rightarrow>
           if flags (nd s node) AND (CLUSTER_NODE_MYSELF OR CLUSTER_NODE_HANDSHAKE) \<noteq> 0 then s
           else clusterSendMessage l m s) ns t) =
     effects t @ map (\<lambda>l. SendMessage l m)
       (concat (map (\<lambda>(nm, a). case link (nd s a) of
                     Some l \<Rightarrow> if flags (nd s a) AND (CLUSTER_NODE_MYSELF OR CLUSTER_NODE_HANDSHAKE) = 0
                               then [l] else []
                   | None \<Rightarrow> []) ns))" if "heap t = heap s" for ns t
    using that
  proof (induction ns arbitrary: t)
    case (Cons e ns)
    have "effects (clusterSendMessage l m t) = effects t @ [SendMessage l m]" for l
      by (simp add: clusterSendMessage_def Let_def)
    moreover have "heap (clusterSendMessage l m t) = heap s" for l
      using sentD(1) [OF sent_message] Cons.prems by simp
    ultimately show ?case using Cons by (auto split: prod.splits option.splits)
  qed simp
  show ?thesis
    unfolding clusterBroadcastMessage_def broadcast_links_def by (rule * [OF refl])
qed

end
