(* ===== verification/ClusterFail.thy ===== *)
theory ClusterFail
  imports ClusterMsg
begin

text \<open>
  Configuration epochs and failure detection: the greatest epoch known, the epoch a
  node takes without consensus and the resolution of epoch collisions; the
  promotion of a suspected node to the FAIL state once enough masters reported it,
  its way back, and the part of \<open>clusterCron\<close> that marks a node that does not answer.
\<close>

section \<open>Epochs\<close>

definition clusterGetMaxEpoch :: "server \<Rightarrow> u64" where
  "clusterGetMaxEpoch s =
     (let m = fold (\<lambda>(nm, node) m. if configEpoch (nd s node) > m then configEpoch (nd s node) else m)
                (nodes s) 0
      in if m < currentEpoch s then currentEpoch s else m)"

definition clusterBumpConfigEpochWithoutConsensus :: "server \<Rightarrow> int \<times> server" where
  "clusterBumpConfigEpochWithoutConsensus s =
     (let maxEpoch = clusterGetMaxEpoch s
      in if configEpoch (me s) = 0 \<or> configEpoch (me s) \<noteq> maxEpoch
         then let s = s\<lparr>currentEpoch := currentEpoch s + 1\<rparr>;
                  s = upd_node (myself s) (\<lambda>x. x\<lparr>configEpoch := currentEpoch s\<rparr>) s
              in (C_OK, clusterDoBeforeSleep (CLUSTER_TODO_SAVE_CONFIG OR CLUSTER_TODO_FSYNC_CONFIG) s)
         else (C_ERR, s))"

text \<open>\<open>memcmp\<close> on two node names: negative, zero or positive.\<close>

fun memcmp_bytes :: "bytes \<Rightarrow> bytes \<Rightarrow> int" where
  "memcmp_bytes (x # xs) (y # ys) = (if x = y then memcmp_bytes xs ys else uint x - uint y)"
| "memcmp_bytes _ _ = 0"

definition clusterHandleConfigEpochCollision :: "naddr \<Rightarrow> server \<Rightarrow> server" where
  "clusterHandleConfigEpochCollision sender s =
     (if configEpoch (nd s sender) \<noteq> configEpoch (me s) \<or>
         \<not> nodeIsMaster (nd s sender) \<or> \<not> nodeIsMaster (me s) then s
      else if memcmp_bytes (name (nd s sender)) (name (me s)) \<le> 0 then s
      else
        let s = s\<lparr>currentEpoch := currentEpoch s + 1\<rparr>;
            s = upd_node (myself s) (\<lambda>x. x\<lparr>configEpoch := currentEpoch s\<rparr>) s
        in clusterSaveConfigOrDie True s)"

section \<open>The quorum\<close>

text \<open>
  \<open>int needed_quorum = (size / 2) + 1; if (size < 3) needed_quorum -= 1;\<close>, the
  computation that \<open>markNodeAsFailingIfNeeded\<close>, \<open>clusterHandleSlaveFailover\<close> and
  \<open>clusterUpdateState\<close> share.
\<close>

definition needed_quorum :: "int \<Rightarrow> int" where
  "needed_quorum sz =
     (let q = sz div 2 + 1 in if sz < 3 then q - 1 else q)"

section \<open>Marking and unmarking failures\<close>

definition markNodeAsFailingIfNeeded :: "naddr \<Rightarrow> server \<Rightarrow> server" where
  "markNodeAsFailingIfNeeded node s =
     (if zklc s \<noteq> None then s
      else if \<not> nodeTimedOut (nd s node) then s
      else if nodeFailed (nd s node) then s
      else
        let (failures, s) = clusterNodeFailureReportsCount node s;
            failures = (if nodeIsMaster (me s) then failures + 1 else failures)
        in if failures < needed_quorum (cluster_size s) then s
           else
             let s = upd_node node (\<lambda>x. x\<lparr>flags := (flags x AND NOT CLUSTER_NODE_PFAIL) OR CLUSTER_NODE_FAIL,
                                         fail_time := mstime s\<rparr>) s;
                 s = (if nodeIsMaster (me s) then clusterSendFail (name (nd s node)) s else s)
             in clusterDoBeforeSleep (CLUSTER_TODO_UPDATE_STATE OR CLUSTER_TODO_SAVE_CONFIG) s)"

definition clearNodeFailureIfNeeded :: "naddr \<Rightarrow> server \<Rightarrow> server option" where
  "clearNodeFailureIfNeeded node s = do {
     serverAssert (nodeFailed (nd s node));
     let s = (if nodeIsSlave (nd s node) \<or> numslots (nd s node) = 0
              then clusterDoBeforeSleep (CLUSTER_TODO_UPDATE_STATE OR CLUSTER_TODO_SAVE_CONFIG)
                     (upd_node node (\<lambda>x. x\<lparr>flags := flags x AND NOT CLUSTER_NODE_FAIL\<rparr>) s)
              else s);
     Some (if nodeIsMaster (nd s node) \<and> numslots (nd s node) > 0 \<and>
              mstime s - fail_time (nd s node) > cluster_node_timeout s * CLUSTER_FAIL_UNDO_TIME_MULT
           then clusterDoBeforeSleep (CLUSTER_TODO_UPDATE_STATE OR CLUSTER_TODO_SAVE_CONFIG)
                  (upd_node node (\<lambda>x. x\<lparr>flags := flags x AND NOT CLUSTER_NODE_FAIL\<rparr>) s)
           else s)
   }"

text \<open>
  The end of the loop of \<open>clusterCron\<close> over the nodes: a node with an active ping
  that did not answer for longer than the timeout becomes suspect, or failed at once
  in a cluster of one or two masters. The flag that is returned is \<open>update_state\<close>.
\<close>

definition clusterCron_checkTimeout :: "naddr \<Rightarrow> bool \<times> server \<Rightarrow> bool \<times> server" where
  "clusterCron_checkTimeout node = (\<lambda>(update_state, s).
     let delay = mstime s - ping_sent (nd s node);
         data_delay = mstime s - data_received (nd s node);
         delay = (if data_delay < delay then data_delay else delay)
     in if delay > cluster_node_timeout s
        then if flags (nd s node) AND (CLUSTER_NODE_PFAIL OR CLUSTER_NODE_FAIL) = 0
             then let mark_node_fail = (cluster_size s = 1 \<or> (cluster_size s = 2 \<and> nodeIsMaster (me s)));
                      s = upd_node node (\<lambda>x. x\<lparr>flags := flags x OR
                            (if mark_node_fail then CLUSTER_NODE_FAIL else CLUSTER_NODE_PFAIL)\<rparr>) s;
                      s = (if mark_node_fail \<and> cluster_size s > 1 then clusterSendFail (name (nd s node)) s else s)
                  in (True, s)
             else (update_state, s)
        else (update_state, s))"

section \<open>Properties of the epochs\<close>

lemma fold_max_epoch:
  "fold (\<lambda>(nm, node) m. if f node > m then f node else m) ns (m0 :: 'a::linorder) =
     fold max (map (f \<circ> snd) ns) m0"
  by (induction ns arbitrary: m0) (auto simp: max_def split: prod.splits)

lemma clusterGetMaxEpoch_Max:
  "clusterGetMaxEpoch s = Max (insert (currentEpoch s) ((\<lambda>a. configEpoch (nd s a)) ` live s))"
proof -
  let ?E = "(\<lambda>a. configEpoch (nd s a)) ` live s"
  have set: "set (map ((\<lambda>a. configEpoch (nd s a)) \<circ> snd) (nodes s)) = ?E"
    by (auto simp: live_def)
  have fin: "finite ?E" by (simp add: live_def)
  have "fold max (map ((\<lambda>a. configEpoch (nd s a)) \<circ> snd) (nodes s)) 0 = Max (insert 0 ?E)"
    using Max.set_eq_fold [of 0 "map ((\<lambda>a. configEpoch (nd s a)) \<circ> snd) (nodes s)"] set by simp
  moreover define M where "M = Max (insert 0 ?E)"
  ultimately have "clusterGetMaxEpoch s = (if M < currentEpoch s then currentEpoch s else M)"
    unfolding clusterGetMaxEpoch_def fold_max_epoch Let_def by simp
  then have m: "clusterGetMaxEpoch s = max (currentEpoch s) (Max (insert 0 ?E))"
    unfolding M_def [symmetric] by (cases "M < currentEpoch s") (auto simp: max_def not_less intro: antisym)
  show ?thesis
  proof (cases "?E = {}")
    case True
    then show ?thesis by (simp add: m)
  next
    case False
    then have "Max (insert 0 ?E) = Max ?E" using fin by simp
    then show ?thesis using fin False by (simp add: m)
  qed
qed

lemma clusterGetMaxEpoch_ge:
  "currentEpoch s \<le> clusterGetMaxEpoch s" "a \<in> live s \<Longrightarrow> configEpoch (nd s a) \<le> clusterGetMaxEpoch s"
  unfolding clusterGetMaxEpoch_Max by (rule Max_ge; simp add: live_def)+

text \<open>Adding one to an epoch that is not the last one.\<close>

lemma epoch_incr:
  fixes e :: u64
  assumes "e \<noteq> - 1" shows "e < e + 1"
proof -
  have "uint e \<noteq> 2 ^ 64 - 1" using assms by (auto simp: word_uint_eq_iff uint_word_ariths)
  moreover have "uint e < 2 ^ 64" using uint_bounded [of e] by simp
  ultimately show ?thesis by (simp add: word_less_def uint_word_ariths)
qed

text \<open>No known configuration epoch is greater than the current epoch.\<close>

definition epochs_ok :: "server \<Rightarrow> bool" where
  "epochs_ok s \<longleftrightarrow> (\<forall>a \<in> live s. configEpoch (nd s a) \<le> currentEpoch s)"

lemma clusterBumpConfigEpoch_effect:
  assumes "clusterBumpConfigEpochWithoutConsensus s = (C_OK, t)"
  shows "configEpoch (me t) = currentEpoch s + 1" "currentEpoch t = currentEpoch s + 1"
    "a \<noteq> myself s \<Longrightarrow> heap t a = heap s a" "myself t = myself s" "live t = live s"
  using assms
  by (auto simp: clusterBumpConfigEpochWithoutConsensus_def Let_def upd_node_def live_def
      clusterDoBeforeSleep_def split: if_splits)

section \<open>Node names\<close>

lemma memcmp_refl [simp]: "memcmp_bytes xs xs = 0"
  by (induction xs) simp_all

lemma memcmp_antisym: "memcmp_bytes ys xs = - memcmp_bytes xs ys"
  by (induction xs ys rule: memcmp_bytes.induct) auto

lemma memcmp_eq_0: "length xs = length ys \<Longrightarrow> memcmp_bytes xs ys = 0 \<longleftrightarrow> xs = ys"
  by (induction xs ys rule: memcmp_bytes.induct) (auto simp: word_uint_eq_iff)

lemma memcmp_first: "x < y \<Longrightarrow> 0 < memcmp_bytes (p @ y # v) (p @ x # u)"
  by (induction p) (auto simp: word_less_def)

section \<open>The quorum\<close>

lemma needed_quorum_majority: "3 \<le> n \<Longrightarrow> n < 2 * needed_quorum n"
  by (simp add: needed_quorum_def)

lemma needed_quorum_small: "needed_quorum 2 = 1" "needed_quorum 1 = 0" "needed_quorum 0 = 0"
  by (simp_all add: needed_quorum_def)

section \<open>Failure detection\<close>

text \<open>The nodes whose report about a node has not expired.\<close>

definition valid_reporters :: "server \<Rightarrow> naddr \<Rightarrow> naddr set" where
  "valid_reporters s a = {b. \<exists>t. (b, t) \<in> set (fail_reports (nd s a)) \<and>
     mstime s - t \<le> cluster_node_timeout s * CLUSTER_FAIL_REPORT_VALIDITY_MULT}"

lemma clusterNodeFailureReportsCount_card:
  assumes "distinct (map fst (fail_reports (nd s a)))"
  shows "fst (clusterNodeFailureReportsCount a s) = int (card (valid_reporters s a))"
proof -
  let ?l = "filter (\<lambda>(_, t). \<not> mstime s - t > cluster_node_timeout s * CLUSTER_FAIL_REPORT_VALIDITY_MULT)
       (fail_reports (nd s a))"
  have "valid_reporters s a = fst ` set ?l"
    by (force simp: valid_reporters_def)
  moreover have "distinct (map fst ?l)" using assms by (rule distinct_map_filter_fst)
  ultimately have "card (valid_reporters s a) = length ?l"
    using distinct_card [of "map fst ?l"] by simp
  then show ?thesis
    using clusterNodeCleanupFailureReports_reports(1) [of a s]
    by (simp add: clusterNodeFailureReportsCount_def Let_def)
qed

lemma clusterNodeFailureReportsCount_node:
  "flags (heap (snd (clusterNodeFailureReportsCount a s)) b) = flags (heap s b)"
  "name (heap (snd (clusterNodeFailureReportsCount a s)) b) = name (heap s b)"
  "zklc (snd (clusterNodeFailureReportsCount a s)) = zklc s"
  "myself (snd (clusterNodeFailureReportsCount a s)) = myself s"
  "cluster_size (snd (clusterNodeFailureReportsCount a s)) = cluster_size s"
  "mstime (snd (clusterNodeFailureReportsCount a s)) = mstime s"
  "effects (snd (clusterNodeFailureReportsCount a s)) = effects s"
  by (simp_all add: clusterNodeFailureReportsCount_def clusterNodeCleanupFailureReports_def Let_def upd_node_def)

text \<open>Does the agreement of the masters suffice to mark the node?\<close>

definition failure_agreed :: "server \<Rightarrow> naddr \<Rightarrow> bool" where
  "failure_agreed s a \<longleftrightarrow>
     int (card (valid_reporters s a)) + (if nodeIsMaster (me s) then 1 else 0) \<ge> needed_quorum (cluster_size s)"

lemma markNodeAsFailingIfNeeded_effect:
  assumes "distinct (map fst (fail_reports (nd s a)))"
  shows "nodeFailed (nd (markNodeAsFailingIfNeeded a s) a) \<longleftrightarrow>
           nodeFailed (nd s a) \<or> (zklc s = None \<and> nodeTimedOut (nd s a) \<and> failure_agreed s a)"
    and "\<not> nodeFailed (nd s a) \<Longrightarrow> nodeFailed (nd (markNodeAsFailingIfNeeded a s) a) \<Longrightarrow>
           fail_time (nd (markNodeAsFailingIfNeeded a s) a) = mstime s \<and>
           \<not> nodeTimedOut (nd (markNodeAsFailingIfNeeded a s) a)"
proof -
  define s1 where "s1 = snd (clusterNodeFailureReportsCount a s)"
  define n where "n = fst (clusterNodeFailureReportsCount a s)"
  have split: "clusterNodeFailureReportsCount a s = (n, s1)" by (simp add: n_def s1_def)
  note node = clusterNodeFailureReportsCount_node [of a s, folded s1_def]
  have agreed: "failure_agreed s a \<longleftrightarrow> \<not> (if nodeIsMaster (me s1) then n + 1 else n) < needed_quorum (cluster_size s1)"
    using clusterNodeFailureReportsCount_card [OF assms] node
    by (auto simp: failure_agreed_def n_def nodeIsMaster_def)
  show "nodeFailed (nd (markNodeAsFailingIfNeeded a s) a) \<longleftrightarrow>
           nodeFailed (nd s a) \<or> (zklc s = None \<and> nodeTimedOut (nd s a) \<and> failure_agreed s a)"
    using agreed node
    by (auto simp: markNodeAsFailingIfNeeded_def Let_def split node_flag_bits flag_defs flag_simps bit_simps)
  show "\<not> nodeFailed (nd s a) \<Longrightarrow> nodeFailed (nd (markNodeAsFailingIfNeeded a s) a) \<Longrightarrow>
           fail_time (nd (markNodeAsFailingIfNeeded a s) a) = mstime s \<and>
           \<not> nodeTimedOut (nd (markNodeAsFailingIfNeeded a s) a)"
    using agreed node
    by (auto simp: markNodeAsFailingIfNeeded_def Let_def split node_flag_bits flag_defs flag_simps bit_simps
        split: if_splits)
qed

lemma keep_mark:
  "cluster_inv s \<Longrightarrow> cluster_inv (markNodeAsFailingIfNeeded a s)"
  "epoch_view (markNodeAsFailingIfNeeded a s) = epoch_view s"
  "link_node (markNodeAsFailingIfNeeded a s) = link_node s"
  "live (markNodeAsFailingIfNeeded a s) = live s"
proof -
  define s1 where "s1 = snd (clusterNodeFailureReportsCount a s)"
  define s2 where "s2 = upd_node a (\<lambda>x. x\<lparr>flags := (flags x AND NOT CLUSTER_NODE_PFAIL) OR CLUSTER_NODE_FAIL,
                                         fail_time := mstime s1\<rparr>) s1"
  have "markNodeAsFailingIfNeeded a s \<in> {s, s1} \<or>
        inv_view (markNodeAsFailingIfNeeded a s) = inv_view s1 \<and>
        epoch_view (markNodeAsFailingIfNeeded a s) = epoch_view s1 \<and>
        link_node (markNodeAsFailingIfNeeded a s) = link_node s1"
  proof -
    have "inv_view s2 = inv_view s1" "epoch_view s2 = epoch_view s1" "link_node s2 = link_node s1"
      by (simp_all add: s2_def upd_node_inv_view)
    then show ?thesis
      unfolding markNodeAsFailingIfNeeded_def Let_def case_prod_beta s1_def [symmetric] s2_def [symmetric]
      by auto
  qed
  moreover have "cluster_inv s \<Longrightarrow> cluster_inv s1" "epoch_view s1 = epoch_view s" "link_node s1 = link_node s"
    "live s1 = live s"
    by (simp_all add: s1_def keep_reports)
  ultimately show "cluster_inv s \<Longrightarrow> cluster_inv (markNodeAsFailingIfNeeded a s)"
    "epoch_view (markNodeAsFailingIfNeeded a s) = epoch_view s"
    "link_node (markNodeAsFailingIfNeeded a s) = link_node s"
    "live (markNodeAsFailingIfNeeded a s) = live s"
    using cluster_inv_cong inv_view_live by (metis insertE singletonD)+
qed

declare keep_mark(2-4) [simp]

lemma clearNodeFailure_keep:
  assumes "clearNodeFailureIfNeeded a s = Some t"
  shows "inv_view t = inv_view s" "epoch_view t = epoch_view s" "link_node t = link_node s"
  using assms by (auto simp: clearNodeFailureIfNeeded_def Let_def upd_node_inv_view split: if_splits)

lemma clearNodeFailureIfNeeded_effect:
  assumes "nodeFailed (nd s a)"
  shows "\<exists>t. clearNodeFailureIfNeeded a s = Some t \<and>
           (nodeFailed (nd t a) \<longleftrightarrow>
              \<not> nodeIsSlave (nd s a) \<and> numslots (nd s a) \<noteq> 0 \<and>
              \<not> (nodeIsMaster (nd s a) \<and> numslots (nd s a) > 0 \<and>
                 mstime s - fail_time (nd s a) > cluster_node_timeout s * CLUSTER_FAIL_UNDO_TIME_MULT))"
  using assms
  by (auto simp: clearNodeFailureIfNeeded_def Let_def upd_node_def clusterDoBeforeSleep_def
      node_flag_bits flag_defs flag_simps bit_simps)

lemma failure_cleared_when:
  "case clearNodeFailureIfNeeded a s of
     None \<Rightarrow> nodeFailed (nd s a) = False
   | Some t \<Rightarrow> nodeFailed (nd s a) = True \<and>
       nodeFailed (nd t a) =
         (nodeIsSlave (nd s a) = False \<and> numslots (nd s a) \<noteq> 0 \<and>
          (nodeIsMaster (nd s a) \<and> numslots (nd s a) > 0 \<and>
           mstime s - fail_time (nd s a) > cluster_node_timeout s * CLUSTER_FAIL_UNDO_TIME_MULT) = False)"
proof (cases "nodeFailed (nd s a)")
  case True
  then show ?thesis using clearNodeFailureIfNeeded_effect [OF True] by force
next
  case False
  then have "clearNodeFailureIfNeeded a s = None" by (simp add: clearNodeFailureIfNeeded_def serverAssert_def)
  then show ?thesis using False by simp
qed

lemma keep_collision:
  "inv_view (clusterHandleConfigEpochCollision a s) = inv_view s"
  "link_node (clusterHandleConfigEpochCollision a s) = link_node s"
proof -
  have "inv_view (s\<lparr>currentEpoch := e\<rparr>) = inv_view s" for e
    by (simp add: inv_view_def view_defs)
  then show "inv_view (clusterHandleConfigEpochCollision a s) = inv_view s"
    "link_node (clusterHandleConfigEpochCollision a s) = link_node s"
    by (simp_all add: clusterHandleConfigEpochCollision_def Let_def upd_node_inv_view)
qed

lemma clusterHandleConfigEpochCollision_effect:
  "currentEpoch (clusterHandleConfigEpochCollision a s) \<in> {currentEpoch s, currentEpoch s + 1}"
  "lastVoteEpoch (clusterHandleConfigEpochCollision a s) = lastVoteEpoch s"
  "acks (clusterHandleConfigEpochCollision a s) = acks s"
  "myself (clusterHandleConfigEpochCollision a s) = myself s"
  by (auto simp: clusterHandleConfigEpochCollision_def Let_def clusterSaveConfigOrDie_def emit_def acks_def)

lemma keep_checkTimeout:
  "inv_view (snd (clusterCron_checkTimeout a (u, s))) = inv_view s"
  "epoch_view (snd (clusterCron_checkTimeout a (u, s))) = epoch_view s"
  "link_node (snd (clusterCron_checkTimeout a (u, s))) = link_node s"
  by (auto simp: clusterCron_checkTimeout_def Let_def upd_node_inv_view)

end
