(* ===== verification/ClusterConfig.thy ===== *)
theory ClusterConfig
  imports ClusterFail
begin

text \<open>
  The configuration of the cluster as a node sees it: who is master of whom, which
  master serves which slot, whether the cluster is up, the manual failover state,
  and the reset of a node.
\<close>

section \<open>Clients and replication\<close>

definition pauseClients :: "int \<Rightarrow> server \<Rightarrow> server" where
  "pauseClients e s =
     (let s = (if \<not> clients_paused s \<or> e > clients_pause_end_time s
               then s\<lparr>clients_pause_end_time := e\<rparr> else s)
      in s\<lparr>clients_paused := True\<rparr>)"

definition clientsArePaused :: "server \<Rightarrow> bool \<times> server" where
  "clientsArePaused s =
     (let s = (if clients_paused s \<and> clients_pause_end_time s < server_mstime s
               then emit UnblockClients (s\<lparr>clients_paused := False\<rparr>) else s)
      in (clients_paused s, s))"

text \<open>
  The connection with the master is closed: its state is cached, unless the client
  is already being closed (\<open>freeClient\<close>, \<open>replicationCacheMaster\<close>,
  \<open>replicationHandleMasterDisconnection\<close>).
\<close>

definition freeMasterClient :: "server \<Rightarrow> server" where
  "freeMasterClient s =
     (if master_reploff s = None then s
      else s\<lparr>cached_master_reploff := (if master_closing s then cached_master_reploff s else master_reploff s),
             master_reploff := None, repl_connected := False, repl_down_since := unixtime s\<rparr>)"

definition replicationSetMaster :: "bytes \<Rightarrow> int \<Rightarrow> server \<Rightarrow> server" where
  "replicationSetMaster h p s =
     (let was_master = (masterhost s = None);
          s = s\<lparr>masterhost := Some h, masterport := p\<rparr>;
          s = freeMasterClient s;
          s = emit (ReplicationSetMaster h p) s;
          s = (if was_master then s\<lparr>cached_master_reploff := Some (master_repl_offset s)\<rparr> else s)
      in s\<lparr>repl_connected := False\<rparr>)"

definition replicationUnsetMaster :: "server \<Rightarrow> server" where
  "replicationUnsetMaster s =
     (if masterhost s = None then s
      else
        let s = s\<lparr>masterhost := None\<rparr>;
            s = freeMasterClient s;
            s = s\<lparr>cached_master_reploff := None\<rparr>;
            s = emit ReplicationUnsetMaster s
        in s\<lparr>repl_connected := False\<rparr>)"

definition delKeysInSlot :: "nat \<Rightarrow> server \<Rightarrow> server" where
  "delKeysInSlot j s = emit (DelKeysInSlot j) (s\<lparr>countKeysInSlot := (countKeysInSlot s)(j := 0)\<rparr>)"

definition emptyDb :: "server \<Rightarrow> server" where
  "emptyDb s = emit EmptyDb (s\<lparr>countKeysInSlot := (\<lambda>_. 0), db_sizes := map (\<lambda>_. 0) (db_sizes s)\<rparr>)"

section \<open>Manual failover state\<close>

definition resetManualFailover :: "server \<Rightarrow> server" where
  "resetManualFailover s =
     (let s = (if mf_end s \<noteq> 0
               then let (paused, s) = clientsArePaused s
                    in if paused then snd (clientsArePaused (s\<lparr>clients_pause_end_time := 0\<rparr>)) else s
               else s)
      in s\<lparr>mf_end := 0, mf_can_start := 0, mf_slave := None, mf_master_offset := 0\<rparr>)"

definition manualFailoverCheckTimeout :: "server \<Rightarrow> server" where
  "manualFailoverCheckTimeout s =
     (if mf_end s \<noteq> 0 \<and> mf_end s < mstime s then resetManualFailover s else s)"

definition clusterHandleManualFailover :: "server \<Rightarrow> server" where
  "clusterHandleManualFailover s =
     (if mf_end s = 0 then s
      else if mf_can_start s \<noteq> 0 then s
      else if mf_master_offset s = 0 then s
      else if mf_master_offset s = replicationGetSlaveOffset s then s\<lparr>mf_can_start := 1\<rparr>
      else s)"

section \<open>Masters and replicas\<close>

definition clusterUpdateMyselfFlags :: "server \<Rightarrow> server" where
  "clusterUpdateMyselfFlags s =
     (let oldflags = flags (me s);
          nofailover = (if cluster_slave_no_failover s then CLUSTER_NODE_NOFAILOVER else 0);
          s = upd_node (myself s) (\<lambda>x. x\<lparr>flags := (flags x AND NOT CLUSTER_NODE_NOFAILOVER) OR nofailover\<rparr>) s
      in if flags (me s) \<noteq> oldflags
         then clusterDoBeforeSleep (CLUSTER_TODO_SAVE_CONFIG OR CLUSTER_TODO_UPDATE_STATE) s
         else s)"

definition clusterSetNodeAsMaster :: "naddr \<Rightarrow> server \<Rightarrow> server" where
  "clusterSetNodeAsMaster n s =
     (if nodeIsMaster (nd s n) then s
      else
        let s = (case slaveof (nd s n) of
                   None \<Rightarrow> s
                 | Some m \<Rightarrow>
                     let s = snd (clusterNodeRemoveSlave m n s)
                     in if n \<noteq> myself s
                        then upd_node n (\<lambda>x. x\<lparr>flags := flags x OR CLUSTER_NODE_MIGRATE_TO\<rparr>) s
                        else s);
            s = upd_node n (\<lambda>x. x\<lparr>flags := (flags x AND NOT CLUSTER_NODE_SLAVE) OR CLUSTER_NODE_MASTER,
                                   slaveof := None\<rparr>) s
        in clusterDoBeforeSleep (CLUSTER_TODO_SAVE_CONFIG OR CLUSTER_TODO_UPDATE_STATE) s)"

definition clusterSetMaster :: "naddr \<Rightarrow> server \<Rightarrow> server option" where
  "clusterSetMaster n s = do {
     serverAssert (n \<noteq> myself s);
     serverAssert (numslots (me s) = 0);
     let s = (if nodeIsMaster (me s)
              then clusterCloseAllSlots
                     (upd_node (myself s)
                        (\<lambda>x. x\<lparr>flags := (flags x AND NOT (CLUSTER_NODE_MASTER OR CLUSTER_NODE_MIGRATE_TO))
                                          OR CLUSTER_NODE_SLAVE\<rparr>) s)
              else (case slaveof (me s) of
                      Some m \<Rightarrow> snd (clusterNodeRemoveSlave m (myself s) s)
                    | None \<Rightarrow> s));
     let s = upd_node (myself s) (\<lambda>x. x\<lparr>slaveof := Some n\<rparr>) s;
     let s = snd (clusterNodeAddSlave n (myself s) s);
     let s = replicationSetMaster (ip (nd s n)) (port (nd s n)) s;
     Some (resetManualFailover s)
   }"

section \<open>The slots a node claims\<close>

text \<open>
  The body of the loop of \<open>clusterUpdateSlotsConfigWith\<close>: the state of the loop is
  the list of dirty slots, whether \<open>newmaster\<close> was set, and the server.
\<close>

definition clusterUpdateSlots_slot ::
  "naddr \<Rightarrow> u64 \<Rightarrow> bytes \<Rightarrow> naddr option \<Rightarrow> nat \<Rightarrow> (nat list \<times> bool) \<times> server \<Rightarrow> ((nat list \<times> bool) \<times> server) option" where
  "clusterUpdateSlots_slot sender senderConfigEpoch claimed curmaster j = (\<lambda>((dirty_slots, newmaster), s).
     if bitmapTestBit claimed j then
       if slots s j = Some sender then Some ((dirty_slots, newmaster), s)
       else if importing_slots_from s j \<noteq> None then Some ((dirty_slots, newmaster), s)
       else if (case slots s j of None \<Rightarrow> True | Some m \<Rightarrow> configEpoch (nd s m) < senderConfigEpoch)
       then do {
         let dirty_slots = (if slots s j = Some (myself s) \<and> countKeysInSlot s j \<noteq> 0 \<and> sender \<noteq> myself s
                            then dirty_slots @ [j] else dirty_slots);
         let newmaster = (if slots s j = curmaster then True else newmaster);
         (_, s) \<leftarrow> clusterDelSlot j s;
         let s = snd (clusterAddSlot sender j s);
         Some ((dirty_slots, newmaster),
               clusterDoBeforeSleep
                 (CLUSTER_TODO_SAVE_CONFIG OR CLUSTER_TODO_UPDATE_STATE OR CLUSTER_TODO_FSYNC_CONFIG) s)
       }
       else Some ((dirty_slots, newmaster), s)
     else Some ((dirty_slots, newmaster), s))"

text \<open>
  What follows the loop: become a replica of the sender, or delete the keys of the
  dirty slots. \<open>curmaster->numslots\<close> is read only when \<open>newmaster\<close> is set; with
  \<open>curmaster\<close> NULL the read is a fault, which is the outcome \<open>None\<close>.
\<close>

definition clusterUpdateSlots_finish ::
  "naddr \<Rightarrow> naddr option \<Rightarrow> bool \<Rightarrow> nat list \<Rightarrow> server \<Rightarrow> server option" where
  "clusterUpdateSlots_finish sender curmaster newmaster dirty_slots s =
     (if cluster_module_flags s AND CLUSTER_MODULE_FLAG_NO_REDIRECTION \<noteq> 0 then Some s
      else if newmaster \<and> curmaster = None then None
      else if newmaster \<and> numslots (nd s (the curmaster)) = 0 then do {
        s \<leftarrow> clusterSetMaster sender s;
        Some (clusterDoBeforeSleep
                (CLUSTER_TODO_SAVE_CONFIG OR CLUSTER_TODO_UPDATE_STATE OR CLUSTER_TODO_FSYNC_CONFIG) s)
      }
      else Some (fold delKeysInSlot dirty_slots s))"

definition clusterUpdateSlotsConfigWith :: "naddr \<Rightarrow> u64 \<Rightarrow> bytes \<Rightarrow> server \<Rightarrow> server option" where
  "clusterUpdateSlotsConfigWith sender senderConfigEpoch claimed s = do {
     let curmaster = (if nodeIsMaster (me s) then Some (myself s) else slaveof (me s));
     if sender = myself s then Some s
     else do {
       ((dirty_slots, newmaster), s) \<leftarrow>
         for_each [0..<CLUSTER_SLOTS]
           (clusterUpdateSlots_slot sender senderConfigEpoch claimed curmaster) (([], False), s);
       clusterUpdateSlots_finish sender curmaster newmaster dirty_slots s
     }
   }"

section \<open>The state of the cluster\<close>

definition CLUSTER_MAX_REJOIN_DELAY :: int where "CLUSTER_MAX_REJOIN_DELAY = 5000"
definition CLUSTER_MIN_REJOIN_DELAY :: int where "CLUSTER_MIN_REJOIN_DELAY = 500"
definition CLUSTER_WRITABLE_DELAY :: int where "CLUSTER_WRITABLE_DELAY = 2000"

definition slots_covered :: "server \<Rightarrow> bool" where
  "slots_covered s =
     list_all (\<lambda>j. case slots s j of
                     None \<Rightarrow> False
                   | Some n \<Rightarrow> flags (nd s n) AND CLUSTER_NODE_FAIL = 0) [0..<CLUSTER_SLOTS]"

definition serving_masters :: "server \<Rightarrow> (bytes \<times> naddr) list" where
  "serving_masters s =
     filter (\<lambda>(nm, node). nodeIsMaster (nd s node) \<and> numslots (nd s node) \<noteq> 0) (nodes s)"

definition clusterUpdateState :: "server \<Rightarrow> server" where
  "clusterUpdateState s =
     (let s = s\<lparr>todo_before_sleep := todo_before_sleep s AND NOT CLUSTER_TODO_UPDATE_STATE\<rparr>;
          s = (if first_call_time s = 0 then s\<lparr>first_call_time := mstime s\<rparr> else s)
      in if nodeIsMaster (me s) \<and> state s = CLUSTER_FAIL \<and>
            mstime s - first_call_time s < CLUSTER_WRITABLE_DELAY then s
      else
        let new_state = (if cluster_require_full_coverage s \<and> \<not> slots_covered s
                         then CLUSTER_FAIL else CLUSTER_OK);
            s = s\<lparr>cluster_size := int (length (serving_masters s))\<rparr>;
            reachable_masters = int (length (filter (\<lambda>(nm, node).
                flags (nd s node) AND (CLUSTER_NODE_FAIL OR CLUSTER_NODE_PFAIL) = 0) (serving_masters s)));
            (new_state, s) = (if reachable_masters < needed_quorum (cluster_size s)
                              then (CLUSTER_FAIL, s\<lparr>among_minority_time := mstime s\<rparr>)
                              else (new_state, s))
        in if new_state \<noteq> state s
           then let rejoin_delay = cluster_node_timeout s;
                    rejoin_delay = (if rejoin_delay > CLUSTER_MAX_REJOIN_DELAY
                                    then CLUSTER_MAX_REJOIN_DELAY else rejoin_delay);
                    rejoin_delay = (if rejoin_delay < CLUSTER_MIN_REJOIN_DELAY
                                    then CLUSTER_MIN_REJOIN_DELAY else rejoin_delay)
                in if new_state = CLUSTER_OK \<and> nodeIsMaster (me s) \<and>
                      mstime s - among_minority_time s < rejoin_delay
                   then s else s\<lparr>state := new_state\<rparr>
           else s)"

section \<open>What the operations keep\<close>

lemma cluster_inv_slots:
  assumes inv: "cluster_inv s" and slot: "slot_inv t" and fr: "slot_frame t = slot_frame s"
  shows "cluster_inv t" "epoch_view t = epoch_view s" "link_node t = link_node s" "live t = live s"
proof -
  note i = cluster_invD [OF inv] and v = slot_frame_server [OF fr] and n = slot_frame_node [OF fr]
  have "names_inv t" using i(2) v n by (simp add: names_inv_def)
  moreover have "reports_inv t" using i(3) v n by (simp add: reports_inv_def)
  ultimately show "cluster_inv t" using i(4) slot v by (simp add: cluster_inv_def)
  show "epoch_view t = epoch_view s" "link_node t = link_node s" "live t = live s" using v by simp_all
qed

lemma keep_replication [simp]:
  "inv_view (pauseClients e s) = inv_view s" "epoch_view (pauseClients e s) = epoch_view s"
  "link_node (pauseClients e s) = link_node s"
  "inv_view (replicationSetMaster h p s) = inv_view s" "epoch_view (replicationSetMaster h p s) = epoch_view s"
  "link_node (replicationSetMaster h p s) = link_node s" "heap (replicationSetMaster h p s) = heap s"
  "inv_view (replicationUnsetMaster s) = inv_view s" "epoch_view (replicationUnsetMaster s) = epoch_view s"
  "link_node (replicationUnsetMaster s) = link_node s" "heap (replicationUnsetMaster s) = heap s"
  "inv_view (delKeysInSlot j s) = inv_view s" "epoch_view (delKeysInSlot j s) = epoch_view s"
  "link_node (delKeysInSlot j s) = link_node s" "slots (delKeysInSlot j s) = slots s"
  "heap (delKeysInSlot j s) = heap s" "myself (delKeysInSlot j s) = myself s"
  "inv_view (emptyDb s) = inv_view s" "epoch_view (emptyDb s) = epoch_view s"
  "link_node (emptyDb s) = link_node s" "heap (emptyDb s) = heap s"
  "slots (replicationSetMaster h p s) = slots s" "slots (replicationUnsetMaster s) = slots s"
  "slots (emptyDb s) = slots s" "myself (replicationSetMaster h p s) = myself s"
  "myself (replicationUnsetMaster s) = myself s" "myself (emptyDb s) = myself s"
  by (simp_all add: pauseClients_def replicationSetMaster_def replicationUnsetMaster_def freeMasterClient_def
      delKeysInSlot_def emptyDb_def emit_def inv_view_def view_defs Let_def)

lemma keep_manual_failover [simp]:
  "inv_view (resetManualFailover s) = inv_view s" "epoch_view (resetManualFailover s) = epoch_view s"
  "link_node (resetManualFailover s) = link_node s" "heap (resetManualFailover s) = heap s"
  "slots (resetManualFailover s) = slots s" "myself (resetManualFailover s) = myself s"
  "nodes (resetManualFailover s) = nodes s"
  "importing_slots_from (resetManualFailover s) = importing_slots_from s"
  "migrating_slots_to (resetManualFailover s) = migrating_slots_to s"
  "inv_view (manualFailoverCheckTimeout s) = inv_view s"
  "epoch_view (manualFailoverCheckTimeout s) = epoch_view s"
  "link_node (manualFailoverCheckTimeout s) = link_node s"
  "inv_view (clusterHandleManualFailover s) = inv_view s"
  "epoch_view (clusterHandleManualFailover s) = epoch_view s"
  "link_node (clusterHandleManualFailover s) = link_node s"
  by (simp_all add: resetManualFailover_def manualFailoverCheckTimeout_def clusterHandleManualFailover_def
      clientsArePaused_def emit_def inv_view_def view_defs Let_def)

lemma keep_fold_delKeys [simp]:
  "inv_view (fold delKeysInSlot js s) = inv_view s" "epoch_view (fold delKeysInSlot js s) = epoch_view s"
  "link_node (fold delKeysInSlot js s) = link_node s" "slots (fold delKeysInSlot js s) = slots s"
  "heap (fold delKeysInSlot js s) = heap s" "myself (fold delKeysInSlot js s) = myself s"
  by (induction js arbitrary: s) simp_all

lemma keep_myself_flags [simp]:
  "inv_view (clusterUpdateMyselfFlags s) = inv_view s" "epoch_view (clusterUpdateMyselfFlags s) = epoch_view s"
  "link_node (clusterUpdateMyselfFlags s) = link_node s"
  by (simp_all add: clusterUpdateMyselfFlags_def Let_def upd_node_inv_view)

lemma keep_SetNodeAsMaster [simp]:
  "inv_view (clusterSetNodeAsMaster n s) = inv_view s" "epoch_view (clusterSetNodeAsMaster n s) = epoch_view s"
  "link_node (clusterSetNodeAsMaster n s) = link_node s"
  by (auto simp: clusterSetNodeAsMaster_def Let_def upd_node_inv_view split: option.split)

lemma keep_CloseAllSlots [simp]:
  "inv_view (clusterCloseAllSlots s) = inv_view s" "epoch_view (clusterCloseAllSlots s) = epoch_view s"
  "link_node (clusterCloseAllSlots s) = link_node s" "heap (clusterCloseAllSlots s) = heap s"
  "myself (clusterCloseAllSlots s) = myself s" "slots (clusterCloseAllSlots s) = slots s"
  "nodes (clusterCloseAllSlots s) = nodes s"
  by (simp_all add: clusterCloseAllSlots_def inv_view_def view_defs)

lemma keep_SetMaster:
  assumes "clusterSetMaster n s = Some t"
  shows "inv_view t = inv_view s" "epoch_view t = epoch_view s" "link_node t = link_node s"
  using assms by (auto simp: clusterSetMaster_def Let_def upd_node_inv_view split: if_splits option.splits)

text \<open>\<open>clusterUpdateState\<close> writes five fields that no invariant reads.\<close>

definition state_frame :: "server \<Rightarrow> server" where
  "state_frame s = s\<lparr>todo_before_sleep := 0, first_call_time := 0, cluster_size := 0,
                     among_minority_time := 0, state := 0\<rparr>"

lemma state_frame_UpdateState: "state_frame (clusterUpdateState s) = state_frame s"
proof -
  define s1 where "s1 = s\<lparr>todo_before_sleep := todo_before_sleep s AND NOT CLUSTER_TODO_UPDATE_STATE\<rparr>"
  define s2 where "s2 = (if first_call_time s1 = 0 then s1\<lparr>first_call_time := mstime s1\<rparr> else s1)"
  define s3 where "s3 = s2\<lparr>cluster_size := int (length (serving_masters s2))\<rparr>"
  have 2: "state_frame s2 = state_frame s" by (simp add: s1_def s2_def state_frame_def)
  have 3: "state_frame s3 = state_frame s2" by (simp add: s3_def state_frame_def)
  have 4: "state_frame (s3\<lparr>among_minority_time := m\<rparr>) = state_frame s3"
    "state_frame (s3\<lparr>state := n\<rparr>) = state_frame s3"
    "state_frame (s3\<lparr>among_minority_time := m, state := n\<rparr>) = state_frame s3" for m n
    by (simp_all add: state_frame_def)
  show ?thesis
    unfolding clusterUpdateState_def s1_def [symmetric] Let_def [of s1] Let_def [of "s1\<lparr>first_call_time := x\<rparr>" for x]
    by (simp add: Let_def [of "if first_call_time s1 = 0 then s1\<lparr>first_call_time := mstime s1\<rparr> else s1"]
        s2_def [symmetric] s3_def [symmetric] Let_def [of s3] 2 3 4 split: prod.split)
      (simp add: Let_def 2 3 4)
qed

lemma state_frameD:
  assumes "state_frame t = state_frame s"
  shows "inv_view t = inv_view s" "epoch_view t = epoch_view s" "link_node t = link_node s" "heap t = heap s"
    "slots t = slots s" "myself t = myself s" "nodes t = nodes s" "mstime t = mstime s" "zklc t = zklc s"
proof -
  note eq = assms [unfolded state_frame_def]
  from arg_cong [OF eq, of heap] arg_cong [OF eq, of link_node] arg_cong [OF eq, of slots]
    arg_cong [OF eq, of myself] arg_cong [OF eq, of nodes] arg_cong [OF eq, of next_addr]
    arg_cong [OF eq, of currentEpoch] arg_cong [OF eq, of lastVoteEpoch] arg_cong [OF eq, of effects]
    arg_cong [OF eq, of mstime] arg_cong [OF eq, of zklc]
  show "inv_view t = inv_view s" "epoch_view t = epoch_view s" "link_node t = link_node s" "heap t = heap s"
    "slots t = slots s" "myself t = myself s" "nodes t = nodes s" "mstime t = mstime s" "zklc t = zklc s"
    by (simp_all add: inv_view_def view_defs)
qed

lemmas keep_UpdateState [simp] = state_frameD [OF state_frame_UpdateState]

section \<open>The role of a node\<close>

lemma clusterSetNodeAsMaster_effect:
  "nodeIsMaster (nd (clusterSetNodeAsMaster n s) n)"
  "\<not> nodeIsMaster (nd s n) \<Longrightarrow> \<not> nodeIsSlave (nd (clusterSetNodeAsMaster n s) n)"
  "\<not> nodeIsMaster (nd s n) \<Longrightarrow> slaveof (nd (clusterSetNodeAsMaster n s) n) = None"
  "\<not> nodeIsMaster (nd s n) \<Longrightarrow> slaveof (nd s n) = Some m \<Longrightarrow> distinct (slaves (nd s m)) \<Longrightarrow>
     n \<notin> set (slaves (nd (clusterSetNodeAsMaster n s) m))"
  by (auto simp: clusterSetNodeAsMaster_def Let_def clusterNodeRemoveSlave_effect
      node_flag_bits flag_defs flag_simps bit_simps split: option.split)

lemma clusterSetMaster_Some:
  assumes "n \<noteq> myself s" "numslots (me s) = 0"
  shows "\<exists>t. clusterSetMaster n s = Some t \<and> slaveof (me t) = Some n \<and> myself s \<in> set (slaves (nd t n)) \<and>
           slots t = slots s"
proof -
  define s1 where "s1 = (if nodeIsMaster (me s)
              then clusterCloseAllSlots
                     (upd_node (myself s)
                        (\<lambda>x. x\<lparr>flags := (flags x AND NOT (CLUSTER_NODE_MASTER OR CLUSTER_NODE_MIGRATE_TO))
                                          OR CLUSTER_NODE_SLAVE\<rparr>) s)
              else (case slaveof (me s) of
                      Some m \<Rightarrow> snd (clusterNodeRemoveSlave m (myself s) s)
                    | None \<Rightarrow> s))"
  define s2 where "s2 = upd_node (myself s1) (\<lambda>x. x\<lparr>slaveof := Some n\<rparr>) s1"
  define s3 where "s3 = snd (clusterNodeAddSlave n (myself s2) s2)"
  have t: "clusterSetMaster n s = Some (resetManualFailover
      (replicationSetMaster (ip (nd s3 n)) (port (nd s3 n)) s3))"
    using assms unfolding clusterSetMaster_def Let_def s1_def [symmetric] s2_def [symmetric] s3_def [symmetric]
    by (simp add: s1_def [symmetric] s2_def [symmetric] s3_def [symmetric])
  have m1: "myself s1 = myself s" "slots s1 = slots s"
    using table_frameD(2,6) [OF clusterNodeRemoveSlave_effect(1)]
    by (auto simp: s1_def split: option.split)
  have m3: "myself s3 = myself s" "slots s3 = slots s" "slaveof (nd s3 (myself s)) = Some n"
    "myself s \<in> set (slaves (nd s3 n))"
    using table_frameD(2,6) [OF clusterNodeAddSlave_effect(1) [of n "myself s2" s2]] m1
      clusterNodeAddSlave_effect(2) [of n "myself s2" s2 n] clusterNodeAddSlave_effect(3) [of n "myself s2" s2]
    by (auto simp: s3_def s2_def)
  then show ?thesis using t by simp
qed

section \<open>Configuration updates\<close>

text \<open>The slots that change hands when \<open>sender\<close> claims \<open>claimed\<close> under an epoch.\<close>

definition rebound :: "server \<Rightarrow> naddr \<Rightarrow> u64 \<Rightarrow> bytes \<Rightarrow> nat \<Rightarrow> bool" where
  "rebound s sender e claimed j \<longleftrightarrow>
     bitmapTestBit claimed j \<and> slots s j \<noteq> Some sender \<and> importing_slots_from s j = None \<and>
     (case slots s j of None \<Rightarrow> True | Some m \<Rightarrow> configEpoch (nd s m) < e)"

lemma clusterUpdateSlots_slot_effect:
  assumes inv: "slot_inv t" and fr: "slot_frame t = slot_frame s" and j: "j < CLUSTER_SLOTS"
    and lv: "live t = live s" and n: "n \<in> live s" "n \<noteq> myself s" and same: "slots t j = slots s j"
  shows "\<exists>t'. clusterUpdateSlots_slot n e claimed cm j ((d, nm), t) =
           Some ((if rebound s n e claimed j \<and> slots s j = Some (myself s) \<and> countKeysInSlot s j \<noteq> 0
                  then d @ [j] else d,
                  nm \<or> (rebound s n e claimed j \<and> slots s j = cm)), t') \<and>
         (if rebound s n e claimed j
          then \<exists>r t1 t2. clusterDelSlot j t = Some (r, t1) \<and> clusterAddSlot n j t1 = (C_OK, t2) \<and>
                 slot_inv t' = slot_inv t2 \<and> slots t' = slots t2 \<and> slot_frame t' = slot_frame t2 \<and> live t' = live t2
          else t' = t)"
proof (cases "rebound s n e claimed j")
  case False
  note f = slot_frame_server [OF fr] and g = slot_frame_node [OF fr]
  have "(case slots s j of None \<Rightarrow> True | Some m \<Rightarrow> configEpoch (nd t m) < e) =
        (case slots s j of None \<Rightarrow> True | Some m \<Rightarrow> configEpoch (nd s m) < e)"
    using g by (simp split: option.split)
  with False f same have "clusterUpdateSlots_slot n e claimed cm j ((d, nm), t) = Some ((d, nm), t)"
    by (auto simp: clusterUpdateSlots_slot_def rebound_def)
  with False show ?thesis by simp
next
  case True
  note f = slot_frame_server [OF fr] and g = slot_frame_node [OF fr]
  have c: "(case slots s j of None \<Rightarrow> True | Some m \<Rightarrow> configEpoch (nd t m) < e)"
    using True g by (auto simp: rebound_def split: option.splits)
  obtain r t1 t2 where st: "clusterDelSlot j t = Some (r, t1)" "clusterAddSlot n j t1 = (C_OK, t2)"
    using st.rebind [OF inv j, of n] n lv by auto
  define t' where "t' = clusterDoBeforeSleep
      (CLUSTER_TODO_SAVE_CONFIG OR CLUSTER_TODO_UPDATE_STATE OR CLUSTER_TODO_FSYNC_CONFIG) t2"
  have "slot_inv t' = slot_inv t2" by (rule slot_inv_cong) (simp add: t'_def)
  moreover have "slots t' = slots t2" "live t' = live t2" by (simp_all add: t'_def)
  moreover have "slot_frame t' = slot_frame t2" by (simp add: t'_def clusterDoBeforeSleep_def slot_frame_def)
  moreover have "clusterUpdateSlots_slot n e claimed cm j ((d, nm), t) =
           Some ((if slots s j = Some (myself s) \<and> countKeysInSlot s j \<noteq> 0 then d @ [j] else d,
                  nm \<or> slots s j = cm), t')"
    using True c f same n st by (simp add: clusterUpdateSlots_slot_def rebound_def t'_def)
  ultimately show ?thesis using True st by auto
qed

text \<open>The whole loop: exactly the slots of \<open>rebound\<close> go to the sender.\<close>

lemma clusterUpdateSlots_loop:
  assumes inv: "slot_inv s" and n: "n \<in> live s" "n \<noteq> myself s"
  shows "\<exists>t. for_each [0..<CLUSTER_SLOTS] (clusterUpdateSlots_slot n e claimed cm) (([], False), s) =
           Some ((filter (\<lambda>j. rebound s n e claimed j \<and> slots s j = Some (myself s) \<and> countKeysInSlot s j \<noteq> 0)
                    [0..<CLUSTER_SLOTS],
                  \<exists>j<CLUSTER_SLOTS. rebound s n e claimed j \<and> slots s j = cm), t) \<and>
         slot_inv t \<and> slot_frame t = slot_frame s \<and> live t = live s \<and>
         slots t = (\<lambda>i. if i < CLUSTER_SLOTS \<and> rebound s n e claimed i then Some n else slots s i)"
proof -
  let ?I = "\<lambda>k (d, nm). d = filter (\<lambda>j. rebound s n e claimed j \<and> slots s j = Some (myself s) \<and>
                                      countKeysInSlot s j \<noteq> 0) [0..<k] \<and>
                  nm = (\<exists>j<k. rebound s n e claimed j \<and> slots s j = cm)"
  have "\<exists>x' t. for_each [0..<CLUSTER_SLOTS] (clusterUpdateSlots_slot n e claimed cm) (([], False), s) = Some (x', t) \<and>
           ?I CLUSTER_SLOTS x' \<and> slot_inv t \<and> slot_frame t = slot_frame s \<and> live t = live s \<and>
           slots t = (\<lambda>i. if i < CLUSTER_SLOTS \<and> rebound s n e claimed i then Some n else slots s i)"
  proof (rule st.rebind_loop [where I = ?I, OF inv n(1)])
    show "?I 0 ([], False)" by simp
  next
    fix j x t
    assume j: "j < CLUSTER_SLOTS" and t: "slot_inv t" "slot_frame t = slot_frame s"
      "slots t = (\<lambda>i. if i < j \<and> rebound s n e claimed i then Some n else slots s i)" "live t = live s"
      and I: "?I j x"
    obtain d nm where x: "x = (d, nm)" by force
    have same: "slots t j = slots s j" using t(3) by simp
    note eff = clusterUpdateSlots_slot_effect [OF t(1,2) j t(4) n same, of e claimed cm d nm]
    let ?x' = "(if rebound s n e claimed j \<and> slots s j = Some (myself s) \<and> countKeysInSlot s j \<noteq> 0
                  then d @ [j] else d, nm \<or> (rebound s n e claimed j \<and> slots s j = cm))"
    have "?I (Suc j) ?x'" using I x by (auto simp: less_Suc_eq)
    with eff show "\<exists>x' t'. clusterUpdateSlots_slot n e claimed cm j (x, t) = Some (x', t') \<and> ?I (Suc j) x' \<and>
          (if rebound s n e claimed j
           then \<exists>r t1 t2. clusterDelSlot j t = Some (r, t1) \<and> clusterAddSlot n j t1 = (C_OK, t2) \<and>
                 slot_inv t' = slot_inv t2 \<and> slots t' = slots t2 \<and> slot_frame t' = slot_frame t2 \<and> live t' = live t2
           else t' = t)"
      unfolding x by blast
  qed
  then show ?thesis by auto
qed

definition my_master :: "server \<Rightarrow> naddr option" where
  "my_master s = (if nodeIsMaster (me s) then Some (myself s) else slaveof (me s))"

definition dirtied :: "server \<Rightarrow> naddr \<Rightarrow> u64 \<Rightarrow> bytes \<Rightarrow> nat list" where
  "dirtied s n e claimed = filter (\<lambda>j. rebound s n e claimed j \<and> slots s j = Some (myself s) \<and>
                                     countKeysInSlot s j \<noteq> 0) [0..<CLUSTER_SLOTS]"

lemma clusterUpdateSlotsConfigWith_unfold:
  assumes inv: "slot_inv s" and n: "n \<in> live s" "n \<noteq> myself s"
  obtains t where "slot_inv t" "slot_frame t = slot_frame s" "live t = live s"
    "slots t = (\<lambda>i. if i < CLUSTER_SLOTS \<and> rebound s n e claimed i then Some n else slots s i)"
    "clusterUpdateSlotsConfigWith n e claimed s =
       clusterUpdateSlots_finish n (my_master s)
         (\<exists>j<CLUSTER_SLOTS. rebound s n e claimed j \<and> slots s j = my_master s) (dirtied s n e claimed) t"
proof -
  obtain t where t: "for_each [0..<CLUSTER_SLOTS] (clusterUpdateSlots_slot n e claimed (my_master s)) (([], False), s) =
           Some ((dirtied s n e claimed,
                  \<exists>j<CLUSTER_SLOTS. rebound s n e claimed j \<and> slots s j = my_master s), t)"
         "slot_inv t" "slot_frame t = slot_frame s" "live t = live s"
         "slots t = (\<lambda>i. if i < CLUSTER_SLOTS \<and> rebound s n e claimed i then Some n else slots s i)"
    using clusterUpdateSlots_loop [OF inv n, of e claimed "my_master s"] unfolding dirtied_def by blast
  have "clusterUpdateSlotsConfigWith n e claimed s =
       clusterUpdateSlots_finish n (my_master s)
         (\<exists>j<CLUSTER_SLOTS. rebound s n e claimed j \<and> slots s j = my_master s) (dirtied s n e claimed) t"
    using t(1) n(2) unfolding clusterUpdateSlotsConfigWith_def my_master_def [symmetric] Let_def by simp
  with t(2-5) show ?thesis by (rule that)
qed

lemma clusterUpdateSlots_finish_keep:
  assumes "clusterUpdateSlots_finish n cm nm ds s = Some t"
  shows "inv_view t = inv_view s \<and> epoch_view t = epoch_view s \<and> link_node t = link_node s"
proof -
  consider "t = s" | u where "clusterSetMaster n s = Some u" "t = clusterDoBeforeSleep
         (CLUSTER_TODO_SAVE_CONFIG OR CLUSTER_TODO_UPDATE_STATE OR CLUSTER_TODO_FSYNC_CONFIG) u"
    | "t = fold delKeysInSlot ds s"
    using assms by (auto simp: clusterUpdateSlots_finish_def split: if_splits bind_splits)
  then show ?thesis using keep_SetMaster [of n s] by cases auto
qed

text \<open>Whenever the update returns, the tables are consistent and exactly the rebound slots moved.\<close>

lemma clusterUpdateSlotsConfigWith_keep:
  assumes inv: "cluster_inv s" and n: "n \<in> live s" and u: "clusterUpdateSlotsConfigWith n e claimed s = Some t"
  shows "cluster_inv t" "epoch_view t = epoch_view s" "link_node t = link_node s" "live t = live s"
    "n \<noteq> myself s \<Longrightarrow> slots t = (\<lambda>i. if i < CLUSTER_SLOTS \<and> rebound s n e claimed i then Some n else slots s i)"
proof -
  have "cluster_inv t \<and> epoch_view t = epoch_view s \<and> link_node t = link_node s \<and> live t = live s \<and>
    (n \<noteq> myself s \<longrightarrow> slots t = (\<lambda>i. if i < CLUSTER_SLOTS \<and> rebound s n e claimed i then Some n else slots s i))"
  proof (cases "n = myself s")
    case True
    then show ?thesis using inv u by (simp add: clusterUpdateSlotsConfigWith_def)
  next
    case False
    obtain t1 where t1: "slot_inv t1" "slot_frame t1 = slot_frame s" "live t1 = live s"
       "slots t1 = (\<lambda>i. if i < CLUSTER_SLOTS \<and> rebound s n e claimed i then Some n else slots s i)"
       and eq: "clusterUpdateSlotsConfigWith n e claimed s =
         clusterUpdateSlots_finish n (my_master s)
           (\<exists>j<CLUSTER_SLOTS. rebound s n e claimed j \<and> slots s j = my_master s) (dirtied s n e claimed) t1"
      by (rule clusterUpdateSlotsConfigWith_unfold [OF cluster_invD(1) [OF inv] n False])
    note c = cluster_inv_slots [OF inv t1(1,2)]
    have k: "inv_view t = inv_view t1 \<and> epoch_view t = epoch_view t1 \<and> link_node t = link_node t1"
      using clusterUpdateSlots_finish_keep u eq by simp
    then show ?thesis
      using c t1 cluster_inv_cong [of t t1] inv_view_live [of t t1] inv_view_nodes [of t t1] by simp
  qed
  then show "cluster_inv t" "epoch_view t = epoch_view s" "link_node t = link_node s" "live t = live s"
    "n \<noteq> myself s \<Longrightarrow> slots t = (\<lambda>i. if i < CLUSTER_SLOTS \<and> rebound s n e claimed i then Some n else slots s i)"
    by blast+
qed

text \<open>It returns when this node knows its master, and a replica serves no slots.\<close>

lemma clusterUpdateSlotsConfigWith_returns:
  assumes inv: "cluster_inv s" and n: "n \<in> live s"
    and role: "my_master s \<noteq> None" "\<not> nodeIsMaster (me s) \<Longrightarrow> numslots (me s) = 0"
  shows "\<exists>t. clusterUpdateSlotsConfigWith n e claimed s = Some t"
proof (cases "n = myself s")
  case True
  then show ?thesis by (simp add: clusterUpdateSlotsConfigWith_def)
next
  case False
  obtain t1 where t1: "slot_inv t1" "slot_frame t1 = slot_frame s" "live t1 = live s"
       "slots t1 = (\<lambda>i. if i < CLUSTER_SLOTS \<and> rebound s n e claimed i then Some n else slots s i)"
       and eq: "clusterUpdateSlotsConfigWith n e claimed s =
         clusterUpdateSlots_finish n (my_master s)
           (\<exists>j<CLUSTER_SLOTS. rebound s n e claimed j \<and> slots s j = my_master s) (dirtied s n e claimed) t1"
    by (rule clusterUpdateSlotsConfigWith_unfold [OF cluster_invD(1) [OF inv] n False])
  have my: "myself t1 = myself s" using slot_frame_server [OF t1(2)] by simp
  have "numslots (me t1) = 0" if "numslots (nd t1 (the (my_master s))) = 0"
  proof (cases "nodeIsMaster (me s)")
    case True
    then show ?thesis using that my by (simp add: my_master_def)
  next
    case F: False
    have me: "myself s \<in> live s" using cluster_invD [OF inv] by simp
    have "{i. i < CLUSTER_SLOTS \<and> slots s i = Some (myself s)} = {}"
      using slot_inv_numslots [OF cluster_invD(1) [OF inv] me] role(2) [OF F] by (simp add: card_eq_0_iff)
    then have "{i. i < CLUSTER_SLOTS \<and> slots t1 i = Some (myself s)} = {}"
      using t1(4) False by (auto split: if_splits)
    then show ?thesis using slot_inv_numslots [OF t1(1), of "myself s"] me t1(3) my by simp
  qed
  then show ?thesis unfolding eq using clusterSetMaster_Some [of n t1] False my role(1)
    by (auto simp: clusterUpdateSlots_finish_def)
qed

section \<open>What the state of the cluster tells\<close>

text \<open>The masters that own a slot, and those of them in sight.\<close>

definition slot_masters :: "server \<Rightarrow> naddr set" where
  "slot_masters s = {a \<in> live s. nodeIsMaster (nd s a) \<and> (\<exists>j < CLUSTER_SLOTS. slots s j = Some a)}"

definition seen_masters :: "server \<Rightarrow> naddr set" where
  "seen_masters s = {a \<in> slot_masters s. \<not> nodeFailed (nd s a) \<and> \<not> nodeTimedOut (nd s a)}"

text \<open>
  The cluster is healthy, seen from a node: every slot has an owner that did not fail, if that is
  required, and enough of the masters with slots are in sight: more than half of three
  or more, one of two.
\<close>

definition healthy :: "server \<Rightarrow> bool" where
  "healthy s \<longleftrightarrow>
     (cluster_require_full_coverage s \<longrightarrow>
        (\<forall>j < CLUSTER_SLOTS. \<exists>n. slots s j = Some n \<and> \<not> nodeFailed (nd s n))) \<and>
     (if 3 \<le> card (slot_masters s) then card (slot_masters s) < 2 * card (seen_masters s)
      else card (slot_masters s) \<le> 2 * card (seen_masters s) + 1)"

lemma slots_covered_iff:
  "slots_covered s \<longleftrightarrow> (\<forall>j < CLUSTER_SLOTS. \<exists>n. slots s j = Some n \<and> \<not> nodeFailed (nd s n))"
proof -
  have "(case x of None \<Rightarrow> False | Some n \<Rightarrow> P n) \<longleftrightarrow> (\<exists>n. x = Some n \<and> P n)" for x :: "naddr option" and P
    by (cases x) simp_all
  then show ?thesis by (simp add: slots_covered_def nodeFailed_def list_all_iff atLeast0LessThan Ball_def)
qed

lemma addresses_distinct: "cluster_inv s \<Longrightarrow> distinct (map snd (nodes s))"
proof -
  assume "cluster_inv s"
  then have "names_inv s" by (simp add: cluster_inv_def)
  then have d: "distinct (map fst (nodes s))" and n: "\<And>nm a. (nm, a) \<in> set (nodes s) \<Longrightarrow> name (nd s a) = nm"
    by (auto simp: names_inv_def dictOk_def)
  have "map fst (nodes s) = map (\<lambda>a. name (nd s a)) (map snd (nodes s))" using n by (auto simp: comp_def)
  then have "distinct (map (\<lambda>a. name (nd s a)) (map snd (nodes s)))" using d by metis
  then show ?thesis by (simp only: distinct_map)
qed

lemma masters_counted:
  assumes inv: "cluster_inv s"
  shows "length (serving_masters s) = card (slot_masters s)"
    and "length (filter (\<lambda>(nm, node). flags (nd s node) AND (CLUSTER_NODE_FAIL OR CLUSTER_NODE_PFAIL) = 0) (serving_masters s)) =
      card (seen_masters s)"
proof -
  have owns: "numslots (nd s a) \<noteq> 0 \<longleftrightarrow> (\<exists>j < CLUSTER_SLOTS. slots s j = Some a)" if "a \<in> live s" for a
  proof -
    have inv: "slot_inv s" using inv by (simp add: cluster_inv_def)
    have "bitmapTestBit (node_slots (nd s a)) j = (slots s j = Some a)" if "j < CLUSTER_SLOTS" for j
      using inv \<open>a \<in> live s\<close> that by (simp add: slot_inv_def)
    moreover have "numslots (nd s a) = int (card (owned s a))"
      using inv \<open>a \<in> live s\<close> by (simp add: slot_inv_def)
    ultimately show ?thesis by (auto simp: owned_def)
  qed
  have count: "length (filter (\<lambda>(nm, a). P a) (nodes s)) = card {a \<in> live s. P a}" for P
  proof -
    have "map snd (filter (\<lambda>(nm, a). P a) (nodes s)) = filter P (map snd (nodes s))"
      by (simp add: filter_map comp_def case_prod_unfold)
    then have "length (filter (\<lambda>(nm, a). P a) (nodes s)) = length (filter P (map snd (nodes s)))"
      by (metis length_map)
    also have "\<dots> = card (set (filter P (map snd (nodes s))))"
      using addresses_distinct [OF inv] by (simp only: distinct_card [OF distinct_filter])
    also have "set (filter P (map snd (nodes s))) = {a \<in> live s. P a}" by (auto simp: live_def)
    finally show ?thesis .
  qed
  have m: "{a \<in> live s. nodeIsMaster (nd s a) \<and> numslots (nd s a) \<noteq> 0} = slot_masters s"
    using owns by (auto simp: slot_masters_def)
  show "length (serving_masters s) = card (slot_masters s)"
    unfolding serving_masters_def count m ..
  have two: "w AND (CLUSTER_NODE_FAIL OR CLUSTER_NODE_PFAIL) = 0 \<longleftrightarrow>
      w AND CLUSTER_NODE_FAIL = 0 \<and> w AND CLUSTER_NODE_PFAIL = 0" for w :: u32
    by (auto simp: bit_eq_iff bit_simps)
  have "filter (\<lambda>(nm, node). flags (nd s node) AND (CLUSTER_NODE_FAIL OR CLUSTER_NODE_PFAIL) = 0) (serving_masters s) =
      filter (\<lambda>(nm, a). nodeIsMaster (nd s a) \<and> numslots (nd s a) \<noteq> 0 \<and> \<not> nodeFailed (nd s a) \<and> \<not> nodeTimedOut (nd s a)) (nodes s)"
    by (auto simp: serving_masters_def two nodeFailed_def nodeTimedOut_def intro!: filter_cong)
  moreover have "{a \<in> live s. nodeIsMaster (nd s a) \<and> numslots (nd s a) \<noteq> 0 \<and> \<not> nodeFailed (nd s a) \<and> \<not> nodeTimedOut (nd s a)} =
      seen_masters s"
    using m by (auto simp: seen_masters_def)
  ultimately show "length (filter (\<lambda>(nm, node). flags (nd s node) AND (CLUSTER_NODE_FAIL OR CLUSTER_NODE_PFAIL) = 0) (serving_masters s)) =
      card (seen_masters s)"
    using count by presburger
qed

lemma healthy_code:
  assumes "cluster_inv s"
  shows "healthy s \<longleftrightarrow> (cluster_require_full_coverage s \<longrightarrow> slots_covered s) \<and>
     needed_quorum (int (length (serving_masters s))) \<le>
       int (length (filter (\<lambda>(nm, node). flags (nd s node) AND (CLUSTER_NODE_FAIL OR CLUSTER_NODE_PFAIL) = 0)
                      (serving_masters s)))"
proof -
  have "needed_quorum (int m) \<le> int r \<longleftrightarrow> (if 3 \<le> m then m < 2 * r else m \<le> 2 * r + 1)" for m r
    by (auto simp: needed_quorum_def Let_def)
  then show ?thesis
    using masters_counted [OF assms] by (simp add: healthy_def slots_covered_iff)
qed

text \<open>A restarted master waits before it declares the cluster writable, and before it rejoins a majority.\<close>

definition startup_delay :: "server \<Rightarrow> bool" where
  "startup_delay s \<longleftrightarrow> nodeIsMaster (me s) \<and> state s = CLUSTER_FAIL \<and>
     mstime s - (if first_call_time s = 0 then mstime s else first_call_time s) < CLUSTER_WRITABLE_DELAY"

definition rejoin_delay :: "server \<Rightarrow> bool" where
  "rejoin_delay s \<longleftrightarrow> nodeIsMaster (me s) \<and>
     mstime s - among_minority_time s <
       max CLUSTER_MIN_REJOIN_DELAY (min CLUSTER_MAX_REJOIN_DELAY (cluster_node_timeout s))"

lemma clusterUpdateState_state:
  assumes "cluster_inv s"
  shows "state (clusterUpdateState s) =
     (if startup_delay s then state s
      else if \<not> healthy s then CLUSTER_FAIL
      else if state s \<noteq> CLUSTER_OK \<and> rejoin_delay s then state s
      else CLUSTER_OK)"
    and "cluster_size (clusterUpdateState s) = (if startup_delay s then cluster_size s else int (card (slot_masters s)))"
proof -
  define s1 where "s1 = (let s = s\<lparr>todo_before_sleep := todo_before_sleep s AND NOT CLUSTER_TODO_UPDATE_STATE\<rparr>
     in if first_call_time s = 0 then s\<lparr>first_call_time := mstime s\<rparr> else s)"
  have f: "heap s1 = heap s" "myself s1 = myself s" "state s1 = state s" "mstime s1 = mstime s"
    "first_call_time s1 = (if first_call_time s = 0 then mstime s else first_call_time s)"
    "cluster_require_full_coverage s1 = cluster_require_full_coverage s" "slots s1 = slots s" "nodes s1 = nodes s"
    "cluster_node_timeout s1 = cluster_node_timeout s" "among_minority_time s1 = among_minority_time s"
    by (simp_all add: s1_def Let_def)
  have cov: "slots_covered s1 = slots_covered s" by (simp add: slots_covered_def f cong: option.case_cong)
  have sm: "serving_masters (s1\<lparr>cluster_size := k\<rparr>) = serving_masters s" for k by (simp add: serving_masters_def f)
  have sm1: "serving_masters s1 = serving_masters s" by (simp add: serving_masters_def f)
  define low where "low = (int (length (filter (\<lambda>(nm, node). flags (nd s node) AND (CLUSTER_NODE_FAIL OR CLUSTER_NODE_PFAIL) = 0)
                      (serving_masters s))) < needed_quorum (int (length (serving_masters s))))"
  define bad where "bad = (cluster_require_full_coverage s \<and> \<not> slots_covered s)"
  have h: "healthy s = (\<not> bad \<and> \<not> low)" using healthy_code [OF assms] by (auto simp: bad_def low_def)
  have wait: "startup_delay s = (nodeIsMaster (me s) \<and> state s = CLUSTER_FAIL \<and> mstime s - first_call_time s1 < CLUSTER_WRITABLE_DELAY)"
    by (simp add: startup_delay_def f)
  have clamp: "(if (if t > CLUSTER_MAX_REJOIN_DELAY then CLUSTER_MAX_REJOIN_DELAY else t) < CLUSTER_MIN_REJOIN_DELAY
      then CLUSTER_MIN_REJOIN_DELAY else if t > CLUSTER_MAX_REJOIN_DELAY then CLUSTER_MAX_REJOIN_DELAY else t) =
     max CLUSTER_MIN_REJOIN_DELAY (min CLUSTER_MAX_REJOIN_DELAY t)" for t
    by (auto simp: CLUSTER_MAX_REJOIN_DELAY_def CLUSTER_MIN_REJOIN_DELAY_def)
  have ne: "CLUSTER_OK \<noteq> CLUSTER_FAIL" by (simp add: CLUSTER_OK_def CLUSTER_FAIL_def)
  have u: "clusterUpdateState s =
     (if startup_delay s then s1
      else let new_state = (if bad then CLUSTER_FAIL else CLUSTER_OK);
               s2 = s1\<lparr>cluster_size := int (length (serving_masters s))\<rparr>;
               (new_state, s3) = (if low then (CLUSTER_FAIL, s2\<lparr>among_minority_time := mstime s\<rparr>) else (new_state, s2))
           in if new_state \<noteq> state s
              then if new_state = CLUSTER_OK \<and> nodeIsMaster (me s) \<and>
                      mstime s - among_minority_time s3 <
                        max CLUSTER_MIN_REJOIN_DELAY (min CLUSTER_MAX_REJOIN_DELAY (cluster_node_timeout s))
                   then s3 else s3\<lparr>state := new_state\<rparr>
              else s3)"
    unfolding clusterUpdateState_def s1_def [unfolded Let_def, symmetric] Let_def
    by (simp add: wait f cov sm sm1 low_def bad_def clamp cong: if_cong)
  show "state (clusterUpdateState s) =
     (if startup_delay s then state s
      else if \<not> healthy s then CLUSTER_FAIL
      else if state s \<noteq> CLUSTER_OK \<and> rejoin_delay s then state s
      else CLUSTER_OK)"
    unfolding u Let_def using ne f(3) by (auto simp: h rejoin_delay_def f)
  show "cluster_size (clusterUpdateState s) = (if startup_delay s then cluster_size s else int (card (slot_masters s)))"
    unfolding u Let_def using masters_counted(1) [OF assms] by (auto simp: s1_def Let_def)
qed

end
