(* ===== verification/ClusterFile.thy ===== *)
theory ClusterFile
  imports Numbers ClusterConfig
begin

text \<open>
  Nodes as text (\<open>cluster.c\<close>): the flags of a node, the ranges of its slots, the line
  that describes it in CLUSTER NODES and in the configuration file, and the file itself.
\<close>

section \<open>Node descriptions\<close>

text \<open>A \<open>%s\<close> ends at the terminator (\<open>cstr\<close>), a \<open>%.40s\<close> after 40 characters at the latest.\<close>

definition redisNodeFlagsTable :: "(u32 \<times> bytes) list" where
  "redisNodeFlagsTable =
     [(CLUSTER_NODE_MYSELF, str ''myself,''),
      (CLUSTER_NODE_MASTER, str ''master,''),
      (CLUSTER_NODE_SLAVE, str ''slave,''),
      (CLUSTER_NODE_PFAIL, str ''fail?,''),
      (CLUSTER_NODE_FAIL, str ''fail,''),
      (CLUSTER_NODE_HANDSHAKE, str ''handshake,''),
      (CLUSTER_NODE_NOADDR, str ''noaddr,''),
      (CLUSTER_NODE_NOFAILOVER, str ''nofailover,'')]"

text \<open>The flags are passed as a \<open>uint16_t\<close>.\<close>

definition representClusterNodeFlags :: "bytes \<Rightarrow> u32 \<Rightarrow> bytes" where
  "representClusterNodeFlags ci fl =
     (let fl = ucast (ucast fl :: u16);
          out = fold (\<lambda>(flag, nm) out. if fl AND flag \<noteq> 0 then out @ nm else out) redisNodeFlagsTable [];
          out = (if out = [] then str ''noflags,'' else out)
      in ci @ butlast out)"

text \<open>
  The loop over the slots of a node, with the range that is open (its start, or none)
  and the ranges found so far. The loop of \<open>clusterReplyMultiBulkSlots\<close> is the same.
\<close>

definition slot_range_step :: "clusterNode \<Rightarrow> nat \<Rightarrow> nat option \<times> (nat \<times> nat) list \<Rightarrow> nat option \<times> (nat \<times> nat) list" where
  "slot_range_step n j = (\<lambda>(start, out).
     let b = bitmapTestBit (node_slots n) j;
         start = (if b \<and> start = None then Some j else start)
     in case start of
          Some st \<Rightarrow>
            if \<not> b \<or> j = CLUSTER_SLOTS - 1
            then let j = (if b \<and> j = CLUSTER_SLOTS - 1 then j + 1 else j) in (None, out @ [(st, j - 1)])
            else (start, out)
        | None \<Rightarrow> (start, out))"

definition slot_ranges :: "clusterNode \<Rightarrow> (nat \<times> nat) list" where
  "slot_ranges n = snd (fold (slot_range_step n) [0..<CLUSTER_SLOTS] (None, []))"

definition describe_range :: "nat \<times> nat \<Rightarrow> bytes" where
  "describe_range = (\<lambda>(a, b). if a = b then 32 # dec_bytes a else 32 # dec_bytes a @ 45 # dec_bytes b)"

text \<open>The slots that are migrating to or importing from another node.\<close>

definition describe_open_slot :: "server \<Rightarrow> nat \<Rightarrow> bytes" where
  "describe_open_slot s j =
     (case migrating_slots_to s j of
        Some n \<Rightarrow> str '' ['' @ dec_bytes j @ str ''->-'' @ cstr (take 40 (name (nd s n))) @ str '']''
      | None \<Rightarrow>
          (case importing_slots_from s j of
             Some n \<Rightarrow> str '' ['' @ dec_bytes j @ str ''-<-'' @ cstr (take 40 (name (nd s n))) @ str '']''
           | None \<Rightarrow> []))"

definition clusterGenNodeDescription :: "naddr \<Rightarrow> server \<Rightarrow> bytes" where
  "clusterGenNodeDescription node s =
     (let n = nd s node;
          ci = cstr (take 40 (name n)) @ 32 # cstr (ip n) @ 58 # dec_int (port n) @ 64 # dec_int (cport n) @ [32];
          ci = representClusterNodeFlags ci (flags n);
          ci = ci @ (case slaveof n of
                       Some m \<Rightarrow> 32 # cstr (take 40 (name (nd s m))) @ [32]
                     | None \<Rightarrow> str '' - '');
          ci = ci @ dec_int (ping_sent n) @ 32 # dec_int (pong_received n) @ 32 # dec_bytes (unat (configEpoch n)) @ 32 #
                 (if link n \<noteq> None \<or> flags n AND CLUSTER_NODE_MYSELF \<noteq> 0
                  then str ''connected'' else str ''disconnected'');
          ci = ci @ concat (map describe_range (slot_ranges n))
      in if flags n AND CLUSTER_NODE_MYSELF \<noteq> 0
         then ci @ concat (map (describe_open_slot s) [0..<CLUSTER_SLOTS]) else ci)"

definition clusterGenNodesDescription :: "u32 \<Rightarrow> server \<Rightarrow> bytes" where
  "clusterGenNodesDescription filtr s =
     concat (map (\<lambda>(nm, node). if flags (nd s node) AND filtr \<noteq> 0 then []
                               else clusterGenNodeDescription node s @ [10]) (nodes s))"

section \<open>Saving the configuration\<close>

text \<open>
  The contents of the configuration file. Writing it succeeds or not by the argument of
  \<open>clusterSaveConfig\<close>; after a success the old contents are gone, the padding included.
\<close>

definition config_file :: "server \<Rightarrow> bytes" where
  "config_file s =
     clusterGenNodesDescription CLUSTER_NODE_HANDSHAKE s @
     str ''vars currentEpoch '' @ dec_bytes (unat (currentEpoch s)) @
     str '' lastVoteEpoch '' @ dec_bytes (unat (lastVoteEpoch s)) @ [10]"

definition clusterSaveConfig :: "bool \<Rightarrow> bool \<Rightarrow> server \<Rightarrow> int \<times> server" where
  "clusterSaveConfig write_ok do_fsync s =
     (let s = s\<lparr>todo_before_sleep := todo_before_sleep s AND NOT CLUSTER_TODO_SAVE_CONFIG\<rparr>
      in if \<not> write_ok then (-1, s)
         else
           let s = (if do_fsync
                    then s\<lparr>todo_before_sleep := todo_before_sleep s AND NOT CLUSTER_TODO_FSYNC_CONFIG\<rparr> else s)
           in (0, emit (SaveConfig do_fsync) s))"

end
