(* ===== verification/ClusterLoad.thy ===== *)
theory ClusterLoad
  imports Sds ClusterFile
begin

text \<open>
  Starting a node (\<open>cluster.c\<close>, \<open>clusterLoadConfig\<close> and \<open>clusterInit\<close>): the configuration
  file is read line by line into empty tables. A function stops with \<open>Exit1\<close> where the code
  calls \<open>exit(1)\<close>, with \<open>Abort\<close> where it fails an assertion or panics, and with \<open>Undefined\<close>
  where it reads or writes outside an object.
\<close>

section \<open>Pieces of a line\<close>

text \<open>\<open>strtoull\<close> in base 10: saturated to 64 bits, negated after a minus sign.\<close>

definition strtoull :: "bytes \<Rightarrow> u64" where
  "strtoull s =
     (let s = dropWhile isspace (takeWhile (\<lambda>b. b \<noteq> 0) s);
          (neg, s) = (case s of
                        c # r \<Rightarrow> if c = 45 then (True, r) else if c = 43 then (False, r) else (False, s)
                      | [] \<Rightarrow> (False, s));
          v = foldl (\<lambda>a d. a * 10 + (uint d - 48)) 0 (takeWhile isdigit s)
      in if v > 2 ^ 64 - 1 then - 1
         else if neg then - word_of_int v else word_of_int v)"

text \<open>The characters before the first \<open>c\<close>, and from it on; the same for the last \<open>c\<close>.\<close>

definition strchr :: "byte \<Rightarrow> bytes \<Rightarrow> (bytes \<times> bytes) option" where
  "strchr c s =
     (if c \<in> set (cstr s) then Some (takeWhile (\<lambda>b. b \<noteq> c) s, dropWhile (\<lambda>b. b \<noteq> c) s) else None)"

definition strrchr :: "byte \<Rightarrow> bytes \<Rightarrow> (bytes \<times> bytes) option" where
  "strrchr c s =
     (if c \<in> set (cstr s)
      then Some (rev (tl (dropWhile (\<lambda>b. b \<noteq> c) (rev (cstr s)))), c # rev (takeWhile (\<lambda>b. b \<noteq> c) (rev (cstr s))))
      else None)"

text \<open>The lines that \<open>fgets\<close> returns, with at most \<open>m\<close> characters each.\<close>

definition fgets_line :: "nat \<Rightarrow> bytes \<Rightarrow> bytes" where
  "fgets_line m s =
     take m (if 10 \<in> set s then takeWhile (\<lambda>b. b \<noteq> 10) s @ [10] else s)"

function fgets_lines :: "nat \<Rightarrow> bytes \<Rightarrow> bytes list" where
  "fgets_lines m s =
     (if s = [] \<or> m = 0 then []
      else fgets_line m s # fgets_lines m (drop (length (fgets_line m s)) s))"
  by pat_completeness auto
termination
  by (relation "measure (\<lambda>(m, s). length s)") (auto simp: fgets_line_def)

declare fgets_lines.simps [simp del]

fun split_on :: "byte \<Rightarrow> bytes \<Rightarrow> bytes list" where
  "split_on c [] = [[]]"
| "split_on c (b # s) =
     (if b = c then [] # split_on c s
      else case split_on c s of t # ts \<Rightarrow> (b # t) # ts | [] \<Rightarrow> [[b]])"

section \<open>Loading\<close>

datatype stop = Exit1 | Abort | Undefined

definition andthen :: "stop + 'a \<Rightarrow> ('a \<Rightarrow> stop + 'b) \<Rightarrow> stop + 'b" where
  "andthen r f = (case r of Inl e \<Rightarrow> Inl e | Inr x \<Rightarrow> f x)"

primrec load_each :: "'a list \<Rightarrow> ('a \<Rightarrow> 's \<Rightarrow> stop + 's) \<Rightarrow> 's \<Rightarrow> stop + 's" where
  "load_each [] f s = Inr s"
| "load_each (x # xs) f s = andthen (f x s) (load_each xs f)"

text \<open>While the file is read, the state comes with whether \<open>server.cluster->myself\<close> is set.\<close>

type_synonym loading = "bool \<times> server"

text \<open>
  The node of a name, created if it is not known. Forty bytes are read from the
  argument and its terminator.
\<close>

definition arg_name :: "bytes \<Rightarrow> bytes" where
  "arg_name arg = take CLUSTER_NAMELEN (arg @ [0])"

definition load_ref :: "bytes \<Rightarrow> server \<Rightarrow> stop + (naddr \<times> server)" where
  "load_ref arg s =
     (if length arg + 1 < CLUSTER_NAMELEN then Inl Undefined
      else
        case clusterLookupNode (arg_name arg) s of
             Some n \<Rightarrow> Inr (n, s)
           | None \<Rightarrow>
               let (n, s) = createClusterNode (Some (arg_name arg)) 0 s
               in Inr (n, snd (clusterAddNode n s)))"

definition load_var :: "bytes list \<Rightarrow> nat \<Rightarrow> server \<Rightarrow> server" where
  "load_var argv j s =
     (if strcaseeq (cstr (argv ! j)) (str ''currentEpoch'')
      then s\<lparr>currentEpoch := strtoull (argv ! (j + 1))\<rparr>
      else if strcaseeq (cstr (argv ! j)) (str ''lastVoteEpoch'')
      then s\<lparr>lastVoteEpoch := strtoull (argv ! (j + 1))\<rparr>
      else s)"

definition load_address :: "naddr \<Rightarrow> bytes \<Rightarrow> server \<Rightarrow> stop + server" where
  "load_address n arg s =
     (case strrchr 58 arg of
        None \<Rightarrow> Inl Exit1
      | Some (addr, p) \<Rightarrow>
          if length addr + 1 > NET_IP_STR_LEN then Inl Undefined
          else
            let pt = tl p;
                (pt, busp) = (case strchr 64 pt of
                                Some (pt, b) \<Rightarrow> (pt, Some (tl b))
                              | None \<Rightarrow> (pt, None));
                prt = atoi pt;
                bus = (case busp of Some b \<Rightarrow> atoi b | None \<Rightarrow> prt + CLUSTER_PORT_INCR)
            in Inr (upd_node n (\<lambda>x. x\<lparr>ip := addr, port := prt, cport := bus\<rparr>) s))"

definition set_flag :: "naddr \<Rightarrow> u32 \<Rightarrow> server \<Rightarrow> server" where
  "set_flag n fl = upd_node n (\<lambda>x. x\<lparr>flags := flags x OR fl\<rparr>)"

definition load_flag :: "naddr \<Rightarrow> bytes \<Rightarrow> loading \<Rightarrow> stop + loading" where
  "load_flag n f = (\<lambda>(have, s).
     if strcaseeq f (str ''myself'')
     then (if have then Inl Abort else Inr (True, set_flag n CLUSTER_NODE_MYSELF (s\<lparr>myself := n\<rparr>)))
     else if strcaseeq f (str ''master'') then Inr (have, set_flag n CLUSTER_NODE_MASTER s)
     else if strcaseeq f (str ''slave'') then Inr (have, set_flag n CLUSTER_NODE_SLAVE s)
     else if strcaseeq f (str ''fail?'') then Inr (have, set_flag n CLUSTER_NODE_PFAIL s)
     else if strcaseeq f (str ''fail'')
     then Inr (have, upd_node n (\<lambda>x. x\<lparr>fail_time := mstime s\<rparr>) (set_flag n CLUSTER_NODE_FAIL s))
     else if strcaseeq f (str ''handshake'') then Inr (have, set_flag n CLUSTER_NODE_HANDSHAKE s)
     else if strcaseeq f (str ''noaddr'') then Inr (have, set_flag n CLUSTER_NODE_NOADDR s)
     else if strcaseeq f (str ''nofailover'') then Inr (have, set_flag n CLUSTER_NODE_NOFAILOVER s)
     else if strcaseeq f (str ''noflags'') then Inr (have, s)
     else Inl Abort)"

definition load_master :: "naddr \<Rightarrow> bytes \<Rightarrow> server \<Rightarrow> stop + server" where
  "load_master n arg s =
     (if hd (arg @ [0]) = 45 then Inr s
      else andthen (load_ref arg s) (\<lambda>(m, s).
        Inr (snd (clusterNodeAddSlave m n (upd_node n (\<lambda>x. x\<lparr>slaveof := Some m\<rparr>) s)))))"

text \<open>An argument in brackets: a slot that is migrating to a node or importing from one.\<close>

definition load_open_slot :: "bytes \<Rightarrow> server \<Rightarrow> stop + server" where
  "load_open_slot arg s =
     (case strchr 45 arg of
        None \<Rightarrow> Inl Abort
      | Some (num, p) \<Rightarrow>
          let direction = hd (tl p @ [0]); slot = atoi (tl num)
          in if slot < 0 \<or> slot \<ge> int CLUSTER_SLOTS then Inl Exit1
             else if length p < 3 then Inl Undefined
             else andthen (load_ref (drop 3 p) s) (\<lambda>(cn, s).
                    Inr (if direction = 62
                         then s\<lparr>migrating_slots_to := (migrating_slots_to s)(nat slot := Some cn)\<rparr>
                         else s\<lparr>importing_slots_from := (importing_slots_from s)(nat slot := Some cn)\<rparr>)))"

definition load_range :: "naddr \<Rightarrow> bytes \<Rightarrow> server \<Rightarrow> stop + server" where
  "load_range n arg s =
     (let (start, stop) = (case strchr 45 arg of
                             Some (a, p) \<Rightarrow> (atoi a, atoi (tl p))
                           | None \<Rightarrow> (atoi arg, atoi arg))
      in if start < 0 \<or> start \<ge> int CLUSTER_SLOTS \<or> stop < 0 \<or> stop \<ge> int CLUSTER_SLOTS then Inl Exit1
         else Inr (fold (\<lambda>j s. snd (clusterAddSlot n j s)) [nat start..<Suc (nat stop)] s))"

definition load_slot :: "naddr \<Rightarrow> bytes \<Rightarrow> server \<Rightarrow> stop + server" where
  "load_slot n arg s = (if hd (arg @ [0]) = 91 then load_open_slot arg s else load_range n arg s)"

definition load_times :: "naddr \<Rightarrow> bytes list \<Rightarrow> server \<Rightarrow> server" where
  "load_times n argv s =
     (let s = (if atoi (argv ! 4) \<noteq> 0 then upd_node n (\<lambda>x. x\<lparr>ping_sent := mstime s\<rparr>) s else s);
          s = (if atoi (argv ! 5) \<noteq> 0 then upd_node n (\<lambda>x. x\<lparr>pong_received := mstime s\<rparr>) s else s)
      in upd_node n (\<lambda>x. x\<lparr>configEpoch := strtoull (argv ! 6)\<rparr>) s)"

text \<open>A line of a node; the arguments are those of \<open>sdssplitargs\<close>.\<close>

definition load_node :: "bytes list \<Rightarrow> loading \<Rightarrow> stop + loading" where
  "load_node argv = (\<lambda>(have, s).
     if length argv < 8 then Inl Exit1
     else
       andthen (load_ref (argv ! 0) s) (\<lambda>(n, s).
       andthen (load_address n (argv ! 1) s) (\<lambda>s.
       andthen (load_each (split_on 44 (cstr (argv ! 2))) (load_flag n) (have, s)) (\<lambda>(have, s).
       andthen (load_master n (argv ! 3) s) (\<lambda>s.
       andthen (load_each (drop 8 argv) (load_slot n) (load_times n argv s)) (\<lambda>s. Inr (have, s)))))))"

definition load_line :: "bytes \<Rightarrow> loading \<Rightarrow> stop + loading" where
  "load_line line = (\<lambda>(have, s).
     if hd (line @ [0]) = 10 \<or> hd (line @ [0]) = 0 then Inr (have, s)
     else
       case sdssplitargs line of
         None \<Rightarrow> Inl Exit1
       | Some argv \<Rightarrow>
           if argv = [] then Inl Undefined
           else if strcaseeq (cstr (argv ! 0)) (str ''vars'')
           then (if even (length argv) then Inl Exit1
                 else Inr (have, fold (\<lambda>i. load_var argv (2 * i + 1)) [0..<length argv div 2] s))
           else load_node argv (have, s))"

text \<open>What \<open>fopen\<close> finds; a file of no length counts as missing.\<close>

datatype config = Missing | Unreadable | Contents bytes

definition MAXLINE :: nat where "MAXLINE = 1024 + CLUSTER_SLOTS * 128"

definition clusterLoadConfig :: "config \<Rightarrow> server \<Rightarrow> stop + (int \<times> server)" where
  "clusterLoadConfig file s =
     (case file of
        Missing \<Rightarrow> Inr (C_ERR, s)
      | Unreadable \<Rightarrow> Inl Exit1
      | Contents c \<Rightarrow>
          if c = [] then Inr (C_ERR, s)
          else
            andthen (load_each (fgets_lines (MAXLINE - 1) c) load_line (False, s)) (\<lambda>(have, s).
              if \<not> have then Inl Exit1
              else Inr (C_OK, if clusterGetMaxEpoch s > currentEpoch s
                              then s\<lparr>currentEpoch := clusterGetMaxEpoch s\<rparr> else s)))"

section \<open>Starting\<close>

text \<open>
  What the operating system answers is in the arguments: whether the file could be locked,
  and whether the socket of the bus could be opened. \<open>save\<close> tells whether the file could be written.
\<close>

definition init_state :: "server \<Rightarrow> server" where
  "init_state s =
     clusterCloseAllSlots
       (s\<lparr>currentEpoch := 0, state := CLUSTER_FAIL, cluster_size := 1, todo_before_sleep := 0,
          nodes := [], nodes_black_list := [], failover_auth_time := 0, failover_auth_count := 0,
          failover_auth_rank := 0, failover_auth_epoch := 0,
          cant_failover_reason := CLUSTER_CANT_FAILOVER_NONE, lastVoteEpoch := 0,
          stats_bus_messages_sent := (\<lambda>_. 0), stats_bus_messages_received := (\<lambda>_. 0),
          stats_pfail_nodes := 0, slots := (\<lambda>_. None)\<rparr>)"

definition init_myself :: "bool \<Rightarrow> server \<Rightarrow> stop + server" where
  "init_myself save s =
     (let (n, s) = createClusterNode None (CLUSTER_NODE_MYSELF OR CLUSTER_NODE_MASTER) s;
          s = snd (clusterAddNode n (s\<lparr>myself := n\<rparr>));
          (r, s) = clusterSaveConfig save True s
      in if r = -1 then Inl Exit1 else Inr s)"

definition init_ports :: "server \<Rightarrow> server" where
  "init_ports s =
     (let s = upd_node (myself s)
                (\<lambda>x. x\<lparr>port := server_port s, cport := server_port s + CLUSTER_PORT_INCR\<rparr>) s;
          s = (if cluster_announce_port s \<noteq> 0
               then upd_node (myself s) (\<lambda>x. x\<lparr>port := cluster_announce_port s\<rparr>) s else s)
      in if cluster_announce_bus_port s \<noteq> 0
         then upd_node (myself s) (\<lambda>x. x\<lparr>cport := cluster_announce_bus_port s\<rparr>) s else s)"

definition clusterInit :: "bool \<Rightarrow> bool \<Rightarrow> bool \<Rightarrow> config \<Rightarrow> server \<Rightarrow> stop + server" where
  "clusterInit locked save listening file s =
     (if \<not> locked then Inl Exit1
      else
        andthen (clusterLoadConfig file (init_state s)) (\<lambda>(r, s).
        andthen (if r = C_ERR then init_myself save s else Inr s) (\<lambda>s.
          if server_port s > 65535 - CLUSTER_PORT_INCR \<or> \<not> listening then Inl Exit1
          else
            let s = init_ports (s\<lparr>countKeysInSlot := (\<lambda>_. 0)\<rparr>)
            in Inr (clusterUpdateMyselfFlags (resetManualFailover (s\<lparr>mf_end := 0\<rparr>))))))"

section \<open>Whatever the file holds, the tables are consistent\<close>

text \<open>A result is fine when the function stopped, or when its value satisfies a predicate.\<close>

definition fine :: "('a \<Rightarrow> bool) \<Rightarrow> stop + 'a \<Rightarrow> bool" where
  "fine P r \<longleftrightarrow> (\<forall>x. r = Inr x \<longrightarrow> P x)"

lemma fine_simps [simp]: "fine P (Inl e)" "fine P (Inr x) \<longleftrightarrow> P x"
  by (simp_all add: fine_def)

lemma andthen_simps [simp]: "andthen (Inl e) f = Inl e" "andthen (Inr x) f = f x"
  by (simp_all add: andthen_def)

lemma fine_andthen: "fine P r \<Longrightarrow> (\<And>x. P x \<Longrightarrow> fine Q (f x)) \<Longrightarrow> fine Q (andthen r f)"
  by (cases r) simp_all

lemma fine_mono: "fine P r \<Longrightarrow> (\<And>x. P x \<Longrightarrow> Q x) \<Longrightarrow> fine Q r"
  by (cases r) simp_all

lemma fine_if: "(c \<Longrightarrow> fine P a) \<Longrightarrow> (\<not> c \<Longrightarrow> fine P b) \<Longrightarrow> fine P (if c then a else b)"
  by simp

lemma fine_each: "P s \<Longrightarrow> (\<And>x s. x \<in> set xs \<Longrightarrow> P s \<Longrightarrow> fine P (f x s)) \<Longrightarrow> fine P (load_each xs f s)"
proof (induction xs arbitrary: s)
  case (Cons x xs)
  then show ?case by (auto intro: fine_andthen [where P = P])
qed simp

definition load_inv :: "loading \<Rightarrow> bool" where
  "load_inv = (\<lambda>(have, s). tables_inv s \<and> (have \<longrightarrow> myself s \<in> live s))"

definition grown :: "server \<Rightarrow> server \<Rightarrow> bool" where
  "grown s t \<longleftrightarrow> tables_inv t \<and> live s \<subseteq> live t \<and> myself t = myself s"

lemma tables_inv_cong: "inv_view s = inv_view t \<Longrightarrow> tables_inv s = tables_inv t"
  using slot_inv_cong [of s t] names_inv_cong [of s t] reports_inv_cong [of s t]
  by (simp add: inv_view_def tables_inv_def)

lemma grown_refl: "tables_inv s \<Longrightarrow> grown s s"
  by (simp add: grown_def)

lemma grown_trans: "grown s t \<Longrightarrow> grown t u \<Longrightarrow> grown s u"
  by (auto simp: grown_def)

lemma grown_view: "grown s t \<Longrightarrow> inv_view u = inv_view t \<Longrightarrow> grown s u"
  using tables_inv_cong [of u t] inv_view_live [of u t] inv_view_nodes [of u t] by (simp add: grown_def)

lemma grown_upd:
  "grown s t \<Longrightarrow> (\<And>n. node_slots (f n) = node_slots n \<and> numslots (f n) = numslots n) \<Longrightarrow>
   (\<And>n. name (f n) = name n) \<Longrightarrow> (\<And>n. fail_reports (f n) = fail_reports n) \<Longrightarrow> grown s (upd_node a f t)"
  by (erule grown_view) (rule upd_node_inv_view)

lemma load_inv_grown: "load_inv (have, s) \<Longrightarrow> grown s t \<Longrightarrow> load_inv (have, t)"
  by (auto simp: load_inv_def grown_def)

lemma load_ref_fine:
  assumes "tables_inv s"
  shows "fine (\<lambda>(n, t). grown s t \<and> n \<in> live t) (load_ref arg s)"
proof (cases "length arg + 1 < CLUSTER_NAMELEN")
  case False
  show ?thesis
  proof (cases "clusterLookupNode (arg_name arg) s")
    case None
    obtain n t where c: "createClusterNode (Some (arg_name arg)) 0 s = (n, t)" by fastforce
    note t = createClusterNode_tables [OF assms c [symmetric]]
    have "clusterLookupNode (arg_name arg) t = None" using None t(6) by (simp add: clusterLookupNode_def)
    then have "n \<in> live (snd (clusterAddNode n t))"
      using t(9) by (auto simp: clusterAddNode_def dictAdd_def clusterLookupNode_def dictFind_def live_def
          map_of_eq_None_iff)
    then show ?thesis
      using False None c clusterAddNode_tables [OF t(1,2)] t(3,7)
      by (simp add: load_ref_def grown_def)
  next
    case (Some n)
    then show ?thesis
      using False grown_refl [OF assms] clusterLookupNode_live [OF Some]
      by (simp add: load_ref_def)
  qed
qed (simp add: load_ref_def)

lemma load_address_fine: "tables_inv s \<Longrightarrow> fine (grown s) (load_address n arg s)"
  by (auto simp: load_address_def Let_def split: option.splits prod.splits
      intro!: grown_upd grown_refl)

lemma grown_set_flag: "grown s t \<Longrightarrow> grown s (set_flag n fl t)"
  by (auto simp: set_flag_def intro!: grown_upd)

lemma load_flag_fine:
  assumes "load_inv (have, s)" and "n \<in> live s"
  shows "fine (\<lambda>(have', t). load_inv (have', t) \<and> live t = live s) (load_flag n f (have, s))"
proof -
  have s: "tables_inv s" using assms(1) by (simp add: load_inv_def)
  have "load_inv (have, set_flag n fl s)" "live (set_flag n fl s) = live s" for fl
    using load_inv_grown [OF assms(1) grown_set_flag [OF grown_refl [OF s]]] by (simp_all add: set_flag_def)
  moreover have "load_inv (have, upd_node n (\<lambda>x. x\<lparr>fail_time := tm\<rparr>) (set_flag n fl s))" for fl tm
    using load_inv_grown [OF assms(1) grown_upd [OF grown_set_flag [OF grown_refl [OF s]]]] by simp
  moreover have "load_inv (True, set_flag n fl (s\<lparr>myself := n\<rparr>))" "live (set_flag n fl (s\<lparr>myself := n\<rparr>)) = live s" for fl
  proof -
    have "tables_inv (s\<lparr>myself := n\<rparr>)"
      using s by (simp add: tables_inv_def slot_inv_def names_inv_def reports_inv_def owned_def live_def)
    then have "grown (s\<lparr>myself := n\<rparr>) (set_flag n fl (s\<lparr>myself := n\<rparr>))" by (intro grown_set_flag grown_refl)
    then show "load_inv (True, set_flag n fl (s\<lparr>myself := n\<rparr>))" "live (set_flag n fl (s\<lparr>myself := n\<rparr>)) = live s"
      using assms(2) by (simp_all add: load_inv_def grown_def live_def set_flag_def)
  qed
  ultimately show ?thesis
    using assms(1) unfolding load_flag_def split_conv by (intro fine_if) (simp_all only: fine_simps split_conv upd_node_frame simp_thms)
qed

lemma grown_addSlave: "grown s t \<Longrightarrow> grown s (snd (clusterNodeAddSlave m n t))"
  by (erule grown_view) simp

lemma load_master_fine: "tables_inv s \<Longrightarrow> fine (grown s) (load_master n arg s)"
  unfolding load_master_def
  by (auto intro!: fine_andthen [OF load_ref_fine] grown_addSlave grown_upd grown_refl)

lemma load_open_slot_fine: "tables_inv s \<Longrightarrow> fine (grown s) (load_open_slot arg s)"
proof -
  assume s: "tables_inv s"
  have *: "grown s (t\<lparr>migrating_slots_to := m\<rparr>)" "grown s (t\<lparr>importing_slots_from := m\<rparr>)" if "grown s t" for t m
    by (rule grown_view [OF that]; simp add: inv_view_def view_defs)+
  show ?thesis
  proof (cases "strchr 45 arg")
    case (Some q)
    obtain num p where q: "q = (num, p)" by force
    show ?thesis
      unfolding load_open_slot_def Some q Let_def option.case split_conv
      by (intro fine_if fine_andthen [OF load_ref_fine [OF s]]) (auto intro: *)
  qed (simp add: load_open_slot_def)
qed

lemma clusterAddSlot_grown:
  assumes "grown s t" and "n \<in> live s" and "j < CLUSTER_SLOTS"
  shows "grown s (snd (clusterAddSlot n j t))"
proof (cases "slots t j = None")
  case True
  then obtain u where "clusterAddSlot n j t = (C_OK, u)" "slot_inv u" "slot_frame u = slot_frame t"
    using clusterAddSlot_free [of t j n] assms by (auto simp: grown_def tables_inv_def)
  moreover from this have "names_inv u" "reports_inv u" "live u = live t" "myself u = myself t"
    using assms(1) slot_frame_node [of u t] slot_frame_server [of u t]
    by (auto simp: grown_def tables_inv_def names_inv_def reports_inv_def)
  ultimately show ?thesis using assms(1) by (simp add: grown_def tables_inv_def)
qed (use assms in \<open>auto simp: clusterAddSlot_def\<close>)

lemma load_range_fine:
  assumes "tables_inv s" and "n \<in> live s"
  shows "fine (grown s) (load_range n arg s)"
proof -
  have *: "grown s (fold (\<lambda>j s. snd (clusterAddSlot n j s)) js t)" if "list_all (\<lambda>j. j < CLUSTER_SLOTS) js" "grown s t" for js t
    using that by (induction js arbitrary: t) (auto intro: clusterAddSlot_grown assms)
  have "grown s (fold (\<lambda>j s. snd (clusterAddSlot n j s)) [nat a..<Suc (nat b)] s)"
    if "\<not> (a < 0 \<or> a \<ge> int CLUSTER_SLOTS \<or> b < 0 \<or> b \<ge> int CLUSTER_SLOTS)" for a b
    using that grown_refl [OF assms(1)] by (intro *) (auto simp: list_all_iff nat_less_iff simp del: upt_Suc)
  then show ?thesis by (simp add: load_range_def split: prod.splits option.splits del: upt_Suc)
qed

lemma load_slot_fine: "tables_inv s \<Longrightarrow> n \<in> live s \<Longrightarrow> fine (grown s) (load_slot n arg s)"
  by (simp add: load_slot_def load_open_slot_fine load_range_fine)

lemma load_node_fine:
  assumes "load_inv (have, s)"
  shows "fine load_inv (load_node argv (have, s))"
proof (cases "length argv < 8")
  case False
  have s: "tables_inv s" using assms by (simp add: load_inv_def)
  have flags: "fine (\<lambda>(h, u). load_inv (h, u) \<and> n \<in> live u) (load_each fs (load_flag n) (have, t))"
    if "grown s t" "n \<in> live t" for n t fs
    using that load_inv_grown [OF assms]
    by (intro fine_each) (auto intro!: load_flag_fine [THEN fine_mono])
  have slots: "fine (\<lambda>u. load_inv (h, u)) (load_each as (load_slot n) t)" if "load_inv (h, t)" "n \<in> live t" for h t n as
  proof -
    have "fine (grown t) (load_each as (load_slot n) t)"
    proof (rule fine_each)
      show "grown t t" using that(1) by (simp add: load_inv_def grown_refl)
      show "fine (grown t) (load_slot n x u)" if "grown t u" for x u
      proof (rule fine_mono)
        show "fine (grown u) (load_slot n x u)"
          using \<open>grown t u\<close> \<open>n \<in> live t\<close> by (intro load_slot_fine) (auto simp: grown_def)
      qed (rule grown_trans [OF that])
    qed
    then show ?thesis by (rule fine_mono) (rule load_inv_grown [OF that(1)])
  qed
  have times: "grown t u \<Longrightarrow> grown t (load_times n argv u)" for t n u
    by (simp add: load_times_def Let_def grown_upd)
  have rest: "fine load_inv (andthen (load_master n (argv ! 3) u) (\<lambda>s.
      andthen (load_each (drop 8 argv) (load_slot n) (load_times n argv s)) (\<lambda>s. Inr (h, s))))"
    if u: "load_inv (h, u)" "n \<in> live u" for h u n
  proof (rule fine_andthen [OF load_master_fine])
    show "tables_inv u" using u by (simp add: load_inv_def)
    fix v assume "grown u v"
    then have v: "grown u (load_times n argv v)" by (rule times)
    have "n \<in> live (load_times n argv v)" using v u(2) by (auto simp: grown_def)
    then show "fine load_inv (andthen (load_each (drop 8 argv) (load_slot n) (load_times n argv v)) (\<lambda>s. Inr (h, s)))"
      by (rule fine_andthen [OF slots [OF load_inv_grown [OF u(1) v]]]) simp
  qed
  have line: "fine load_inv (andthen (load_address n (argv ! 1) t) (\<lambda>s.
      andthen (load_each (split_on 44 (cstr (argv ! 2))) (load_flag n) (have, s)) (\<lambda>(have, s).
      andthen (load_master n (argv ! 3) s) (\<lambda>s.
      andthen (load_each (drop 8 argv) (load_slot n) (load_times n argv s)) (\<lambda>s. Inr (have, s))))))"
    if t: "grown s t" "n \<in> live t" for n t
  proof (rule fine_andthen [OF load_address_fine])
    show "tables_inv t" using t by (simp add: grown_def)
    fix u assume u: "grown t u"
    have "n \<in> live u" using u t(2) by (auto simp: grown_def)
    then show "fine load_inv (andthen (load_each (split_on 44 (cstr (argv ! 2))) (load_flag n) (have, u)) (\<lambda>(have, s).
        andthen (load_master n (argv ! 3) s) (\<lambda>s.
        andthen (load_each (drop 8 argv) (load_slot n) (load_times n argv s)) (\<lambda>s. Inr (have, s)))))"
      by (rule fine_andthen [OF flags [OF grown_trans [OF t(1) u]]]) (auto intro: rest)
  qed
  have "fine load_inv (andthen (load_ref (argv ! 0) s) (\<lambda>(n, t). andthen (load_address n (argv ! 1) t) (\<lambda>s.
      andthen (load_each (split_on 44 (cstr (argv ! 2))) (load_flag n) (have, s)) (\<lambda>(have, s).
      andthen (load_master n (argv ! 3) s) (\<lambda>s.
      andthen (load_each (drop 8 argv) (load_slot n) (load_times n argv s)) (\<lambda>s. Inr (have, s)))))))"
    by (rule fine_andthen [OF load_ref_fine [OF s]]) (clarify, rule line)
  then show ?thesis using False by (simp only: load_node_def split_conv if_False)
qed (simp add: load_node_def)

lemma load_line_fine: "load_inv st \<Longrightarrow> fine load_inv (load_line line st)"
proof -
  assume st: "load_inv st"
  obtain h s where eq: "st = (h, s)" by force
  have vars: "load_inv (h, fold (load_var argv) is s)" for argv "is"
  proof -
    have *: "grown s (fold (load_var argv) is t)" if "grown s t" for t
      using that
    proof (induction "is" arbitrary: t)
      case (Cons i "is")
      have "grown s (load_var argv i t)"
        by (rule grown_view [OF Cons.prems]) (simp add: load_var_def inv_view_def view_defs)
      then show ?case using Cons.IH by simp
    qed simp
    have "grown s s" using st by (simp add: eq load_inv_def grown_refl)
    then show ?thesis using load_inv_grown [OF st [unfolded eq] *] by simp
  qed
  have "fold (\<lambda>i. load_var argv (2 * i + 1)) js s = fold (load_var argv) (map (\<lambda>i. 2 * i + 1) js) s" for argv js
    by (simp add: fold_map comp_def)
  then have vars': "load_inv (h, fold (\<lambda>i. load_var argv (2 * i + 1)) js s)" for argv js by (simp only: vars)
  have "fine load_inv (load_node argv (h, s))" for argv using st by (simp add: eq load_node_fine)
  then show ?thesis
    unfolding load_line_def eq split_conv using st vars'
    by (cases "sdssplitargs line") (intro fine_if; simp only: eq option.case fine_simps; intro fine_if; simp)+
qed

lemma clusterLoadConfig_consistent:
  assumes "tables_inv s" and "clusterLoadConfig file s = Inr (C_OK, t)"
  shows "cluster_inv t"
proof -
  have "C_OK \<noteq> C_ERR" by (simp add: C_OK_def C_ERR_def)
  then obtain c h u where c: "load_each (fgets_lines (MAXLINE - 1) c) load_line (False, s) = Inr (h, u)" "h"
    and t: "inv_view t = inv_view u"
    using assms(2) by (auto simp: clusterLoadConfig_def inv_view_def view_defs andthen_def split: config.splits if_splits sum.splits)
  have "fine load_inv (load_each (fgets_lines (MAXLINE - 1) c) load_line (False, s))"
    using assms(1) by (intro fine_each load_line_fine) (simp add: load_inv_def)
  then show ?thesis
    using c cluster_inv_cong [OF t] by (simp add: load_inv_def cluster_inv_tables)
qed

lemma inv_view_plain [simp]:
  "inv_view (s\<lparr>mf_end := x\<rparr>) = inv_view s" "inv_view (s\<lparr>countKeysInSlot := f\<rparr>) = inv_view s"
  by (simp_all add: inv_view_def view_defs)

lemma inv_view_ports [simp]: "inv_view (init_ports s) = inv_view s"
  by (simp add: init_ports_def Let_def upd_node_inv_view)

lemma tables_inv_start:
  assumes "nodes s = []" and "slots s = (\<lambda>_. None)"
  shows "tables_inv s"
  using assms by (simp add: tables_inv_def slot_inv_def names_inv_def reports_inv_def live_def dictOk_def)

lemma init_myself_consistent:
  assumes "tables_inv s" and "nodes s = []"
  shows "fine cluster_inv (init_myself save s)"
proof -
  obtain n t where c: "createClusterNode None (CLUSTER_NODE_MYSELF OR CLUSTER_NODE_MASTER) s = (n, t)" by fastforce
  note t = createClusterNode_tables [OF assms(1) c [symmetric]]
  have "tables_inv (t\<lparr>myself := n\<rparr>)" "fresh_node (t\<lparr>myself := n\<rparr>) n"
    using t(1,2) by (simp_all add: tables_inv_def slot_inv_def names_inv_def reports_inv_def owned_def live_def fresh_node_def)
  note u = clusterAddNode_tables [OF this]
  have "n \<in> live (snd (clusterAddNode n (t\<lparr>myself := n\<rparr>)))"
    using t(6) assms(2) by (simp add: clusterAddNode_def dictAdd_def live_def)
  then have "cluster_inv (snd (clusterAddNode n (t\<lparr>myself := n\<rparr>)))"
    using u(1) by (simp add: cluster_inv_tables)
  moreover have "inv_view (snd (clusterSaveConfig save True v)) = inv_view v" for v
    by (simp add: clusterSaveConfig_def Let_def inv_view_def view_defs emit_def)
  ultimately have "cluster_inv (snd (clusterSaveConfig save True (snd (clusterAddNode n (t\<lparr>myself := n\<rparr>)))))"
    by (metis cluster_inv_cong)
  then show ?thesis by (simp add: init_myself_def c split_def Let_def)
qed

lemma clusterLoadConfig_error:
  "clusterLoadConfig file s = Inr (r, t) \<Longrightarrow> r = C_OK \<or> r = C_ERR \<and> t = s"
  by (auto simp: clusterLoadConfig_def andthen_def split: config.splits if_splits sum.splits)

lemma clusterInit_consistent:
  assumes "clusterInit locked save listening file s = Inr t"
  shows "cluster_inv t"
proof -
  have start: "tables_inv (init_state s)"
    by (rule tables_inv_start) (simp_all add: init_state_def clusterCloseAllSlots_def)
  have "fine cluster_inv (if r = C_ERR then init_myself save u else Inr u)"
    if "clusterLoadConfig file (init_state s) = Inr (r, u)" for r u
    using that clusterLoadConfig_error [OF that] clusterLoadConfig_consistent [OF start] init_myself_consistent [OF start, of save]
    by (auto simp: init_state_def clusterCloseAllSlots_def)
  moreover have "cluster_inv (clusterUpdateMyselfFlags (resetManualFailover (init_ports (u\<lparr>countKeysInSlot := f\<rparr>)\<lparr>mf_end := 0\<rparr>)))"
    if "cluster_inv u" for u f
  proof -
    have "inv_view (clusterUpdateMyselfFlags (resetManualFailover (init_ports (u\<lparr>countKeysInSlot := f\<rparr>)\<lparr>mf_end := 0\<rparr>))) = inv_view u"
      by simp
    then show ?thesis using cluster_inv_cong that by blast
  qed
  ultimately show ?thesis
    using assms by (auto simp: clusterInit_def andthen_def Let_def split: if_splits sum.splits prod.splits)
qed

end
