(* ===== verification/ClusterText.thy ===== *)
theory ClusterText
  imports ClusterLoad
begin

text \<open>
  The lines of the configuration file, written and read: numbers, words, the ranges of slots
  and the flags that \<open>clusterGenNodeDescription\<close> writes are what \<open>clusterLoadConfig\<close> parses.
\<close>

section \<open>Numbers are read back\<close>

lemma digit_isdigit: "digit b = isdigit b"
  by (simp add: digit_def isdigit_def)

lemma digit_not_space: "digit b \<Longrightarrow> \<not> isspace b \<and> b \<noteq> 0 \<and> b \<noteq> 45 \<and> b \<noteq> 43 \<and> b \<noteq> 34 \<and> b \<noteq> 39"
proof -
  assume b: "digit b"
  have "\<not> b \<le> 13"
  proof
    assume "b \<le> 13"
    with b have "(48 :: byte) \<le> 13" unfolding digit_def by (blast intro: order_trans)
    then show False by simp
  qed
  then show ?thesis using b by (auto simp: digit_def isspace_def)
qed

lemma foldl_digits:
  "list_all digit p \<Longrightarrow> foldl (\<lambda>a d. a * 10 + (uint d - 48)) (int a) p = int (digits_val a p)"
proof (induction p arbitrary: a)
  case (Cons b p)
  have "(48 :: byte) \<le> b" using Cons.prems by (simp add: digit_def)
  then have "uint b - 48 = int (unat (b - 48))"
    by (simp add: uint_minus_simple_alt word_le_def flip: uint_nat)
  then have "int a * 10 + (uint b - 48) = int (a * 10 + unat (b - 48))" by simp
  then show ?case using Cons by (simp del: of_nat_add of_nat_mult)
qed simp

text \<open>What follows a number in the lines does not continue it.\<close>

definition ends_number :: "bytes \<Rightarrow> bool" where
  "ends_number r \<longleftrightarrow> r = [] \<or> \<not> digit (hd r)"

lemma takeWhile_digits:
  assumes "list_all digit p" and "ends_number r"
  shows "takeWhile isdigit (p @ r) = p"
proof -
  have "takeWhile isdigit r = []" using assms(2) by (cases r) (auto simp: ends_number_def digit_isdigit)
  then show ?thesis using assms(1) by (simp add: takeWhile_append2 list_all_iff digit_isdigit)
qed

lemma takeWhile_number:
  assumes "list_all digit p" and "ends_number r"
  shows "takeWhile isdigit (takeWhile (\<lambda>b. b \<noteq> 0) (p @ r)) = p"
proof -
  have "takeWhile (\<lambda>b. b \<noteq> 0) (p @ r) = p @ takeWhile (\<lambda>b. b \<noteq> 0) r"
    using assms(1) digit_not_space by (intro takeWhile_append2) (auto simp: list_all_iff)
  moreover have "ends_number (takeWhile (\<lambda>b. b \<noteq> 0) r)"
    using assms(2) by (cases r) (auto simp: ends_number_def)
  ultimately show ?thesis using takeWhile_digits [OF assms(1)] by simp
qed

lemma dec_bytes_Cons: "\<exists>c p. dec_bytes n = c # p \<and> digit c \<and> list_all digit p"
  using dec_bytes_digits [of n] by (cases "dec_bytes n") auto

lemma strtoull_dec:
  assumes "ends_number r"
  shows "strtoull (dec_bytes (unat (w :: u64)) @ r) = w"
proof -
  obtain c p where c: "dec_bytes (unat w) = c # p" "digit c" "list_all digit p" using dec_bytes_Cons by blast
  have t: "takeWhile isdigit (takeWhile (\<lambda>b. b \<noteq> 0) ((c # p) @ r)) = c # p"
    using c assms by (intro takeWhile_number) auto
  have v: "foldl (\<lambda>a d. a * 10 + (uint d - 48)) 0 (c # p) = int (unat w)"
    using foldl_digits [of "c # p" 0] c dec_bytes_val [of "unat w"] by simp
  have "uint w < 2 ^ LENGTH(64)" by (rule unsigned_less)
  moreover have "word_of_int (int (unat w)) = w" by simp
  ultimately show ?thesis
    using t v digit_not_space [OF c(2)] by (simp add: strtoull_def c(1) Let_def)
qed

lemma atoi_digits:
  assumes "list_all digit (c # p)" and "ends_number r" and "digits_val 0 (c # p) < 2 ^ 31"
  shows "atoi ((c # p) @ r) = int (digits_val 0 (c # p))"
proof -
  have t: "takeWhile isdigit (takeWhile (\<lambda>b. b \<noteq> 0) ((c # p) @ r)) = c # p"
    by (rule takeWhile_number [OF assms(1,2)])
  have v: "foldl (\<lambda>a d. a * 10 + (uint d - 48)) 0 (c # p) = int (digits_val 0 (c # p))"
    using foldl_digits [of "c # p" 0] assms(1) by simp
  have "sint (word_of_int (int (digits_val 0 (c # p))) :: u32) = signed_take_bit 31 (int (digits_val 0 (c # p)))"
    by (simp only: sint_sbintrunc') simp
  also have "\<dots> = int (digits_val 0 (c # p))"
    using assms(3) by (intro signed_take_bit_int_eq_self) simp_all
  finally show ?thesis
    using t v assms digit_not_space [of c] by (simp add: atoi_def Let_def del: digits_val_simps)
qed

lemma atoi_dec_bytes:
  assumes "n < 2 ^ 31" and "ends_number r"
  shows "atoi (dec_bytes n @ r) = int n"
proof -
  obtain c p where c: "dec_bytes n = c # p" "digit c" "list_all digit p" using dec_bytes_Cons by blast
  then show ?thesis using atoi_digits [of c p r] assms dec_bytes_val [of n] by (simp del: digits_val_simps)
qed

lemma atoi_dec_int:
  assumes "- (2 ^ 31) \<le> i" and "i < 2 ^ 31" and "ends_number r"
  shows "atoi (dec_int i @ r) = i"
proof (cases "i < 0")
  case False
  then show ?thesis using atoi_dec_bytes [of "nat i" r] assms by (simp add: dec_int_def)
next
  case True
  obtain c p where c: "dec_bytes (nat (- i)) = c # p" "digit c" "list_all digit p" using dec_bytes_Cons by blast
  have t: "takeWhile isdigit (takeWhile (\<lambda>b. b \<noteq> 0) ((c # p) @ r)) = c # p"
    using c assms by (intro takeWhile_number) auto
  have v: "foldl (\<lambda>a d. a * 10 + (uint d - 48)) 0 (c # p) = - i"
    using foldl_digits [of "c # p" 0] c dec_bytes_val [of "nat (- i)"] True by simp
  have "sint (word_of_int i :: u32) = signed_take_bit 31 i"
    by (simp only: sint_sbintrunc') simp
  also have "\<dots> = i"
    using assms by (intro signed_take_bit_int_eq_self) simp_all
  finally show ?thesis
    using t v True assms by (simp add: atoi_def dec_int_def c(1) Let_def isspace_def)
qed

lemmas atoi_dec_int_end = atoi_dec_int [where r = "[]", simplified]
lemmas strtoull_dec_end = strtoull_dec [where r = "[]", simplified]

section \<open>Lines are read back\<close>

lemma split_args_words:
  assumes "plain_token t" and "list_all plain_token ts"
  shows "split_args (t @ concat (map ((#) 32) ts) @ [10]) = Some (t # ts)"
  using assms
proof (induction ts arbitrary: t)
  case Nil
  then show ?case by (simp add: split_args_plain split_args_Nil)
next
  case (Cons u us)
  then show ?case using split_args_plain [of t 32] by simp
qed

lemma plain_no_NUL: "list_all plain_token (t # ts) \<Longrightarrow> 0 \<notin> set (t @ concat (map ((#) 32) ts) @ [10])"
  by (auto simp: plain_token_def list_all_iff)

lemma sdssplitargs_words:
  assumes "list_all plain_token (t # ts)"
  shows "sdssplitargs (t @ concat (map ((#) 32) ts) @ [10]) = Some (t # ts)"
  unfolding sdssplitargs_def
  by (subst takeWhile_nonzero [OF plain_no_NUL [OF assms]]) (use assms split_args_words in simp)

lemma fgets_lines_concat:
  assumes "list_all (\<lambda>l. 10 \<notin> set l \<and> length l < m) ls"
  shows "fgets_lines m (concat (map (\<lambda>l. l @ [10]) ls)) = map (\<lambda>l. l @ [10]) ls"
  using assms
proof (induction ls)
  case Nil
  then show ?case by (simp add: fgets_lines.simps)
next
  case (Cons l ls)
  have "fgets_line m (l @ 10 # r) = l @ [10]" for r
  proof -
    have "takeWhile (\<lambda>b. b \<noteq> 10) (l @ 10 # r) = l"
      using Cons.prems by (subst takeWhile_append2) auto
    then show ?thesis using Cons.prems by (auto simp: fgets_line_def Suc_le_eq)
  qed
  then show ?case using Cons by (subst fgets_lines.simps) simp
qed

lemma split_on_concat:
  assumes "list_all (\<lambda>t. c \<notin> set t) ts" and "ts \<noteq> []"
  shows "split_on c (butlast (concat (map (\<lambda>t. t @ [c]) ts))) = ts"
  using assms
proof (induction ts)
  case (Cons t ts)
  have one: "split_on c u = [u]" if "c \<notin> set u" for u
    using that by (induction u) auto
  have more: "split_on c (u @ c # r) = u # split_on c r" if "c \<notin> set u" for u r
    using that by (induction u) auto
  show ?case
  proof (cases "ts = []")
    case True
    then show ?thesis using Cons.prems one by simp
  next
    case False
    then have "concat (map (\<lambda>t. t @ [c]) ts) \<noteq> []" by (cases ts) auto
    then show ?thesis using Cons False more by (simp add: butlast_append)
  qed
qed simp

section \<open>The ranges of slots\<close>

definition expand :: "(nat \<times> nat) list \<Rightarrow> nat list" where
  "expand rs = concat (map (\<lambda>(a, b). [a..<Suc b]) rs)"

lemma expand_simps [simp]: "expand [] = []" "expand (rs @ [(a, b)]) = expand rs @ [a..<Suc b]"
  by (simp_all add: expand_def del: upt_Suc)

definition ranges_upto :: "clusterNode \<Rightarrow> nat \<Rightarrow> nat option \<times> (nat \<times> nat) list \<Rightarrow> bool" where
  "ranges_upto n k = (\<lambda>(start, out).
     (case start of
        None \<Rightarrow> expand out
      | Some st \<Rightarrow> expand out @ [st..<k]) = filter (bitmapTestBit (node_slots n)) [0..<k] \<and>
     (\<forall>st. start = Some st \<longrightarrow> st < k \<and> k < CLUSTER_SLOTS) \<and>
     (\<forall>(a, b) \<in> set out. a \<le> b \<and> b < k))"

lemma slot_range_step_inv:
  assumes inv: "ranges_upto n k (start, out)" and k: "k < CLUSTER_SLOTS"
  shows "ranges_upto n (Suc k) (slot_range_step n k (start, out))"
proof -
  have out: "\<forall>(a, b) \<in> set out. a \<le> b \<and> b < Suc k" using inv by (auto simp: ranges_upto_def)
  have last: "(k = CLUSTER_SLOTS - 1) = (CLUSTER_SLOTS = Suc k)" using k by auto
  have upto: "[0..<CLUSTER_SLOTS] = [0..<k] @ [k]" if "CLUSTER_SLOTS = Suc k" unfolding that by simp
  show ?thesis
  proof (cases start)
    case None
    then have e: "expand out = filter (bitmapTestBit (node_slots n)) [0..<k]"
      using inv by (simp add: ranges_upto_def)
    have "[k..<CLUSTER_SLOTS] = [k]" if "CLUSTER_SLOTS = Suc k"
      unfolding that by simp
    then show ?thesis using None out k e upto
      by (cases "CLUSTER_SLOTS = Suc k") (auto simp: ranges_upto_def slot_range_step_def Let_def last simp del: One_nat_def)
  next
    case (Some st)
    then have e: "expand out @ [st..<k] = filter (bitmapTestBit (node_slots n)) [0..<k]" and st: "st < k"
      using inv by (auto simp: ranges_upto_def)
    have l: "[st..<Suc k] = [st..<k] @ [k]" "[st..<Suc (k - 1)] = [st..<k]" "[st..<k + 1] = [st..<k] @ [k]" using st by auto
    then show ?thesis using Some out k e st upto
      by (cases "CLUSTER_SLOTS = Suc k")
        (auto simp: ranges_upto_def slot_range_step_def Let_def last upt_Suc_append simp del: upt_Suc One_nat_def)
  qed
qed

lemma slot_ranges_exact:
  "expand (slot_ranges n) = filter (bitmapTestBit (node_slots n)) [0..<CLUSTER_SLOTS]"
  "\<forall>(a, b) \<in> set (slot_ranges n). a \<le> b \<and> b < CLUSTER_SLOTS"
proof -
  have "ranges_upto n k (fold (slot_range_step n) [0..<k] (None, []))" if "k \<le> CLUSTER_SLOTS" for k
    using that
  proof (induction k)
    case (Suc k)
    obtain start out where f: "fold (slot_range_step n) [0..<k] (None, []) = (start, out)" by force
    then show ?case using slot_range_step_inv [of n k start out] Suc by simp
  qed (simp add: ranges_upto_def)
  from this [of CLUSTER_SLOTS] show
    "expand (slot_ranges n) = filter (bitmapTestBit (node_slots n)) [0..<CLUSTER_SLOTS]"
    "\<forall>(a, b) \<in> set (slot_ranges n). a \<le> b \<and> b < CLUSTER_SLOTS"
    by (auto simp: ranges_upto_def slot_ranges_def split: prod.splits option.splits)
qed

section \<open>A node as a line of words\<close>

definition range_word :: "nat \<times> nat \<Rightarrow> bytes" where
  "range_word = (\<lambda>(a, b). if a = b then dec_bytes a else dec_bytes a @ 45 # dec_bytes b)"

definition open_word :: "server \<Rightarrow> nat \<Rightarrow> bytes list" where
  "open_word s j =
     (case migrating_slots_to s j of
        Some n \<Rightarrow> [91 # dec_bytes j @ [45, 62, 45] @ cstr (take 40 (name (nd s n))) @ [93]]
      | None \<Rightarrow>
          (case importing_slots_from s j of
             Some n \<Rightarrow> [91 # dec_bytes j @ [45, 60, 45] @ cstr (take 40 (name (nd s n))) @ [93]]
           | None \<Rightarrow> []))"

definition node_word :: "clusterNode \<Rightarrow> bytes" where
  "node_word n = cstr (take 40 (name n))"

definition node_words :: "naddr \<Rightarrow> server \<Rightarrow> bytes list" where
  "node_words a s =
     (let n = nd s a
      in [cstr (ip n) @ 58 # dec_int (port n) @ 64 # dec_int (cport n),
          representClusterNodeFlags [] (flags n),
          (case slaveof n of Some m \<Rightarrow> node_word (nd s m) | None \<Rightarrow> [45]),
          dec_int (ping_sent n), dec_int (pong_received n), dec_bytes (unat (configEpoch n)),
          (if link n \<noteq> None \<or> flags n AND CLUSTER_NODE_MYSELF \<noteq> 0 then str ''connected'' else str ''disconnected'')] @
         map range_word (slot_ranges n) @
         (if flags n AND CLUSTER_NODE_MYSELF \<noteq> 0 then concat (map (open_word s) [0..<CLUSTER_SLOTS]) else []))"

lemma describe_words:
  "describe_range r = 32 # range_word r" "describe_open_slot s j = concat (map ((#) 32) (open_word s j))"
  by (auto simp: describe_range_def range_word_def describe_open_slot_def open_word_def str_def split: prod.splits option.splits)

lemma flags_prefix: "representClusterNodeFlags ci fl = ci @ representClusterNodeFlags [] fl"
  by (simp add: representClusterNodeFlags_def Let_def)

lemma concat_open_words:
  "concat (map (describe_open_slot s) js) = concat (map ((#) 32) (concat (map (open_word s) js)))"
  by (induction js) (simp_all add: describe_words)

lemma concat_range_words: "concat (map describe_range rs) = concat (map ((#) 32) (map range_word rs))"
  by (induction rs) (simp_all add: describe_words)

lemma description_words:
  "clusterGenNodeDescription a s = node_word (nd s a) @ concat (map ((#) 32) (node_words a s))"
proof -
  let ?n = "nd s a"
  define pre where "pre = cstr (take 40 (name ?n)) @ 32 # cstr (ip ?n) @ 58 # dec_int (port ?n) @ 64 # dec_int (cport ?n) @ [32]"
  have d: "str '' - '' = [32, 45, 32]" by (simp add: str_def)
  show ?thesis
    unfolding clusterGenNodeDescription_def Let_def concat_open_words concat_range_words d pre_def [symmetric] flags_prefix [of pre]
    by (cases "slaveof ?n") (auto simp: node_words_def node_word_def Let_def pre_def)
qed

section \<open>Flags are read back\<close>

definition flag_names :: "(u32 \<times> bytes) list" where
  "flag_names = map (\<lambda>(f, nm). (f, butlast nm)) redisNodeFlagsTable"

definition flags_of :: "(u32 \<times> bytes) list \<Rightarrow> u32" where
  "flags_of ws = foldr (OR) (map fst ws) 0"

definition saved_flags :: u32 where
  "saved_flags = flags_of flag_names"

definition flag_entries :: "u32 \<Rightarrow> (u32 \<times> bytes) list" where
  "flag_entries fl = filter (\<lambda>(f, nm). fl AND f \<noteq> 0) flag_names"

definition flag_words :: "u32 \<Rightarrow> bytes list" where
  "flag_words fl = (if flag_entries fl = [] then [str ''noflags''] else map snd (flag_entries fl))"

lemma flag_names_simps:
  "flag_names = [(16, str ''myself''), (1, str ''master''), (2, str ''slave''), (4, str ''fail?''), (8, str ''fail''),
     (32, str ''handshake''), (64, str ''noaddr''), (512, str ''nofailover'')]"
  by (simp add: flag_names_def redisNodeFlagsTable_def flag_defs str_def)

lemma bit_flags_of: "bit (flags_of ws) i = (\<exists>(f, nm) \<in> set ws. bit f i)"
  by (induction ws) (auto simp: flags_of_def bit_or_iff)

lemma bit_single: "k < 32 \<Longrightarrow> bit (push_bit k 1 :: u32) i = (i = k)"
  unfolding bit_push_bit_iff bit_1_iff by auto

lemma bits_of_flags:
  "bit (1 :: u32) i = (i = 0)" "bit (2 :: u32) i = (i = 1)" "bit (4 :: u32) i = (i = 2)" "bit (8 :: u32) i = (i = 3)"
  "bit (16 :: u32) i = (i = 4)" "bit (32 :: u32) i = (i = 5)" "bit (64 :: u32) i = (i = 6)" "bit (512 :: u32) i = (i = 9)"
  using bit_single [of 0 i] bit_single [of 1 i] bit_single [of 2 i] bit_single [of 3 i] bit_single [of 4 i]
    bit_single [of 5 i] bit_single [of 6 i] bit_single [of 9 i]
  by (simp_all only: push_bit_eq_mult) (simp_all del: bit_numeral_word_iff)

lemma bit_saved_flags: "bit saved_flags i = (i = 4 \<or> i = 0 \<or> i = 1 \<or> i = 2 \<or> i = 3 \<or> i = 5 \<or> i = 6 \<or> i = 9)"
  unfolding saved_flags_def bit_flags_of by (simp add: flag_names_simps bits_of_flags del: bit_numeral_word_iff)

lemma set_flag_entries: "set (flag_entries fl) = {(f, nm). (f, nm) \<in> set flag_names \<and> fl AND f \<noteq> 0}"
  by (auto simp: flag_entries_def)

lemma flags_of_entries: "flags_of (flag_entries fl) = fl AND saved_flags"
proof (rule bit_eqI)
  fix i
  have "bit (flags_of (flag_entries fl)) i = (\<exists>e \<in> set flag_names. fl AND fst e \<noteq> 0 \<and> bit (fst e) i)"
    unfolding bit_flags_of set_flag_entries by force
  also have "\<dots> = (\<exists>e \<in> set flag_names. bit fl i \<and> bit (fst e) i)"
    by (simp add: flag_names_simps bits_of_flags flag_bits32 del: bit_numeral_word_iff) metis
  also have "\<dots> = bit (fl AND saved_flags) i"
    by (simp add: bit_and_iff bit_saved_flags flag_names_simps bits_of_flags del: bit_numeral_word_iff)
  finally show "bit (flags_of (flag_entries fl)) i = bit (fl AND saved_flags) i" .
qed

lemma flag_word_16: "(ucast (ucast (fl :: u32) :: u16) :: u32) AND f \<noteq> 0 \<longleftrightarrow> fl AND f \<noteq> 0"
  if "(f, nm) \<in> set redisNodeFlagsTable"
  using that by (auto simp: redisNodeFlagsTable_def flag_defs flag_bits32 bit_unsigned_iff)

lemma represent_flags: "representClusterNodeFlags [] fl = butlast (concat (map (\<lambda>t. t @ [44]) (flag_words fl)))"
proof -
  define out where "out = fold (\<lambda>(f, nm) out. if (ucast (ucast fl :: u16) :: u32) AND f \<noteq> 0 then out @ nm else out) redisNodeFlagsTable []"
  have *: "fold (\<lambda>(f, nm) out. if (ucast (ucast fl :: u16) :: u32) AND f \<noteq> 0 then out @ nm else out) t acc =
      acc @ concat (map snd (filter (\<lambda>(f, nm). fl AND f \<noteq> 0) t))" if "set t \<subseteq> set redisNodeFlagsTable" for t acc
    using that by (induction t arbitrary: acc) (auto simp: flag_word_16)
  have "out = concat (map snd (filter (\<lambda>(f, nm). fl AND f \<noteq> 0) redisNodeFlagsTable))"
    using * by (simp add: out_def)
  moreover have "map snd (filter (\<lambda>(f, nm). fl AND f \<noteq> 0) t) = map (\<lambda>t. t @ [44]) (map snd (filter (\<lambda>(f, nm). fl AND f \<noteq> 0) (map (\<lambda>(f, nm). (f, butlast nm)) t)))"
    if "set t \<subseteq> set redisNodeFlagsTable" for t
    using that by (induction t) (auto simp: redisNodeFlagsTable_def str_def)
  ultimately have out: "out = concat (map (\<lambda>t. t @ [44]) (map snd (flag_entries fl)))"
    by (simp add: flag_entries_def flag_names_def)
  have "representClusterNodeFlags [] fl = butlast (if out = [] then str ''noflags,'' else out)"
    by (simp only: representClusterNodeFlags_def Let_def out_def append_Nil)
  moreover have "out = [] \<longleftrightarrow> flag_entries fl = []" unfolding out by (cases "flag_entries fl") auto
  ultimately show ?thesis unfolding flag_words_def out by (auto simp: str_def)
qed

lemma flag_words_comma: "t \<in> set (flag_words fl) \<Longrightarrow> plain_token t \<and> 44 \<notin> set t"
proof -
  assume "t \<in> set (flag_words fl)"
  then have "t = str ''noflags'' \<or> t \<in> snd ` set flag_names"
    by (auto simp: flag_words_def set_flag_entries split: if_splits)
  then show ?thesis by (simp add: flag_names_simps str_def plain_token_def isspace_def) fastforce
qed

lemma flag_words_not_Nil: "flag_words fl \<noteq> []"
  by (simp add: flag_words_def)

lemma plain_join:
  assumes "ts \<noteq> []" and "list_all plain_token ts"
  shows "plain_token (butlast (concat (map (\<lambda>t. t @ [44]) ts)))"
  using assms
proof (induction ts)
  case (Cons t ts)
  show ?case
  proof (cases "ts = []")
    case True
    then show ?thesis using Cons.prems by simp
  next
    case False
    then have "concat (map (\<lambda>t. t @ [44]) ts) \<noteq> []" by (cases ts) auto
    then show ?thesis using Cons False by (simp add: butlast_append plain_token_def isspace_def)
  qed
qed simp

lemma plain_flags: "plain_token (representClusterNodeFlags [] fl)"
  unfolding represent_flags by (rule plain_join) (auto simp: flag_words_not_Nil list_all_iff flag_words_comma)

lemma plain_cstr: "plain_token t \<Longrightarrow> cstr t = t"
  unfolding cstr_def by (rule takeWhile_nonzero) (auto simp: plain_token_def list_all_iff)

lemma split_flags: "split_on 44 (cstr (representClusterNodeFlags [] fl)) = flag_words fl"
  unfolding plain_cstr [OF plain_flags] unfolding represent_flags
  by (rule split_on_concat) (auto simp: flag_words_not_Nil list_all_iff flag_words_comma)

text \<open>The effect of the flags of a line on the node that the line describes.\<close>

definition with_flags :: "naddr \<Rightarrow> u32 \<Rightarrow> int \<Rightarrow> server \<Rightarrow> server" where
  "with_flags n fl ft s = upd_node n (\<lambda>x. x\<lparr>flags := flags x OR fl, fail_time := ft\<rparr>) s"

lemma with_one_flag:
  "with_flags n fl (fail_time (heap s n)) s = set_flag n fl s"
  "with_flags n fl t s = upd_node n (\<lambda>x. x\<lparr>fail_time := t\<rparr>) (set_flag n fl s)"
  by (simp_all add: with_flags_def set_flag_def upd_node_def)

lemma load_flag_names:
  "load_flag n (str ''myself'') (h, s) = (if h then Inl Abort else Inr (True, set_flag n 16 (s\<lparr>myself := n\<rparr>)))"
  "load_flag n (str ''master'') (h, s) = Inr (h, set_flag n 1 s)"
  "load_flag n (str ''slave'') (h, s) = Inr (h, set_flag n 2 s)"
  "load_flag n (str ''fail?'') (h, s) = Inr (h, set_flag n 4 s)"
  "load_flag n (str ''fail'') (h, s) = Inr (h, upd_node n (\<lambda>x. x\<lparr>fail_time := mstime s\<rparr>) (set_flag n 8 s))"
  "load_flag n (str ''handshake'') (h, s) = Inr (h, set_flag n 32 s)"
  "load_flag n (str ''noaddr'') (h, s) = Inr (h, set_flag n 64 s)"
  "load_flag n (str ''nofailover'') (h, s) = Inr (h, set_flag n 512 s)"
  "load_flag n (str ''noflags'') (h, s) = Inr (h, s)"
  unfolding load_flag_def split_conv
  by (simp_all add: strcaseeq_def str_def tolower_def flag_defs)

lemma load_flag_name:
  assumes "(f, nm) \<in> set flag_names" and "f = 16 \<longrightarrow> \<not> h"
  shows "\<exists>ft. load_flag n nm (h, s) =
    Inr (h \<or> f = 16, with_flags n f ft (if f = 16 then s\<lparr>myself := n\<rparr> else s))"
proof -
  have plain: "\<exists>ft. set_flag n f s = with_flags n f ft s" for f s
    using with_one_flag(1) [of n f s] by metis
  have cases: "f = 8 \<and> nm = str ''fail'' \<or> f \<noteq> 8 \<and>
    load_flag n nm (h, s) = Inr (h \<or> f = 16, set_flag n f (if f = 16 then s\<lparr>myself := n\<rparr> else s))"
    using assms unfolding flag_names_simps list.set by (elim insertE emptyE) (simp_all add: load_flag_names)
  show ?thesis
  proof (cases "f = 8")
    case True
    then have "nm = str ''fail''" using cases by simp
    then show ?thesis
      using True load_flag_names(5) [of n h s] by (intro exI [of _ "mstime s"]) (simp add: with_one_flag(2))
  next
    case False
    then show ?thesis
      using cases plain [of f "if f = 16 then s\<lparr>myself := n\<rparr> else s"] by auto
  qed
qed

lemma load_flag_list:
  assumes "set ws \<subseteq> set flag_names" and "distinct ws" and "h \<longrightarrow> 16 \<notin> fst ` set ws"
  shows "\<exists>ft. load_each (map snd ws) (load_flag n) (h, s) =
    Inr (h \<or> 16 \<in> fst ` set ws, with_flags n (flags_of ws) ft (if 16 \<in> fst ` set ws then s\<lparr>myself := n\<rparr> else s))"
  using assms
proof (induction ws arbitrary: h s)
  case Nil
  then show ?case by (auto simp: with_flags_def upd_node_def flags_of_def intro!: exI [of _ "fail_time (heap s n)"])
next
  case (Cons w ws)
  obtain f nm where w: "w = (f, nm)" by force
  define s1 where "s1 = (if f = 16 then s\<lparr>myself := n\<rparr> else s)"
  obtain ft where 1: "load_flag n nm (h, s) = Inr (h \<or> f = 16, with_flags n f ft s1)"
    using load_flag_name [of f nm h n s] Cons.prems by (auto simp: w s1_def)
  have "nm' = nm" if "(16, nm') \<in> set ws" "f = 16" for nm'
    using that Cons.prems(1) by (auto simp: w flag_names_simps)
  then have my: "\<not> (f = 16 \<and> 16 \<in> fst ` set ws)" using Cons.prems(2) by (auto simp: w)
  then obtain ft' where 2: "load_each (map snd ws) (load_flag n) (h \<or> f = 16, with_flags n f ft s1) =
      Inr ((h \<or> f = 16) \<or> 16 \<in> fst ` set ws, with_flags n (flags_of ws) ft'
        (if 16 \<in> fst ` set ws then (with_flags n f ft s1)\<lparr>myself := n\<rparr> else with_flags n f ft s1))"
    using Cons.IH [of "h \<or> f = 16" "with_flags n f ft s1"] Cons.prems by (auto simp: w)
  have "with_flags n (flags_of ws) ft' (if 16 \<in> fst ` set ws then (with_flags n f ft s1)\<lparr>myself := n\<rparr> else with_flags n f ft s1) =
      with_flags n (flags_of (w # ws)) ft' (if 16 \<in> fst ` set (w # ws) then s\<lparr>myself := n\<rparr> else s)"
    using my by (auto simp: s1_def w with_flags_def upd_node_def flags_of_def or.assoc)
  then show ?case using 1 2 by (auto simp: w)
qed

end
