(* ===== verification/ClusterReload.thy ===== *)
theory ClusterReload
  imports ClusterText
begin

text \<open>
  What a configuration says of the nodes, and the effect of every field of a line that
  \<open>clusterGenNodeDescription\<close> wrote on what the loading server knows: names create nodes,
  and address, flags, master, epoch, ranges of slots and open slots give the node of the
  line back what they were written from.
\<close>

section \<open>What a configuration says of a node\<close>

record conf =
  c_ip :: bytes
  c_port :: int
  c_cport :: int
  c_flags :: u32
  c_master :: "bytes option"
  c_epoch :: u64
  c_slots :: "nat set"

definition node_conf :: "server \<Rightarrow> naddr \<Rightarrow> conf" where
  "node_conf s a =
     (let n = nd s a
      in \<lparr>c_ip = ip n, c_port = port n, c_cport = cport n, c_flags = flags n AND saved_flags,
          c_master = map_option (\<lambda>m. name (nd s m)) (slaveof n), c_epoch = configEpoch n, c_slots = owned s a\<rparr>)"

definition conf_of :: "server \<Rightarrow> bytes \<Rightarrow> conf option" where
  "conf_of s nm = map_option (node_conf s) (clusterLookupNode nm s)"

definition blank :: conf where
  "blank = \<lparr>c_ip = [], c_port = 0, c_cport = 0, c_flags = 0, c_master = None, c_epoch = 0, c_slots = {}\<rparr>"

text \<open>
  The tables are consistent, and the pointers to masters and to the nodes that slots migrate
  to or come from are live.
\<close>

definition open_slots :: "server \<Rightarrow> (nat \<Rightarrow> naddr option) \<times> (nat \<Rightarrow> naddr option)" where
  "open_slots s = (migrating_slots_to s, importing_slots_from s)"

definition load_ok :: "server \<Rightarrow> bool" where
  "load_ok s \<longleftrightarrow> tables_inv s \<and> (\<forall>a \<in> live s. \<forall>m. slaveof (nd s a) = Some m \<longrightarrow> m \<in> live s) \<and>
     ran (migrating_slots_to s) \<subseteq> live s \<and> ran (importing_slots_from s) \<subseteq> live s"

text \<open>What the description of a node leaves alone.\<close>

definition load_frame :: "server \<Rightarrow> naddr \<times> u64 \<times> u64 \<times> (nat \<Rightarrow> naddr option) \<times> (nat \<Rightarrow> naddr option)" where
  "load_frame s = (myself s, currentEpoch s, lastVoteEpoch s, open_slots s)"

text \<open>
  Mentioning the names in \<open>R\<close> makes nodes of those that are not known. A step that
  mentions \<open>R\<close> and describes the node \<open>n\<close> changes what is known in two ways.
\<close>

definition refs :: "bytes set \<Rightarrow> (bytes \<Rightarrow> conf option) \<Rightarrow> bytes \<Rightarrow> conf option" where
  "refs R C = (\<lambda>x. if C x = None \<and> x \<in> R then Some blank else C x)"

lemma refs_simps [simp]: "refs {} C = C" "refs R (refs R' C) = refs (R \<union> R') C"
  "refs R (C(x \<mapsto> c)) = (refs R C)(x \<mapsto> c)"
  by (auto simp: refs_def fun_eq_iff)

definition loads :: "bytes set \<Rightarrow> naddr \<Rightarrow> (conf \<Rightarrow> conf) \<Rightarrow> server \<Rightarrow> server \<Rightarrow> bool" where
  "loads R n g s t \<longleftrightarrow> load_ok t \<and> n \<in> live s \<and> live s \<subseteq> live t \<and> (\<forall>a \<in> live s. name (nd t a) = name (nd s a)) \<and>
     conf_of t = (refs R (conf_of s))(name (nd s n) \<mapsto> g (node_conf s n))"

lemma load_okD:
  assumes "load_ok s"
  shows "slot_inv s" "names_inv s" "reports_inv s" "tables_inv s"
    "a \<in> live s \<Longrightarrow> slaveof (nd s a) = Some m \<Longrightarrow> m \<in> live s"
    "migrating_slots_to s j = Some m \<Longrightarrow> m \<in> live s" "importing_slots_from s j = Some m \<Longrightarrow> m \<in> live s"
  using assms by (auto simp: load_ok_def tables_inv_def ran_def)

lemma conf_of_live: "names_inv s \<Longrightarrow> a \<in> live s \<Longrightarrow> conf_of s (name (nd s a)) = Some (node_conf s a)"
  using clusterLookupNode_name [of s "name (nd s a)" a] by (simp add: conf_of_def)

lemma conf_of_SomeD:
  assumes "conf_of s nm = Some c" and "names_inv s"
  shows "\<exists>a. clusterLookupNode nm s = Some a \<and> a \<in> live s \<and> name (nd s a) = nm \<and> node_conf s a = c"
  using assms clusterLookupNode_name [OF assms(2), of nm] by (auto simp: conf_of_def)

text \<open>Changing one node that keeps its name and its master.\<close>

lemma upd_conf:
  assumes ok: "load_ok s" and n: "n \<in> live s"
    and f: "\<And>x. node_slots (f x) = node_slots x \<and> numslots (f x) = numslots x" "\<And>x. name (f x) = name x"
      "\<And>x. fail_reports (f x) = fail_reports x"
    and so: "\<And>m. slaveof (f (nd s n)) = Some m \<Longrightarrow> m \<in> live s"
  shows "load_ok (upd_node n f s)"
    and "conf_of (upd_node n f s) = (conf_of s)(name (nd s n) \<mapsto> node_conf (upd_node n f s) n)"
proof -
  have view: "inv_view (upd_node n f s) = inv_view s" by (rule upd_node_inv_view) (use f in simp_all)
  then have inv: "tables_inv (upd_node n f s)" using tables_inv_cong load_okD(4) [OF ok] by blast
  then show "load_ok (upd_node n f s)"
    using ok so by (auto simp: load_ok_def)
  have names: "names_inv s" "names_inv (upd_node n f s)" using ok inv by (auto simp: load_ok_def tables_inv_def)
  have look: "clusterLookupNode nm (upd_node n f s) = clusterLookupNode nm s" for nm
    by (simp add: clusterLookupNode_def)
  have other: "node_conf (upd_node n f s) a = node_conf s a" if "a \<noteq> n" for a
    using that f(2) by (cases "slaveof (nd s a)") (simp_all add: node_conf_def Let_def owned_def)
  show "conf_of (upd_node n f s) = (conf_of s)(name (nd s n) \<mapsto> node_conf (upd_node n f s) n)"
  proof
    fix nm
    show "conf_of (upd_node n f s) nm = ((conf_of s)(name (nd s n) \<mapsto> node_conf (upd_node n f s) n)) nm"
    proof (cases "clusterLookupNode nm s")
      case None
      then have "nm \<noteq> name (nd s n)" using clusterLookupNode_name [OF names(1), of nm n] n by auto
      then show ?thesis using None look by (simp add: conf_of_def)
    next
      case (Some a)
      then have "a \<in> live s" "name (nd s a) = nm" using clusterLookupNode_name [OF names(1), of nm a] by auto
      then show ?thesis
        using Some look other [of a] names_live_inj [OF names(1) _ n, of a] by (cases "a = n") (auto simp: conf_of_def)
    qed
  qed
qed

lemma load_frame_upd [simp]: "load_frame (upd_node n f s) = load_frame s"
  by (simp add: load_frame_def open_slots_def)

lemma loads_trans:
  assumes "loads R n g s t" and "loads R' n g' t u"
  shows "loads (R \<union> R') n (\<lambda>c. g' (g c)) s u"
proof -
  have n: "n \<in> live s" "n \<in> live t" "name (nd t n) = name (nd s n)" using assms(1) by (auto simp: loads_def)
  have "names_inv t" using assms(1) by (simp add: loads_def load_ok_def tables_inv_def)
  then have "conf_of t (name (nd t n)) = Some (node_conf t n)" using n(2) by (rule conf_of_live)
  then have "node_conf t n = g (node_conf s n)" using assms(1) n(3) by (simp add: loads_def)
  then show ?thesis using assms n by (auto simp: loads_def Un_commute)
qed

lemma loads_upd:
  assumes "load_ok s" and "n \<in> live s"
    and "\<And>x. node_slots (f x) = node_slots x \<and> numslots (f x) = numslots x" "\<And>x. name (f x) = name x"
      "\<And>x. fail_reports (f x) = fail_reports x" "\<And>x. slaveof (f x) = slaveof x"
    and "node_conf (upd_node n f s) n = g (node_conf s n)"
  shows "loads {} n g s (upd_node n f s)"
  using upd_conf [of s n f] load_okD(5) [OF assms(1,2)] assms by (simp add: loads_def)

lemma node_conf_upd:
  assumes "\<And>x. name (f x) = name x" and "\<And>x. node_slots (f x) = node_slots x"
  shows "node_conf (upd_node n f s) n =
    (let x = f (nd s n)
     in \<lparr>c_ip = ip x, c_port = port x, c_cport = cport x, c_flags = flags x AND saved_flags,
         c_master = map_option (\<lambda>m. name (nd s m)) (slaveof x), c_epoch = configEpoch x, c_slots = owned s n\<rparr>)"
  by (cases "slaveof (f (nd s n))") (use assms in \<open>simp_all add: node_conf_def Let_def owned_def\<close>)

lemma node_conf_fields:
  "node_conf s n = \<lparr>c_ip = ip (nd s n), c_port = port (nd s n), c_cport = cport (nd s n), c_flags = flags (nd s n) AND saved_flags,
     c_master = map_option (\<lambda>m. name (nd s m)) (slaveof (nd s n)), c_epoch = configEpoch (nd s n), c_slots = owned s n\<rparr>"
  by (simp add: node_conf_def Let_def)

lemma loads_id: "load_ok s \<Longrightarrow> n \<in> live s \<Longrightarrow> loads {} n (\<lambda>c. c) s s"
  using conf_of_live [OF load_okD(2), of s n] by (auto simp: loads_def fun_eq_iff)

lemma createClusterNode_state:
  "(n, t) = createClusterNode (Some nm) fl s \<Longrightarrow>
   n = next_addr s \<and> load_frame t = load_frame s \<and> slots t = slots s \<and> (\<forall>b. b \<noteq> n \<longrightarrow> heap t b = heap s b) \<and>
   slaveof (heap t n) = None \<and> ip (heap t n) = [] \<and> port (heap t n) = 0 \<and> cport (heap t n) = 0 \<and>
   configEpoch (heap t n) = 0 \<and> owned t n = {}"
  using owned_zero [of t n] by (auto simp: createClusterNode_def Let_def load_frame_def open_slots_def)

lemma load_ref_effect:
  assumes ok: "load_ok s" and nm: "length nm = CLUSTER_NAMELEN"
  shows "\<exists>n t. load_ref (nm @ r) s = Inr (n, t) \<and> load_ok t \<and> n \<in> live t \<and> name (nd t n) = nm \<and>
    conf_of t = refs {nm} (conf_of s) \<and>
    load_frame t = load_frame s \<and> live s \<subseteq> live t \<and> (\<forall>a \<in> live s. name (nd t a) = name (nd s a))"
proof -
  have arg: "arg_name (nm @ r) = nm" "\<not> length (nm @ r) + 1 < CLUSTER_NAMELEN"
    using nm by (simp_all add: arg_name_def)
  note D = load_okD [OF ok]
  show ?thesis
  proof (cases "clusterLookupNode nm s")
    case (Some n)
    then obtain c where "conf_of s nm = Some c" by (simp add: conf_of_def)
    then have "refs {nm} (conf_of s) = conf_of s" by (auto simp: refs_def fun_eq_iff)
    then show ?thesis
      using Some arg ok clusterLookupNode_name [OF D(2), of nm n] by (simp add: load_ref_def)
  next
    case None
    obtain n t where c: "(n, t) = createClusterNode (Some nm) 0 s" by (metis surj_pair)
    note t = createClusterNode_tables [OF D(4) c] and st = createClusterNode_state [OF c]
    define u where "u = snd (clusterAddNode n t)"
    note u = clusterAddNode_tables [OF t(1,2), folded u_def]
    have r: "load_ref (nm @ r) s = Inr (n, u)"
      using None arg c [symmetric] by (simp add: load_ref_def u_def)
    have "clusterLookupNode nm t = None" using None t(6) by (simp add: clusterLookupNode_def)
    then have nodes: "nodes u = nodes s @ [(nm, n)]"
      using t(6,9) by (auto simp: u_def clusterAddNode_def dictAdd_def clusterLookupNode_def dictFind_def map_of_eq_None_iff)
    have heap: "heap u = heap t" "slots u = slots s" "load_frame u = load_frame s"
      using st by (auto simp: u_def clusterAddNode_def load_frame_def open_slots_def split: option.splits)
    have live: "live u = insert n (live s)" by (simp add: live_def nodes)
    have n: "n \<notin> live s" using t(2,3) by (simp add: fresh_node_def)
    then have same: "heap u a = heap s a" if "a \<in> live s" for a
      using that st heap(1) by (cases "a = n") auto
    have names: "names_inv u" using u(1) by (simp add: tables_inv_def)
    have name: "name (nd u n) = nm" using t(9) heap by simp
    have "open_slots u = open_slots s" using heap(3) by (simp add: load_frame_def)
    then have "load_ok u" using ok u(1) same st heap(1) by (auto simp: load_ok_def live open_slots_def)
    moreover have "conf_of s nm = None" using None by (simp add: conf_of_def)
    moreover have "conf_of u = refs {nm} (conf_of s)"
    proof
      fix x
      show "conf_of u x = refs {nm} (conf_of s) x"
      proof (cases "x = nm")
        case True
        have "clusterLookupNode nm u = Some n" using clusterLookupNode_name [OF names, of nm n] name live by simp
        moreover have "node_conf u n = blank"
          using st t(8) heap(1) by (auto simp: node_conf_def blank_def Let_def owned_def)
        ultimately show ?thesis using True None by (simp add: conf_of_def refs_def)
      next
        case False
        then have look: "clusterLookupNode x u = clusterLookupNode x s"
          using None by (simp add: clusterLookupNode_def dictFind_def nodes map_of_snoc map_of_eq_None_iff del: map_of_append)
        have "node_conf u a = node_conf s a" if "a \<in> live s" for a
          using same [OF that] same [OF D(5) [OF that]]
          by (cases "slaveof (nd s a)") (simp_all add: node_conf_def Let_def owned_def)
        then show ?thesis
          using look False clusterLookupNode_live [of x s] by (cases "clusterLookupNode x s") (simp_all add: conf_of_def refs_def)
      qed
    qed
    ultimately show ?thesis using r live name heap(3) same by auto
  qed
qed

lemma addSlave_conf:
  assumes "load_ok s"
  shows "load_ok (snd (clusterNodeAddSlave m n s))" and "conf_of (snd (clusterNodeAddSlave m n s)) = conf_of s"
    and "load_frame (snd (clusterNodeAddSlave m n s)) = load_frame s"
    and "live (snd (clusterNodeAddSlave m n s)) = live s"
    and "name (nd (snd (clusterNodeAddSlave m n s)) a) = name (nd s a)"
proof -
  let ?t = "snd (clusterNodeAddSlave m n s)"
  note f = table_frameD [OF clusterNodeAddSlave_effect(1) [of m n s]]
  show live: "live ?t = live s" and name: "name (nd ?t a) = name (nd s a)" for a using f by auto
  have tables: "tables_inv ?t" using tables_inv_cong [of ?t s] load_okD(4) [OF assms] by simp
  have frame: "load_frame ?t = load_frame s"
    by (simp add: load_frame_def open_slots_def clusterNodeAddSlave_def Let_def upd_node_def)
  from tables show "load_ok ?t" using assms live frame by (simp add: load_ok_def clusterNodeAddSlave_effect load_frame_def open_slots_def)
  from frame show "load_frame ?t = load_frame s" .
  have fl: "flags (nd ?t a) AND saved_flags = flags (nd s a) AND saved_flags" for a
  proof -
    have "(x OR CLUSTER_NODE_MIGRATE_TO) AND saved_flags = x AND saved_flags" for x :: u32
      by (rule bit_eqI) (auto simp: bit_and_iff bit_or_iff bit_saved_flags CLUSTER_NODE_MIGRATE_TO_def)
    then show ?thesis by (simp add: clusterNodeAddSlave_def)
  qed
  have "node_conf ?t = node_conf s"
  proof
    fix a
    have "ip (nd ?t a) = ip (nd s a) \<and> port (nd ?t a) = port (nd s a) \<and> cport (nd ?t a) = cport (nd s a) \<and>
        configEpoch (nd ?t a) = configEpoch (nd s a)"
      by (simp add: clusterNodeAddSlave_def)
    then show "node_conf ?t a = node_conf s a"
      using f fl by (simp add: node_conf_def Let_def owned_def clusterNodeAddSlave_effect)
  qed
  moreover have "clusterLookupNode x ?t = clusterLookupNode x s" for x by (simp add: clusterLookupNode_def f)
  ultimately show "conf_of ?t = conf_of s" by (intro ext) (simp only: conf_of_def)
qed

section \<open>Slots\<close>

lemma saved_flags_migrate: "(x AND NOT CLUSTER_NODE_MIGRATE_TO) AND saved_flags = x AND saved_flags" for x :: u32
  by (rule bit_eqI) (auto simp: bit_and_iff bit_not_iff bit_saved_flags CLUSTER_NODE_MIGRATE_TO_def)

lemma slot_free:
  assumes "load_ok s" and "j < CLUSTER_SLOTS" and "\<forall>x c. conf_of s x = Some c \<longrightarrow> j \<notin> c_slots c"
  shows "slots s j = None"
proof (rule ccontr)
  assume "slots s j \<noteq> None"
  then obtain b where b: "slots s j = Some b" by auto
  note D = load_okD [OF assms(1)]
  have l: "b \<in> live s" by (rule slot_inv_live [OF D(1) assms(2) b])
  then have "j \<in> c_slots (node_conf s b)"
    using slot_inv_owned [OF D(1) l] b assms(2) by (simp add: node_conf_def Let_def)
  then show False using conf_of_live [OF D(2) l] assms(3) by blast
qed

lemma addSlot_conf:
  assumes ok: "load_ok s" and n: "n \<in> live s" and j: "j < CLUSTER_SLOTS" and free: "slots s j = None"
  shows "loads {} n (\<lambda>c. c\<lparr>c_slots := insert j (c_slots c)\<rparr>) s (snd (clusterAddSlot n j s))"
    and "load_frame (snd (clusterAddSlot n j s)) = load_frame s"
proof -
  note D = load_okD [OF ok]
  obtain t where t: "clusterAddSlot n j s = (C_OK, t)" "slot_inv t" "slots t = (slots s)(j \<mapsto> n)"
    "slot_frame t = slot_frame s" "live t = live s"
    using clusterAddSlot_free [OF D(1) j n free] by blast
  note f = slot_frame_node [OF t(4)] and g = slot_frame_server [OF t(4)]
  have "names_inv t" "reports_inv t"
    using D(2,3) f g by (simp_all add: names_inv_def reports_inv_def)
  then have tables: "tables_inv t" using t(2) by (simp add: tables_inv_def)
  show frame: "load_frame (snd (clusterAddSlot n j s)) = load_frame s"
    using g t(1) by (simp add: load_frame_def open_slots_def)
  have ok': "load_ok t" using ok tables f g by (simp add: load_ok_def)
  have conf: "node_conf t a = (if a = n then (node_conf s n)\<lparr>c_slots := insert j (c_slots (node_conf s n))\<rparr> else node_conf s a)"
    if a: "a \<in> live s" for a
  proof -
    have "owned t a = (if a = n then insert j (owned s a) else owned s a)"
      using slot_inv_owned [OF t(2), of a] slot_inv_owned [OF D(1) a] a t(3,5) j free by auto
    moreover have "port (nd t a) = port (nd s a)" "cport (nd t a) = cport (nd s a)"
      "flags (nd t a) AND NOT CLUSTER_NODE_MIGRATE_TO = flags (nd s a) AND NOT CLUSTER_NODE_MIGRATE_TO"
      using arg_cong [OF slot_frame_heap [OF t(4), of a], of port] arg_cong [OF slot_frame_heap [OF t(4), of a], of cport]
        arg_cong [OF slot_frame_heap [OF t(4), of a], of flags] by simp_all
    moreover from this(3) have "flags (nd t a) AND saved_flags = flags (nd s a) AND saved_flags"
      using saved_flags_migrate [of "flags (nd t a)"] saved_flags_migrate [of "flags (nd s a)"] by simp
    ultimately show ?thesis using f by (simp add: node_conf_def Let_def)
  qed
  have "conf_of t = (conf_of s)(name (nd s n) \<mapsto> (node_conf s n)\<lparr>c_slots := insert j (c_slots (node_conf s n))\<rparr>)"
  proof
    fix x
    have look: "clusterLookupNode x t = clusterLookupNode x s" using g by (simp add: clusterLookupNode_def)
    show "conf_of t x = ((conf_of s)(name (nd s n) \<mapsto> (node_conf s n)\<lparr>c_slots := insert j (c_slots (node_conf s n))\<rparr>)) x"
    proof (cases "clusterLookupNode x s")
      case None
      then have "x \<noteq> name (nd s n)" using clusterLookupNode_name [OF D(2), of x n] n by auto
      then show ?thesis using None look by (simp add: conf_of_def)
    next
      case (Some a)
      then have "a \<in> live s" "name (nd s a) = x" using clusterLookupNode_name [OF D(2), of x a] by auto
      then show ?thesis
        using Some look conf [of a] names_live_inj [OF D(2) _ n, of a] by (cases "a = n") (auto simp: conf_of_def)
    qed
  qed
  then show "loads {} n (\<lambda>c. c\<lparr>c_slots := insert j (c_slots c)\<rparr>) s (snd (clusterAddSlot n j s))"
    using ok' n f t by (simp add: loads_def)
qed

lemma addSlots_conf:
  assumes "load_ok s" and "n \<in> live s" and "distinct js" and "\<forall>j \<in> set js. j < CLUSTER_SLOTS"
    and "\<forall>j \<in> set js. \<forall>x c. conf_of s x = Some c \<longrightarrow> j \<notin> c_slots c"
  shows "loads {} n (\<lambda>c. c\<lparr>c_slots := c_slots c \<union> set js\<rparr>) s (fold (\<lambda>j s. snd (clusterAddSlot n j s)) js s) \<and>
    load_frame (fold (\<lambda>j s. snd (clusterAddSlot n j s)) js s) = load_frame s"
  using assms
proof (induction js arbitrary: s)
  case Nil
  then show ?case using loads_id by simp
next
  case (Cons j js)
  define t where "t = snd (clusterAddSlot n j s)"
  have free: "slots s j = None" using Cons.prems by (intro slot_free) auto
  have t: "loads {} n (\<lambda>c. c\<lparr>c_slots := insert j (c_slots c)\<rparr>) s t" "load_frame t = load_frame s"
    using addSlot_conf [of s n j] free Cons.prems by (simp_all add: t_def)
  have conf: "conf_of s (name (nd s n)) = Some (node_conf s n)"
    using Cons.prems load_okD(2) conf_of_live by blast
  have "\<forall>i \<in> set js. \<forall>x c. conf_of t x = Some c \<longrightarrow> i \<notin> c_slots c"
    using t(1) Cons.prems(3,5) conf by (auto simp: loads_def split: if_splits)
  then have rest: "loads {} n (\<lambda>c. c\<lparr>c_slots := c_slots c \<union> set js\<rparr>) t (fold (\<lambda>j s. snd (clusterAddSlot n j s)) js t) \<and>
      load_frame (fold (\<lambda>j s. snd (clusterAddSlot n j s)) js t) = load_frame t"
    using Cons.prems t(1) by (intro Cons.IH) (auto simp: loads_def)
  then show ?case using loads_trans [OF t(1) conjunct1 [OF rest]] t(2) by (simp add: t_def [symmetric])
qed

lemma strchr_found:
  assumes "c \<notin> set p" and "0 \<notin> set p" and "c \<noteq> 0"
  shows "strchr c (p @ c # r) = Some (p, c # r)"
proof -
  have "cstr (p @ c # r) = p @ c # cstr r"
    unfolding cstr_def by (subst takeWhile_append2) (use assms in auto)
  moreover have "takeWhile (\<lambda>b. b \<noteq> c) (p @ c # r) = p" "dropWhile (\<lambda>b. b \<noteq> c) (p @ c # r) = c # r"
    by (subst takeWhile_append2; use assms in auto) (subst dropWhile_append2; use assms in auto)
  ultimately show ?thesis by (simp add: strchr_def)
qed

lemma strchr_none: "c \<notin> set p \<Longrightarrow> strchr c p = None"
  by (auto simp: strchr_def cstr_def dest: set_takeWhileD)

lemma dec_bytes_chars: "c \<in> set (dec_bytes n) \<Longrightarrow> 48 \<le> c \<and> c \<le> 57"
  using dec_bytes_digits [of n] by (auto simp: list_all_iff digit_def)

lemma hd_dec_bytes: "hd (dec_bytes n @ r) = c \<Longrightarrow> 48 \<le> c \<and> c \<le> 57"
  using dec_bytes_Cons [of n] by (auto simp: digit_def)

lemma load_range_word:
  assumes "a \<le> b" and "b < CLUSTER_SLOTS"
  shows "load_slot n (range_word (a, b)) s = Inr (fold (\<lambda>j s. snd (clusterAddSlot n j s)) [a..<Suc b] s)"
proof -
  have lim: "a < 2 ^ 31" "b < 2 ^ 31" using assms by (simp_all add: CLUSTER_SLOTS_def)
  have hd: "hd (range_word (a, b) @ [0]) \<noteq> 91"
    using hd_dec_bytes [of a _ 91] by (auto simp: range_word_def)
  have atoi: "atoi (dec_bytes a) = int a" "atoi (dec_bytes b) = int b"
    using atoi_dec_bytes [OF lim(1), of "[]"] atoi_dec_bytes [OF lim(2), of "[]"] by (simp_all add: ends_number_def)
  show ?thesis
  proof (cases "a = b")
    case True
    have "strchr 45 (dec_bytes a) = None" using dec_bytes_chars [of 45 a] by (intro strchr_none) auto
    then show ?thesis
      using True hd atoi assms by (simp add: load_slot_def load_range_def range_word_def del: upt_Suc)
  next
    case False
    have "strchr 45 (dec_bytes a @ 45 # dec_bytes b) = Some (dec_bytes a, 45 # dec_bytes b)"
      using dec_bytes_chars [of 45 a] dec_bytes_chars [of 0 a] by (intro strchr_found) auto
    then show ?thesis
      using False hd atoi assms by (simp add: load_slot_def load_range_def range_word_def del: upt_Suc)
  qed
qed

lemma load_each_append: "load_each (xs @ ys) f s = andthen (load_each xs f s) (load_each ys f)"
proof (induction xs arbitrary: s)
  case (Cons x xs)
  then show ?case by (cases "f x s") simp_all
qed simp

lemma load_range_words:
  assumes "\<forall>(a, b) \<in> set rs. a \<le> b \<and> b < CLUSTER_SLOTS"
  shows "load_each (map range_word rs) (load_slot n) s = Inr (fold (\<lambda>j s. snd (clusterAddSlot n j s)) (expand rs) s)"
  using assms
proof (induction rs arbitrary: s)
  case (Cons r rs)
  obtain a b where r: "r = (a, b)" by force
  then show ?case using Cons load_range_word [of a b n s] by (simp add: expand_def del: upt_Suc)
qed (simp add: expand_def)

section \<open>The fields of a line\<close>

text \<open>The names and addresses that a node has in practice, and that the file can hold.\<close>

definition name_ok :: "bytes \<Rightarrow> bool" where
  "name_ok nm \<longleftrightarrow> length nm = CLUSTER_NAMELEN \<and> list_all (\<lambda>c. (48 \<le> c \<and> c \<le> 57) \<or> (97 \<le> c \<and> c \<le> 102)) nm"

definition addr_ok :: "clusterNode \<Rightarrow> bool" where
  "addr_ok n \<longleftrightarrow> length (ip n) < NET_IP_STR_LEN \<and> list_all (\<lambda>c. \<not> isspace c \<and> c \<noteq> 0 \<and> c \<noteq> 34 \<and> c \<noteq> 39) (ip n) \<and>
     - (2 ^ 31) \<le> port n \<and> port n < 2 ^ 31 \<and> - (2 ^ 31) \<le> cport n \<and> cport n < 2 ^ 31"

lemma name_chars: "name_ok nm \<Longrightarrow> c \<in> set nm \<Longrightarrow> \<not> isspace c \<and> c \<noteq> 0 \<and> c \<noteq> 34 \<and> c \<noteq> 39 \<and> c \<noteq> 45 \<and> c \<noteq> 10"
proof -
  assume "name_ok nm" "c \<in> set nm"
  then have c: "(48 \<le> c \<and> c \<le> 57) \<or> (97 \<le> c \<and> c \<le> 102)" by (auto simp: name_ok_def list_all_iff)
  have "\<not> c \<le> 13"
  proof
    assume "c \<le> 13"
    with c have "(48 :: byte) \<le> 13 \<or> (97 :: byte) \<le> 13" by (blast intro: order_trans)
    then show False by simp
  qed
  then show ?thesis using c by (auto simp: isspace_def)
qed

lemma plain_name: "name_ok nm \<Longrightarrow> plain_token nm"
  using name_chars [of nm] by (auto simp: plain_token_def list_all_iff name_ok_def CLUSTER_NAMELEN_def)

lemma node_word_name: "name_ok (name n) \<Longrightarrow> node_word n = name n"
  using plain_cstr [OF plain_name] by (simp add: node_word_def name_ok_def CLUSTER_NAMELEN_def)

lemma plain_dec_bytes: "plain_token (dec_bytes n)"
  using dec_bytes_digits [of n] digit_not_space by (auto simp: plain_token_def list_all_iff)

lemma plain_dec_int: "plain_token (dec_int i)"
  using plain_dec_bytes by (simp add: dec_int_def plain_token_def isspace_def)

lemma dec_int_chars: "c \<in> set (dec_int i) \<Longrightarrow> c = 45 \<or> (48 \<le> c \<and> c \<le> 57)"
  using dec_bytes_chars by (auto simp: dec_int_def split: if_splits)

lemma strrchr_last:
  assumes "0 \<notin> set p" and "c \<notin> set r" and "0 \<notin> set r" and "c \<noteq> 0"
  shows "strrchr c (p @ c # r) = Some (p, c # r)"
proof -
  have c: "cstr (p @ c # r) = p @ c # r"
    unfolding cstr_def using assms by (intro takeWhile_nonzero) auto
  have "takeWhile (\<lambda>b. b \<noteq> c) (rev r @ c # rev p) = rev r" "dropWhile (\<lambda>b. b \<noteq> c) (rev r @ c # rev p) = c # rev p"
    by (subst takeWhile_append2; use assms in auto) (subst dropWhile_append2; use assms in auto)
  then show ?thesis by (simp add: strrchr_def c)
qed

lemma load_address_effect:
  assumes ok: "load_ok s" "n \<in> live s" and a: "addr_ok x"
  shows "\<exists>t. load_address n (cstr (ip x) @ 58 # dec_int (port x) @ 64 # dec_int (cport x)) s = Inr t \<and>
    loads {} n (\<lambda>c. c\<lparr>c_ip := ip x, c_port := port x, c_cport := cport x\<rparr>) s t \<and> load_frame t = load_frame s"
proof -
  have ip: "0 \<notin> set (ip x)" using a by (auto simp: addr_ok_def list_all_iff)
  then have ip': "cstr (ip x) = ip x" unfolding cstr_def by (rule takeWhile_nonzero)
  have digits: "c \<notin> set (dec_int i)" if "c \<in> {0, 58, 64}" for c i using dec_int_chars [of c i] that by auto
  have "strrchr 58 (ip x @ 58 # dec_int (port x) @ 64 # dec_int (cport x)) = Some (ip x, 58 # dec_int (port x) @ 64 # dec_int (cport x))"
    using ip digits by (intro strrchr_last) auto
  moreover have "strchr 64 (dec_int (port x) @ 64 # dec_int (cport x)) = Some (dec_int (port x), 64 # dec_int (cport x))"
    using digits by (intro strchr_found) auto
  moreover have "atoi (dec_int (port x)) = port x" "atoi (dec_int (cport x)) = cport x"
    using a atoi_dec_int [of "port x" "[]"] atoi_dec_int [of "cport x" "[]"] by (simp_all add: addr_ok_def ends_number_def)
  ultimately have r: "load_address n (cstr (ip x) @ 58 # dec_int (port x) @ 64 # dec_int (cport x)) s =
      Inr (upd_node n (\<lambda>y. y\<lparr>ip := ip x, port := port x, cport := cport x\<rparr>) s)"
    using a by (simp add: load_address_def ip' Let_def addr_ok_def)
  moreover have "loads {} n (\<lambda>c. c\<lparr>c_ip := ip x, c_port := port x, c_cport := cport x\<rparr>) s
      (upd_node n (\<lambda>y. y\<lparr>ip := ip x, port := port x, cport := cport x\<rparr>) s)"
    by (rule loads_upd [OF ok], simp_all add: node_conf_upd) (simp add: node_conf_fields)
  ultimately show ?thesis by simp
qed

lemma conf_of_myself: "load_ok (s\<lparr>myself := n\<rparr>) = load_ok s" "conf_of (s\<lparr>myself := n\<rparr>) = conf_of s" "live (s\<lparr>myself := n\<rparr>) = live s"
  "node_conf (s\<lparr>myself := n\<rparr>) = node_conf s"
proof -
  show conf: "node_conf (s\<lparr>myself := n\<rparr>) = node_conf s" by (intro ext) (simp add: node_conf_def owned_def)
  show "conf_of (s\<lparr>myself := n\<rparr>) = conf_of s" by (intro ext) (simp add: conf_of_def conf clusterLookupNode_def)
qed (auto simp: load_ok_def tables_inv_def slot_inv_def names_inv_def reports_inv_def live_def owned_def)

lemma load_flags_effect:
  assumes ok: "load_ok s" "n \<in> live s" and my: "fl AND CLUSTER_NODE_MYSELF \<noteq> 0 \<longrightarrow> \<not> h"
  shows "\<exists>t. load_each (split_on 44 (cstr (representClusterNodeFlags [] fl))) (load_flag n) (h, s) =
      Inr (h \<or> fl AND CLUSTER_NODE_MYSELF \<noteq> 0, t) \<and>
    loads {} n (\<lambda>c. c\<lparr>c_flags := c_flags c OR (fl AND saved_flags)\<rparr>) s t \<and>
    load_frame t = load_frame (if fl AND CLUSTER_NODE_MYSELF \<noteq> 0 then s\<lparr>myself := n\<rparr> else s)"
proof -
  let ?my = "fl AND CLUSTER_NODE_MYSELF \<noteq> 0" and ?ws = "flag_entries fl"
  let ?s = "if ?my then s\<lparr>myself := n\<rparr> else s"
  have my16: "16 \<in> fst ` set ?ws \<longleftrightarrow> ?my"
    unfolding set_flag_entries by (force simp: flag_names_simps CLUSTER_NODE_MYSELF_def)
  have "\<exists>ft. load_each (flag_words fl) (load_flag n) (h, s) = Inr (h \<or> ?my, with_flags n (flags_of ?ws) ft ?s)"
  proof (cases "?ws = []")
    case True
    then have "\<not> ?my" using my16 by simp
    then show ?thesis
      using True by (auto simp: flag_words_def load_flag_names flags_of_def with_flags_def upd_node_def intro!: exI [of _ "fail_time (heap s n)"])
  next
    case False
    have "distinct flag_names" by (simp add: flag_names_simps)
    then have "set ?ws \<subseteq> set flag_names" "distinct ?ws" by (auto simp: flag_entries_def)
    moreover have "h \<longrightarrow> 16 \<notin> fst ` set ?ws" using my my16 by blast
    ultimately show ?thesis
      using load_flag_list [of ?ws h n s] False unfolding my16 by (simp add: flag_words_def)
  qed
  then obtain ft where r: "load_each (split_on 44 (cstr (representClusterNodeFlags [] fl))) (load_flag n) (h, s) =
      Inr (h \<or> ?my, with_flags n (fl AND saved_flags) ft ?s)"
    unfolding split_flags flags_of_entries by blast
  have fl: "(x OR (fl AND saved_flags)) AND saved_flags = (x AND saved_flags) OR (fl AND saved_flags)" for x :: u32
    by (rule bit_eqI) (auto simp: bit_and_iff bit_or_iff)
  have "loads {} n (\<lambda>c. c\<lparr>c_flags := c_flags c OR (fl AND saved_flags)\<rparr>) ?s (with_flags n (fl AND saved_flags) ft ?s)"
    unfolding with_flags_def using ok
    by (intro loads_upd, simp_all add: conf_of_myself node_conf_upd) (auto simp: node_conf_fields fl owned_def)
  then have "loads {} n (\<lambda>c. c\<lparr>c_flags := c_flags c OR (fl AND saved_flags)\<rparr>) s (with_flags n (fl AND saved_flags) ft ?s)"
    by (cases ?my) (simp_all add: loads_def conf_of_myself)
  then show ?thesis using r by (intro exI [of _ "with_flags n (fl AND saved_flags) ft ?s"]) (simp add: with_flags_def)
qed

lemma load_master_none: "load_master n [45] s = Inr s"
  by (simp add: load_master_def)

lemma load_master_effect:
  assumes ok: "load_ok s" "n \<in> live s" and nm: "name_ok nm"
  shows "\<exists>t. load_master n nm s = Inr t \<and> loads {nm} n (\<lambda>c. c\<lparr>c_master := Some nm\<rparr>) s t \<and> load_frame t = load_frame s"
proof -
  obtain m u where r: "load_ref (nm @ []) s = Inr (m, u)" and u: "load_ok u" "m \<in> live u" "name (nd u m) = nm"
    "conf_of u = refs {nm} (conf_of s)" "load_frame u = load_frame s" "live s \<subseteq> live u" "\<forall>a \<in> live s. name (nd u a) = name (nd s a)"
    using load_ref_effect [OF ok(1), of nm "[]"] nm by (auto simp: name_ok_def)
  define v where "v = upd_node n (\<lambda>x. x\<lparr>slaveof := Some m\<rparr>) u"
  define t where "t = snd (clusterNodeAddSlave m n v)"
  have n: "n \<in> live u" "name (nd u n) = name (nd s n)" using ok u by auto
  have "conf_of s (name (nd s n)) = Some (node_conf s n)"
    using ok load_okD(2) conf_of_live by blast
  then have same: "node_conf u n = node_conf s n"
    using conf_of_live [OF load_okD(2) [OF u(1)] n(1)] n(2) u(4) by (simp add: refs_def)
  have so: "node_conf v n = (node_conf u n)\<lparr>c_master := Some nm\<rparr>"
    unfolding v_def by (subst node_conf_upd) (simp_all add: node_conf_fields u(3))
  have v: "load_ok v" "conf_of v = (conf_of u)(name (nd u n) \<mapsto> node_conf v n)"
    unfolding v_def by (rule upd_conf; use u n in simp)+
  note t = addSlave_conf [OF v(1), of m n, folded t_def]
  have "hd (nm @ [0]) \<noteq> 45" using name_chars [OF nm, of "hd nm"] nm by (cases nm) (auto simp: name_ok_def CLUSTER_NAMELEN_def)
  then have "load_master n nm s = Inr t" using r by (simp add: load_master_def t_def v_def)
  moreover have "loads {nm} n (\<lambda>c. c\<lparr>c_master := Some nm\<rparr>) s t"
    using t v(2) u(4,6,7) so same n(2) ok(2) unfolding loads_def by (auto simp: v_def)
  moreover have "load_frame t = load_frame s" using t(3) u(5) by (simp add: v_def)
  ultimately show ?thesis by blast
qed

lemma load_times_effect:
  assumes "load_ok s" "n \<in> live s" and "argv ! 6 = dec_bytes (unat e)"
  shows "loads {} n (\<lambda>c. c\<lparr>c_epoch := e\<rparr>) s (load_times n argv s) \<and> load_frame (load_times n argv s) = load_frame s"
proof -
  have "strtoull (argv ! 6) = e" using assms(3) strtoull_dec [of "[]" e] by (simp add: ends_number_def)
  then have "load_times n argv s = upd_node n (\<lambda>x. x\<lparr>ping_sent := if atoi (argv ! 4) \<noteq> 0 then mstime s else ping_sent x,
      pong_received := if atoi (argv ! 5) \<noteq> 0 then mstime s else pong_received x, configEpoch := e\<rparr>) s"
    by (simp add: load_times_def Let_def upd_node_def)
  moreover have "loads {} n (\<lambda>c. c\<lparr>c_epoch := e\<rparr>) s (upd_node n (\<lambda>x. x\<lparr>ping_sent := p x, pong_received := q x, configEpoch := e\<rparr>) s)" for p q
    by (rule loads_upd [OF assms(1,2)], simp_all add: node_conf_upd) (simp add: node_conf_fields)
  ultimately show ?thesis by simp
qed

section \<open>Open slots\<close>

definition open_names :: "server \<Rightarrow> (nat \<Rightarrow> bytes option) \<times> (nat \<Rightarrow> bytes option)" where
  "open_names s =
     (\<lambda>j. map_option (\<lambda>a. name (nd s a)) (migrating_slots_to s j), \<lambda>j. map_option (\<lambda>a. name (nd s a)) (importing_slots_from s j))"

text \<open>A slot that is both migrating and importing is saved as migrating only.\<close>

definition saved_open :: "server \<Rightarrow> (nat \<Rightarrow> bytes option) \<times> (nat \<Rightarrow> bytes option)" where
  "saved_open s =
     (\<lambda>j. if j < CLUSTER_SLOTS then fst (open_names s) j else None,
      \<lambda>j. if j < CLUSTER_SLOTS \<and> migrating_slots_to s j = None then snd (open_names s) j else None)"

definition epochs :: "server \<Rightarrow> naddr \<times> u64 \<times> u64" where
  "epochs s = (myself s, currentEpoch s, lastVoteEpoch s)"

lemma load_frame_parts: "load_frame t = load_frame s \<longleftrightarrow> epochs t = epochs s \<and> open_slots t = open_slots s"
  by (auto simp: load_frame_def epochs_def)

lemma open_names_same:
  assumes "load_ok s" and "open_slots t = open_slots s" and "\<forall>a \<in> live s. name (nd t a) = name (nd s a)"
  shows "open_names t = open_names s"
proof -
  have mig: "map_option (\<lambda>a. name (nd t a)) (migrating_slots_to s j) = map_option (\<lambda>a. name (nd s a)) (migrating_slots_to s j)" for j
    using assms(3) load_okD(6) [OF assms(1), of j] by (cases "migrating_slots_to s j") auto
  have imp: "map_option (\<lambda>a. name (nd t a)) (importing_slots_from s j) = map_option (\<lambda>a. name (nd s a)) (importing_slots_from s j)" for j
    using assms(3) load_okD(7) [OF assms(1), of j] by (cases "importing_slots_from s j") auto
  show ?thesis using assms(2) mig imp by (simp add: open_names_def open_slots_def)
qed

lemma load_open_word:
  assumes ok: "load_ok s" and nm: "name_ok nm" and j: "j < CLUSTER_SLOTS" and d: "d = 62 \<or> d = 60"
  shows "\<exists>t. load_slot n (91 # dec_bytes j @ [45, d, 45] @ nm @ [93]) s = Inr t \<and> load_ok t \<and> live s \<subseteq> live t \<and>
    (\<forall>a \<in> live s. name (nd t a) = name (nd s a)) \<and> conf_of t = refs {nm} (conf_of s) \<and> epochs t = epochs s \<and>
    open_names t = (if d = 62 then ((fst (open_names s))(j \<mapsto> nm), snd (open_names s))
                    else (fst (open_names s), (snd (open_names s))(j \<mapsto> nm)))"
proof -
  obtain m u where r: "load_ref (nm @ [93]) s = Inr (m, u)" and u: "load_ok u" "m \<in> live u" "name (nd u m) = nm"
    "conf_of u = refs {nm} (conf_of s)" "load_frame u = load_frame s" "live s \<subseteq> live u" "\<forall>a \<in> live s. name (nd u a) = name (nd s a)"
    using load_ref_effect [OF ok, of nm "[93]"] nm by (auto simp: name_ok_def)
  have names: "open_names u = open_names s" using open_names_same [OF ok _ u(7)] u(5) by (simp add: load_frame_def)
  define t where "t = (if d = 62 then u\<lparr>migrating_slots_to := (migrating_slots_to u)(j := Some m)\<rparr>
    else u\<lparr>importing_slots_from := (importing_slots_from u)(j := Some m)\<rparr>)"
  have same: "nodes t = nodes u" "heap t = heap u" "slots t = slots u" "next_addr t = next_addr u" by (simp_all add: t_def)
  then have live: "live t = live u" by (simp add: live_def)
  have "inv_view t = inv_view u" by (simp add: t_def inv_view_def view_defs)
  then have "tables_inv t" using tables_inv_cong load_okD(4) [OF u(1)] by blast
  moreover have "ran (migrating_slots_to t) \<subseteq> live u" "ran (importing_slots_from t) \<subseteq> live u"
    using load_okD(6,7) [OF u(1)] u(2) by (auto simp: t_def ran_def split: if_splits)
  ultimately have "load_ok t" using u(1) live same by (simp add: load_ok_def)
  moreover have "conf_of t = conf_of u"
  proof -
    have "node_conf t = node_conf u" using same by (intro ext) (simp add: node_conf_def owned_def)
    then show ?thesis using same by (intro ext) (simp add: conf_of_def clusterLookupNode_def)
  qed
  moreover have "open_names t = (if d = 62 then ((fst (open_names s))(j \<mapsto> nm), snd (open_names s))
                    else (fst (open_names s), (snd (open_names s))(j \<mapsto> nm)))"
    unfolding names [symmetric] by (auto simp: open_names_def t_def u(3) fun_eq_iff)
  moreover have "epochs t = epochs s" using u(5) by (simp add: load_frame_parts t_def epochs_def split: if_splits)
  moreover have "load_slot n (91 # dec_bytes j @ [45, d, 45] @ nm @ [93]) s = Inr t"
  proof -
    have "strchr 45 ((91 # dec_bytes j) @ 45 # [d, 45] @ nm @ [93]) = Some (91 # dec_bytes j, 45 # [d, 45] @ nm @ [93])"
      using dec_bytes_chars [of 45 j] dec_bytes_chars [of 0 j] by (intro strchr_found) auto
    moreover have "atoi (dec_bytes j) = int j"
      using atoi_dec_bytes [of j "[]"] j by (simp add: ends_number_def CLUSTER_SLOTS_def)
    ultimately show ?thesis
      using r j d by (auto simp: load_slot_def load_open_slot_def Let_def t_def)
  qed
  ultimately show ?thesis using u live same by auto
qed


lemma restrict_step: "(m ++ (f |` {j})) ++ (f |` J) = m ++ (f |` insert j J)"
  by (auto simp: fun_eq_iff map_add_def restrict_map_def split: option.splits)

lemma open_word_saved:
  assumes "j < CLUSTER_SLOTS"
    and "\<forall>x. fst (saved_open S) j = Some x \<or> snd (saved_open S) j = Some x \<longrightarrow> name_ok x"
  shows "(open_word S j = [] \<and> fst (saved_open S) j = None \<and> snd (saved_open S) j = None) \<or>
    (\<exists>nm. open_word S j = [91 # dec_bytes j @ [45, 62, 45] @ nm @ [93]] \<and> fst (saved_open S) j = Some nm \<and> snd (saved_open S) j = None) \<or>
    (\<exists>nm. open_word S j = [91 # dec_bytes j @ [45, 60, 45] @ nm @ [93]] \<and> fst (saved_open S) j = None \<and> snd (saved_open S) j = Some nm)"
proof -
  have word: "cstr (take 40 x) = x" if "name_ok x" for x
    using plain_cstr [OF plain_name [OF that]] that by (simp add: name_ok_def CLUSTER_NAMELEN_def)
  show ?thesis
    using assms word by (cases "migrating_slots_to S j"; cases "importing_slots_from S j")
      (simp_all add: saved_open_def open_names_def open_word_def)
qed

lemma load_open_words:
  assumes "load_ok s" and "\<forall>j \<in> set js. j < CLUSTER_SLOTS"
    and "\<forall>j \<in> set js. \<forall>x. fst (saved_open S) j = Some x \<or> snd (saved_open S) j = Some x \<longrightarrow> name_ok x \<and> x \<in> N"
  shows "\<exists>t R. load_each (concat (map (open_word S) js)) (load_slot n) s = Inr t \<and> load_ok t \<and> live s \<subseteq> live t \<and>
    (\<forall>a \<in> live s. name (nd t a) = name (nd s a)) \<and> R \<subseteq> N \<and> conf_of t = refs R (conf_of s) \<and> epochs t = epochs s \<and>
    open_names t = (fst (open_names s) ++ (fst (saved_open S) |` set js), snd (open_names s) ++ (snd (saved_open S) |` set js))"
  using assms
proof (induction js arbitrary: s)
  case Nil
  then show ?case by (intro exI [of _ s] exI [of _ "{}"]) simp
next
  case (Cons j js)
  have j: "j < CLUSTER_SLOTS" "\<forall>x. fst (saved_open S) j = Some x \<or> snd (saved_open S) j = Some x \<longrightarrow> name_ok x"
    using Cons.prems(2,3) by auto
  have "\<exists>u R. load_each (open_word S j) (load_slot n) s = Inr u \<and> load_ok u \<and> live s \<subseteq> live u \<and>
    (\<forall>a \<in> live s. name (nd u a) = name (nd s a)) \<and> R \<subseteq> N \<and> conf_of u = refs R (conf_of s) \<and> epochs u = epochs s \<and>
    open_names u = (fst (open_names s) ++ (fst (saved_open S) |` {j}), snd (open_names s) ++ (snd (saved_open S) |` {j}))"
    using open_word_saved [OF j]
  proof (elim disjE exE conjE)
    assume "open_word S j = []" "fst (saved_open S) j = None" "snd (saved_open S) j = None"
    then show ?thesis
      using Cons.prems(1) by (intro exI [of _ s] exI [of _ "{}"]) (simp add: restrict_map_insert)
  next
    fix nm
    assume w: "open_word S j = [91 # dec_bytes j @ [45, 62, 45] @ nm @ [93]]" "fst (saved_open S) j = Some nm" "snd (saved_open S) j = None"
    then have nm: "name_ok nm" "{nm} \<subseteq> N" using Cons.prems(3) by auto
    obtain t where "load_slot n (91 # dec_bytes j @ [45, 62, 45] @ nm @ [93]) s = Inr t" "load_ok t" "live s \<subseteq> live t"
      "\<forall>a \<in> live s. name (nd t a) = name (nd s a)" "conf_of t = refs {nm} (conf_of s)" "epochs t = epochs s"
      "open_names t = ((fst (open_names s))(j \<mapsto> nm), snd (open_names s))"
      using load_open_word [OF Cons.prems(1) nm(1) j(1), of 62 n] by auto
    then show ?thesis
      using nm(2) w by (intro exI [of _ t] exI [of _ "{nm}"]) (simp add: restrict_map_insert)
  next
    fix nm
    assume w: "open_word S j = [91 # dec_bytes j @ [45, 60, 45] @ nm @ [93]]" "fst (saved_open S) j = None" "snd (saved_open S) j = Some nm"
    then have nm: "name_ok nm" "{nm} \<subseteq> N" using Cons.prems(3) by auto
    obtain t where "load_slot n (91 # dec_bytes j @ [45, 60, 45] @ nm @ [93]) s = Inr t" "load_ok t" "live s \<subseteq> live t"
      "\<forall>a \<in> live s. name (nd t a) = name (nd s a)" "conf_of t = refs {nm} (conf_of s)" "epochs t = epochs s"
      "open_names t = (fst (open_names s), (snd (open_names s))(j \<mapsto> nm))"
      using load_open_word [OF Cons.prems(1) nm(1) j(1), of 60 n] by auto
    then show ?thesis
      using nm(2) w by (intro exI [of _ t] exI [of _ "{nm}"]) (simp add: restrict_map_insert)
  qed
  then obtain u R where u: "load_each (open_word S j) (load_slot n) s = Inr u" "load_ok u" "live s \<subseteq> live u"
    "\<forall>a \<in> live s. name (nd u a) = name (nd s a)" "R \<subseteq> N" "conf_of u = refs R (conf_of s)" "epochs u = epochs s"
    "open_names u = (fst (open_names s) ++ (fst (saved_open S) |` {j}), snd (open_names s) ++ (snd (saved_open S) |` {j}))"
    by blast
  obtain t R' where t: "load_each (concat (map (open_word S) js)) (load_slot n) u = Inr t" "load_ok t" "live u \<subseteq> live t"
    "\<forall>a \<in> live u. name (nd t a) = name (nd u a)" "R' \<subseteq> N" "conf_of t = refs R' (conf_of u)" "epochs t = epochs u"
    "open_names t = (fst (open_names u) ++ (fst (saved_open S) |` set js), snd (open_names u) ++ (snd (saved_open S) |` set js))"
    using Cons.IH [OF u(2)] Cons.prems(2,3) by auto
  have "load_each (concat (map (open_word S) (j # js))) (load_slot n) s = Inr t"
    using u(1) t(1) by (simp add: load_each_append)
  moreover have "open_names t = (fst (open_names s) ++ (fst (saved_open S) |` set (j # js)), snd (open_names s) ++ (snd (saved_open S) |` set (j # js)))"
    by (simp only: t(8) u(8) fst_conv snd_conv restrict_step list.set)
  moreover have "conf_of t = refs (R' \<union> R) (conf_of s)" using t(6) u(6) by simp
  moreover have "\<forall>a \<in> live s. name (nd t a) = name (nd s a)" using u(3,4) t(4) by auto
  ultimately show ?case using t(2,3,5,7) u(3,5,7) by (intro exI [of _ t] exI [of _ "R' \<union> R"]) auto
qed

end
