(* ===== verification/ClusterRestart.thy ===== *)
theory ClusterRestart
  imports ClusterReload
begin

text \<open>
  Restarting a node: loading the configuration that \<open>clusterSaveConfig\<close> wrote gives
  back the nodes, their roles, addresses, epochs and slots, and the open slots of the node itself.
\<close>

section \<open>A line gives back its node\<close>

definition is_myself :: "server \<Rightarrow> naddr \<Rightarrow> bool" where
  "is_myself S a \<longleftrightarrow> flags (nd S a) AND CLUSTER_NODE_MYSELF \<noteq> 0"

text \<open>What the configuration of the node \<open>a\<close> mentions has a usable name in \<open>N\<close>; times have 64 bits.\<close>

definition time_ok :: "int \<Rightarrow> bool" where
  "time_ok i \<longleftrightarrow> - (2 ^ 63) \<le> i \<and> i < 2 ^ 63"

definition line_ok :: "bytes set \<Rightarrow> server \<Rightarrow> naddr \<Rightarrow> bool" where
  "line_ok N S a \<longleftrightarrow> name_ok (name (nd S a)) \<and> addr_ok (nd S a) \<and> time_ok (ping_sent (nd S a)) \<and> time_ok (pong_received (nd S a)) \<and>
     (\<forall>m. slaveof (nd S a) = Some m \<longrightarrow> name_ok (name (nd S m)) \<and> name (nd S m) \<in> N)"

definition open_ok :: "bytes set \<Rightarrow> server \<Rightarrow> bool" where
  "open_ok N S \<longleftrightarrow> (\<forall>j x. fst (saved_open S) j = Some x \<or> snd (saved_open S) j = Some x \<longrightarrow> name_ok x \<and> x \<in> N)"

lemma load_open_slots:
  assumes "load_ok s" and "open_ok N S" and "open_names s = (\<lambda>_. None, \<lambda>_. None)"
  shows "\<exists>t R. load_each (concat (map (open_word S) [0..<CLUSTER_SLOTS])) (load_slot n) s = Inr t \<and> load_ok t \<and>
    live s \<subseteq> live t \<and> (\<forall>a \<in> live s. name (nd t a) = name (nd s a)) \<and> R \<subseteq> N \<and> conf_of t = refs R (conf_of s) \<and>
    epochs t = epochs s \<and> open_names t = saved_open S"
proof -
  have all: "fst (saved_open S) |` set [0..<CLUSTER_SLOTS] = fst (saved_open S)"
    "snd (saved_open S) |` set [0..<CLUSTER_SLOTS] = snd (saved_open S)"
    by (auto simp: saved_open_def restrict_map_def fun_eq_iff)
  have "(fst (open_names s) ++ fst (saved_open S), snd (open_names s) ++ snd (saved_open S)) = saved_open S"
    using assms(3) by simp
  then show ?thesis
    using load_open_words [of s "[0..<CLUSTER_SLOTS]" S N n] assms(1,2) unfolding all by (simp add: open_ok_def)
qed

lemma expand_owned: "set (expand (slot_ranges (nd S a))) = owned S a" "distinct (expand (slot_ranges (nd S a)))"
  "\<forall>j \<in> set (expand (slot_ranges (nd S a))). j < CLUSTER_SLOTS"
  by (auto simp: slot_ranges_exact(1) owned_def)

lemma node_words_fields:
  "node_words a S ! 0 = cstr (ip (nd S a)) @ 58 # dec_int (port (nd S a)) @ 64 # dec_int (cport (nd S a))"
  "node_words a S ! 1 = representClusterNodeFlags [] (flags (nd S a))"
  "node_words a S ! 2 = (case slaveof (nd S a) of Some m \<Rightarrow> node_word (nd S m) | None \<Rightarrow> [45])"
  "node_words a S ! 5 = dec_bytes (unat (configEpoch (nd S a)))"
  "\<not> length (node_words a S) < 7"
  "drop 7 (node_words a S) = map range_word (slot_ranges (nd S a)) @
     (if is_myself S a then concat (map (open_word S) [0..<CLUSTER_SLOTS]) else [])"
  by (simp_all add: node_words_def Let_def is_myself_def)

lemma loadsD:
  assumes "loads R n g s t"
  shows "load_ok t" "n \<in> live t" "live s \<subseteq> live t" "\<forall>a \<in> live s. name (nd t a) = name (nd s a)"
  using assms by (auto simp: loads_def)

text \<open>Everything in a line but the open slots.\<close>

lemma load_fields:
  assumes ok: "load_ok s" "n \<in> live s" and line: "line_ok N S a" and my: "is_myself S a \<longrightarrow> \<not> h"
    and blank: "node_conf s n = blank" and free: "\<forall>x c. conf_of s x = Some c \<longrightarrow> c_slots c \<inter> owned S a = {}"
  shows "\<exists>t R. (andthen (load_address n (node_words a S ! 0) s) (\<lambda>s.
      andthen (load_each (split_on 44 (cstr (node_words a S ! 1))) (load_flag n) (h, s)) (\<lambda>(have, s).
      andthen (load_master n (node_words a S ! 2) s) (\<lambda>s.
      andthen (load_each (map range_word (slot_ranges (nd S a))) (load_slot n) (load_times n (nm # node_words a S) s)) (\<lambda>s. Inr (have, s)))))) =
      Inr (h \<or> is_myself S a, t) \<and> R \<subseteq> N \<and> loads R n (\<lambda>_. node_conf S a) s t \<and>
      load_frame t = load_frame (if is_myself S a then s\<lparr>myself := n\<rparr> else s)"
proof -
  let ?x = "nd S a"
  obtain s1 where s1: "load_address n (node_words a S ! 0) s = Inr s1" "load_frame s1 = load_frame s"
    "loads {} n (\<lambda>c. c\<lparr>c_ip := ip ?x, c_port := port ?x, c_cport := cport ?x\<rparr>) s s1"
    using load_address_effect [OF ok, of ?x] line by (auto simp: line_ok_def node_words_fields)
  note d1 = loadsD [OF s1(3)]
  obtain s2 where s2: "load_each (split_on 44 (cstr (node_words a S ! 1))) (load_flag n) (h, s1) = Inr (h \<or> is_myself S a, s2)"
    "loads {} n (\<lambda>c. c\<lparr>c_flags := c_flags c OR (flags ?x AND saved_flags)\<rparr>) s1 s2"
    "load_frame s2 = load_frame (if is_myself S a then s1\<lparr>myself := n\<rparr> else s1)"
    using load_flags_effect [OF d1(1,2), of "flags ?x" h] my by (auto simp: is_myself_def node_words_fields simp del: One_nat_def)
  note d2 = loadsD [OF s2(2)]
  obtain s3 R where s3: "load_master n (node_words a S ! 2) s2 = Inr s3" "load_frame s3 = load_frame s2" "R \<subseteq> N"
    "loads R n (\<lambda>c. case slaveof ?x of None \<Rightarrow> c | Some m \<Rightarrow> c\<lparr>c_master := Some (name (nd S m))\<rparr>) s2 s3"
  proof (cases "slaveof ?x")
    case None
    then show ?thesis
      using that [of s2 "{}"] loads_id [OF d2(1,2)] by (simp add: node_words_fields load_master_none)
  next
    case (Some m)
    then have m: "name_ok (name (nd S m))" "name (nd S m) \<in> N" using line by (auto simp: line_ok_def)
    then show ?thesis
      using that [of _ "{name (nd S m)}"] load_master_effect [OF d2(1,2) m(1)] Some by (auto simp: node_words_fields node_word_name)
  qed
  note d3 = loadsD [OF s3(4)]
  define s4 where "s4 = load_times n (nm # node_words a S) s3"
  have s4: "loads {} n (\<lambda>c. c\<lparr>c_epoch := configEpoch ?x\<rparr>) s3 s4" "load_frame s4 = load_frame s3"
    using load_times_effect [OF d3(1,2), of "nm # node_words a S"] by (simp_all add: s4_def node_words_fields)
  note d4 = loadsD [OF s4(1)]
  define s5 where "s5 = fold (\<lambda>j s. snd (clusterAddSlot n j s)) (expand (slot_ranges ?x)) s4"
  have r5: "load_each (map range_word (slot_ranges ?x)) (load_slot n) s4 = Inr s5"
    using load_range_words slot_ranges_exact(2) by (simp add: s5_def)
  note l4 = loads_trans [OF loads_trans [OF loads_trans [OF s1(3) s2(2)] s3(4)] s4(1)]
  have nos: "c_slots c \<inter> owned S a = {}" if "conf_of s4 x = Some c" for x c
  proof -
    have "conf_of s (name (nd s n)) = Some blank" using conf_of_live [OF load_okD(2) [OF ok(1)] ok(2)] blank by simp
    then show ?thesis
      using that l4 free blank by (auto simp: loads_def refs_def blank_def split: if_splits option.splits)
  qed
  then have s5: "loads {} n (\<lambda>c. c\<lparr>c_slots := c_slots c \<union> owned S a\<rparr>) s4 s5" "load_frame s5 = load_frame s4"
    using addSlots_conf [OF d4(1,2), of "expand (slot_ranges ?x)"] expand_owned [of S a] by (auto simp: s5_def)
  have "node_conf S a = (case slaveof ?x of None \<Rightarrow> blank | Some m \<Rightarrow> blank\<lparr>c_master := Some (name (nd S m))\<rparr>)
      \<lparr>c_ip := ip ?x, c_port := port ?x, c_cport := cport ?x, c_flags := flags ?x AND saved_flags, c_epoch := configEpoch ?x, c_slots := owned S a\<rparr>"
    by (cases "slaveof ?x") (simp_all add: node_conf_fields blank_def)
  then have "loads R n (\<lambda>_. node_conf S a) s s5"
    using loads_trans [OF l4 s5(1)] blank by (cases "slaveof ?x") (simp_all add: loads_def blank_def)
  moreover have "load_frame s5 = load_frame (if is_myself S a then s\<lparr>myself := n\<rparr> else s)"
    using s1(2) s2(3) s3(2) s4(2) s5(2) by (simp add: load_frame_def open_slots_def split: if_splits)
  ultimately show ?thesis
    using s1(1) s2(1) s3(1,3) r5 by (intro exI [of _ s5] exI [of _ R]) (simp add: s4_def)
qed


lemma load_node_effect:
  assumes ok: "load_ok s" and line: "line_ok N S a" and my: "is_myself S a \<longrightarrow> \<not> h \<and> open_ok N S \<and> open_names s = (\<lambda>_. None, \<lambda>_. None)"
    and new: "conf_of s (name (nd S a)) = None \<or> conf_of s (name (nd S a)) = Some blank"
    and free: "\<forall>x c. conf_of s x = Some c \<longrightarrow> c_slots c \<inter> owned S a = {}"
  shows "\<exists>t R n. load_node (node_word (nd S a) # node_words a S) (h, s) = Inr (h \<or> is_myself S a, t) \<and> load_ok t \<and>
    n \<in> live t \<and> name (nd t n) = name (nd S a) \<and> live s \<subseteq> live t \<and> (\<forall>b \<in> live s. name (nd t b) = name (nd s b)) \<and>
    R \<subseteq> N \<and> conf_of t = (refs R (conf_of s))(name (nd S a) \<mapsto> node_conf S a) \<and>
    epochs t = (if is_myself S a then n else myself s, currentEpoch s, lastVoteEpoch s) \<and>
    open_names t = (if is_myself S a then saved_open S else open_names s)"
proof -
  let ?nm = "name (nd S a)"
  have nm: "name_ok ?nm" using line by (simp add: line_ok_def)
  obtain n s0 where s0: "load_ref (?nm @ []) s = Inr (n, s0)" "load_ok s0" "n \<in> live s0" "name (nd s0 n) = ?nm"
    "conf_of s0 = refs {?nm} (conf_of s)" "load_frame s0 = load_frame s" "live s \<subseteq> live s0" "\<forall>b \<in> live s. name (nd s0 b) = name (nd s b)"
    using load_ref_effect [OF ok, of ?nm "[]"] nm by (auto simp: name_ok_def)
  have blank: "node_conf s0 n = blank"
    using conf_of_live [OF load_okD(2) [OF s0(2)] s0(3)] s0(4,5) new by (auto simp: refs_def split: if_splits)
  have free0: "\<forall>x c. conf_of s0 x = Some c \<longrightarrow> c_slots c \<inter> owned S a = {}"
    using free s0(5) by (auto simp: refs_def blank_def split: if_splits)
  obtain u R where u: "andthen (load_address n (node_words a S ! 0) s0) (\<lambda>s.
      andthen (load_each (split_on 44 (cstr (node_words a S ! 1))) (load_flag n) (h, s)) (\<lambda>(have, s).
      andthen (load_master n (node_words a S ! 2) s) (\<lambda>s.
      andthen (load_each (map range_word (slot_ranges (nd S a))) (load_slot n) (load_times n (?nm # node_words a S) s)) (\<lambda>s. Inr (have, s))))) =
      Inr (h \<or> is_myself S a, u)" and R: "R \<subseteq> N"
    and l: "loads R n (\<lambda>_. node_conf S a) s0 u" and fr: "load_frame u = load_frame (if is_myself S a then s0\<lparr>myself := n\<rparr> else s0)"
    using load_fields [OF s0(2,3) line _ blank free0, where h = h and nm = ?nm] my by blast
  note d = loadsD [OF l]
  have names: "live s \<subseteq> live u" "\<forall>b \<in> live s. name (nd u b) = name (nd s b)"
    using s0(7,8) d by auto
  have op: "open_slots u = open_slots s" and ep: "epochs u = (if is_myself S a then n else myself s, currentEpoch s, lastVoteEpoch s)"
    using fr s0(6) by (auto simp: load_frame_def epochs_def open_slots_def split: if_splits)
  have on: "open_names u = open_names s" using open_names_same [OF ok op names(2)] .
  have conf: "conf_of u = (refs R (conf_of s))(?nm \<mapsto> node_conf S a)"
    using l s0(4,5) by (auto simp: loads_def refs_def fun_eq_iff)
  have more: "\<exists>t R'. load_each (if is_myself S a then concat (map (open_word S) [0..<CLUSTER_SLOTS]) else []) (load_slot n) u = Inr t \<and>
    load_ok t \<and> live u \<subseteq> live t \<and> (\<forall>b \<in> live u. name (nd t b) = name (nd u b)) \<and> R' \<subseteq> N \<and> conf_of t = refs R' (conf_of u) \<and>
    epochs t = epochs u \<and> open_names t = (if is_myself S a then saved_open S else open_names s)"
  proof (cases "is_myself S a")
    case True
    then show ?thesis using load_open_slots [OF d(1), of N S n] my on by simp
  next
    case False
    then show ?thesis using d(1) on by (intro exI [of _ u] exI [of _ "{}"]) simp
  qed
  then obtain t R' where t: "load_each (if is_myself S a then concat (map (open_word S) [0..<CLUSTER_SLOTS]) else []) (load_slot n) u = Inr t"
    "load_ok t" "live u \<subseteq> live t" "\<forall>b \<in> live u. name (nd t b) = name (nd u b)" "R' \<subseteq> N" "conf_of t = refs R' (conf_of u)"
    "epochs t = epochs u" "open_names t = (if is_myself S a then saved_open S else open_names s)" by blast
  have argv: "drop 8 (?nm # node_words a S) = map range_word (slot_ranges (nd S a)) @
      (if is_myself S a then concat (map (open_word S) [0..<CLUSTER_SLOTS]) else [])"
    "(?nm # node_words a S) ! 1 = node_words a S ! 0" "(?nm # node_words a S) ! 2 = node_words a S ! 1"
    "(?nm # node_words a S) ! 3 = node_words a S ! 2" "\<not> length (?nm # node_words a S) < 8"
    using node_words_fields(5,6) [of a S] by (simp_all add: numeral_eq_Suc)
  have "load_node (?nm # node_words a S) (h, s) = Inr (h \<or> is_myself S a, t)"
    using s0(1) u t(1) node_words_fields(5) [of a S] unfolding load_node_def split_conv argv
    by (auto simp: load_each_append andthen_def split: sum.splits simp del: length_Cons)
  moreover have "R' \<union> R \<subseteq> N" using R t(5) by simp
  moreover have "conf_of t = (refs (R' \<union> R) (conf_of s))(?nm \<mapsto> node_conf S a)" using t(6) conf by simp
  moreover have "n \<in> live t" "name (nd t n) = ?nm" using d(2,4) s0(3,4) t(3,4) by auto
  moreover have "live s \<subseteq> live t" "\<forall>b \<in> live s. name (nd t b) = name (nd s b)" using names t(3,4) by auto
  ultimately show ?thesis using t(2,7,8) ep nm unfolding node_word_name [OF nm]
    by (intro exI [of _ t] exI [of _ "R' \<union> R"] exI [of _ n]) simp
qed


section \<open>Lines\<close>

lemma strcaseeq_length: "strcaseeq a b \<Longrightarrow> length a = length b"
  using map_eq_imp_length_eq by (auto simp: strcaseeq_def)

lemma plain_address:
  assumes "list_all (\<lambda>c. \<not> isspace c \<and> c \<noteq> 0 \<and> c \<noteq> 34 \<and> c \<noteq> 39) p" and "plain_token q" and "plain_token r"
  shows "plain_token (cstr p @ 58 # q @ 64 # r)"
proof -
  have "cstr p = p" unfolding cstr_def using assms(1) by (intro takeWhile_nonzero) (auto simp: list_all_iff)
  then show ?thesis using assms by (simp add: plain_token_def isspace_def)
qed

lemma plain_no_newline: "plain_token t \<Longrightarrow> 10 \<notin> set t"
proof
  assume "plain_token t" "10 \<in> set t"
  then have "\<not> isspace 10" by (auto simp: plain_token_def list_all_iff)
  then show False by (simp add: isspace_def)
qed

lemma plain_range: "plain_token (range_word r)"
  using plain_dec_bytes by (cases r) (simp add: range_word_def plain_token_def isspace_def)

lemma plain_open:
  assumes "open_ok N S" and "j < CLUSTER_SLOTS"
  shows "list_all plain_token (open_word S j)"
proof -
  have plain: "plain_token (91 # dec_bytes j @ [45, d, 45] @ nm @ [93])" if "name_ok nm" "d = 62 \<or> d = 60" for d nm
    using that plain_name [OF that(1)] plain_dec_bytes [of j] by (auto simp: plain_token_def isspace_def)
  have names: "\<forall>x. fst (saved_open S) j = Some x \<or> snd (saved_open S) j = Some x \<longrightarrow> name_ok x"
    using assms(1) by (auto simp: open_ok_def)
  from open_word_saved [OF assms(2) names] show ?thesis
    by (elim disjE conjE exE) (use plain names in simp_all)
qed

lemma plain_words:
  assumes "line_ok N S a" and "is_myself S a \<longrightarrow> open_ok N S"
  shows "list_all plain_token (node_word (nd S a) # node_words a S)"
proof -
  let ?x = "nd S a"
  have nm: "plain_token (node_word y)" if "name_ok (name y)" for y
    using plain_name [OF that] node_word_name [OF that] by simp
  have "plain_token (cstr (ip ?x) @ 58 # dec_int (port ?x) @ 64 # dec_int (cport ?x))"
    using assms(1) by (intro plain_address plain_dec_int) (simp add: line_ok_def addr_ok_def)
  moreover have "plain_token (case slaveof ?x of Some m \<Rightarrow> node_word (nd S m) | None \<Rightarrow> [45])"
    using assms(1) nm by (cases "slaveof ?x") (simp_all add: line_ok_def plain_token_def isspace_def)
  moreover have "plain_token (str ''connected'')" "plain_token (str ''disconnected'')"
    by (simp_all add: plain_token_def str_def isspace_def)
  moreover have "list_all plain_token (if is_myself S a then concat (map (open_word S) [0..<CLUSTER_SLOTS]) else [])"
    using assms(2) plain_open [of N S] by (auto simp: list_all_iff)
  moreover have "list_all plain_token (map range_word (slot_ranges ?x))"
    using plain_range by (simp add: list_all_iff)
  ultimately show ?thesis
    using assms(1) nm by (simp add: node_words_def Let_def line_ok_def is_myself_def plain_dec_int plain_dec_bytes plain_flags)
qed

lemma load_description:
  assumes line: "line_ok N S a" and op: "is_myself S a \<longrightarrow> open_ok N S"
  shows "load_line (clusterGenNodeDescription a S @ [10]) (h, s) = load_node (node_word (nd S a) # node_words a S) (h, s)"
    and "10 \<notin> set (clusterGenNodeDescription a S)"
proof -
  note plain = plain_words [OF assms]
  show "10 \<notin> set (clusterGenNodeDescription a S)"
    using plain plain_no_newline by (auto simp: description_words list_all_iff)
  have split: "sdssplitargs (clusterGenNodeDescription a S @ [10]) = Some (node_word (nd S a) # node_words a S)"
    using sdssplitargs_words [OF plain] by (simp add: description_words)
  have nm: "name_ok (name (nd S a))" using line by (simp add: line_ok_def)
  then have w: "node_word (nd S a) = name (nd S a)" "length (name (nd S a)) = 40"
    by (simp_all add: node_word_name name_ok_def CLUSTER_NAMELEN_def)
  then have "\<not> strcaseeq (cstr (node_word (nd S a))) (str ''vars'')"
    using plain_cstr [OF plain_name [OF nm]] strcaseeq_length [of "name (nd S a)" "str ''vars''"] by (auto simp: str_def)
  moreover obtain c r where c: "name (nd S a) = c # r" using w(2) by (cases "name (nd S a)") auto
  moreover have "c \<noteq> 10 \<and> c \<noteq> 0" using name_chars [OF nm, of c] c by simp
  ultimately show "load_line (clusterGenNodeDescription a S @ [10]) (h, s) = load_node (node_word (nd S a) # node_words a S) (h, s)"
    using split w(1) by (simp add: load_line_def description_words)
qed


section \<open>A line fits the buffer\<close>

lemma length_words: "length (concat (map ((#) 32) ws)) = sum_list (map (\<lambda>w. Suc (length w)) ws)"
  by (simp add: length_concat comp_def)

lemma length_dec_int: "- (10 ^ Suc k) < i \<Longrightarrow> i < 10 ^ Suc k \<Longrightarrow> length (dec_int i) \<le> Suc (Suc k)"
proof -
  assume "- (10 ^ Suc k) < i" "i < 10 ^ Suc k"
  then have "nat i < 10 ^ Suc k" "nat (- i) < 10 ^ Suc k" by (cases "0 \<le> i"; simp add: nat_less_iff)+
  then show ?thesis
    using length_dec_bytes_le [of "nat i" k] length_dec_bytes_le [of "nat (- i)" k] by (simp add: dec_int_def del: power_Suc)
qed

lemma length_ranges: "\<forall>(a, b) \<in> set rs. a \<le> b \<and> b < CLUSTER_SLOTS \<Longrightarrow>
    sum_list (map (\<lambda>w. Suc (length w)) (map range_word rs)) \<le> 12 * length (expand rs)"
proof (induction rs)
  case (Cons r rs)
  obtain a b where r: "r = (a, b)" by force
  then have "a \<le> b" "b < 10 ^ Suc 4" using Cons.prems by (simp_all add: CLUSTER_SLOTS_def)
  then have "length (range_word r) \<le> 11"
    using length_dec_bytes_le [of a 4] length_dec_bytes_le [of b 4] by (simp add: r range_word_def)
  moreover have "1 \<le> length [a..<Suc b]" using \<open>a \<le> b\<close> by simp
  moreover have "length (expand (r # rs)) = length [a..<Suc b] + length (expand rs)" by (simp add: r expand_def)
  ultimately show ?case using Cons by (simp del: upt_Suc)
qed simp

lemma length_open_words: "\<forall>j \<in> set js. j < CLUSTER_SLOTS \<Longrightarrow>
    sum_list (map (\<lambda>w. Suc (length w)) (concat (map (open_word S) js))) \<le> 51 * length js"
proof (induction js)
  case (Cons j js)
  have "j < 10 ^ Suc 4" using Cons.prems by (simp add: CLUSTER_SLOTS_def)
  then have "length (dec_bytes j) \<le> 5" using length_dec_bytes_le [of j 4] by simp
  moreover have "length (cstr (take 40 x)) \<le> 40" for x
    using length_takeWhile_le [of "\<lambda>b. b \<noteq> 0" "take 40 x"] by (simp add: cstr_def)
  ultimately have "length (dec_bytes j) + length (cstr (take 40 x)) \<le> 5 + 40" for x
    by (rule add_mono)
  then have "sum_list (map (\<lambda>w. Suc (length w)) (open_word S j)) \<le> 51"
    by (auto simp: open_word_def split: option.splits)
  then show ?case using Cons by simp
qed simp

lemma length_flags: "length (representClusterNodeFlags [] fl) \<le> 60"
proof -
  have "length (concat (map (\<lambda>t. t @ [44]) (flag_words fl))) \<le> 60"
  proof (cases "flag_entries fl = []")
    case False
    have "sum_list (map (\<lambda>e. Suc (length (snd e))) (flag_entries fl)) \<le> sum_list (map (\<lambda>e. Suc (length (snd e))) flag_names)"
      unfolding flag_entries_def by (rule sum_list_filter_le_nat)
    also have "\<dots> \<le> 60" by (simp add: flag_names_simps str_def)
    finally show ?thesis using False by (simp add: flag_words_def length_concat comp_def)
  qed (simp add: flag_words_def str_def)
  then show ?thesis by (simp add: represent_flags)
qed

text \<open>
  The node with the longest line owns every other slot and has the others open; the buffer
  of \<open>clusterLoadConfig\<close> has room for more than twice that.
\<close>

lemma length_description:
  assumes "line_ok N S a"
  shows "length (clusterGenNodeDescription a S) < MAXLINE - 1"
proof -
  let ?x = "nd S a" and ?len = "\<lambda>ws. sum_list (map (\<lambda>w. Suc (length w)) ws)"
  define opn where "opn = (if is_myself S a then concat (map (open_word S) [0..<CLUSTER_SLOTS]) else [])"
  have names: "length (node_word y) \<le> 40" for y
    using length_takeWhile_le [of "\<lambda>b. b \<noteq> 0" "take 40 (name y)"] by (simp add: node_word_def cstr_def)
  have ports: "length (dec_int (port ?x)) \<le> 11" "length (dec_int (cport ?x)) \<le> 11"
    using assms length_dec_int [of 9 "port ?x"] length_dec_int [of 9 "cport ?x"] by (simp_all add: line_ok_def addr_ok_def)
  have times: "length (dec_int (ping_sent ?x)) \<le> 20" "length (dec_int (pong_received ?x)) \<le> 20"
    using assms length_dec_int [of 18 "ping_sent ?x"] length_dec_int [of 18 "pong_received ?x"] by (simp_all add: line_ok_def time_ok_def)
  have ip: "length (cstr (ip ?x)) \<le> 46"
    using assms length_takeWhile_le [of "\<lambda>b. b \<noteq> 0" "ip ?x"] by (simp add: line_ok_def addr_ok_def cstr_def NET_IP_STR_LEN_def)
  have ranges: "?len (map range_word (slot_ranges ?x)) \<le> 12 * CLUSTER_SLOTS"
  proof -
    have "length (expand (slot_ranges ?x)) \<le> CLUSTER_SLOTS"
      unfolding slot_ranges_exact(1) using length_filter_le [of _ "[0..<CLUSTER_SLOTS]"] by simp
    then show ?thesis using length_ranges [OF slot_ranges_exact(2), of ?x] by linarith
  qed
  have opens: "?len opn \<le> 51 * CLUSTER_SLOTS"
    using length_open_words [of "[0..<CLUSTER_SLOTS]" S] by (simp add: opn_def)
  have master: "length (case slaveof ?x of Some m \<Rightarrow> node_word (nd S m) | None \<Rightarrow> [45]) \<le> 40"
    using names by (simp split: option.splits)
  have conn: "length (if c then str ''connected'' else str ''disconnected'') \<le> 12" for c by (simp add: str_def)
  have words: "node_words a S = [cstr (ip ?x) @ 58 # dec_int (port ?x) @ 64 # dec_int (cport ?x), representClusterNodeFlags [] (flags ?x),
      (case slaveof ?x of Some m \<Rightarrow> node_word (nd S m) | None \<Rightarrow> [45]), dec_int (ping_sent ?x), dec_int (pong_received ?x),
      dec_bytes (unat (configEpoch ?x)), (if link ?x \<noteq> None \<or> is_myself S a then str ''connected'' else str ''disconnected'')] @
      map range_word (slot_ranges ?x) @ opn"
    by (simp add: node_words_def Let_def opn_def is_myself_def)
  have "length (clusterGenNodeDescription a S) = length (node_word ?x) + ?len (node_words a S)"
    by (simp add: description_words length_words)
  also have "\<dots> \<le> 340 + 63 * CLUSTER_SLOTS"
    using names [of ?x] ports times ip ranges opens master conn [of "link ?x \<noteq> None \<or> is_myself S a"] length_flags [of "flags ?x"] length_dec_bytes_word [of "configEpoch ?x"]
    unfolding words map_append sum_list_append list.map sum_list.Cons sum_list.Nil length_append length_Cons
    by linarith
  finally show ?thesis by (simp add: MAXLINE_def CLUSTER_SLOTS_def)
qed


section \<open>The lines of the nodes\<close>

definition confs :: "server \<Rightarrow> naddr list \<Rightarrow> bytes \<Rightarrow> conf option" where
  "confs S as = map_of (map (\<lambda>a. (name (nd S a), node_conf S a)) as)"

text \<open>The nodes \<open>as\<close> still have to be loaded: at most one of them is the node itself.\<close>

definition to_load :: "bytes set \<Rightarrow> server \<Rightarrow> naddr list \<Rightarrow> loading \<Rightarrow> bool" where
  "to_load N S as = (\<lambda>(h, s).
     load_ok s \<and> distinct (map (\<lambda>a. name (nd S a)) as) \<and> (\<forall>a \<in> set as. line_ok N S a) \<and> open_ok N S \<and>
     (\<forall>a \<in> set as. \<forall>b \<in> set as. a \<noteq> b \<longrightarrow> owned S a \<inter> owned S b = {} \<and> \<not> (is_myself S a \<and> is_myself S b)) \<and>
     (\<forall>a \<in> set as. conf_of s (name (nd S a)) = None \<or> conf_of s (name (nd S a)) = Some blank) \<and>
     (\<forall>a \<in> set as. \<forall>x c. conf_of s x = Some c \<longrightarrow> c_slots c \<inter> owned S a = {}) \<and>
     (\<forall>a \<in> set as. is_myself S a \<longrightarrow> \<not> h \<and> open_names s = (\<lambda>_. None, \<lambda>_. None)))"

lemma load_lines:
  assumes "to_load N S as (h, s)"
  shows "\<exists>t R. load_each (map (\<lambda>a. clusterGenNodeDescription a S @ [10]) as) load_line (h, s) =
      Inr (h \<or> (\<exists>a \<in> set as. is_myself S a), t) \<and> load_ok t \<and> live s \<subseteq> live t \<and> (\<forall>b \<in> live s. name (nd t b) = name (nd s b)) \<and>
    R \<subseteq> N \<and> conf_of t = refs R (conf_of s) ++ confs S as \<and> currentEpoch t = currentEpoch s \<and> lastVoteEpoch t = lastVoteEpoch s \<and>
    (\<forall>a \<in> set as. is_myself S a \<longrightarrow> myself t \<in> live t \<and> name (me t) = name (nd S a)) \<and>
    ((\<forall>a \<in> set as. \<not> is_myself S a) \<longrightarrow> myself t = myself s) \<and>
    open_names t = (if \<exists>a \<in> set as. is_myself S a then saved_open S else open_names s)"
  using assms
proof (induction as arbitrary: h s)
  case Nil
  then show ?case by (intro exI [of _ s] exI [of _ "{}"]) (simp add: to_load_def confs_def)
next
  case (Cons a as)
  let ?nm = "name (nd S a)"
  from Cons.prems have ok: "load_ok s" and line: "line_ok N S a" and op: "open_ok N S" and
    my: "is_myself S a \<longrightarrow> \<not> h \<and> open_ok N S \<and> open_names s = (\<lambda>_. None, \<lambda>_. None)" and
    new: "conf_of s ?nm = None \<or> conf_of s ?nm = Some blank" and
    free: "\<forall>x c. conf_of s x = Some c \<longrightarrow> c_slots c \<inter> owned S a = {}"
    by (auto simp: to_load_def)
  obtain u R n where u: "load_node (node_word (nd S a) # node_words a S) (h, s) = Inr (h \<or> is_myself S a, u)" "load_ok u"
    "n \<in> live u" "name (nd u n) = ?nm" "live s \<subseteq> live u" "\<forall>b \<in> live s. name (nd u b) = name (nd s b)"
    "R \<subseteq> N" "conf_of u = (refs R (conf_of s))(?nm \<mapsto> node_conf S a)"
    "epochs u = (if is_myself S a then n else myself s, currentEpoch s, lastVoteEpoch s)"
    "open_names u = (if is_myself S a then saved_open S else open_names s)"
    using load_node_effect [OF ok line my new free] by blast
  have first: "load_line (clusterGenNodeDescription a S @ [10]) (h, s) = Inr (h \<or> is_myself S a, u)"
    using load_description(1) [OF line, of h s] op u(1) by simp
  have other: "?nm \<noteq> name (nd S b)" if "b \<in> set as" for b
    using Cons.prems that by (force simp: to_load_def)
  have neq: "a \<noteq> b" if "b \<in> set as" for b using other [OF that] by auto
  have "to_load N S as (h \<or> is_myself S a, u)"
  proof -
    have "conf_of u (name (nd S b)) = None \<or> conf_of u (name (nd S b)) = Some blank" if "b \<in> set as" for b
      using Cons.prems that other [OF that] u(8) by (auto simp: to_load_def refs_def)
    moreover have "c_slots c \<inter> owned S b = {}" if "b \<in> set as" "conf_of u x = Some c" for b x c
    proof (cases "x = ?nm")
      case True
      then have "c_slots c = owned S a" using that(2) u(8) by (auto simp: node_conf_fields)
      then show ?thesis using Cons.prems that(1) neq [OF that(1)] by (simp add: to_load_def)
    next
      case False
      then have "c = blank \<or> conf_of s x = Some c" using that(2) u(8) by (auto simp: refs_def split: if_splits)
      moreover have "\<forall>x c. conf_of s x = Some c \<longrightarrow> c_slots c \<inter> owned S b = {}"
        using Cons.prems that(1) by (simp add: to_load_def)
      ultimately show ?thesis by (auto simp: blank_def)
    qed
    moreover have "\<not> (h \<or> is_myself S a) \<and> open_names u = (\<lambda>_. None, \<lambda>_. None)" if "b \<in> set as" "is_myself S b" for b
      using Cons.prems that neq [OF that(1)] u(10) by (auto simp: to_load_def)
    moreover have "distinct (map (\<lambda>a. name (nd S a)) as)" "\<forall>b \<in> set as. line_ok N S b"
      "\<forall>a \<in> set as. \<forall>b \<in> set as. a \<noteq> b \<longrightarrow> owned S a \<inter> owned S b = {} \<and> \<not> (is_myself S a \<and> is_myself S b)"
      using Cons.prems by (simp_all add: to_load_def)
    ultimately show ?thesis using u(2) op unfolding to_load_def split_conv by blast
  qed
  from Cons.IH [OF this] obtain t R' where t: "load_each (map (\<lambda>a. clusterGenNodeDescription a S @ [10]) as) load_line (h \<or> is_myself S a, u) =
      Inr ((h \<or> is_myself S a) \<or> (\<exists>b \<in> set as. is_myself S b), t)" "load_ok t" "live u \<subseteq> live t" "\<forall>b \<in> live u. name (nd t b) = name (nd u b)"
    "R' \<subseteq> N" "conf_of t = refs R' (conf_of u) ++ confs S as" "currentEpoch t = currentEpoch u" "lastVoteEpoch t = lastVoteEpoch u"
    "\<forall>b \<in> set as. is_myself S b \<longrightarrow> myself t \<in> live t \<and> name (me t) = name (nd S b)"
    "(\<forall>b \<in> set as. \<not> is_myself S b) \<longrightarrow> myself t = myself u"
    "open_names t = (if \<exists>b \<in> set as. is_myself S b then saved_open S else open_names u)"
    by blast
  have "confs S as ?nm = None" using other by (force simp: confs_def map_of_eq_None_iff)
  then have "refs R' ((refs R (conf_of s))(?nm \<mapsto> node_conf S a)) ++ confs S as =
      refs (R' \<union> R) (conf_of s) ++ (confs S as)(?nm \<mapsto> node_conf S a)"
    by (simp add: map_add_upd_left domIff)
  then have conf: "conf_of t = refs (R' \<union> R) (conf_of s) ++ confs S (a # as)" using t(6) u(8) by (simp add: confs_def)
  have lone: "\<forall>b \<in> set as. \<not> is_myself S b" if "is_myself S a"
    using Cons.prems that neq by (auto simp: to_load_def)
  have ep: "currentEpoch u = currentEpoch s" "lastVoteEpoch u = lastVoteEpoch s" "myself u = (if is_myself S a then n else myself s)"
    using u(9) by (simp_all add: epochs_def)
  have "load_each (map (\<lambda>a. clusterGenNodeDescription a S @ [10]) (a # as)) load_line (h, s) =
      Inr (h \<or> (\<exists>b \<in> set (a # as). is_myself S b), t)"
    using first t(1) by (simp add: disj_assoc)
  moreover have "\<forall>b \<in> set (a # as). is_myself S b \<longrightarrow> myself t \<in> live t \<and> name (me t) = name (nd S b)"
    using t(3,4,9,10) lone ep(3) u(3,4) by auto
  moreover have "(\<forall>b \<in> set (a # as). \<not> is_myself S b) \<longrightarrow> myself t = myself s" using t(10) ep(3) by auto
  moreover have "open_names t = (if \<exists>b \<in> set (a # as). is_myself S b then saved_open S else open_names s)"
    using t(11) u(10) by auto
  moreover have "live s \<subseteq> live t" "\<forall>b \<in> live s. name (nd t b) = name (nd s b)" using t(3,4) u(5,6) by auto
  moreover have "R' \<union> R \<subseteq> N" using t(5) u(7) by simp
  ultimately show ?case using t(2,7,8) ep(1,2) conf by (intro exI [of _ t] exI [of _ "R' \<union> R"]) simp
qed


section \<open>The file\<close>

definition saved_nodes :: "server \<Rightarrow> naddr list" where
  "saved_nodes S = map snd (filter (\<lambda>(nm, a). \<not> nodeInHandshake (nd S a)) (nodes S))"

definition saved_names :: "server \<Rightarrow> bytes set" where
  "saved_names S = (\<lambda>a. name (nd S a)) ` set (saved_nodes S)"

definition vars_line :: "server \<Rightarrow> bytes" where
  "vars_line S = str ''vars'' @ concat (map ((#) 32) [str ''currentEpoch'', dec_bytes (unat (currentEpoch S)),
     str ''lastVoteEpoch'', dec_bytes (unat (lastVoteEpoch S))])"

lemma config_file_lines:
  "config_file S = concat (map (\<lambda>l. l @ [10]) (map (\<lambda>a. clusterGenNodeDescription a S) (saved_nodes S) @ [vars_line S]))"
proof -
  have "concat (map (\<lambda>(nm, a). if flags (nd S a) AND CLUSTER_NODE_HANDSHAKE \<noteq> 0 then [] else clusterGenNodeDescription a S @ [10]) ns) =
      concat (map (\<lambda>l. l @ [10]) (map (\<lambda>a. clusterGenNodeDescription a S) (map snd (filter (\<lambda>(nm, a). \<not> nodeInHandshake (nd S a)) ns))))" for ns
    by (induction ns) (auto simp: nodeInHandshake_def)
  then show ?thesis by (simp add: config_file_def clusterGenNodesDescription_def saved_nodes_def vars_line_def str_def)
qed

lemma vars_words: "list_all plain_token (str ''vars'' # [str ''currentEpoch'', dec_bytes (unat (currentEpoch S)),
     str ''lastVoteEpoch'', dec_bytes (unat (lastVoteEpoch S))])"
  using plain_dec_bytes by (simp add: plain_token_def str_def isspace_def)

lemma load_vars:
  "load_line (vars_line S @ [10]) (h, s) = Inr (h, s\<lparr>currentEpoch := currentEpoch S, lastVoteEpoch := lastVoteEpoch S\<rparr>)"
  "10 \<notin> set (vars_line S) \<and> length (vars_line S) < MAXLINE - 1"
proof -
  let ?argv = "[str ''vars'', str ''currentEpoch'', dec_bytes (unat (currentEpoch S)), str ''lastVoteEpoch'', dec_bytes (unat (lastVoteEpoch S))]"
  have "sdssplitargs (vars_line S @ [10]) = Some ?argv"
    unfolding vars_line_def append_assoc by (rule sdssplitargs_words [OF vars_words])
  moreover have "hd ((vars_line S @ [10]) @ [0]) = 118" by (simp add: vars_line_def str_def)
  moreover have "strcaseeq (cstr (?argv ! 0)) (str ''vars'')" by (simp add: cstr_def strcaseeq_def str_def)
  moreover have "[0..<length ?argv div 2] = [0, 1]" "odd (length ?argv)" by (simp_all add: upt_rec)
  ultimately have "load_line (vars_line S @ [10]) (h, s) = Inr (h, load_var ?argv (2 * 1 + 1) (load_var ?argv (2 * 0 + 1) s))"
    unfolding load_line_def split_conv by (simp only: option.case list.distinct fold.simps id_comp comp_def) simp
  then have line: "load_line (vars_line S @ [10]) (h, s) = Inr (h, load_var ?argv 3 (load_var ?argv 1 s))" by simp
  have rd: "strtoull (dec_bytes (unat w)) = w" for w :: u64
    using strtoull_dec [of "[]" w] by (simp add: ends_number_def)
  have "load_var ?argv 1 s = s\<lparr>currentEpoch := currentEpoch S\<rparr>" for s
    by (simp add: load_var_def cstr_def strcaseeq_def str_def rd)
  moreover have "load_var ?argv 3 s = s\<lparr>lastVoteEpoch := lastVoteEpoch S\<rparr>" for s
    by (simp add: load_var_def cstr_def strcaseeq_def str_def tolower_def rd)
  ultimately show "load_line (vars_line S @ [10]) (h, s) = Inr (h, s\<lparr>currentEpoch := currentEpoch S, lastVoteEpoch := lastVoteEpoch S\<rparr>)"
    using line by simp
  show "10 \<notin> set (vars_line S) \<and> length (vars_line S) < MAXLINE - 1"
    using vars_words [of S] plain_no_newline length_dec_bytes_word [of "currentEpoch S"] length_dec_bytes_word [of "lastVoteEpoch S"]
    by (auto simp: vars_line_def list_all_iff str_def MAXLINE_def CLUSTER_SLOTS_def)
qed

text \<open>
  What a node needs so that its configuration can be saved and loaded: consistent tables,
  usable names and addresses, and no reference to a node in handshake, which is not saved.
\<close>

definition saveable :: "server \<Rightarrow> bool" where
  "saveable S \<longleftrightarrow> cluster_inv S \<and> epochs_ok S \<and> myself S \<in> set (saved_nodes S) \<and>
     (\<forall>a \<in> set (saved_nodes S). line_ok (saved_names S) S a \<and> (is_myself S a \<longleftrightarrow> a = myself S)) \<and> open_ok (saved_names S) S"

lemma saved_live: "set (saved_nodes S) \<subseteq> live S"
  by (auto simp: saved_nodes_def live_def)

lemma saved_distinct: "names_inv S \<Longrightarrow> distinct (map (\<lambda>a. name (nd S a)) (saved_nodes S))"
proof -
  assume n: "names_inv S"
  have "map (\<lambda>a. name (nd S a)) (saved_nodes S) = map fst (filter (\<lambda>(nm, a). \<not> nodeInHandshake (nd S a)) (nodes S))"
    using n by (auto simp: saved_nodes_def names_inv_def)
  then show ?thesis using n distinct_map_filter_fst by (auto simp: names_inv_def dictOk_def)
qed

lemma confs_saved:
  assumes "names_inv S"
  shows "confs S (saved_nodes S) = conf_of S |` saved_names S"
proof
  fix x
  show "confs S (saved_nodes S) x = (conf_of S |` saved_names S) x"
  proof (cases "x \<in> saved_names S")
    case True
    then obtain a where a: "a \<in> set (saved_nodes S)" "x = name (nd S a)" by (auto simp: saved_names_def)
    have "distinct (map fst (map (\<lambda>a. (name (nd S a), node_conf S a)) (saved_nodes S)))"
      using saved_distinct [OF assms] by (simp add: comp_def)
    then have "confs S (saved_nodes S) x = Some (node_conf S a)"
      unfolding confs_def a(2) by (rule map_of_is_SomeI) (use a(1) in auto)
    moreover have "conf_of S x = Some (node_conf S a)"
      using conf_of_live [OF assms] a saved_live by blast
    ultimately show ?thesis using True by simp
  next
    case False
    then show ?thesis by (auto simp: confs_def saved_names_def map_of_eq_None_iff)
  qed
qed


text \<open>The addresses of the new tables differ from the old ones; the names say the same.\<close>

lemma config_reloaded:
  assumes S: "saveable S" and s: "nodes s = []" "slots s = (\<lambda>_. None)" "migrating_slots_to s = (\<lambda>_. None)"
    "importing_slots_from s = (\<lambda>_. None)"
  shows "\<exists>t. clusterLoadConfig (Contents (config_file S)) s = Inr (C_OK, t) \<and> cluster_inv t \<and>
    conf_of t = conf_of S |` saved_names S \<and> open_names t = saved_open S \<and> name (me t) = name (me S) \<and>
    currentEpoch t = currentEpoch S \<and> lastVoteEpoch t = lastVoteEpoch S"
proof -
  let ?N = "saved_names S" and ?as = "saved_nodes S"
  let ?u = "\<lambda>t. t\<lparr>currentEpoch := currentEpoch S, lastVoteEpoch := lastVoteEpoch S\<rparr>"
  have SD: "cluster_inv S" "epochs_ok S" "myself S \<in> set ?as" "open_ok ?N S"
    "\<forall>a \<in> set ?as. line_ok ?N S a \<and> (is_myself S a \<longleftrightarrow> a = myself S)"
    using S by (simp_all add: saveable_def)
  have names: "names_inv S" "slot_inv S" using SD(1) by (simp_all add: cluster_inv_def)
  have none: "conf_of s = Map.empty" "live s = {}" using s(1)
    by (auto simp: conf_of_def clusterLookupNode_def dictFind_def live_def fun_eq_iff)
  have ok: "load_ok s" using tables_inv_start [OF s(1,2)] s none(2) by (simp add: load_ok_def)
  have disjoint: "owned S a \<inter> owned S b = {}" if "a \<in> set ?as" "b \<in> set ?as" "a \<noteq> b" for a b
  proof -
    have "a \<in> live S" "b \<in> live S" using that saved_live by auto
    then show ?thesis using that(3) slot_inv_owned [OF names(2)] by auto
  qed
  have "to_load ?N S ?as (False, s)"
    unfolding to_load_def split_conv using ok SD(4,5) disjoint saved_distinct [OF names(1)] none(1) s(3,4)
    by (auto simp: open_names_def)
  from load_lines [OF this] obtain t R where t: "load_each (map (\<lambda>a. clusterGenNodeDescription a S @ [10]) ?as) load_line (False, s) = Inr (True, t)"
    "load_ok t" "R \<subseteq> ?N" "conf_of t = refs R (conf_of s) ++ confs S ?as" "myself t \<in> live t" "name (me t) = name (me S)"
    "open_names t = saved_open S"
    using SD(3,5) by auto
  have conf: "conf_of t = conf_of S |` ?N"
  proof
    fix x
    have "conf_of S x \<noteq> None" if "x \<in> ?N"
      using that conf_of_live [OF names(1)] saved_live by (fastforce simp: saved_names_def)
    then show "conf_of t x = (conf_of S |` ?N) x"
      using t(3,4) none(1) confs_saved [OF names(1)]
      by (cases "x \<in> ?N") (auto simp: refs_def map_add_def restrict_map_def)
  qed
  have view: "inv_view (?u t) = inv_view t" by (simp add: inv_view_def view_defs)
  have inv: "cluster_inv (?u t)"
    using tables_inv_cong [OF view] load_okD(4) [OF t(2)] t(5) by (simp add: cluster_inv_tables live_def)
  have max: "\<not> clusterGetMaxEpoch (?u t) > currentEpoch (?u t)"
  proof -
    have "configEpoch (nd t a) \<le> currentEpoch S" if a: "a \<in> live t" for a
    proof -
      have "conf_of t (name (nd t a)) = Some (node_conf t a)" using conf_of_live load_okD(2) t(2) a by blast
      then have "name (nd t a) \<in> ?N" "conf_of S (name (nd t a)) = Some (node_conf t a)"
        using conf by (auto simp: restrict_map_def split: if_splits)
      then obtain b where "b \<in> live S" "node_conf S b = node_conf t a" using conf_of_SomeD [OF _ names(1)] by blast
      then show ?thesis using SD(2) by (auto simp: epochs_ok_def node_conf_fields)
    qed
    then show ?thesis unfolding clusterGetMaxEpoch_Max by (simp add: live_def not_less)
  qed
  have lines: "fgets_lines (MAXLINE - 1) (config_file S) = map (\<lambda>l. l @ [10]) (map (\<lambda>a. clusterGenNodeDescription a S) ?as @ [vars_line S])"
    unfolding config_file_lines
    by (rule fgets_lines_concat) (use load_description(2) length_description load_vars(2) SD(4,5) in \<open>auto simp: list_all_iff\<close>)
  have "load_each (fgets_lines (MAXLINE - 1) (config_file S)) load_line (False, s) = Inr (True, ?u t)"
    unfolding lines map_append load_each_append list.map map_map comp_def t(1) by (simp add: load_vars)
  moreover have "config_file S \<noteq> []" by (simp add: config_file_def)
  ultimately have "clusterLoadConfig (Contents (config_file S)) s = Inr (C_OK, ?u t)"
    using max by (simp add: clusterLoadConfig_def)
  moreover have conf': "conf_of (?u t) = conf_of t"
  proof -
    have "node_conf (?u t) = node_conf t" by (intro ext) (simp add: node_conf_def owned_def)
    then show ?thesis unfolding conf_of_def by (intro ext) (simp add: clusterLookupNode_def del: map_option_eq_Some)
  qed
  moreover have "open_names (?u t) = open_names t" by (simp add: open_names_def)
  ultimately show ?thesis using conf inv t(6,7) by simp
qed

end
