(* ===== verification/ClusterRoute.thy ===== *)
theory ClusterRoute
  imports ClusterSlots Crc16 CommandKeys
begin

text \<open>
  Serving and redirecting clients: the slot of a key (\<open>keyHashSlot\<close>), the node that
  serves a command (\<open>getNodeByQuery\<close>), the error a client gets otherwise
  (\<open>clusterRedirectClient\<close>) and the clients blocked on a slot that went away.
\<close>

section \<open>The slot of a key\<close>

text \<open>\<open>{\<close> is 123 and \<open>}\<close> is 125.\<close>

definition keyHashSlot :: "bytes \<Rightarrow> nat" where
  "keyHashSlot key =
     (let s = length (takeWhile (\<lambda>c. c \<noteq> 123) key)
      in if s = length key then unat (crc16 key AND 0x3FFF)
         else
           let rest = drop (s + 1) key;
               e = length (takeWhile (\<lambda>c. c \<noteq> 125) rest)
           in if e = length rest \<or> e = 0 then unat (crc16 key AND 0x3FFF)
              else unat (crc16 (take e rest) AND 0x3FFF))"

section \<open>Clients\<close>

definition CLIENT_MULTI :: u32 where [flag_defs]: "CLIENT_MULTI = 8"
definition CLIENT_BLOCKED :: u32 where [flag_defs]: "CLIENT_BLOCKED = 16"
definition CLIENT_ASKING :: u32 where [flag_defs]: "CLIENT_ASKING = 512"
definition CLIENT_READONLY :: u32 where "CLIENT_READONLY = 131072"

definition CLUSTER_REDIR_NONE :: int where "CLUSTER_REDIR_NONE = 0"
definition CLUSTER_REDIR_CROSS_SLOT :: int where "CLUSTER_REDIR_CROSS_SLOT = 1"
definition CLUSTER_REDIR_UNSTABLE :: int where "CLUSTER_REDIR_UNSTABLE = 2"
definition CLUSTER_REDIR_ASK :: int where "CLUSTER_REDIR_ASK = 3"
definition CLUSTER_REDIR_MOVED :: int where "CLUSTER_REDIR_MOVED = 4"
definition CLUSTER_REDIR_DOWN_STATE :: int where "CLUSTER_REDIR_DOWN_STATE = 5"
definition CLUSTER_REDIR_DOWN_UNBOUND :: int where "CLUSTER_REDIR_DOWN_UNBOUND = 6"

lemmas redir_defs = CLUSTER_REDIR_NONE_def CLUSTER_REDIR_CROSS_SLOT_def CLUSTER_REDIR_UNSTABLE_def
  CLUSTER_REDIR_ASK_def CLUSTER_REDIR_MOVED_def CLUSTER_REDIR_DOWN_STATE_def CLUSTER_REDIR_DOWN_UNBOUND_def

datatype blocking_type = BLOCKED_NONE | BLOCKED_LIST | BLOCKED_WAIT | BLOCKED_MODULE | BLOCKED_STREAM | BLOCKED_ZSET

text \<open>
  The fields of a client that routing reads: its flags, the queued commands of
  \<open>mstate\<close>, what it is blocked on and its last command.
\<close>

record client =
  c_flags :: u32
  mstate :: "(redisCommand \<times> bytes list) list"
  btype :: blocking_type
  bpop_keys :: "bytes list"
  lastcmd :: redisCommand
  c_reply :: bytes

definition askingCommand :: "bool \<Rightarrow> client \<Rightarrow> client" where
  "askingCommand cluster_enabled c =
     (if \<not> cluster_enabled
      then c\<lparr>c_reply := c_reply c @ str ''-ERR This instance has cluster support disabled'' @ [13, 10]\<rparr>
      else c\<lparr>c_flags := c_flags c OR CLIENT_ASKING, c_reply := c_reply c @ str ''+OK'' @ [13, 10]\<rparr>)"

definition readonlyCommand :: "bool \<Rightarrow> client \<Rightarrow> client" where
  "readonlyCommand cluster_enabled c =
     (if \<not> cluster_enabled
      then c\<lparr>c_reply := c_reply c @ str ''-ERR This instance has cluster support disabled'' @ [13, 10]\<rparr>
      else c\<lparr>c_flags := c_flags c OR CLIENT_READONLY, c_reply := c_reply c @ str ''+OK'' @ [13, 10]\<rparr>)"

definition readwriteCommand :: "client \<Rightarrow> client" where
  "readwriteCommand c =
     c\<lparr>c_flags := c_flags c AND NOT CLIENT_READONLY, c_reply := c_reply c @ str ''+OK'' @ [13, 10]\<rparr>"

section \<open>The node that serves a command\<close>

text \<open>
  What the loop over the keys keeps. \<open>present\<close> tells whether a key exists in
  database 0 (\<open>lookupKeyRead\<close>).
\<close>

record query =
  q_node :: "naddr option"
  q_firstkey :: "bytes option"
  q_slot :: nat
  q_multiple :: bool
  q_migrating :: bool
  q_importing :: bool
  q_missing :: nat

definition query_init :: query where
  "query_init = \<lparr>q_node = None, q_firstkey = None, q_slot = 0, q_multiple = False,
                 q_migrating = False, q_importing = False, q_missing = 0\<rparr>"

text \<open>One key; \<open>Inl\<close> is the error code of an early return.\<close>

definition query_key :: "(bytes \<Rightarrow> bool) \<Rightarrow> server \<Rightarrow> bytes \<Rightarrow> query \<Rightarrow> int + query" where
  "query_key present s thiskey q =
     (let thisslot = keyHashSlot thiskey;
          r = (case q_firstkey q of
                 None \<Rightarrow>
                   (case slots s thisslot of
                      None \<Rightarrow> Inl CLUSTER_REDIR_DOWN_UNBOUND
                    | Some n \<Rightarrow>
                        let migrating = (n = myself s \<and> migrating_slots_to s thisslot \<noteq> None)
                        in Inr (q\<lparr>q_firstkey := Some thiskey, q_slot := thisslot, q_node := Some n,
                                  q_migrating := migrating,
                                  q_importing := (\<not> migrating \<and> importing_slots_from s thisslot \<noteq> None)\<rparr>))
               | Some k \<Rightarrow>
                   if k \<noteq> thiskey
                   then if q_slot q \<noteq> thisslot then Inl CLUSTER_REDIR_CROSS_SLOT
                        else Inr (q\<lparr>q_multiple := True\<rparr>)
                   else Inr q)
      in case r of
           Inl e \<Rightarrow> Inl e
         | Inr q \<Rightarrow> Inr (if (q_migrating q \<or> q_importing q) \<and> \<not> present thiskey
                         then q\<lparr>q_missing := q_missing q + 1\<rparr> else q))"

fun query_keys :: "(bytes \<Rightarrow> bool) \<Rightarrow> server \<Rightarrow> bytes list \<Rightarrow> query \<Rightarrow> int + query" where
  "query_keys present s [] q = Inr q"
| "query_keys present s (k # ks) q =
     (case query_key present s k q of Inl e \<Rightarrow> Inl e | Inr q \<Rightarrow> query_keys present s ks q)"

fun query_commands ::
  "(redisCommand \<Rightarrow> bytes list \<Rightarrow> int list option) \<Rightarrow> (bytes \<Rightarrow> bool) \<Rightarrow> server \<Rightarrow>
   (redisCommand \<times> bytes list) list \<Rightarrow> query \<Rightarrow> (int + query) option" where
  "query_commands mk present s [] q = Some (Inr q)"
| "query_commands mk present s ((mcmd, margv) # cs) q =
     (case getKeysFromCommand mk mcmd margv of
        None \<Rightarrow> None
      | Some keyindex \<Rightarrow>
          (case query_keys present s (map (\<lambda>j. margv ! nat j) keyindex) q of
             Inl e \<Rightarrow> Some (Inl e)
           | Inr q \<Rightarrow> query_commands mk present s cs q))"

text \<open>
  The node, the slot returned by reference and the error code. The slot and the code
  are \<open>None\<close> where the function does not set them.
\<close>

definition query_result :: "client \<Rightarrow> redisCommand \<Rightarrow> server \<Rightarrow> query \<Rightarrow> naddr option \<times> nat option \<times> int option" where
  "query_result c cmd s q =
     (case q_node q of
        None \<Rightarrow> (Some (myself s), None, Some CLUSTER_REDIR_NONE)
      | Some n \<Rightarrow>
          if state s \<noteq> CLUSTER_OK then (None, None, Some CLUSTER_REDIR_DOWN_STATE)
          else
            let slot = q_slot q
            in if (q_migrating q \<or> q_importing q) \<and> cmd_proc cmd = MigrateCommand
               then (Some (myself s), Some slot, Some CLUSTER_REDIR_NONE)
               else if q_migrating q \<and> q_missing q \<noteq> 0
               then (migrating_slots_to s slot, Some slot, Some CLUSTER_REDIR_ASK)
               else if q_importing q \<and>
                       (c_flags c AND CLIENT_ASKING \<noteq> 0 \<or> cmd_flags cmd AND CMD_ASKING \<noteq> 0)
               then if q_multiple q \<and> q_missing q \<noteq> 0
                    then (None, Some slot, Some CLUSTER_REDIR_UNSTABLE)
                    else (Some (myself s), Some slot, Some CLUSTER_REDIR_NONE)
               else if c_flags c AND CLIENT_READONLY \<noteq> 0 \<and>
                       (cmd_flags cmd AND CMD_READONLY \<noteq> 0 \<or> cmd_proc cmd = EvalCommand \<or>
                        cmd_proc cmd = EvalShaCommand) \<and>
                       nodeIsSlave (me s) \<and> slaveof (me s) = Some n
               then (Some (myself s), Some slot, Some CLUSTER_REDIR_NONE)
               else (Some n, Some slot,
                     Some (if n \<noteq> myself s then CLUSTER_REDIR_MOVED else CLUSTER_REDIR_NONE)))"

definition getNodeByQuery ::
  "(redisCommand \<Rightarrow> bytes list \<Rightarrow> int list option) \<Rightarrow> (bytes \<Rightarrow> bool) \<Rightarrow> client \<Rightarrow> redisCommand \<Rightarrow>
   bytes list \<Rightarrow> server \<Rightarrow> (naddr option \<times> nat option \<times> int option) option" where
  "getNodeByQuery mk present c cmd argv s =
     (if cluster_module_flags s AND CLUSTER_MODULE_FLAG_NO_REDIRECTION \<noteq> 0
      then Some (Some (myself s), None, None)
      else if cmd_proc cmd = ExecCommand \<and> c_flags c AND CLIENT_MULTI = 0
      then Some (Some (myself s), None, Some CLUSTER_REDIR_NONE)
      else
        let commands = (if cmd_proc cmd = ExecCommand then mstate c else [(cmd, argv)])
        in (case query_commands mk present s commands query_init of
              None \<Rightarrow> None
            | Some (Inl e) \<Rightarrow> Some (None, None, Some e)
            | Some (Inr q) \<Rightarrow> Some (query_result c cmd s q)))"

section \<open>Redirections\<close>

definition clusterRedirectClient :: "naddr option \<Rightarrow> nat \<Rightarrow> int \<Rightarrow> server \<Rightarrow> client \<Rightarrow> client option" where
  "clusterRedirectClient n hashslot error_code s c =
     (let add = (\<lambda>r. Some (c\<lparr>c_reply := c_reply c @ r @ [13, 10]\<rparr>))
      in if error_code = CLUSTER_REDIR_CROSS_SLOT
         then add (str ''-CROSSSLOT Keys in request don'' @ [39] @ str ''t hash to the same slot'')
         else if error_code = CLUSTER_REDIR_UNSTABLE
         then add (str ''-TRYAGAIN Multiple keys request during rehashing of slot'')
         else if error_code = CLUSTER_REDIR_DOWN_STATE then add (str ''-CLUSTERDOWN The cluster is down'')
         else if error_code = CLUSTER_REDIR_DOWN_UNBOUND then add (str ''-CLUSTERDOWN Hash slot not served'')
         else if error_code = CLUSTER_REDIR_MOVED \<or> error_code = CLUSTER_REDIR_ASK
         then (case n of
                 None \<Rightarrow> None
               | Some n \<Rightarrow>
                   add (45 # (if error_code = CLUSTER_REDIR_ASK then str ''ASK'' else str ''MOVED'') @ 32 #
                        dec_bytes hashslot @ 32 # ip (nd s n) @ 58 # dec_int (port (nd s n))))
         else None)"

definition clusterRedirectBlockedClientIfNeeded :: "server \<Rightarrow> client \<Rightarrow> (bool \<times> client) option" where
  "clusterRedirectBlockedClientIfNeeded s c =
     (if c_flags c AND CLIENT_BLOCKED \<noteq> 0 \<and>
         (btype c = BLOCKED_LIST \<or> btype c = BLOCKED_ZSET \<or> btype c = BLOCKED_STREAM)
      then if state s = CLUSTER_FAIL
           then map_option (\<lambda>c. (True, c)) (clusterRedirectClient None 0 CLUSTER_REDIR_DOWN_STATE s c)
           else (case bpop_keys c of
                   [] \<Rightarrow> Some (False, c)
                 | key # _ \<Rightarrow>
                     let slot = keyHashSlot key;
                         node = slots s slot;
                         node = (if c_flags c AND CLIENT_READONLY \<noteq> 0 \<and>
                                    cmd_flags (lastcmd c) AND CMD_READONLY \<noteq> 0 \<and>
                                    nodeIsSlave (me s) \<and> slaveof (me s) = node
                                 then Some (myself s) else node)
                     in if node \<noteq> Some (myself s) \<and> importing_slots_from s slot = None
                        then map_option (\<lambda>c. (True, c))
                               (if node = None
                                then clusterRedirectClient None 0 CLUSTER_REDIR_DOWN_UNBOUND s c
                                else clusterRedirectClient node slot CLUSTER_REDIR_MOVED s c)
                        else Some (False, c))
      else Some (False, c))"

section \<open>Properties of the slot of a key\<close>

lemma and_3FFF_less: "unat (w AND 0x3FFF :: u16) < CLUSTER_SLOTS"
proof -
  have "w AND 0x3FFF \<le> 0x3FFF" by (rule word_and_le1)
  then show ?thesis by (simp add: word_le_nat_alt CLUSTER_SLOTS_def)
qed

lemma keyHashSlot_less: "keyHashSlot key < CLUSTER_SLOTS"
  by (simp add: keyHashSlot_def Let_def and_3FFF_less)

text \<open>With a hash tag, only the tag is hashed.\<close>

lemma keyHashSlot_tag:
  assumes "123 \<notin> set pre" "125 \<notin> set tag" "tag \<noteq> []"
  shows "keyHashSlot (pre @ 123 # tag @ 125 # post) = unat (crc16 tag AND 0x3FFF)"
proof -
  have "takeWhile (\<lambda>c. c \<noteq> 123) (pre @ 123 # tag @ 125 # post) = pre"
    using assms(1) by (induction pre) auto
  moreover have "takeWhile (\<lambda>c. c \<noteq> 125) (tag @ 125 # post) = tag"
    using assms(2) by (induction tag) auto
  ultimately show ?thesis using assms(3) by (simp add: keyHashSlot_def)
qed

section \<open>Properties of the routing\<close>

text \<open>All keys of the commands, in the order in which they are visited.\<close>

fun command_keys ::
  "(redisCommand \<Rightarrow> bytes list \<Rightarrow> int list option) \<Rightarrow> (redisCommand \<times> bytes list) list \<Rightarrow> bytes list option" where
  "command_keys mk [] = Some []"
| "command_keys mk ((mcmd, margv) # cs) =
     (case getKeysFromCommand mk mcmd margv of
        None \<Rightarrow> None
      | Some keyindex \<Rightarrow> map_option (\<lambda>ks. map (\<lambda>j. margv ! nat j) keyindex @ ks) (command_keys mk cs))"

lemma query_keys_append:
  "query_keys present s (ks @ ks') q =
     (case query_keys present s ks q of Inl e \<Rightarrow> Inl e | Inr q \<Rightarrow> query_keys present s ks' q)"
  by (induction ks arbitrary: q) (auto split: sum.splits)

lemma query_commands_keys:
  assumes "query_commands mk present s cs q = Some (Inr q')"
  shows "\<exists>ks. command_keys mk cs = Some ks \<and> query_keys present s ks q = Inr q'"
  using assms
proof (induction cs arbitrary: q)
  case (Cons c cs)
  obtain mcmd margv where c: "c = (mcmd, margv)" by fastforce
  obtain ix where ix: "getKeysFromCommand mk mcmd margv = Some ix"
    using Cons.prems c by (cases "getKeysFromCommand mk mcmd margv") auto
  obtain q1 where q1: "query_keys present s (map (\<lambda>j. margv ! nat j) ix) q = Inr q1"
    "query_commands mk present s cs q1 = Some (Inr q')"
    using Cons.prems c ix by (auto split: sum.splits)
  then show ?case using Cons.IH [OF q1(2)] c ix by (auto simp: query_keys_append)
qed simp

text \<open>What the loop over the keys has established after the keys \<open>ks\<close>.\<close>

definition query_inv :: "(bytes \<Rightarrow> bool) \<Rightarrow> server \<Rightarrow> bytes list \<Rightarrow> query \<Rightarrow> bool" where
  "query_inv present s ks q \<longleftrightarrow>
     (case ks of
        [] \<Rightarrow> q = query_init
      | k # _ \<Rightarrow>
          q_firstkey q = Some k \<and> (\<forall>k' \<in> set ks. keyHashSlot k' = q_slot q) \<and>
          q_node q = slots s (q_slot q) \<and> q_node q \<noteq> None \<and>
          q_migrating q = (slots s (q_slot q) = Some (myself s) \<and> migrating_slots_to s (q_slot q) \<noteq> None) \<and>
          q_importing q = (\<not> q_migrating q \<and> importing_slots_from s (q_slot q) \<noteq> None) \<and>
          q_multiple q = (\<exists>k' \<in> set ks. k' \<noteq> k) \<and>
          q_missing q = (if q_migrating q \<or> q_importing q then length (filter (\<lambda>k. \<not> present k) ks) else 0))"

lemma query_key_inv:
  assumes "query_inv present s ks q" "query_key present s k q = Inr q'"
  shows "query_inv present s (ks @ [k]) q'"
proof (cases ks)
  case Nil
  then have q: "q = query_init" using assms(1) by (simp add: query_inv_def)
  obtain n where n: "slots s (keyHashSlot k) = Some n"
    using assms(2) unfolding q query_key_def query_init_def Let_def by (auto split: option.splits)
  define mig where "mig = (n = myself s \<and> migrating_slots_to s (keyHashSlot k) \<noteq> None)"
  define imp where "imp = (\<not> mig \<and> importing_slots_from s (keyHashSlot k) \<noteq> None)"
  have "q' = \<lparr>q_node = Some n, q_firstkey = Some k, q_slot = keyHashSlot k, q_multiple = False, q_migrating = mig,
       q_importing = imp, q_missing = (if (mig \<or> imp) \<and> \<not> present k then 1 else 0)\<rparr>"
    using assms(2) unfolding q query_key_def query_init_def Let_def n query.simps option.case
      mig_def [symmetric] imp_def [symmetric] sum.case by (auto split: if_splits)
  then show ?thesis by (auto simp: Nil query_inv_def n mig_def imp_def)
next
  case (Cons k0 ks0)
  note inv = assms(1) [unfolded Cons query_inv_def list.case]
  have fk: "q_firstkey q = Some k0" and slot: "keyHashSlot k0 = q_slot q" using inv by simp_all
  define p where "p = (if k0 \<noteq> k then q\<lparr>q_multiple := True\<rparr> else q)"
  have same: "keyHashSlot k = q_slot q"
    using assms(2) slot by (cases "k0 = k") (auto simp: query_key_def Let_def fk split: if_splits)
  have q': "q' = (if (q_migrating p \<or> q_importing p) \<and> \<not> present k then p\<lparr>q_missing := q_missing p + 1\<rparr> else p)"
    using assms(2) same by (auto simp: query_key_def Let_def fk p_def split: if_splits)
  have p: "q_firstkey p = Some k0" "q_slot p = q_slot q" "q_node p = q_node q" "q_migrating p = q_migrating q"
    "q_importing p = q_importing q" "q_missing p = q_missing q" "q_multiple p = (q_multiple q \<or> k0 \<noteq> k)"
    using fk by (simp_all add: p_def)
  have f: "q_firstkey q' = Some k0" "q_slot q' = q_slot q" "q_node q' = q_node q" "q_migrating q' = q_migrating q"
    "q_importing q' = q_importing q" "q_multiple q' = (q_multiple q \<or> k0 \<noteq> k)"
    "q_missing q' = (if (q_migrating q \<or> q_importing q) \<and> \<not> present k then q_missing q + 1 else q_missing q)"
    using p by (simp_all add: q')
  show ?thesis
    unfolding Cons append_Cons query_inv_def list.case f
    using inv same by (intro conjI) auto
qed

lemma query_keys_inv:
  "query_inv present s ks q \<Longrightarrow> query_keys present s ks' q = Inr q' \<Longrightarrow> query_inv present s (ks @ ks') q'"
proof (induction ks' arbitrary: ks q)
  case (Cons k ks')
  obtain q1 where q1: "query_key present s k q = Inr q1" "query_keys present s ks' q1 = Inr q'"
    using Cons.prems(2) by (auto split: sum.splits)
  then show ?case using Cons.IH [OF query_key_inv [OF Cons.prems(1) q1(1)] q1(2)] by simp
qed simp

text \<open>What an answer of \<open>getNodeByQuery\<close> with a slot promises about the keys of the commands.\<close>

definition route_ok :: "(bytes \<Rightarrow> bool) \<Rightarrow> client \<Rightarrow> server \<Rightarrow> bytes list \<Rightarrow> nat \<Rightarrow> naddr \<Rightarrow> int \<Rightarrow> bool" where
  "route_ok present c s ks j n e \<longleftrightarrow>
     (if e = CLUSTER_REDIR_NONE
      then n = myself s \<and> (slots s j = Some (myself s) \<or> importing_slots_from s j \<noteq> None \<or>
             (c_flags c AND CLIENT_READONLY \<noteq> 0 \<and> nodeIsSlave (me s) \<and> slots s j = slaveof (me s)))
      else if e = CLUSTER_REDIR_ASK
      then slots s j = Some (myself s) \<and> migrating_slots_to s j = Some n \<and> (\<exists>k \<in> set ks. \<not> present k)
      else e = CLUSTER_REDIR_MOVED \<and> slots s j = Some n \<and> n \<noteq> myself s)"

lemma query_result_ok:
  assumes q: "query_inv present s ks q" and r: "query_result c cmd s q = (Some n, Some j, Some e)"
  shows "ks \<noteq> [] \<and> (\<forall>k \<in> set ks. keyHashSlot k = j) \<and> state s = CLUSTER_OK \<and> route_ok present c s ks j n e"
proof -
  have ne: "ks \<noteq> []" using q r by (cases ks) (auto simp: query_inv_def query_result_def query_init_def)
  then obtain k0 ks0 where ks: "ks = k0 # ks0" by (cases ks) auto
  have "q_node q \<noteq> None" using q ks by (auto simp: query_inv_def)
  then obtain m where m: "q_node q = Some m" by blast
  have st: "state s = CLUSTER_OK" and j: "j = q_slot q"
    using r m by (auto simp: query_result_def Let_def split: if_splits)
  have inv: "slots s j = Some m" "q_missing q = (if q_migrating q \<or> q_importing q then length (filter (\<lambda>k. \<not> present k) ks) else 0)"
    "q_migrating q \<Longrightarrow> slots s j = Some (myself s)" "q_importing q \<Longrightarrow> importing_slots_from s j \<noteq> None"
    using q m unfolding ks query_inv_def j by auto
  have "(e = CLUSTER_REDIR_NONE \<and> n = myself s \<and>
          (q_migrating q \<or> q_importing q \<or> c_flags c AND CLIENT_READONLY \<noteq> 0 \<and> nodeIsSlave (me s) \<and> slaveof (me s) = Some m)) \<or>
        (e = CLUSTER_REDIR_ASK \<and> q_migrating q \<and> q_missing q \<noteq> 0 \<and> migrating_slots_to s j = Some n) \<or>
        (n = m \<and> e = (if n \<noteq> myself s then CLUSTER_REDIR_MOVED else CLUSTER_REDIR_NONE))"
    using r m st by (auto simp: query_result_def Let_def split: if_splits)
  moreover have "q_missing q \<noteq> 0 \<Longrightarrow> \<exists>k \<in> set ks. \<not> present k"
    using inv(2) by (auto simp: filter_empty_conv split: if_splits)
  ultimately have "route_ok present c s ks j n e"
    using inv(1,3,4) by (auto simp: route_ok_def redir_defs split: if_splits)
  then show ?thesis using ne st j q ks by (simp add: query_inv_def)
qed

lemma getNodeByQuery_ok:
  assumes "getNodeByQuery mk present c cmd argv s = Some (Some n, Some j, Some e)"
  shows "\<exists>ks. command_keys mk (if cmd_proc cmd = ExecCommand then mstate c else [(cmd, argv)]) = Some ks \<and>
     ks \<noteq> [] \<and> (\<forall>k \<in> set ks. keyHashSlot k = j) \<and> state s = CLUSTER_OK \<and> route_ok present c s ks j n e"
proof -
  let ?cs = "if cmd_proc cmd = ExecCommand then mstate c else [(cmd, argv)]"
  obtain q where q: "query_commands mk present s ?cs query_init = Some (Inr q)" "query_result c cmd s q = (Some n, Some j, Some e)"
    using assms unfolding getNodeByQuery_def Let_def by (auto split: if_splits option.splits sum.splits)
  obtain ks where ks: "command_keys mk ?cs = Some ks" "query_keys present s ks query_init = Inr q"
    using query_commands_keys [OF q(1)] by blast
  have "query_inv present s ([] @ ks) q"
    by (rule query_keys_inv [OF _ ks(2)]) (simp add: query_inv_def)
  then show ?thesis using query_result_ok [OF _ q(2)] ks(1) by auto
qed

end
