(* ===== verification/ClusterReset.thy ===== *)
theory ClusterReset
  imports ClusterConfig
begin

text \<open>
  What a node does with its configuration as a whole: \<open>verifyClusterConfigWithData\<close>
  makes it agree with the keys that were loaded, \<open>clusterReset\<close> forgets it.
\<close>

section \<open>Loaded data and reset\<close>

definition verify_slot :: "nat \<Rightarrow> int \<times> server \<Rightarrow> int \<times> server" where
  "verify_slot j = (\<lambda>(update_config, s).
     if countKeysInSlot s j = 0 then (update_config, s)
     else if slots s j = Some (myself s) \<or> importing_slots_from s j \<noteq> None then (update_config, s)
     else (update_config + 1,
           if slots s j = None then snd (clusterAddSlot (myself s) j s)
           else s\<lparr>importing_slots_from := (importing_slots_from s)(j := slots s j)\<rparr>))"

definition verifyClusterConfigWithData :: "server \<Rightarrow> int \<times> server" where
  "verifyClusterConfigWithData s =
     (if cluster_module_flags s AND CLUSTER_MODULE_FLAG_NO_REDIRECTION \<noteq> 0 then (C_OK, s)
      else if nodeIsSlave (me s) then (C_OK, s)
      else if list_ex (\<lambda>n. n \<noteq> 0) (tl (db_sizes s)) then (C_ERR, s)
      else
        let (update_config, s) = fold verify_slot [0..<CLUSTER_SLOTS] (0 :: int, s)
        in (C_OK, if update_config \<noteq> 0 then clusterSaveConfigOrDie True s else s))"

text \<open>
  \<open>clusterReset\<close>: a new random name comes from the oracle of \<open>getRandomHexChars\<close>.
\<close>

definition clusterReset :: "bool \<Rightarrow> server \<Rightarrow> server option" where
  "clusterReset hard s = do {
     let s = (if nodeIsSlave (me s)
              then emptyDb (replicationUnsetMaster (clusterSetNodeAsMaster (myself s) s)) else s);
     let s = resetManualFailover (clusterCloseAllSlots s);
     s \<leftarrow> for_each [0..<CLUSTER_SLOTS] (\<lambda>j s. map_option snd (clusterDelSlot j s)) s;
     s \<leftarrow> for_each (nodes s) (\<lambda>(nm, node) s. if node = myself s then Some s else clusterDelNode node s) s;
     s \<leftarrow> (if hard then do {
            let s = upd_node (myself s) (\<lambda>x. x\<lparr>configEpoch := 0\<rparr>) (s\<lparr>currentEpoch := 0, lastVoteEpoch := 0\<rparr>);
            let s = s\<lparr>nodes := (case dictDelete (nodes s) (name (me s)) of Some d \<Rightarrow> d | None \<Rightarrow> nodes s)\<rparr>;
            let s = upd_node (myself s) (\<lambda>x. x\<lparr>name := random_hex s (random_pos s)\<rparr>)
                      (s\<lparr>random_pos := random_pos s + 1\<rparr>);
            Some (snd (clusterAddNode (myself s) s))
          } else Some s);
     Some (clusterDoBeforeSleep
             (CLUSTER_TODO_SAVE_CONFIG OR CLUSTER_TODO_UPDATE_STATE OR CLUSTER_TODO_FSYNC_CONFIG) s)
   }"

section \<open>The configuration after a reset\<close>

lemma clear_slots:
  assumes "cluster_inv s" "n \<le> CLUSTER_SLOTS"
  shows "\<exists>t. for_each [0..<n] (\<lambda>j s. map_option snd (clusterDelSlot j s)) s = Some t \<and> cluster_inv t \<and>
     slot_frame t = slot_frame s \<and> slots t = (\<lambda>j. if j < n then None else slots s j)"
  using assms(2)
proof (induction n)
  case (Suc n)
  then obtain t where t: "for_each [0..<n] (\<lambda>j s. map_option snd (clusterDelSlot j s)) s = Some t" "cluster_inv t"
    "slot_frame t = slot_frame s" "slots t = (\<lambda>j. if j < n then None else slots s j)"
    using Suc_leD by blast
  obtain r u where u: "clusterDelSlot n t = Some (r, u)" "slot_inv u" "slots u = (slots t)(n := None)"
    "slot_frame u = slot_frame t"
    using clusterDelSlot_effect [OF cluster_invD(1) [OF t(2)], of n] Suc.prems by auto
  have "cluster_inv u" by (rule cluster_inv_slots(1) [OF t(2) u(2,4)])
  moreover have "slots u = (\<lambda>j. if j < Suc n then None else slots s j)"
    by (auto simp: u(3) t(4) fun_eq_iff less_Suc_eq)
  ultimately show ?case using t(1,3) u(1,4) by (simp add: for_each_append)
qed (simp add: assms(1))

lemma forget_nodes:
  assumes "cluster_inv s" "\<forall>j < CLUSTER_SLOTS. slots s j = None" "snd ` set ns \<subseteq> live s" "distinct (map snd ns)"
  shows "\<exists>t. for_each ns (\<lambda>(nm, node) s. if node = myself s then Some s else clusterDelNode node s) s = Some t \<and>
     cluster_inv t \<and> (\<forall>j < CLUSTER_SLOTS. slots t j = None) \<and> live t = live s - (snd ` set ns - {myself s}) \<and>
     myself t = myself s \<and> epoch_view t = epoch_view s"
  using assms
proof (induction ns arbitrary: s)
  case (Cons e ns)
  obtain nm node where e: "e = (nm, node)" by fastforce
  show ?case
  proof (cases "node = myself s")
    case True
    then show ?thesis using Cons.IH [OF Cons.prems(1,2)] Cons.prems(3,4) e by auto
  next
    case False
    have node: "node \<in> live s" using Cons.prems(3) e by auto
    obtain u where u: "clusterDelNode node s = Some u" "cluster_inv u" "live u = live s - {node}" "epoch_view u = epoch_view s"
      using clusterDelNode_inv [OF Cons.prems(1) node False] by blast
    note i = cluster_invD [OF Cons.prems(1)]
    have sl: "\<forall>j < CLUSTER_SLOTS. slots u j = None"
      using clusterDelNode_core [OF i(1-3) node] u(1) Cons.prems(2) by auto
    have my: "myself u = myself s" using epoch_viewD [OF u(4)] by simp
    have sub: "snd ` set ns \<subseteq> live u" using Cons.prems(3,4) e u(3) by force
    have "distinct (map snd ns)" using Cons.prems(4) by simp
    from Cons.IH [OF u(2) sl sub this] obtain t where
      "for_each ns (\<lambda>(nm, node) s. if node = myself s then Some s else clusterDelNode node s) u = Some t"
      "cluster_inv t" "\<forall>j < CLUSTER_SLOTS. slots t j = None" "live t = live u - (snd ` set ns - {myself u})"
      "myself t = myself u" "epoch_view t = epoch_view u" by blast
    then show ?thesis using u(1,3,4) my e False by auto
  qed
qed auto

lemma nodes_distinct:
  assumes "names_inv s" shows "distinct (map snd (nodes s))"
proof -
  have "distinct (map fst (nodes s))" using assms by (simp add: names_inv_def dictOk_def)
  then have "distinct (nodes s)" by (simp add: distinct_map)
  moreover have "inj_on snd (set (nodes s))"
    by (rule inj_onI) (metis names_inv_name [OF assms] prod.collapse)
  ultimately show ?thesis by (simp add: distinct_map)
qed

lemma clusterReset_effect:
  assumes inv: "cluster_inv s"
  shows "\<exists>t. clusterReset hard s = Some t \<and> cluster_inv t \<and> live t = {myself s} \<and> myself t = myself s \<and>
     (\<forall>j < CLUSTER_SLOTS. slots t j = None) \<and>
     (if hard then currentEpoch t = 0 \<and> lastVoteEpoch t = 0 \<and> configEpoch (me t) = 0 \<and>
                   (\<exists>nm. nodes t = [(nm, myself s)])
      else epoch_view t = epoch_view s)"
proof -
  define s1 where "s1 = resetManualFailover (clusterCloseAllSlots (if nodeIsSlave (me s)
              then emptyDb (replicationUnsetMaster (clusterSetNodeAsMaster (myself s) s)) else s))"
  have v1: "inv_view s1 = inv_view s" "epoch_view s1 = epoch_view s" by (simp_all add: s1_def)
  have i1: "cluster_inv s1" using cluster_inv_cong [OF v1(1)] inv by simp
  obtain s2 where s2: "for_each [0..<CLUSTER_SLOTS] (\<lambda>j s. map_option snd (clusterDelSlot j s)) s1 = Some s2"
    "cluster_inv s2" "slot_frame s2 = slot_frame s1" "slots s2 = (\<lambda>j. if j < CLUSTER_SLOTS then None else slots s1 j)"
    using clear_slots [OF i1 order_refl] by blast
  note f2 = slot_frame_server [OF s2(3)]
  obtain s3 where s3: "for_each (nodes s2) (\<lambda>(nm, node) s. if node = myself s then Some s else clusterDelNode node s) s2 = Some s3"
    "cluster_inv s3" "\<forall>j < CLUSTER_SLOTS. slots s3 j = None" "live s3 = live s2 - (snd ` set (nodes s2) - {myself s2})"
    "myself s3 = myself s2" "epoch_view s3 = epoch_view s2"
    using forget_nodes [OF s2(2), of "nodes s2"] s2(4) nodes_distinct [OF cluster_invD(2) [OF s2(2)]]
    by (auto simp: live_def)
  have my: "myself s3 = myself s" using s3(5) f2(2) epoch_viewD [OF v1(2)] by simp
  have lv: "live s3 = {myself s}"
    using s3(4) cluster_invD(4) [OF s2(2)] s3(5) my by (auto simp: live_def)
  have ev: "epoch_view s3 = epoch_view s" using s3(6) f2(11) v1(2) by simp
  define fl where "fl = CLUSTER_TODO_SAVE_CONFIG OR CLUSTER_TODO_UPDATE_STATE OR CLUSTER_TODO_FSYNC_CONFIG"
  define hard_reset where "hard_reset u =
    (let u = upd_node (myself u) (\<lambda>x. x\<lparr>configEpoch := 0\<rparr>) (u\<lparr>currentEpoch := 0, lastVoteEpoch := 0\<rparr>);
         u = u\<lparr>nodes := (case dictDelete (nodes u) (name (me u)) of Some d \<Rightarrow> d | None \<Rightarrow> nodes u)\<rparr>;
         u = upd_node (myself u) (\<lambda>x. x\<lparr>name := random_hex u (random_pos u)\<rparr>) (u\<lparr>random_pos := random_pos u + 1\<rparr>)
     in snd (clusterAddNode (myself u) u))" for u :: server
  have r: "clusterReset hard s = Some (clusterDoBeforeSleep fl (if hard then hard_reset s3 else s3))"
    unfolding clusterReset_def Let_def s1_def [symmetric] fl_def hard_reset_def
    by (simp add: s2(1) s3(1) Let_def)
  show ?thesis
  proof (cases hard)
    case False
    have "cluster_inv (clusterDoBeforeSleep fl s3)"
      using cluster_inv_cong [of "clusterDoBeforeSleep fl s3" s3] s3(2) by simp
    then show ?thesis using r s3(3) my lv ev False by simp
  next
    case True
    note i3 = cluster_invD [OF s3(2)]
    have "(name (me s3), myself s3) \<in> set (nodes s3)" using live_entry [OF i3(2,4)] .
    moreover have "snd ` set (nodes s3) = {myself s3}" using lv my by (simp add: live_def)
    moreover have "distinct (map snd (nodes s3))" by (rule nodes_distinct [OF i3(2)])
    ultimately have n3: "nodes s3 = [(name (me s3), myself s3)]"
      by (cases "nodes s3") (auto simp: image_subset_iff intro!: hd_in_set)
    define t where "t = hard_reset s3"
    define m where "m = myself s3"
    have f: "nodes t = [(random_hex s3 (random_pos s3), m)]" "myself t = m" "slots t = slots s3" "currentEpoch t = 0"
      "lastVoteEpoch t = 0" "next_addr t = next_addr s3"
      "heap t = (heap s3)(m := (heap s3 m)\<lparr>configEpoch := 0, name := random_hex s3 (random_pos s3)\<rparr>)"
      by (simp_all add: t_def hard_reset_def Let_def clusterAddNode_def dictDelete_def dictAdd_def n3 m_def upd_node_def)
    have lt: "live t = live s3" using f(1) lv my by (simp add: live_def m_def)
    have "slot_inv t" using i3(1) unfolding slot_inv_def owned_def lt f(3,7) by (auto simp: owned_def)
    moreover have "names_inv t" using i3(2) lt f lv my by (auto simp: names_inv_def dictOk_def m_def)
    moreover have "reports_inv t" using i3(3) unfolding reports_inv_def lt f(7) by auto
    ultimately have "cluster_inv t" using i3(4) lt f(2) by (simp add: cluster_inv_def m_def)
    then have "cluster_inv (clusterDoBeforeSleep fl t)"
      using cluster_inv_cong [of "clusterDoBeforeSleep fl t" t] by simp
    then show ?thesis
      using r True lt lv my f s3(3) unfolding t_def [symmetric] by (auto simp: m_def)
  qed
qed

section \<open>The configuration after loading data\<close>

text \<open>The slots that hold keys although the node neither serves nor imports them.\<close>

definition stray :: "server \<Rightarrow> nat \<Rightarrow> bool" where
  "stray s j \<longleftrightarrow> countKeysInSlot s j \<noteq> 0 \<and> slots s j \<noteq> Some (myself s) \<and> importing_slots_from s j = None"

lemma verify_slots:
  assumes inv: "cluster_inv s" and n: "n \<le> CLUSTER_SLOTS"
  shows "\<exists>k t. fold verify_slot [0..<n] (0, s) = (k, t) \<and> cluster_inv t \<and> myself t = myself s \<and> live t = live s \<and>
     countKeysInSlot t = countKeysInSlot s \<and>
     slots t = (\<lambda>j. if j < n \<and> stray s j \<and> slots s j = None then Some (myself s) else slots s j) \<and>
     importing_slots_from t = (\<lambda>j. if j < n \<and> stray s j \<and> slots s j \<noteq> None then slots s j else importing_slots_from s j)"
  using n
proof (induction n)
  case 0
  then show ?case using inv by auto
next
  case (Suc n)
  then obtain k t where t: "fold verify_slot [0..<n] (0, s) = (k, t)" "cluster_inv t" "myself t = myself s" "live t = live s"
    "countKeysInSlot t = countKeysInSlot s"
    "slots t = (\<lambda>j. if j < n \<and> stray s j \<and> slots s j = None then Some (myself s) else slots s j)"
    "importing_slots_from t = (\<lambda>j. if j < n \<and> stray s j \<and> slots s j \<noteq> None then slots s j else importing_slots_from s j)"
    using Suc_leD by blast
  have n: "n < CLUSTER_SLOTS" using Suc.prems by simp
  have same: "slots t n = slots s n" "importing_slots_from t n = importing_slots_from s n" by (simp_all add: t(6,7))
  have step: "fold verify_slot [0..<Suc n] (0, s) = verify_slot n (k, t)" by (simp add: t(1))
  consider "\<not> stray s n" | "stray s n" "slots s n = None" | "stray s n" "slots s n \<noteq> None" by blast
  then show ?case
  proof cases
    case 1
    then have "verify_slot n (k, t) = (k, t)" using same t(3,5) by (auto simp: verify_slot_def stray_def)
    moreover have "(j < Suc n \<and> stray s j \<and> X) = (j < n \<and> stray s j \<and> X)" for j X
      using 1 by (auto simp: less_Suc_eq)
    ultimately show ?thesis unfolding step using t(2-7) by simp
  next
    case 2
    obtain u where u: "clusterAddSlot (myself t) n t = (C_OK, u)" "slot_inv u" "slots u = (slots t)(n \<mapsto> myself t)"
      "slot_frame u = slot_frame t" "live u = live t"
      using clusterAddSlot_free [OF cluster_invD(1) [OF t(2)] n cluster_invD(4) [OF t(2)]] same(1) 2(2) by auto
    have "verify_slot n (k, t) = (k + 1, u)" using same t(3,5) 2 u(1) by (auto simp: verify_slot_def stray_def)
    moreover have "cluster_inv u" by (rule cluster_inv_slots(1) [OF t(2) u(2,4)])
    moreover note slot_frame_server [OF u(4)]
    moreover have "slots u = (\<lambda>j. if j < Suc n \<and> stray s j \<and> slots s j = None then Some (myself s) else slots s j)"
      using 2 by (auto simp: u(3) t(3,6) fun_eq_iff less_Suc_eq)
    moreover have "importing_slots_from t =
        (\<lambda>j. if j < Suc n \<and> stray s j \<and> slots s j \<noteq> None then slots s j else importing_slots_from s j)"
      using 2 by (auto simp: t(7) fun_eq_iff less_Suc_eq)
    ultimately show ?thesis unfolding step using t(3,4,5) u(5) by simp
  next
    case 3
    define u where "u = t\<lparr>importing_slots_from := (importing_slots_from t)(n := slots t n)\<rparr>"
    have "verify_slot n (k, t) = (k + 1, u)" using same t(3,5) 3 by (auto simp: verify_slot_def stray_def u_def)
    moreover have "inv_view u = inv_view t" by (simp add: u_def inv_view_def view_defs)
    moreover have "slots u = (\<lambda>j. if j < Suc n \<and> stray s j \<and> slots s j = None then Some (myself s) else slots s j)"
      using 3 by (auto simp: u_def t(6) fun_eq_iff less_Suc_eq)
    moreover have "importing_slots_from u =
        (\<lambda>j. if j < Suc n \<and> stray s j \<and> slots s j \<noteq> None then slots s j else importing_slots_from s j)"
      using 3 same by (auto simp: u_def t(7) fun_eq_iff less_Suc_eq)
    moreover have "myself u = myself s" "live u = live s" "countKeysInSlot u = countKeysInSlot s"
      using t(3,4,5) by (simp_all add: u_def live_def)
    ultimately show ?thesis unfolding step using t(2) cluster_inv_cong [of u t] by blast
  qed
qed

lemma verifyClusterConfigWithData_effect:
  assumes inv: "cluster_inv s" and "cluster_module_flags s AND CLUSTER_MODULE_FLAG_NO_REDIRECTION = 0"
    and "\<not> nodeIsSlave (me s)" "\<forall>n \<in> set (tl (db_sizes s)). n = 0"
  shows "\<exists>t. verifyClusterConfigWithData s = (C_OK, t) \<and> cluster_inv t \<and>
     slots t = (\<lambda>j. if j < CLUSTER_SLOTS \<and> stray s j \<and> slots s j = None then Some (myself s) else slots s j) \<and>
     importing_slots_from t =
       (\<lambda>j. if j < CLUSTER_SLOTS \<and> stray s j \<and> slots s j \<noteq> None then slots s j else importing_slots_from s j) \<and>
     (\<forall>j < CLUSTER_SLOTS. \<not> stray t j)"
proof -
  obtain k t where t: "fold verify_slot [0..<CLUSTER_SLOTS] (0, s) = (k, t)" "cluster_inv t" "myself t = myself s"
    "countKeysInSlot t = countKeysInSlot s"
    "slots t = (\<lambda>j. if j < CLUSTER_SLOTS \<and> stray s j \<and> slots s j = None then Some (myself s) else slots s j)"
    "importing_slots_from t =
       (\<lambda>j. if j < CLUSTER_SLOTS \<and> stray s j \<and> slots s j \<noteq> None then slots s j else importing_slots_from s j)"
    using verify_slots [OF inv order_refl] by blast
  have no: "\<not> list_ex (\<lambda>n. n \<noteq> 0) (tl (db_sizes s))" using assms(4) by (auto simp: list_ex_iff)
  define u where "u = (if k \<noteq> 0 then clusterSaveConfigOrDie True t else t)"
  have "verifyClusterConfigWithData s = (C_OK, u)"
    using assms(2,3) no t(1) unfolding verifyClusterConfigWithData_def u_def by simp
  moreover have "cluster_inv u" using cluster_inv_cong [of u t] t(2) by (simp add: u_def)
  moreover have "slots u = slots t" "importing_slots_from u = importing_slots_from t" "myself u = myself s"
    "countKeysInSlot u = countKeysInSlot s"
    using t(3,4) by (simp_all add: u_def clusterSaveConfigOrDie_def emit_def)
  ultimately show ?thesis using t(5,6) by (auto simp: stray_def)
qed

end
