(* ===== verification/ZkLink.thy ===== *)
theory ZkLink
  imports ClusterConfig
begin

text \<open>
  The ZooKeeper link of a node (\<open>zklink.c\<close>). A master publishes itself with the
  ephemeral node "/<name>", a replica watches the one of its master and marks the
  master as failed when it goes away, and the replica that creates
  "/replace-<name of the master>" may take the master's place. The client library
  and the ensemble behind it are a parameter: a record of the calls the code makes,
  each from the state of the ensemble to a return code and the next state.
\<close>

section \<open>The client library\<close>

definition ZOK :: int where "ZOK = 0"
definition ZNONODE :: int where "ZNONODE = -101"
definition ZNODEEXISTS :: int where "ZNODEEXISTS = -110"
definition ZOO_CREATED_EVENT :: int where "ZOO_CREATED_EVENT = 1"
definition ZOO_DELETED_EVENT :: int where "ZOO_DELETED_EVENT = 2"
definition ZOO_SESSION_EVENT :: int where "ZOO_SESSION_EVENT = -1"
definition ZOO_CONNECTING_STATE :: int where "ZOO_CONNECTING_STATE = 1"
definition ZOO_CONNECTED_STATE :: int where "ZOO_CONNECTED_STATE = 3"
definition ZK_DEL_REPLACE_PATH_DELAY :: int where "ZK_DEL_REPLACE_PATH_DELAY = 5000"

lemmas zk_code_defs = ZOK_def ZNONODE_def ZNODEEXISTS_def
lemmas zk_event_defs = ZOO_CREATED_EVENT_def ZOO_DELETED_EVENT_def ZOO_SESSION_EVENT_def
  ZOO_CONNECTING_STATE_def ZOO_CONNECTED_STATE_def

text \<open>
  The first argument of a call tells whether the handle is non-NULL. \<open>zoo_create\<close>
  gets the path and the data (the code always creates ephemeral nodes),
  \<open>zookeeper_init\<close> the address.
\<close>

record 'z zk_api =
  zoo_create :: "bool \<Rightarrow> bytes \<Rightarrow> bytes \<Rightarrow> 'z \<Rightarrow> int \<times> 'z"
  zoo_exists :: "bool \<Rightarrow> bytes \<Rightarrow> 'z \<Rightarrow> int \<times> 'z"
  zoo_delete :: "bool \<Rightarrow> bytes \<Rightarrow> 'z \<Rightarrow> int \<times> 'z"
  zoo_awget :: "bool \<Rightarrow> bytes \<Rightarrow> 'z \<Rightarrow> int \<times> 'z"
  zookeeper_init :: "bytes \<Rightarrow> 'z \<Rightarrow> bool \<times> 'z"
  zookeeper_close :: "'z \<Rightarrow> 'z"

section \<open>Strings\<close>

text \<open>
  \<open>name\<close> is a \<open>char[40]\<close> with no terminator; read as a C string it goes on with
  the bytes of the field \<open>flags\<close> that follows it, lowest byte first.
\<close>

definition flag_bytes :: "u32 \<Rightarrow> bytes" where
  "flag_bytes w = [ucast w, ucast (drop_bit 8 w), ucast (drop_bit 16 w), ucast (drop_bit 24 w)]"

definition name_cstr :: "clusterNode \<Rightarrow> bytes" where
  "name_cstr n = takeWhile (\<lambda>b. b \<noteq> 0) (name n @ flag_bytes (flags n))"

definition strneq :: "nat \<Rightarrow> bytes \<Rightarrow> bytes \<Rightarrow> bool" where
  "strneq n a b \<longleftrightarrow> take n a = take n b"

text \<open>\<open>snprintf\<close> of "/%s" into 41 bytes and of "/replace-%s" into 49 bytes.\<close>

definition node_path :: "bytes \<Rightarrow> bytes" where
  "node_path nm = take CLUSTER_NAMELEN (47 # nm)"

definition replace_prefix :: bytes where
  "replace_prefix = [47, 114, 101, 112, 108, 97, 99, 101, 45]"

definition replace_node_path :: "bytes \<Rightarrow> bytes" where
  "replace_node_path nm = take (CLUSTER_NAMELEN + 8) (replace_prefix @ nm)"

definition replace_data :: "bytes \<Rightarrow> bytes" where
  "replace_data nm = take CLUSTER_NAMELEN (take (CLUSTER_NAMELEN - 1) nm @ replicate CLUSTER_NAMELEN 0)"

section \<open>The client\<close>

abbreviation upd_zkc :: "(zklinkClient \<Rightarrow> zklinkClient) \<Rightarrow> server \<Rightarrow> server" where
  "upd_zkc f s \<equiv> s\<lparr>zklc := map_option f (zklc s)\<rparr>"

definition zklinkTryCreateOldMasterPath :: "'z zk_api \<Rightarrow> 'z \<Rightarrow> server \<Rightarrow> (int \<times> 'z \<times> server) option" where
  "zklinkTryCreateOldMasterPath zk z s =
     (if \<not> nodeIsSlave (me s) then Some (0, z, s)
      else case slaveof (me s) of
        None \<Rightarrow> Some (0, z, s)
      | Some master \<Rightarrow>
          (case zklc s of
             None \<Rightarrow> None
           | Some zkc \<Rightarrow>
               (case replace_path zkc of
                  None \<Rightarrow> Some (0, z, s)
                | Some rp \<Rightarrow>
                    if \<not> strneq CLUSTER_NAMELEN rp (name_cstr (nd s master)) then Some (0, z, s)
                    else
                      let (rc, z) = zoo_create zk (zh zkc) (replace_node_path rp)
                                      (replace_data (name_cstr (me s))) z
                      in if rc = ZNODEEXISTS then Some (0, z, s)
                         else if rc \<noteq> ZOK then Some (0, z, s)
                         else Some (1, z, upd_zkc (\<lambda>c. c\<lparr>replace_path_del_tm :=
                                                          mstime s + ZK_DEL_REPLACE_PATH_DELAY\<rparr>) s))))"

definition zklinkUpdateStateOnWatch :: "bytes \<Rightarrow> int \<Rightarrow> server \<Rightarrow> server" where
  "zklinkUpdateStateOnWatch path type s =
     (if nodeIsMaster (me s) then s
      else case slaveof (me s) of
        None \<Rightarrow> s
      | Some master \<Rightarrow>
          if \<not> strneq (CLUSTER_NAMELEN + 1) path (node_path (name_cstr (nd s master))) then s
          else
            let s = upd_zkc (\<lambda>c. c\<lparr>zk_on_wath := 0\<rparr>) s
            in if type = ZOO_CREATED_EVENT then s
               else if type = ZOO_DELETED_EVENT
               then clusterSendFail (name (nd s master))
                      (upd_node master
                         (\<lambda>x. x\<lparr>flags := (flags x AND NOT CLUSTER_NODE_PFAIL) OR CLUSTER_NODE_FAIL\<rparr>) s)
               else s)"

text \<open>The watcher: a NULL path outside a session event would be read, which is \<open>None\<close>.\<close>

definition zklinkWatcher :: "int \<Rightarrow> int \<Rightarrow> bytes option \<Rightarrow> server \<Rightarrow> server option" where
  "zklinkWatcher type zstate path s =
     (if type = ZOO_SESSION_EVENT \<and> zstate = ZOO_CONNECTING_STATE \<and> (path = None \<or> path = Some [])
      then Some (upd_zkc (\<lambda>c. c\<lparr>zkstate := ZKS_DIS_CONNECT, zk_create_path := 0, zk_on_wath := 0\<rparr>) s)
      else if zstate \<noteq> ZOO_CONNECTED_STATE then Some s
      else if type = ZOO_SESSION_EVENT then Some (upd_zkc (\<lambda>c. c\<lparr>zkstate := ZKS_CONNECTED\<rparr>) s)
      else if nodeIsMaster (me s) \<or> slaveof (me s) = None then Some s
      else map_option (\<lambda>p. zklinkUpdateStateOnWatch p type s) path)"

definition zklinkCreateClient :: zklinkClient where
  "zklinkCreateClient =
     \<lparr>zh = False, zkstate = ZKS_UNINIT, zk_create_path = 0, zk_on_wath = 0,
      replace_path = None, replace_path_del_tm = 0\<rparr>"

definition zklinkInitServer :: "'z zk_api \<Rightarrow> zklinkClient \<Rightarrow> 'z \<Rightarrow> server \<Rightarrow> 'z \<times> server" where
  "zklinkInitServer zk zkc z s =
     (let (z, s) = (if zh zkc then (zookeeper_close zk z, upd_zkc (\<lambda>c. c\<lparr>zh := False\<rparr>) s) else (z, s));
          addr = take 255 ((case zk_host s of Some h \<Rightarrow> h | None \<Rightarrow> []) @ 58 # dec_bytes (nat (zk_port s)));
          (ok, z) = zookeeper_init zk addr z
      in if \<not> ok then (z, s)
         else (z, upd_zkc (\<lambda>c. c\<lparr>zh := True, zkstate := ZKS_WAIT_CONNECT\<rparr>) s))"

definition zklinkDelOldMasterPath :: "'z zk_api \<Rightarrow> zklinkClient \<Rightarrow> 'z \<Rightarrow> server \<Rightarrow> 'z \<times> server" where
  "zklinkDelOldMasterPath zk zkc z s =
     (case replace_path zkc of
        None \<Rightarrow> (z, s)
      | Some rp \<Rightarrow>
          let (rc, z) = zoo_delete zk (zh zkc) (replace_node_path rp) z
          in (z, upd_zkc (\<lambda>c. c\<lparr>replace_path := None\<rparr>) s))"

definition zklinkCreatePath :: "'z zk_api \<Rightarrow> zklinkClient \<Rightarrow> 'z \<Rightarrow> server \<Rightarrow> 'z \<times> server" where
  "zklinkCreatePath zk zkc z s =
     (let path = node_path (name_cstr (me s))
      in if nodeIsSlave (me s)
         then if zk_create_path zkc = 0 then (z, s)
              else
                let (rc, z) = zoo_exists zk (zh zkc) path z
                in if rc = ZNONODE then (z, upd_zkc (\<lambda>c. c\<lparr>zk_create_path := 0\<rparr>) s)
                   else if rc \<noteq> ZOK then (z, s)
                   else
                     let (rc, z) = zoo_delete zk (zh zkc) path z
                     in if rc = ZNONODE then (z, upd_zkc (\<lambda>c. c\<lparr>zk_create_path := 0\<rparr>) s)
                        else if rc \<noteq> ZOK then (z, s)
                        else (z, upd_zkc (\<lambda>c. c\<lparr>zk_create_path := 0\<rparr>) s)
         else
           let (z, s) = (if replace_path_del_tm zkc \<noteq> 0 \<and> replace_path_del_tm zkc < mstime s
                         then let (z, s) = zklinkDelOldMasterPath zk zkc z s
                              in (z, upd_zkc (\<lambda>c. c\<lparr>replace_path_del_tm := 0\<rparr>) s)
                         else (z, s))
           in if zk_create_path zkc = 1 then (z, s)
              else
                let (rc, z) = zoo_create zk (zh zkc) path [] z
                in if rc = ZNODEEXISTS then (z, s)
                   else if rc \<noteq> ZOK then (z, s)
                   else (z, upd_zkc (\<lambda>c. c\<lparr>zk_create_path := 1\<rparr>) s))"

definition zklinkWatchPath :: "'z zk_api \<Rightarrow> zklinkClient \<Rightarrow> 'z \<Rightarrow> server \<Rightarrow> 'z \<times> server" where
  "zklinkWatchPath zk zkc z s =
     (if nodeIsMaster (me s) then (z, s)
      else if zk_on_wath zkc = 1 then (z, s)
      else case slaveof (me s) of
        None \<Rightarrow> (z, s)
      | Some master \<Rightarrow>
          let (rc, z) = zoo_awget zk (zh zkc) (node_path (name_cstr (nd s master))) z
          in if rc \<noteq> ZOK then (z, s)
             else (z, upd_zkc (\<lambda>c. c\<lparr>zk_on_wath := 1, replace_path := Some (name_cstr (nd s master))\<rparr>) s))"

definition zklinkUpdte :: "'z zk_api \<Rightarrow> 'z \<Rightarrow> server \<Rightarrow> 'z \<times> server" where
  "zklinkUpdte zk z s =
     (case zklc s of
        None \<Rightarrow> (z, s)
      | Some zkc \<Rightarrow>
          let (z, s) = zklinkCreatePath zk zkc z s
          in (case zklc s of Some zkc \<Rightarrow> zklinkWatchPath zk zkc z s | None \<Rightarrow> (z, s)))"

definition zklinkCron :: "'z zk_api \<Rightarrow> 'z \<Rightarrow> server \<Rightarrow> 'z \<times> server" where
  "zklinkCron zk z s =
     (if zk_host s = None \<or> zk_port s \<le> 0 then (z, s)
      else case zklc s of
        None \<Rightarrow> (z, s\<lparr>zklc := Some zklinkCreateClient\<rparr>)
      | Some zkc \<Rightarrow>
          (case zkstate zkc of
             ZKS_WAIT_CONNECT \<Rightarrow> (z, s)
           | ZKS_UNINIT \<Rightarrow> zklinkInitServer zk zkc z s
           | ZKS_DIS_CONNECT \<Rightarrow> zklinkInitServer zk zkc z s
           | ZKS_CONNECTED \<Rightarrow> zklinkUpdte zk z s))"

section \<open>What the client keeps\<close>

lemma zklc_keep [simp]:
  "inv_view (s\<lparr>zklc := x\<rparr>) = inv_view s" "epoch_view (s\<lparr>zklc := x\<rparr>) = epoch_view s"
  by (simp_all add: inv_view_def view_defs)

lemma keep_zkTry:
  assumes "zklinkTryCreateOldMasterPath zk z s = Some (r, z', t)"
  shows "inv_view t = inv_view s" "epoch_view t = epoch_view s" "link_node t = link_node s" "heap t = heap s"
    "slots t = slots s" "myself t = myself s" "failover_auth_epoch t = failover_auth_epoch s"
    "currentEpoch t = currentEpoch s" "mstime t = mstime s"
  using assms
  by (auto simp: zklinkTryCreateOldMasterPath_def Let_def split: if_splits option.splits prod.splits)

lemma keep_zkWatch [simp]:
  "inv_view (zklinkUpdateStateOnWatch p ty s) = inv_view s"
  "epoch_view (zklinkUpdateStateOnWatch p ty s) = epoch_view s"
  "link_node (zklinkUpdateStateOnWatch p ty s) = link_node s"
  by (auto simp: zklinkUpdateStateOnWatch_def Let_def upd_node_inv_view split: option.split)

lemma keep_zkWatcher:
  assumes "zklinkWatcher ty st p s = Some t"
  shows "inv_view t = inv_view s" "epoch_view t = epoch_view s" "link_node t = link_node s"
  using assms by (auto simp: zklinkWatcher_def split: if_splits)

lemma keep_zkCreatePath:
  "inv_view (snd (zklinkCreatePath zk c z s)) = inv_view s"
  "epoch_view (snd (zklinkCreatePath zk c z s)) = epoch_view s"
  "link_node (snd (zklinkCreatePath zk c z s)) = link_node s"
  by (simp_all add: zklinkCreatePath_def zklinkDelOldMasterPath_def Let_def case_prod_beta split: option.split)

lemma keep_zkWatchPath:
  "inv_view (snd (zklinkWatchPath zk c z s)) = inv_view s"
  "epoch_view (snd (zklinkWatchPath zk c z s)) = epoch_view s"
  "link_node (snd (zklinkWatchPath zk c z s)) = link_node s"
  by (simp_all add: zklinkWatchPath_def Let_def case_prod_beta split: option.split)

lemma keep_zkInitServer:
  "inv_view (snd (zklinkInitServer zk c z s)) = inv_view s"
  "epoch_view (snd (zklinkInitServer zk c z s)) = epoch_view s"
  "link_node (snd (zklinkInitServer zk c z s)) = link_node s"
  by (simp_all add: zklinkInitServer_def Let_def case_prod_beta)

lemma keep_zkCron [simp]:
  "inv_view (snd (zklinkCron zk z s)) = inv_view s" "epoch_view (snd (zklinkCron zk z s)) = epoch_view s"
  "link_node (snd (zklinkCron zk z s)) = link_node s"
  by (auto simp: zklinkCron_def zklinkUpdte_def case_prod_beta keep_zkCreatePath keep_zkWatchPath
      keep_zkInitServer split: option.split zklinkState.split)

section \<open>What the client promises\<close>

lemma strneq_name:
  assumes "length (name n) = CLUSTER_NAMELEN" "0 \<notin> set (name n)"
  shows "take CLUSTER_NAMELEN (name_cstr n) = name n"
proof -
  have "\<forall>b \<in> set (name n). b \<noteq> 0" using assms(2) by metis
  then show ?thesis using assms(1) by (simp add: name_cstr_def)
qed

text \<open>A takeover creates the znode with the name of the master that the replica has now.\<close>

lemma zklinkTry_won_path:
  assumes "zklinkTryCreateOldMasterPath zk z s = Some (1, z', t)" "slaveof (me s) = Some m"
    and "length (name (nd s m)) = CLUSTER_NAMELEN" "0 \<notin> set (name (nd s m))"
  shows "\<exists>h d. zoo_create zk h (str ''/replace-'' @ take (CLUSTER_NAMELEN - 1) (name (nd s m))) d z = (ZOK, z')"
proof -
  obtain c rp h d where rp: "strneq CLUSTER_NAMELEN rp (name_cstr (nd s m))" "zoo_create zk h (replace_node_path rp) d z = (ZOK, z')"
    using assms(1,2) by (auto simp: zklinkTryCreateOldMasterPath_def Let_def split: if_splits option.splits prod.splits)
  then have "take CLUSTER_NAMELEN rp = name (nd s m)" using strneq_name [OF assms(3,4)] by (simp add: strneq_def)
  then have "take (CLUSTER_NAMELEN - 1) (take CLUSTER_NAMELEN rp) = take (CLUSTER_NAMELEN - 1) (name (nd s m))" by simp
  then have "replace_node_path rp = str ''/replace-'' @ take (CLUSTER_NAMELEN - 1) (name (nd s m))"
    by (simp add: replace_node_path_def replace_prefix_def str_def CLUSTER_NAMELEN_def)
  then show ?thesis using rp(2) by metis
qed

lemma zklinkTry_code:
  "zklinkTryCreateOldMasterPath zk z s = Some (r, z', t) \<Longrightarrow> r = 0 \<or> r = 1"
  by (auto simp: zklinkTryCreateOldMasterPath_def Let_def split: if_splits option.splits prod.splits)

text \<open>
  Two replicas of a master cannot both win the takeover while the znode of the first one exists.
  \<open>paths\<close> reads the znodes of the ensemble.
\<close>

lemma zklinkTry_exclusive:
  assumes create: "\<And>h p d x x'. zoo_create zk h p d x = (ZOK, x') \<Longrightarrow> p \<notin> paths x \<and> p \<in> paths x'"
    and master: "slaveof (me s) = Some m" "slaveof (me t) = Some n" "name (nd t n) = name (nd s m)"
      "length (name (nd s m)) = CLUSTER_NAMELEN" "0 \<notin> set (name (nd s m))"
    and first: "zklinkTryCreateOldMasterPath zk z s = Some (1, z', s')"
    and stays: "str ''/replace-'' @ take (CLUSTER_NAMELEN - 1) (name (nd s m)) \<in> paths z' \<Longrightarrow>
      str ''/replace-'' @ take (CLUSTER_NAMELEN - 1) (name (nd s m)) \<in> paths y"
    and second: "zklinkTryCreateOldMasterPath zk y t = Some (r, y', t')"
  shows "r = 0"
proof (rule ccontr)
  assume "r \<noteq> 0"
  then have "r = 1" using zklinkTry_code [OF second] by blast
  then have "\<exists>h d. zoo_create zk h (str ''/replace-'' @ take (CLUSTER_NAMELEN - 1) (name (nd s m))) d y = (ZOK, y')"
    using zklinkTry_won_path [of zk y t y' t' n] second master by simp
  moreover have "str ''/replace-'' @ take (CLUSTER_NAMELEN - 1) (name (nd s m)) \<in> paths y"
    using zklinkTry_won_path [OF first master(1,4,5)] create stays by metis
  ultimately show False using create by blast
qed

text \<open>The watcher.\<close>

lemma zklinkWatcher_effect:
  assumes "zklinkWatcher ty st p s = Some t"
  shows "heap t = (case slaveof (me s) of
            Some m \<Rightarrow>
              if ty = ZOO_DELETED_EVENT \<and> st = ZOO_CONNECTED_STATE \<and> \<not> nodeIsMaster (me s) \<and>
                 (\<exists>q. p = Some q \<and> strneq (CLUSTER_NAMELEN + 1) q (node_path (name_cstr (nd s m))))
              then (heap s)(m := (nd s m)\<lparr>flags := (flags (nd s m) AND NOT CLUSTER_NODE_PFAIL) OR CLUSTER_NODE_FAIL\<rparr>)
              else heap s
          | None \<Rightarrow> heap s)"
  using assms
  by (auto simp: zklinkWatcher_def zklinkUpdateStateOnWatch_def zk_event_defs Let_def split: if_splits option.splits)

text \<open>
  A replica that watches the znode of one master and was then given another one: the
  cron leaves everything as it is, and the replica cannot take over.
\<close>

lemma zklink_stuck:
  assumes c: "zklc s = Some c" "zkstate c = ZKS_CONNECTED" "zk_on_wath c = 1" "zk_create_path c = 0"
      "replace_path c = Some rp"
    and role: "nodeIsSlave (me s)" "slaveof (me s) = Some m"
    and other: "\<not> strneq CLUSTER_NAMELEN rp (name_cstr (nd s m))"
  shows "zklinkCron zk z s = (z, s)" "zklinkTryCreateOldMasterPath zk z s = Some (0, z, s)"
  using assms
  by (auto simp: zklinkCron_def zklinkUpdte_def zklinkCreatePath_def zklinkWatchPath_def
      zklinkTryCreateOldMasterPath_def Let_def)

text \<open>The paths hold the first 39 of the 40 characters of a name.\<close>

lemma node_path_name:
  assumes "length (name n) = CLUSTER_NAMELEN" "0 \<notin> set (name n)"
  shows "node_path (name_cstr n) = 47 # take (CLUSTER_NAMELEN - 1) (name n)"
    "replace_node_path (name_cstr n) = replace_prefix @ take (CLUSTER_NAMELEN - 1) (name n)"
proof -
  have "\<forall>b \<in> set (name n). b \<noteq> 0" using assms(2) by metis
  then have "name_cstr n = name n @ takeWhile (\<lambda>b. b \<noteq> 0) (flag_bytes (flags n))"
    by (simp add: name_cstr_def)
  then show "node_path (name_cstr n) = 47 # take (CLUSTER_NAMELEN - 1) (name n)"
    "replace_node_path (name_cstr n) = replace_prefix @ take (CLUSTER_NAMELEN - 1) (name n)"
    using assms(1) by (simp_all add: node_path_def replace_node_path_def replace_prefix_def CLUSTER_NAMELEN_def)
qed

section \<open>A replica that gets another master\<close>

text \<open>
  What happens to a replica of a master named \<open>nm\<close> while its session lasts: the cron, events of
  the ensemble but for the znode of \<open>nm\<close>, attempts to take over, and anything else
  that leaves the client alone and the node a replica of such a master.
\<close>

inductive zk_run :: "'z zk_api \<Rightarrow> bytes \<Rightarrow> 'z \<times> server \<Rightarrow> 'z \<times> server \<Rightarrow> bool"
  for zk :: "'z zk_api" and nm :: bytes and w :: "'z \<times> server" where
  start: "zk_run zk nm w w"
| cron: "zk_run zk nm w (z, s) \<Longrightarrow> zklinkCron zk z s = (z', t) \<Longrightarrow> zk_run zk nm w (z', t)"
| event: "zk_run zk nm w (z, s) \<Longrightarrow> zklinkWatcher type st path s = Some t \<Longrightarrow>
    \<not> (type = ZOO_SESSION_EVENT \<and> st = ZOO_CONNECTING_STATE) \<Longrightarrow>
    path \<noteq> Some (node_path nm) \<Longrightarrow> zk_run zk nm w (z', t)"
| takeover: "zk_run zk nm w (z, s) \<Longrightarrow> zklinkTryCreateOldMasterPath zk z s = Some (r, z', t) \<Longrightarrow> zk_run zk nm w (z', t)"
| other: "zk_run zk nm w (z, s) \<Longrightarrow> zklc t = zklc s \<Longrightarrow> nodeIsSlave (me t) \<Longrightarrow> slaveof (me t) = Some m \<Longrightarrow>
    name (nd t m) = nm \<Longrightarrow> zk_run zk nm w (z', t)"


lemma keep_zklc [simp]:
  "zklc (replicationSetMaster h p s) = zklc s" "zklc (resetManualFailover s) = zklc s"
  "zklc (clusterCloseAllSlots s) = zklc s" "zklc (snd (clusterNodeAddSlave a b s)) = zklc s"
  "zklc (snd (clusterNodeRemoveSlave a b s)) = zklc s" "zklc (upd_node a f s) = zklc s"
  by (auto simp: replicationSetMaster_def resetManualFailover_def clusterCloseAllSlots_def clusterNodeAddSlave_def
      clusterNodeRemoveSlave_def upd_node_def freeMasterClient_def emit_def clientsArePaused_def Let_def case_prod_beta split: option.split)

lemma clusterSetMaster_client:
  assumes "clusterSetMaster n s = Some t" "nodeIsSlave (me s)"
  shows "zklc t = zklc s \<and> nodeIsSlave (me t) \<and> slaveof (me t) = Some n \<and> name (nd t n) = name (nd s n)"
proof -
  define s1 where "s1 = (if nodeIsMaster (me s)
              then clusterCloseAllSlots
                     (upd_node (myself s)
                        (\<lambda>x. x\<lparr>flags := (flags x AND NOT (CLUSTER_NODE_MASTER OR CLUSTER_NODE_MIGRATE_TO))
                                          OR CLUSTER_NODE_SLAVE\<rparr>) s)
              else (case slaveof (me s) of
                      Some m \<Rightarrow> snd (clusterNodeRemoveSlave m (myself s) s)
                    | None \<Rightarrow> s))"
  define s2 where "s2 = upd_node (myself s1) (\<lambda>x. x\<lparr>slaveof := Some n\<rparr>) s1"
  define s3 where "s3 = snd (clusterNodeAddSlave n (myself s2) s2)"
  have n: "n \<noteq> myself s" and t: "t = resetManualFailover (replicationSetMaster (ip (nd s3 n)) (port (nd s3 n)) s3)"
    using assms(1) unfolding clusterSetMaster_def Let_def s1_def [symmetric] s2_def [symmetric] s3_def [symmetric]
    by (auto simp: serverAssert_def bind_eq_Some_conv split: if_splits)
  have 1: "zklc s1 = zklc s" "myself s1 = myself s" "name (nd s1 a) = name (nd s a)" "nodeIsSlave (nd s1 (myself s))" for a
    using assms(2) by (auto simp: s1_def clusterNodeRemoveSlave_def clusterCloseAllSlots_def Let_def
        node_flag_bits flag_defs flag_simps bit_simps split: option.split)
  then have "zklc s3 = zklc s" "myself s3 = myself s" "name (nd s3 a) = name (nd s a)" "nodeIsSlave (nd s3 (myself s))"
    "slaveof (nd s3 (myself s)) = Some n" for a
    using n by (auto simp: s2_def s3_def clusterNodeAddSlave_def node_flag_bits flag_defs flag_simps bit_simps)
  then show ?thesis by (simp add: t)
qed

lemma zk_run_stuck:
  assumes "zk_run zk nm w (y, t)" "snd w = s"
    and c: "zklc s = Some c" "zkstate c = ZKS_CONNECTED" "zk_on_wath c = 1" "zk_create_path c = 0" "replace_path c = Some rp"
    and role: "nodeIsSlave (me s)" "slaveof (me s) = Some m" "name (nd s m) = nm"
    and nm: "length nm = CLUSTER_NAMELEN" "0 \<notin> set nm" "take CLUSTER_NAMELEN rp \<noteq> nm"
  shows "zklc t = Some c \<and> nodeIsSlave (me t) \<and> (\<exists>m. slaveof (me t) = Some m \<and> name (nd t m) = nm)"
proof -
  define stuck where "stuck t \<longleftrightarrow> zklc t = Some c \<and> nodeIsSlave (me t) \<and> (\<exists>m. slaveof (me t) = Some m \<and> name (nd t m) = nm)" for t
  have still: "zklinkCron zk z u = (z, u)" "zklinkTryCreateOldMasterPath zk z u = Some (0, z, u)" if u: "stuck u" for z u
  proof -
    obtain m where m: "slaveof (me u) = Some m" "name (nd u m) = nm" using u by (auto simp: stuck_def)
    then have "\<not> strneq CLUSTER_NAMELEN rp (name_cstr (nd u m))" using nm strneq_name [of "nd u m"] by (simp add: strneq_def)
    with u show "zklinkCron zk z u = (z, u)" "zklinkTryCreateOldMasterPath zk z u = Some (0, z, u)"
      using zklink_stuck [OF _ c(2-5) _ m(1)] by (simp_all add: stuck_def)
  qed
  have quiet: "stuck v" if u: "stuck u" and v: "zklinkWatcher type st path u = Some v"
    and ty: "\<not> (type = ZOO_SESSION_EVENT \<and> st = ZOO_CONNECTING_STATE)" "path \<noteq> Some (node_path nm)" for u v type st path
  proof -
    obtain m where m: "slaveof (me u) = Some m" "name (nd u m) = nm" using u by (auto simp: stuck_def)
    have p: "node_path (name_cstr (nd u m)) = node_path nm" "length (node_path nm) = CLUSTER_NAMELEN"
      using node_path_name(1) [of "nd u m"] nm m(2) by (simp_all add: node_path_def CLUSTER_NAMELEN_def)
    have "\<not> strneq (CLUSTER_NAMELEN + 1) q (node_path nm)" if "path = Some q" for q
    proof
      assume "strneq (CLUSTER_NAMELEN + 1) q (node_path nm)"
      then have "take (CLUSTER_NAMELEN + 1) q = node_path nm" using p(2) by (simp add: strneq_def)
      moreover from this have "length (take (CLUSTER_NAMELEN + 1) q) = CLUSTER_NAMELEN" using p(2) by simp
      then have "length q \<le> CLUSTER_NAMELEN" by simp
      ultimately show False using ty(2) that by simp
    qed
    then have "zklinkUpdateStateOnWatch q type u = u" if "path = Some q" for q
      using that m(1) p(1) by (simp add: zklinkUpdateStateOnWatch_def)
    then have "v = u \<or> v = upd_zkc (\<lambda>c. c\<lparr>zkstate := ZKS_CONNECTED\<rparr>) u"
      using v ty(1) by (cases path) (simp_all add: zklinkWatcher_def split: if_splits)
    then show ?thesis using u c(2) by (auto simp: stuck_def)
  qed
  have "stuck t"
    using assms(1)
  proof (induction "(y, t)" arbitrary: y t rule: zk_run.induct)
    case start
    then show ?case using assms(2) c role by (auto simp: stuck_def)
  next
    case (cron z s z' t)
    then show ?case using still(1) [of s z] by simp
  next
    case (event z s type st path t z')
    then show ?case using quiet by blast
  next
    case (takeover z s r z' t)
    then show ?case using still(2) [of s z] by simp
  next
    case (other z s t m z')
    then show ?case by (auto simp: stuck_def)
  qed
  then show ?thesis by (simp add: stuck_def)
qed

section \<open>Two masters whose names differ in the last character\<close>

lemma zklinkCreatePath_collides:
  assumes exists: "\<And>h p d x. p \<in> paths x \<Longrightarrow> fst (zoo_create zk h p d x) = ZNODEEXISTS"
    and create: "\<And>h p d x x'. zoo_create zk h p d x = (ZOK, x') \<Longrightarrow> p \<in> paths x'"
    and roles: "\<not> nodeIsSlave (me s)" "\<not> nodeIsSlave (me t)"
    and names: "length (name (me s)) = CLUSTER_NAMELEN" "0 \<notin> set (name (me s))" "length (name (me t)) = CLUSTER_NAMELEN"
      "0 \<notin> set (name (me t))" "take (CLUSTER_NAMELEN - 1) (name (me t)) = take (CLUSTER_NAMELEN - 1) (name (me s))"
    and c: "zklc s = Some c" "zk_create_path c = 0" "replace_path_del_tm c = 0"
    and d: "zklc t = Some d" "zk_create_path d = 0" "replace_path_del_tm d = 0"
    and first: "zklinkCreatePath zk c z s = (z', s')" "zklc s' \<noteq> zklc s"
    and stays: "47 # take (CLUSTER_NAMELEN - 1) (name (me s)) \<in> paths z' \<Longrightarrow> 47 # take (CLUSTER_NAMELEN - 1) (name (me s)) \<in> paths y"
  shows "zklc s' = Some (c\<lparr>zk_create_path := 1\<rparr>)" and "snd (zklinkCreatePath zk d y t) = t"
proof -
  let ?p = "47 # take (CLUSTER_NAMELEN - 1) (name (me s))"
  have p: "node_path (name_cstr (me s)) = ?p" "node_path (name_cstr (me t)) = ?p"
    using node_path_name(1) names by simp_all
  obtain rc x where r: "zoo_create zk (zh c) ?p [] z = (rc, x)" by fastforce
  have "(z', s') = (if rc = ZNODEEXISTS \<or> rc \<noteq> ZOK then (x, s) else (x, upd_zkc (\<lambda>c. c\<lparr>zk_create_path := 1\<rparr>) s))"
    using first(1) roles(1) c r by (auto simp: zklinkCreatePath_def Let_def p(1) split: if_splits)
  then have x: "zoo_create zk (zh c) ?p [] z = (ZOK, x)" "z' = x" "s' = upd_zkc (\<lambda>c. c\<lparr>zk_create_path := 1\<rparr>) s"
    using first(2) r by (auto split: if_splits)
  then show "zklc s' = Some (c\<lparr>zk_create_path := 1\<rparr>)" using c by simp
  have "?p \<in> paths y" using create [OF x(1)] stays x(2) by simp
  then have "fst (zoo_create zk (zh d) ?p [] y) = ZNODEEXISTS" by (rule exists)
  then show "snd (zklinkCreatePath zk d y t) = t"
    using roles(2) d by (simp add: zklinkCreatePath_def Let_def p(2) case_prod_beta)
qed


end
