(* ===== verification/ClusterElection.thy ===== *)
theory ClusterElection
  imports ZkLink
begin

text \<open>
  Elections: the vote of a master, the rank and the timing of a candidate, the
  promotion of a replica by votes, by ZooKeeper or by hand, and the migration of
  replicas to orphaned masters.
\<close>

section \<open>Voting\<close>

text \<open>The scan of the claimed slots: is one served by a master with a greater epoch?\<close>

definition claim_outdated :: "bytes \<Rightarrow> u64 \<Rightarrow> server \<Rightarrow> bool" where
  "claim_outdated claimed_slots requestConfigEpoch s =
     list_ex (\<lambda>j. bitmapTestBit claimed_slots j \<and>
                 (case slots s j of None \<Rightarrow> False | Some m \<Rightarrow> configEpoch (nd s m) > requestConfigEpoch))
       [0..<CLUSTER_SLOTS]"

definition clusterSendFailoverAuthIfNeeded :: "naddr \<Rightarrow> clusterMsg \<Rightarrow> server \<Rightarrow> server" where
  "clusterSendFailoverAuthIfNeeded node request s =
     (let requestCurrentEpoch = h_currentEpoch request;
          requestConfigEpoch = h_configEpoch request;
          claimed_slots = h_myslots request;
          force_ack = (h_mflags0 request AND CLUSTERMSG_FLAG0_FORCEACK \<noteq> 0)
      in if nodeIsSlave (me s) \<or> numslots (me s) = 0 then s
         else if requestCurrentEpoch < currentEpoch s then s
         else if lastVoteEpoch s = currentEpoch s then s
         else case slaveof (nd s node) of
           None \<Rightarrow> s
         | Some master \<Rightarrow>
             if nodeIsMaster (nd s node) \<or> (\<not> nodeFailed (nd s master) \<and> \<not> force_ack) then s
             else if mstime s - voted_time (nd s master) < cluster_node_timeout s * 2 then s
             else if claim_outdated claimed_slots requestConfigEpoch s then s
             else
               let s = s\<lparr>lastVoteEpoch := currentEpoch s\<rparr>;
                   s = upd_node master (\<lambda>x. x\<lparr>voted_time := mstime s\<rparr>) s;
                   s = clusterDoBeforeSleep (CLUSTER_TODO_SAVE_CONFIG OR CLUSTER_TODO_FSYNC_CONFIG) s
               in clusterSendFailoverAuth node s)"

section \<open>The candidate\<close>

definition clusterGetSlaveRank :: "server \<Rightarrow> int option" where
  "clusterGetSlaveRank s = do {
     serverAssert (nodeIsSlave (me s));
     (case slaveof (me s) of
        None \<Rightarrow> Some 0
      | Some master \<Rightarrow>
          let myoffset = replicationGetSlaveOffset s
          in Some (int (length (filter (\<lambda>b. b \<noteq> myself s \<and> \<not> nodeCantFailover (nd s b) \<and>
                                            repl_offset (nd s b) > myoffset) (slaves (nd s master))))))
   }"

definition clusterLogCantFailover :: "int \<Rightarrow> server \<Rightarrow> server" where
  "clusterLogCantFailover reason s =
     (let nolog_fail_time = cluster_node_timeout s + 5000
      in if reason = cant_failover_reason s \<and>
            sys_time s - lastlog_time s < CLUSTER_CANT_FAILOVER_RELOG_PERIOD then s
      else
        let s = s\<lparr>cant_failover_reason := reason\<rparr>
        in if (case slaveof (me s) of
                 None \<Rightarrow> False
               | Some m \<Rightarrow> nodeFailed (nd s m) \<and> mstime s - fail_time (nd s m) < nolog_fail_time)
           then s else s\<lparr>lastlog_time := sys_time s\<rparr>)"

definition failover_claim_slot :: "naddr \<Rightarrow> nat \<Rightarrow> server \<Rightarrow> server option" where
  "failover_claim_slot oldmaster j s =
     (if clusterNodeGetSlotBit oldmaster j s
      then do { (_, s) \<leftarrow> clusterDelSlot j s; Some (snd (clusterAddSlot (myself s) j s)) }
      else Some s)"

definition clusterFailoverReplaceYourMaster :: "server \<Rightarrow> server option" where
  "clusterFailoverReplaceYourMaster s =
     (case slaveof (me s) of
        None \<Rightarrow> Some s
      | Some oldmaster \<Rightarrow>
          if nodeIsMaster (me s) then Some s
          else do {
            let s = replicationUnsetMaster (clusterSetNodeAsMaster (myself s) s);
            s \<leftarrow> for_each [0..<CLUSTER_SLOTS] (failover_claim_slot oldmaster) s;
            let s = clusterSaveConfigOrDie True (clusterUpdateState s);
            let s = clusterBroadcastPong CLUSTER_BROADCAST_ALL s;
            Some (resetManualFailover s)
          })"

text \<open>The branch that schedules a new election.\<close>

definition failover_schedule :: "server \<Rightarrow> server option" where
  "failover_schedule s = do {
     let s = s\<lparr>failover_auth_time := mstime s + 500 + random_num s (random_pos s) mod 500,
               random_pos := random_pos s + 1,
               failover_auth_count := 0,
               failover_auth_sent := 0\<rparr>;
     rank \<leftarrow> clusterGetSlaveRank s;
     let s = s\<lparr>failover_auth_rank := rank\<rparr>;
     let s = s\<lparr>failover_auth_time := failover_auth_time s + failover_auth_rank s * 1000\<rparr>;
     let s = (if mf_end s \<noteq> 0
              then clusterDoBeforeSleep CLUSTER_TODO_HANDLE_FAILOVER
                     (s\<lparr>failover_auth_time := mstime s, failover_auth_rank := 0\<rparr>)
              else s);
     Some (clusterBroadcastPong CLUSTER_BROADCAST_LOCAL_SLAVES s)
   }"

definition failover_update_rank :: "server \<Rightarrow> server option" where
  "failover_update_rank s =
     (if failover_auth_sent s = 0 \<and> mf_end s = 0
      then do {
        newrank \<leftarrow> clusterGetSlaveRank s;
        Some (if newrank > failover_auth_rank s
              then s\<lparr>failover_auth_time := failover_auth_time s + (newrank - failover_auth_rank s) * 1000,
                     failover_auth_rank := newrank\<rparr>
              else s)
      }
      else Some s)"

definition take_election_epoch :: "server \<Rightarrow> server" where
  "take_election_epoch s =
     (if configEpoch (me s) < failover_auth_epoch s
      then upd_node (myself s) (\<lambda>x. x\<lparr>configEpoch := failover_auth_epoch s\<rparr>) s
      else s)"

text \<open>The branch of a server that has a ZooKeeper client.\<close>

definition failover_by_zk :: "'z zk_api \<Rightarrow> 'z \<Rightarrow> server \<Rightarrow> ('z \<times> server) option" where
  "failover_by_zk zk z s =
     (if failover_auth_sent s \<noteq> 0 then Some (z, s)
      else do {
        let s = s\<lparr>currentEpoch := currentEpoch s + 1\<rparr>;
        let s = s\<lparr>failover_auth_epoch := currentEpoch s\<rparr>;
        let s = clusterDoBeforeSleep
                  (CLUSTER_TODO_SAVE_CONFIG OR CLUSTER_TODO_UPDATE_STATE OR CLUSTER_TODO_FSYNC_CONFIG) s;
        (zk_try, z, s) \<leftarrow> zklinkTryCreateOldMasterPath zk z s;
        let s = s\<lparr>failover_auth_sent := 1\<rparr>;
        if zk_try = 0 then Some (z, s)
        else do {
          s \<leftarrow> clusterFailoverReplaceYourMaster (take_election_epoch s);
          Some (z, s)
        }
      })"

text \<open>The branch that asks for votes and counts them.\<close>

definition failover_by_votes :: "server \<Rightarrow> server option" where
  "failover_by_votes s =
     (if failover_auth_sent s = 0
      then let s = s\<lparr>currentEpoch := currentEpoch s + 1\<rparr>;
               s = s\<lparr>failover_auth_epoch := currentEpoch s\<rparr>;
               s = clusterRequestFailoverAuth s;
               s = s\<lparr>failover_auth_sent := 1\<rparr>
           in Some (clusterDoBeforeSleep
                (CLUSTER_TODO_SAVE_CONFIG OR CLUSTER_TODO_UPDATE_STATE OR CLUSTER_TODO_FSYNC_CONFIG) s)
      else if failover_auth_count s \<ge> needed_quorum (cluster_size s)
      then clusterFailoverReplaceYourMaster (take_election_epoch s)
      else Some (clusterLogCantFailover CLUSTER_CANT_FAILOVER_WAITING_VOTES s))"

definition failover_data_age :: "server \<Rightarrow> int" where
  "failover_data_age s =
     (let data_age = (if repl_connected s then (unixtime s - master_lastinteraction s) * 1000
                      else (unixtime s - repl_down_since s) * 1000)
      in if data_age > cluster_node_timeout s then data_age - cluster_node_timeout s else data_age)"

definition failover_has_cause :: "bool \<Rightarrow> server \<Rightarrow> bool" where
  "failover_has_cause manual_failover s =
     (case slaveof (me s) of
        None \<Rightarrow> False
      | Some m \<Rightarrow>
          \<not> (nodeIsMaster (me s) \<or>
             (\<not> nodeFailed (nd s m) \<and> \<not> manual_failover) \<or>
             (cluster_slave_no_failover s \<and> \<not> manual_failover) \<or>
             numslots (nd s m) = 0))"

definition clusterHandleSlaveFailover :: "'z zk_api \<Rightarrow> 'z \<Rightarrow> server \<Rightarrow> ('z \<times> server) option" where
  "clusterHandleSlaveFailover zk z s =
     (let auth_age = mstime s - failover_auth_time s;
          manual_failover = (mf_end s \<noteq> 0 \<and> mf_can_start s \<noteq> 0);
          s = s\<lparr>todo_before_sleep := todo_before_sleep s AND NOT CLUSTER_TODO_HANDLE_FAILOVER\<rparr>;
          auth_timeout = cluster_node_timeout s * 2;
          auth_timeout = (if auth_timeout < 2000 then 2000 else auth_timeout);
          auth_retry_time = auth_timeout * 2
      in if \<not> failover_has_cause manual_failover s
         then Some (z, s\<lparr>cant_failover_reason := CLUSTER_CANT_FAILOVER_NONE\<rparr>)
         else if cluster_slave_validity_factor s \<noteq> 0 \<and>
                 failover_data_age s > repl_ping_slave_period s * 1000 +
                   cluster_node_timeout s * cluster_slave_validity_factor s \<and>
                 \<not> manual_failover
         then Some (z, clusterLogCantFailover CLUSTER_CANT_FAILOVER_DATA_AGE s)
         else if auth_age > auth_retry_time
         then map_option (\<lambda>s. (z, s)) (failover_schedule s)
         else do {
           s \<leftarrow> failover_update_rank s;
           if mstime s < failover_auth_time s
           then Some (z, clusterLogCantFailover CLUSTER_CANT_FAILOVER_WAITING_DELAY s)
           else if auth_age > auth_timeout
           then Some (z, clusterLogCantFailover CLUSTER_CANT_FAILOVER_EXPIRED s)
           else if zklc s \<noteq> None then failover_by_zk zk z s
           else map_option (\<lambda>s. (z, s)) (failover_by_votes s)
         })"

section \<open>Migration of replicas\<close>

text \<open>The loop over the nodes: the first orphaned master and the candidate.\<close>

definition migration_scan ::
  "int \<Rightarrow> naddr \<Rightarrow> naddr option \<times> naddr \<times> server \<Rightarrow> naddr option \<times> naddr \<times> server" where
  "migration_scan max_slaves node = (\<lambda>(target, candidate, s).
     let okslaves = (if nodeIsMaster (nd s node) then clusterCountNonFailingSlaves node s else 0);
         is_orphaned = (\<not> (nodeIsSlave (nd s node) \<or> nodeFailed (nd s node)) \<and>
                        flags (nd s node) AND CLUSTER_NODE_MIGRATE_TO \<noteq> 0 \<and> \<not> okslaves > 0);
         target = (if is_orphaned \<and> target = None \<and> numslots (nd s node) > 0 then Some node else target);
         s = (if is_orphaned
              then if orphaned_time (nd s node) = 0
                   then upd_node node (\<lambda>x. x\<lparr>orphaned_time := mstime s\<rparr>) s else s
              else upd_node node (\<lambda>x. x\<lparr>orphaned_time := 0\<rparr>) s);
         candidate = (if okslaves = max_slaves
                      then fold (\<lambda>b c. if memcmp_bytes (name (nd s b)) (name (nd s c)) < 0 then b else c)
                             (slaves (nd s node)) candidate
                      else candidate)
     in (target, candidate, s))"

definition clusterHandleSlaveMigration :: "int \<Rightarrow> server \<Rightarrow> server option" where
  "clusterHandleSlaveMigration max_slaves s =
     (if state s \<noteq> CLUSTER_OK then Some s
      else case slaveof (me s) of
        None \<Rightarrow> Some s
      | Some mymaster \<Rightarrow>
          let okslaves = int (length (filter (\<lambda>b. \<not> nodeFailed (nd s b) \<and> \<not> nodeTimedOut (nd s b))
                                       (slaves (nd s mymaster))))
          in if okslaves \<le> cluster_migration_barrier s then Some s
             else
               let (target, candidate, s) =
                     fold (\<lambda>(nm, node). migration_scan max_slaves node) (nodes s) (None, myself s, s)
               in (case target of
                     None \<Rightarrow> Some s
                   | Some t \<Rightarrow>
                       if candidate = myself s \<and>
                          mstime s - orphaned_time (nd s t) > CLUSTER_SLAVE_MIGRATION_DELAY \<and>
                          cluster_module_flags s AND CLUSTER_MODULE_FLAG_NO_FAILOVER = 0
                       then clusterSetMaster t s else Some s))"

section \<open>Votes\<close>

text \<open>
  What one handler may do to the epochs: the current epoch does not go back, and at
  most one vote is granted, for an epoch this node has not voted in.
\<close>

definition ack_epoch :: "effect \<Rightarrow> u64" where
  "ack_epoch e = (case e of SendMessage l m \<Rightarrow> h_currentEpoch m | _ \<Rightarrow> 0)"

definition vote_step :: "server \<Rightarrow> server \<Rightarrow> bool" where
  "vote_step s t \<longleftrightarrow>
     myself t = myself s \<and> currentEpoch s \<le> currentEpoch t \<and>
     (lastVoteEpoch t = lastVoteEpoch s \<and> acks t = acks s \<or>
      lastVoteEpoch s < lastVoteEpoch t \<and> lastVoteEpoch t \<le> currentEpoch t \<and>
      (acks t = acks s \<or> (\<exists>a. acks t = acks s @ [a] \<and> ack_epoch a = lastVoteEpoch t)))"

lemma vote_step_same: "epoch_view t = epoch_view s \<Longrightarrow> vote_step s t"
  using epoch_viewD [of t s] by (simp add: vote_step_def)

lemma vote_step_epoch:
  "myself t = myself s \<Longrightarrow> lastVoteEpoch t = lastVoteEpoch s \<Longrightarrow> acks t = acks s \<Longrightarrow>
   currentEpoch s \<le> currentEpoch t \<Longrightarrow> vote_step s t"
  by (simp add: vote_step_def)

text \<open>A vote after steps that grant none.\<close>

lemma vote_step_before:
  assumes "epoch_view s' = epoch_view s" "vote_step s' t" shows "vote_step s t"
  using assms epoch_viewD [OF assms(1)] by (simp add: vote_step_def)

lemma vote_step_after:
  assumes "vote_step s t" "epoch_view t' = epoch_view t" shows "vote_step s t'"
  using assms epoch_viewD [OF assms(2)] by (auto simp: vote_step_def)

lemma vote_step_raise:
  assumes "myself s' = myself s" "lastVoteEpoch s' = lastVoteEpoch s" "acks s' = acks s"
    "currentEpoch s \<le> currentEpoch s'" "vote_step s' t"
  shows "vote_step s t"
  using assms by (auto simp: vote_step_def)

lemma claim_outdated_iff:
  "claim_outdated claimed e s \<longleftrightarrow>
     (\<exists>j < CLUSTER_SLOTS. \<exists>m. bitmapTestBit claimed j \<and> slots s j = Some m \<and> e < configEpoch (nd s m))"
  by (auto simp: claim_outdated_def list_ex_iff split: option.splits)

lemma failover_has_cause_iff:
  "failover_has_cause manual s \<longleftrightarrow> \<not> nodeIsMaster (me s) \<and>
     (\<exists>m. slaveof (me s) = Some m \<and> numslots (nd s m) \<noteq> 0 \<and>
        (manual \<or> nodeFailed (nd s m) \<and> \<not> cluster_slave_no_failover s))"
  by (auto simp: failover_has_cause_def split: option.split)

lemma clusterSendFailoverAuthIfNeeded_vote:
  assumes "lastVoteEpoch s \<le> currentEpoch s"
  shows "vote_step s (clusterSendFailoverAuthIfNeeded n req s)"
    and "inv_view (clusterSendFailoverAuthIfNeeded n req s) = inv_view s"
    and "link_node (clusterSendFailoverAuthIfNeeded n req s) = link_node s"
    and "acks (clusterSendFailoverAuthIfNeeded n req s) \<noteq> acks s \<Longrightarrow>
           h_currentEpoch req \<ge> currentEpoch s \<and> lastVoteEpoch s < currentEpoch s \<and>
           \<not> nodeIsSlave (me s) \<and> numslots (me s) \<noteq> 0 \<and> \<not> nodeIsMaster (nd s n) \<and>
           (\<exists>m. slaveof (nd s n) = Some m \<and>
              (nodeFailed (nd s m) \<or> h_mflags0 req AND CLUSTERMSG_FLAG0_FORCEACK \<noteq> 0) \<and>
              mstime s - voted_time (nd s m) \<ge> cluster_node_timeout s * 2) \<and>
           \<not> claim_outdated (h_myslots req) (h_configEpoch req) s"
proof -
  define t where "t = clusterSendFailoverAuthIfNeeded n req s"
  define c where "c \<longleftrightarrow> h_currentEpoch req \<ge> currentEpoch s \<and> lastVoteEpoch s \<noteq> currentEpoch s \<and>
           \<not> nodeIsSlave (me s) \<and> numslots (me s) \<noteq> 0 \<and> \<not> nodeIsMaster (nd s n) \<and>
           (\<exists>m. slaveof (nd s n) = Some m \<and>
              (nodeFailed (nd s m) \<or> h_mflags0 req AND CLUSTERMSG_FLAG0_FORCEACK \<noteq> 0) \<and>
              mstime s - voted_time (nd s m) \<ge> cluster_node_timeout s * 2) \<and>
           \<not> claim_outdated (h_myslots req) (h_configEpoch req) s"
  consider (no) "t = s" | (yes) m u where "slaveof (nd s n) = Some m" "t = clusterSendFailoverAuth n u" "c"
    "u = clusterDoBeforeSleep (CLUSTER_TODO_SAVE_CONFIG OR CLUSTER_TODO_FSYNC_CONFIG)
           (upd_node m (\<lambda>x. x\<lparr>voted_time := mstime s\<rparr>) (s\<lparr>lastVoteEpoch := currentEpoch s\<rparr>))"
  proof (cases c)
    case True
    then obtain m where "slaveof (nd s n) = Some m" by (auto simp: c_def)
    with True show ?thesis
      by (intro yes) (auto simp: t_def clusterSendFailoverAuthIfNeeded_def Let_def c_def)
  next
    case False
    then show ?thesis
      by (intro no) (auto simp: t_def clusterSendFailoverAuthIfNeeded_def Let_def c_def not_le not_less split: option.split)
  qed
  then have "vote_step s t \<and> inv_view t = inv_view s \<and> link_node t = link_node s \<and> (acks t \<noteq> acks s \<longrightarrow> c)"
  proof cases
    case no
    then show ?thesis by (simp add: vote_step_same)
  next
    case yes
    have u: "currentEpoch u = currentEpoch s" "lastVoteEpoch u = currentEpoch s" "myself u = myself s"
      "acks u = acks s" "inv_view u = inv_view s" "link_node u = link_node s"
      by (simp_all add: yes(4) acks_def inv_view_def view_defs upd_node_def clusterDoBeforeSleep_def fun_eq_iff)
    obtain msg where m: "sent msg u t" "h_currentEpoch msg = currentEpoch u"
       "acks t = acks u @ (case link (nd u n) of Some l \<Rightarrow> [SendMessage l msg] | None \<Rightarrow> [])"
      using clusterSendFailoverAuth_effect [of u n] yes(2) by blast
    have "lastVoteEpoch s < currentEpoch s" using yes(3) assms by (auto simp: c_def)
    moreover have "acks t = acks s \<or> (\<exists>a. acks t = acks s @ [a] \<and> ack_epoch a = currentEpoch s)"
      using m(2,3) u by (cases "link (nd u n)") (auto simp: ack_epoch_def)
    ultimately have "vote_step s t"
      using sentD [OF m(1)] u by (auto simp: vote_step_def)
    with yes(3) sentD [OF m(1)] u show ?thesis by simp
  qed
  then show "vote_step s (clusterSendFailoverAuthIfNeeded n req s)"
    "inv_view (clusterSendFailoverAuthIfNeeded n req s) = inv_view s"
    "link_node (clusterSendFailoverAuthIfNeeded n req s) = link_node s"
    "acks (clusterSendFailoverAuthIfNeeded n req s) \<noteq> acks s \<Longrightarrow>
           h_currentEpoch req \<ge> currentEpoch s \<and> lastVoteEpoch s < currentEpoch s \<and>
           \<not> nodeIsSlave (me s) \<and> numslots (me s) \<noteq> 0 \<and> \<not> nodeIsMaster (nd s n) \<and>
           (\<exists>m. slaveof (nd s n) = Some m \<and>
              (nodeFailed (nd s m) \<or> h_mflags0 req AND CLUSTERMSG_FLAG0_FORCEACK \<noteq> 0) \<and>
              mstime s - voted_time (nd s m) \<ge> cluster_node_timeout s * 2) \<and>
           \<not> claim_outdated (h_myslots req) (h_configEpoch req) s"
    using assms by (auto simp: t_def c_def)
qed

section \<open>The promotion of a replica\<close>

lemma clusterFailoverReplaceYourMaster_effect:
  assumes inv: "cluster_inv s" and m: "slaveof (me s) = Some m" "m \<in> live s" "m \<noteq> myself s"
    and slave: "\<not> nodeIsMaster (me s)"
  shows "\<exists>t. clusterFailoverReplaceYourMaster s = Some t \<and> cluster_inv t \<and> epoch_view t = epoch_view s \<and>
           link_node t = link_node s \<and> nodeIsMaster (me t) \<and> \<not> nodeIsSlave (me t) \<and> slaveof (me t) = None \<and>
           slots t = (\<lambda>j. if j < CLUSTER_SLOTS \<and> slots s j = Some m then Some (myself s) else slots s j)"
proof -
  define s1 where "s1 = replicationUnsetMaster (clusterSetNodeAsMaster (myself s) s)"
  have v1: "inv_view s1 = inv_view s" "epoch_view s1 = epoch_view s" "link_node s1 = link_node s"
    by (simp_all add: s1_def)
  have s1: "cluster_inv s1" "live s1 = live s" "myself s1 = myself s" "slots s1 = slots s"
    using inv v1 cluster_inv_cong [OF v1(1)] inv_view_live [OF v1(1)] inv_view_nodes [OF v1(1)] by simp_all
  have role1: "nodeIsMaster (me s1)" "\<not> nodeIsSlave (me s1)" "slaveof (me s1) = None"
    using clusterSetNodeAsMaster_effect(1-3) [where n = "myself s" and s = s] slave s1(3) by (simp_all add: s1_def)
  note i = cluster_invD [OF s1(1)]
  have "\<exists>t. for_each [0..<CLUSTER_SLOTS] (failover_claim_slot m) s1 = Some t \<and> slot_inv t \<and>
          slot_frame t = slot_frame s1 \<and> live t = live s1 \<and>
          slots t = (\<lambda>i. if i < CLUSTER_SLOTS \<and> slots s1 i = Some m then Some (myself s1) else slots s1 i)"
  proof (rule st.rebind_loop_plain [OF i(1,4)])
    fix j t assume j: "j < CLUSTER_SLOTS" and t: "slot_inv t" "slot_frame t = slot_frame s1"
      "slots t = (\<lambda>i. if i < j \<and> slots s1 i = Some m then Some (myself s1) else slots s1 i)" "live t = live s1"
    have bit: "clusterNodeGetSlotBit m j t = (slots s1 j = Some m)"
      using slot_inv_bit [OF t(1) _ j, of m] m(2) s1(2) t(3,4) by simp
    have my: "myself t = myself s1" using slot_frame_server [OF t(2)] by simp
    obtain r t1 t2 where r: "clusterDelSlot j t = Some (r, t1)" "clusterAddSlot (myself s1) j t1 = (C_OK, t2)"
      "slot_frame t1 = slot_frame t"
      using st.rebind [OF t(1) j, of "myself s1"] st.del [OF t(1) j] i(4) t(4) by (metis option.inject prod.inject)
    then have "myself t1 = myself s1" using slot_frame_server [OF r(3)] my by simp
    with r bit show "if slots s1 j = Some m
         then \<exists>r t1 t2. clusterDelSlot j t = Some (r, t1) \<and> clusterAddSlot (myself s1) j t1 = (C_OK, t2) \<and>
                failover_claim_slot m j t = Some t2
         else failover_claim_slot m j t = Some t"
      by (auto simp: failover_claim_slot_def)
  qed
  then obtain t2 where t2: "for_each [0..<CLUSTER_SLOTS] (failover_claim_slot m) s1 = Some t2" "slot_inv t2"
    "slot_frame t2 = slot_frame s1" "live t2 = live s1"
    "slots t2 = (\<lambda>i. if i < CLUSTER_SLOTS \<and> slots s1 i = Some m then Some (myself s1) else slots s1 i)" by blast
  note c = cluster_inv_slots [OF s1(1) t2(2,3)]
  define t where "t = resetManualFailover (clusterBroadcastPong CLUSTER_BROADCAST_ALL
       (clusterSaveConfigOrDie True (clusterUpdateState t2)))"
  have t: "clusterFailoverReplaceYourMaster s = Some t"
    using t2(1) m slave by (simp add: clusterFailoverReplaceYourMaster_def s1_def t_def)
  have v: "inv_view t = inv_view t2" "epoch_view t = epoch_view t2" "link_node t = link_node t2"
    by (simp_all add: t_def)
  have p: "pinged (clusterSaveConfigOrDie True (clusterUpdateState t2))
      (clusterBroadcastPong CLUSTER_BROADCAST_ALL (clusterSaveConfigOrDie True (clusterUpdateState t2)))"
    by (rule pinged_broadcastPong)
  have my: "myself t = myself s" "slots t = slots t2"
    using inv_view_nodes [OF v(1)] slot_frame_server(2) [OF t2(3)] s1(3) by simp_all
  have "nodeIsMaster (me t) = nodeIsMaster (me t2)" "nodeIsSlave (me t) = nodeIsSlave (me t2)"
    "slaveof (me t) = slaveof (me t2)"
    using pingedD(20,24,25) [OF p] my(1) slot_frame_server(2) [OF t2(3)] s1(3) by (simp_all add: t_def)
  moreover have "nodeIsMaster (me t2)" "\<not> nodeIsSlave (me t2)" "slaveof (me t2) = None"
    using slot_frame_node [OF t2(3)] slot_frame_server(2) [OF t2(3)] role1 by simp_all
  ultimately show ?thesis
    using t v c my t2(5) s1 v1 cluster_inv_cong [OF v(1)] by auto
qed

section \<open>What the handlers of an election keep\<close>

lemma election_upd [simp]:
  "inv_view (s\<lparr>failover_auth_time := a\<rparr>) = inv_view s" "epoch_view (s\<lparr>failover_auth_time := a\<rparr>) = epoch_view s"
  "inv_view (s\<lparr>failover_auth_rank := a\<rparr>) = inv_view s" "epoch_view (s\<lparr>failover_auth_rank := a\<rparr>) = epoch_view s"
  "inv_view (s\<lparr>failover_auth_count := a\<rparr>) = inv_view s" "epoch_view (s\<lparr>failover_auth_count := a\<rparr>) = epoch_view s"
  "inv_view (s\<lparr>failover_auth_sent := a\<rparr>) = inv_view s" "epoch_view (s\<lparr>failover_auth_sent := a\<rparr>) = epoch_view s"
  "inv_view (s\<lparr>failover_auth_epoch := e\<rparr>) = inv_view s" "epoch_view (s\<lparr>failover_auth_epoch := e\<rparr>) = epoch_view s"
  "inv_view (s\<lparr>cant_failover_reason := a\<rparr>) = inv_view s" "epoch_view (s\<lparr>cant_failover_reason := a\<rparr>) = epoch_view s"
  "inv_view (s\<lparr>lastlog_time := a\<rparr>) = inv_view s" "epoch_view (s\<lparr>lastlog_time := a\<rparr>) = epoch_view s"
  "inv_view (s\<lparr>random_pos := p\<rparr>) = inv_view s" "epoch_view (s\<lparr>random_pos := p\<rparr>) = epoch_view s"
  "inv_view (s\<lparr>todo_before_sleep := w\<rparr>) = inv_view s" "epoch_view (s\<lparr>todo_before_sleep := w\<rparr>) = epoch_view s"
  "inv_view (s\<lparr>mf_can_start := a\<rparr>) = inv_view s" "epoch_view (s\<lparr>mf_can_start := a\<rparr>) = epoch_view s"
  "inv_view (s\<lparr>mf_end := a\<rparr>) = inv_view s" "epoch_view (s\<lparr>mf_end := a\<rparr>) = epoch_view s"
  "inv_view (s\<lparr>currentEpoch := e\<rparr>) = inv_view s" "inv_view (s\<lparr>lastVoteEpoch := e\<rparr>) = inv_view s"
  by (simp_all add: inv_view_def view_defs)

lemma election_link [simp]:
  "link_node (s\<lparr>failover_auth_epoch := e\<rparr>) = link_node s" "link_node (clusterLogCantFailover r s) = link_node s"
  "inv_view (clusterLogCantFailover r s) = inv_view s" "epoch_view (clusterLogCantFailover r s) = epoch_view s"
  "heap (clusterLogCantFailover r s) = heap s" "slots (clusterLogCantFailover r s) = slots s"
  "inv_view (take_election_epoch s) = inv_view s" "epoch_view (take_election_epoch s) = epoch_view s"
  "link_node (take_election_epoch s) = link_node s" "slots (take_election_epoch s) = slots s"
  "myself (take_election_epoch s) = myself s"
  by (simp_all add: clusterLogCantFailover_def take_election_epoch_def Let_def upd_node_inv_view)

lemma keep_promotion:
  assumes "clusterFailoverReplaceYourMaster s = Some t"
  shows "epoch_view t = epoch_view s" "link_node t = link_node s"
proof -
  have claim: "slot_frame v = slot_frame u" if "failover_claim_slot m j u = Some v" for m j u v
    using that slot_ops_frame by (fastforce simp: failover_claim_slot_def split: if_splits bind_splits)
  have "epoch_view t = epoch_view s \<and> link_node t = link_node s"
  proof (cases "\<exists>m. slaveof (me s) = Some m \<and> \<not> nodeIsMaster (me s)")
    case True
    then obtain m where m: "slaveof (me s) = Some m" "\<not> nodeIsMaster (me s)" by blast
    with assms obtain u where u: "for_each [0..<CLUSTER_SLOTS] (failover_claim_slot m)
         (replicationUnsetMaster (clusterSetNodeAsMaster (myself s) s)) = Some u"
      "t = resetManualFailover (clusterBroadcastPong CLUSTER_BROADCAST_ALL
             (clusterSaveConfigOrDie True (clusterUpdateState u)))"
      by (auto simp: clusterFailoverReplaceYourMaster_def split: bind_splits)
    have "slot_frame u = slot_frame (replicationUnsetMaster (clusterSetNodeAsMaster (myself s) s))"
      using for_each_keep [OF u(1), of slot_frame] claim by blast
    from slot_frame_server(11,16) [OF this] u(2) show ?thesis by simp
  qed (use assms in \<open>auto simp: clusterFailoverReplaceYourMaster_def split: option.splits if_splits\<close>)
  then show "epoch_view t = epoch_view s" "link_node t = link_node s" by simp_all
qed

lemma keep_schedule:
  assumes "failover_schedule s = Some t"
  shows "inv_view t = inv_view s" "epoch_view t = epoch_view s" "link_node t = link_node s"
  using assms by (auto simp: failover_schedule_def Let_def split: bind_splits if_splits)

lemma keep_update_rank:
  assumes "failover_update_rank s = Some t"
  shows "inv_view t = inv_view s" "epoch_view t = epoch_view s" "link_node t = link_node s"
    "heap t = heap s" "myself t = myself s" "currentEpoch t = currentEpoch s" "zklc t = zklc s"
    "failover_auth_sent t = failover_auth_sent s" "slots t = slots s" "mstime t = mstime s"
  using assms by (auto simp: failover_update_rank_def split: bind_splits if_splits)

text \<open>Raising the current epoch, which is all an election does to the epochs of the candidate.\<close>

definition epoch_step :: "server \<Rightarrow> server \<Rightarrow> bool" where
  "epoch_step s t \<longleftrightarrow> myself t = myself s \<and> lastVoteEpoch t = lastVoteEpoch s \<and> acks t = acks s \<and>
     currentEpoch s \<le> currentEpoch t"

lemma epoch_step_same: "epoch_view t = epoch_view s \<Longrightarrow> epoch_step s t"
  using epoch_viewD [of t s] by (simp add: epoch_step_def)

lemma epoch_step_vote: "epoch_step s t \<Longrightarrow> vote_step s t"
  by (simp add: epoch_step_def vote_step_def)

lemma epoch_step_trans: "epoch_step s t \<Longrightarrow> epoch_step t u \<Longrightarrow> epoch_step s u"
  by (auto simp: epoch_step_def)

lemma epoch_step_raise: "e > currentEpoch s \<Longrightarrow> epoch_step s (s\<lparr>currentEpoch := e\<rparr>)"
  by (simp add: epoch_step_def acks_def)

lemma epoch_step_view:
  "epoch_step s u \<Longrightarrow> epoch_view t = epoch_view u \<Longrightarrow> epoch_step s t"
  using epoch_viewD [of t u] by (simp add: epoch_step_def)

lemma epoch_step_keep:
  "epoch_view u = epoch_view s \<Longrightarrow> epoch_step u t \<Longrightarrow> epoch_step s t"
  using epoch_viewD [of u s] by (simp add: epoch_step_def)

text \<open>Both ways to win an election start from a raised epoch or leave the epochs as they are.\<close>

lemma failover_by_zk_epoch:
  assumes "failover_by_zk zk z s = Some (z', t)" "currentEpoch s \<noteq> -1"
  shows "epoch_step s t" "link_node t = link_node s"
proof -
  define s1 where "s1 = clusterDoBeforeSleep
      (CLUSTER_TODO_SAVE_CONFIG OR CLUSTER_TODO_UPDATE_STATE OR CLUSTER_TODO_FSYNC_CONFIG)
      (s\<lparr>currentEpoch := currentEpoch s + 1, failover_auth_epoch := currentEpoch s + 1\<rparr>)"
  have e1: "epoch_step s s1"
    using epoch_incr [OF assms(2)] by (simp add: s1_def epoch_step_def acks_def clusterDoBeforeSleep_def)
  have l1: "link_node s1 = link_node s" by (simp add: s1_def clusterDoBeforeSleep_def)
  consider "t = s" | (tried) r u where "zklinkTryCreateOldMasterPath zk z s1 = Some (r, z', u)"
      "r = 0 \<and> t = u\<lparr>failover_auth_sent := 1\<rparr> \<or>
       r \<noteq> 0 \<and> clusterFailoverReplaceYourMaster (take_election_epoch (u\<lparr>failover_auth_sent := 1\<rparr>)) = Some t"
    using assms(1) by (auto simp: failover_by_zk_def s1_def Let_def split: if_splits bind_splits)
  then have "epoch_step s t \<and> link_node t = link_node s"
  proof cases
    case tried
    note k = keep_zkTry [OF tried(1)]
    have "epoch_view t = epoch_view u \<and> link_node t = link_node u"
      using tried(2) keep_promotion [of "take_election_epoch (u\<lparr>failover_auth_sent := 1\<rparr>)" t] by auto
    then show ?thesis using epoch_step_view [OF e1] k l1 by simp
  qed (simp add: epoch_step_same)
  then show "epoch_step s t" "link_node t = link_node s" by simp_all
qed

lemma failover_by_votes_epoch:
  assumes "failover_by_votes s = Some t" "currentEpoch s \<noteq> -1"
  shows "epoch_step s t" "link_node t = link_node s"
proof -
  define s1 where "s1 = s\<lparr>currentEpoch := currentEpoch s + 1, failover_auth_epoch := currentEpoch s + 1\<rparr>"
  have e1: "epoch_step s s1" using epoch_incr [OF assms(2)] by (simp add: s1_def epoch_step_def acks_def)
  have l1: "link_node s1 = link_node s" by (simp add: s1_def)
  have "epoch_step s t \<and> link_node t = link_node s"
  proof (cases "failover_auth_sent s = 0")
    case True
    then have t: "t = clusterDoBeforeSleep
        (CLUSTER_TODO_SAVE_CONFIG OR CLUSTER_TODO_UPDATE_STATE OR CLUSTER_TODO_FSYNC_CONFIG)
        ((clusterRequestFailoverAuth s1)\<lparr>failover_auth_sent := 1\<rparr>)"
      using assms(1) unfolding failover_by_votes_def Let_def s1_def by simp
    have "epoch_view t = epoch_view s1" "link_node t = link_node s1" unfolding t by simp_all
    then show ?thesis using epoch_step_view [OF e1] l1 by simp
  next
    case False
    show ?thesis
    proof (cases "failover_auth_count s \<ge> needed_quorum (cluster_size s)")
      case True
      then have "clusterFailoverReplaceYourMaster (take_election_epoch s) = Some t"
        using assms(1) False by (simp add: failover_by_votes_def)
      from keep_promotion [OF this] show ?thesis by (simp add: epoch_step_same)
    next
      case F: False
      then have "t = clusterLogCantFailover CLUSTER_CANT_FAILOVER_WAITING_VOTES s"
        using assms(1) False by (simp add: failover_by_votes_def)
      then show ?thesis by (simp add: epoch_step_same)
    qed
  qed
  then show "epoch_step s t" "link_node t = link_node s" by simp_all
qed

lemma clusterHandleSlaveFailover_epoch:
  assumes "clusterHandleSlaveFailover zk z s = Some (z', t)" "currentEpoch s \<noteq> -1"
  shows "epoch_step s t" "link_node t = link_node s"
proof -
  define s1 where "s1 = s\<lparr>todo_before_sleep := todo_before_sleep s AND NOT CLUSTER_TODO_HANDLE_FAILOVER\<rparr>"
  have v1: "epoch_view s1 = epoch_view s" "link_node s1 = link_node s" by (simp_all add: s1_def)
  consider (none) "t = s1\<lparr>cant_failover_reason := CLUSTER_CANT_FAILOVER_NONE\<rparr>"
    | (log) r where "t = clusterLogCantFailover r s1" | (sched) "failover_schedule s1 = Some t"
    | (rank) u where "failover_update_rank s1 = Some u"
        "(\<exists>r. t = clusterLogCantFailover r u) \<or> failover_by_zk zk z u = Some (z', t) \<or> failover_by_votes u = Some t"
    using assms(1) unfolding clusterHandleSlaveFailover_def Let_def s1_def [symmetric]
    by (fastforce split: if_splits bind_splits)
  then have "epoch_step s1 t \<and> link_node t = link_node s1"
  proof cases
    case none
    then show ?thesis by (simp add: epoch_step_same)
  next
    case log
    then show ?thesis by (simp add: epoch_step_same)
  next
    case sched
    then show ?thesis using keep_schedule [OF sched] by (simp add: epoch_step_same)
  next
    case rank
    note k = keep_update_rank [OF rank(1)]
    have ne: "currentEpoch u \<noteq> -1" using assms(2) k(6) by (simp add: s1_def)
    have "epoch_step u t \<and> link_node t = link_node u"
      using rank(2) failover_by_zk_epoch [OF _ ne] failover_by_votes_epoch [OF _ ne] epoch_step_same [of t u] by auto
    then show ?thesis using epoch_step_keep [OF k(2)] k(3) by simp
  qed
  then show "epoch_step s t" "link_node t = link_node s"
    using epoch_step_keep [OF v1(1)] v1(2) by simp_all
qed

section \<open>The election as a whole\<close>

text \<open>This node's master is another node of the table, and this node is a replica then.\<close>

definition master_ok :: "server \<Rightarrow> bool" where
  "master_ok s \<longleftrightarrow>
     (\<forall>m. slaveof (me s) = Some m \<longrightarrow> m \<in> live s \<and> m \<noteq> myself s \<and> nodeIsSlave (me s))"

text \<open>What makes a promotion legitimate.\<close>

definition elected :: "'z zk_api \<Rightarrow> 'z \<Rightarrow> server \<Rightarrow> bool" where
  "elected zk z s \<longleftrightarrow>
     (case zklc s of
        None \<Rightarrow> failover_auth_sent s \<noteq> 0 \<and> failover_auth_count s \<ge> needed_quorum (cluster_size s)
      | Some c \<Rightarrow> failover_auth_sent s = 0 \<and>
          (\<exists>rp m. replace_path c = Some rp \<and> slaveof (me s) = Some m \<and>
             strneq CLUSTER_NAMELEN rp (name_cstr (nd s m)) \<and>
             fst (zoo_create zk (zh c) (replace_node_path rp) (replace_data (name_cstr (me s))) z) = ZOK))"

text \<open>The table of slots after the replica took over from its master.\<close>

definition taken_over :: "server \<Rightarrow> nat \<Rightarrow> naddr option" where
  "taken_over s j = (if j < CLUSTER_SLOTS \<and> slots s j = slaveof (me s) then Some (myself s) else slots s j)"

definition promotion :: "server \<Rightarrow> server \<Rightarrow> bool" where
  "promotion s t \<longleftrightarrow> nodeIsMaster (me t) \<and> \<not> nodeIsSlave (me t) \<and> slaveof (me t) = None \<and>
     myself t = myself s \<and> slots t = taken_over s"

lemma take_election_epoch_role [simp]:
  "slaveof (heap (take_election_epoch s) a) = slaveof (heap s a)"
  "flags (heap (take_election_epoch s) a) = flags (heap s a)"
  "name (heap (take_election_epoch s) a) = name (heap s a)"
  by (simp_all add: take_election_epoch_def)

lemma promotion_step:
  assumes inv: "cluster_inv s" "master_ok s" and m: "slaveof (me s) = Some m" "\<not> nodeIsMaster (me s)"
  shows "\<exists>t. clusterFailoverReplaceYourMaster (take_election_epoch s) = Some t \<and> cluster_inv t \<and> promotion s t"
proof -
  define u where "u = take_election_epoch s"
  have v: "inv_view u = inv_view s" "myself u = myself s" "slots u = slots s" by (simp_all add: u_def)
  have live: "m \<in> live u" "m \<noteq> myself u"
    using inv(2) m(1) inv_view_live [OF v(1)] v(2) by (simp_all add: master_ok_def)
  have role: "slaveof (me u) = Some m" "\<not> nodeIsMaster (me u)"
    using m v(2) by (simp_all add: u_def nodeIsMaster_def)
  have "cluster_inv u" using inv(1) cluster_inv_cong [OF v(1)] by simp
  from clusterFailoverReplaceYourMaster_effect [OF this role(1) live role(2)]
  obtain t where t: "clusterFailoverReplaceYourMaster u = Some t" "cluster_inv t" "epoch_view t = epoch_view u"
    "nodeIsMaster (me t)" "\<not> nodeIsSlave (me t)" "slaveof (me t) = None"
    "slots t = (\<lambda>j. if j < CLUSTER_SLOTS \<and> slots u j = Some m then Some (myself u) else slots u j)" by blast
  have "myself t = myself s" using epoch_viewD [OF t(3)] v(2) by simp
  moreover have "slots t = taken_over s" unfolding t(7) taken_over_def using v m(1) by (simp add: fun_eq_iff)
  ultimately show ?thesis using t unfolding u_def promotion_def by blast
qed

lemma failover_by_votes_result:
  assumes inv: "cluster_inv s" "master_ok s" and m: "slaveof (me s) = Some m" "\<not> nodeIsMaster (me s)"
    and zk: "zklc s = None"
  shows "\<exists>t. failover_by_votes s = Some t \<and> cluster_inv t \<and>
           (if elected zk z s then promotion s t else slots t = slots s \<and> flags (me t) = flags (me s) \<and> myself t = myself s)"
proof (cases "elected zk z s")
  case True
  then show ?thesis
    using promotion_step [OF inv m] zk by (auto simp: failover_by_votes_def elected_def)
next
  case False
  define s1 where "s1 = s\<lparr>currentEpoch := currentEpoch s + 1, failover_auth_epoch := currentEpoch s + 1\<rparr>"
  have i: "cluster_inv s1" using inv by (subst cluster_inv_cong [of _ s]) (simp_all add: s1_def)
  have s1: "slots s1 = slots s" "heap s1 = heap s" "myself s1 = myself s" by (simp_all add: s1_def)
  show ?thesis
  proof (cases "failover_auth_sent s = 0")
    case True
    define t where "t = clusterDoBeforeSleep
        (CLUSTER_TODO_SAVE_CONFIG OR CLUSTER_TODO_UPDATE_STATE OR CLUSTER_TODO_FSYNC_CONFIG)
        ((clusterRequestFailoverAuth s1)\<lparr>failover_auth_sent := 1\<rparr>)"
    have v: "inv_view t = inv_view s1" by (simp add: t_def)
    have "failover_by_votes s = Some t" using True by (simp add: failover_by_votes_def Let_def s1_def t_def)
    moreover have "flags (me t) = flags (me s)"
      using s1 by (simp add: t_def clusterDoBeforeSleep_def)
    ultimately show ?thesis
      using False i cluster_inv_cong [OF v] inv_view_nodes [OF v] s1 by auto
  next
    case F: False
    then have "failover_by_votes s = Some (clusterLogCantFailover CLUSTER_CANT_FAILOVER_WAITING_VOTES s)"
      using False zk by (simp add: failover_by_votes_def elected_def)
    moreover have v: "inv_view (clusterLogCantFailover CLUSTER_CANT_FAILOVER_WAITING_VOTES s) = inv_view s" by simp
    ultimately show ?thesis
      using False inv cluster_inv_cong [OF v] inv_view_nodes [OF v] by simp
  qed
qed

text \<open>The replica wins through ZooKeeper exactly when it created the node of its master.\<close>

lemma zklinkTry_result:
  assumes "zklc s = Some c"
  shows "\<exists>r z' t. zklinkTryCreateOldMasterPath zk z s = Some (r, z', t) \<and> (r = 0 \<or> r = 1) \<and>
           (r = 1 \<longleftrightarrow> nodeIsSlave (me s) \<and>
             (\<exists>rp m. replace_path c = Some rp \<and> slaveof (me s) = Some m \<and>
                strneq CLUSTER_NAMELEN rp (name_cstr (nd s m)) \<and>
                fst (zoo_create zk (zh c) (replace_node_path rp) (replace_data (name_cstr (me s))) z) = ZOK))"
  using assms
  by (auto simp: zklinkTryCreateOldMasterPath_def Let_def case_prod_beta zk_code_defs split: option.split)

lemma failover_by_zk_result:
  assumes inv: "cluster_inv s" "master_ok s" and m: "slaveof (me s) = Some m" "\<not> nodeIsMaster (me s)"
    and zk: "zklc s = Some c"
  shows "\<exists>z' t. failover_by_zk zk z s = Some (z', t) \<and> cluster_inv t \<and>
           (if elected zk z s then promotion s t else slots t = slots s \<and> flags (me t) = flags (me s) \<and> myself t = myself s)"
proof (cases "failover_auth_sent s = 0")
  case False
  then have "failover_by_zk zk z s = Some (z, s)" "\<not> elected zk z s"
    using zk by (simp_all add: failover_by_zk_def elected_def)
  with inv show ?thesis by simp
next
  case True
  define s1 where "s1 = clusterDoBeforeSleep
      (CLUSTER_TODO_SAVE_CONFIG OR CLUSTER_TODO_UPDATE_STATE OR CLUSTER_TODO_FSYNC_CONFIG)
      (s\<lparr>currentEpoch := currentEpoch s + 1, failover_auth_epoch := currentEpoch s + 1\<rparr>)"
  have s1: "heap s1 = heap s" "myself s1 = myself s" "slots s1 = slots s" "zklc s1 = Some c"
    using zk by (simp_all add: s1_def clusterDoBeforeSleep_def)
  have v1: "inv_view s1 = inv_view s" by (simp add: s1_def)
  obtain r z' t where t: "zklinkTryCreateOldMasterPath zk z s1 = Some (r, z', t)" "r = 0 \<or> r = 1"
    "r = 1 \<longleftrightarrow> nodeIsSlave (me s1) \<and> (\<exists>rp m. replace_path c = Some rp \<and> slaveof (me s1) = Some m \<and>
        strneq CLUSTER_NAMELEN rp (name_cstr (nd s1 m)) \<and>
        fst (zoo_create zk (zh c) (replace_node_path rp) (replace_data (name_cstr (me s1))) z) = ZOK)"
    using zklinkTry_result [OF s1(4), of zk z] by blast
  have slave: "nodeIsSlave (me s)" using inv(2) m(1) by (simp add: master_ok_def)
  have el: "r = 1 \<longleftrightarrow> elected zk z s" using t(3) s1 slave zk True by (auto simp: elected_def)
  note k = keep_zkTry [OF t(1)]
  define u where "u = t\<lparr>failover_auth_sent := 1\<rparr>"
  have vu: "inv_view u = inv_view s" using k(1) v1 by (simp add: u_def)
  have u: "heap u = heap s" "slots u = slots s" "myself u = myself s" "cluster_inv u"
    using k s1 inv(1) cluster_inv_cong [OF vu] by (simp_all add: u_def)
  have eq: "failover_by_zk zk z s =
      (if r = 0 then Some (z', u)
       else map_option (\<lambda>t. (z', t)) (clusterFailoverReplaceYourMaster (take_election_epoch u)))"
    using True t(1) unfolding failover_by_zk_def u_def
    by (simp add: s1_def Let_def map_option_case Option.bind_eq_None_conv split: option.split)
  show ?thesis
  proof (cases "r = 0")
    case True
    then show ?thesis using eq el u by simp
  next
    case False
    have "master_ok u" using inv(2) u inv_view_live [OF vu] by (simp add: master_ok_def)
    from promotion_step [OF u(4) this] obtain w where
      w: "clusterFailoverReplaceYourMaster (take_election_epoch u) = Some w" "cluster_inv w" "promotion u w"
      using m u by auto
    have "taken_over u = taken_over s" using u by (simp add: taken_over_def fun_eq_iff)
    then have "promotion s w" using w(3) u(3) unfolding promotion_def by auto
    then show ?thesis using eq False el t(2) w by auto
  qed
qed

lemma clusterGetSlaveRank_returns: "nodeIsSlave (me s) \<Longrightarrow> \<exists>r. clusterGetSlaveRank s = Some r"
  by (auto simp: clusterGetSlaveRank_def Let_def split: option.split)

lemma failover_schedule_role:
  assumes "nodeIsSlave (me s)"
  shows "\<exists>t. failover_schedule s = Some t \<and> inv_view t = inv_view s \<and>
           (\<forall>a. flags (nd t a) = flags (nd s a)) \<and> myself t = myself s"
proof -
  obtain r where "clusterGetSlaveRank (s\<lparr>failover_auth_time := mstime s + 500 + random_num s (random_pos s) mod 500,
      random_pos := random_pos s + 1, failover_auth_count := 0, failover_auth_sent := 0\<rparr>) = Some r"
    using clusterGetSlaveRank_returns [of "s\<lparr>failover_auth_time := mstime s + 500 + random_num s (random_pos s) mod 500,
      random_pos := random_pos s + 1, failover_auth_count := 0, failover_auth_sent := 0\<rparr>"] assms by auto
  then obtain t where t: "failover_schedule s = Some t"
    by (auto simp: failover_schedule_def Let_def)
  from t obtain u where u: "t = clusterBroadcastPong CLUSTER_BROADCAST_LOCAL_SLAVES u" "heap u = heap s"
    by (auto simp: failover_schedule_def Let_def clusterDoBeforeSleep_def split: bind_splits if_splits)
  have "flags (nd t a) = flags (nd s a)" for a
    using pingedD(18) [OF pinged_broadcastPong, of CLUSTER_BROADCAST_LOCAL_SLAVES u a] u by simp
  with t keep_schedule(1) [OF t] inv_view_nodes [OF keep_schedule(1) [OF t]] show ?thesis by blast
qed

lemma failover_update_rank_returns:
  assumes "nodeIsSlave (me s)"
  shows "\<exists>t. failover_update_rank s = Some t \<and> failover_auth_count t = failover_auth_count s \<and>
           cluster_size t = cluster_size s \<and> failover_auth_sent t = failover_auth_sent s"
  using clusterGetSlaveRank_returns [OF assms] by (auto simp: failover_update_rank_def)

text \<open>
  \<open>clusterHandleSlaveFailover\<close> always returns; it promotes this replica only when it
  was elected, and otherwise leaves the slots and this node's role alone.
\<close>

lemma clusterHandleSlaveFailover_result:
  assumes inv: "cluster_inv s" "master_ok s"
  shows "\<exists>z' t. clusterHandleSlaveFailover zk z s = Some (z', t) \<and> cluster_inv t \<and>
           (elected zk z s \<and> failover_has_cause (mf_end s \<noteq> 0 \<and> mf_can_start s \<noteq> 0) s \<and> promotion s t \<or>
            slots t = slots s \<and> flags (me t) = flags (me s) \<and> myself t = myself s)"
proof -
  define s1 where "s1 = s\<lparr>todo_before_sleep := todo_before_sleep s AND NOT CLUSTER_TODO_HANDLE_FAILOVER\<rparr>"
  have v1: "inv_view s1 = inv_view s" and s1: "heap s1 = heap s" "slots s1 = slots s" "myself s1 = myself s"
    by (simp_all add: s1_def)
  have i1: "cluster_inv s1" "master_ok s1"
    using inv cluster_inv_cong [OF v1] inv_view_live [OF v1] s1 by (simp_all add: master_ok_def)
  have same_flags: "cluster_inv u \<and> slots u = slots s \<and> flags (me u) = flags (me s) \<and> myself u = myself s"
    if "inv_view u = inv_view s1" "\<forall>a. flags (nd u a) = flags (nd s a)" for u
    using inv cluster_inv_cong [of u s] inv_view_nodes [of u s] that v1 by simp
  have same: "cluster_inv u \<and> slots u = slots s \<and> flags (me u) = flags (me s) \<and> myself u = myself s"
    if "inv_view u = inv_view s1" "heap u = heap s" for u
    using same_flags that by simp
  show ?thesis
  proof (cases "failover_has_cause (mf_end s \<noteq> 0 \<and> mf_can_start s \<noteq> 0) s")
    case False
    then have "\<not> failover_has_cause (mf_end s \<noteq> 0 \<and> mf_can_start s \<noteq> 0) s1"
      using s1(1,3) by (simp add: failover_has_cause_def s1_def cong: option.case_cong)
    then have "clusterHandleSlaveFailover zk z s = Some (z, s1\<lparr>cant_failover_reason := CLUSTER_CANT_FAILOVER_NONE\<rparr>)"
      by (simp add: clusterHandleSlaveFailover_def s1_def)
    then show ?thesis using same [of "s1\<lparr>cant_failover_reason := CLUSTER_CANT_FAILOVER_NONE\<rparr>"] s1 by simp
  next
    case True
    then obtain m where m: "slaveof (me s) = Some m" "\<not> nodeIsMaster (me s)"
      by (auto simp: failover_has_cause_def split: option.splits)
    have slave: "nodeIsSlave (me s1)" using i1(2) m s1 by (simp add: master_ok_def)
    have el: "elected zk z u = elected zk z s"
      if "heap u = heap s1" "myself u = myself s1" "zklc u = zklc s1" "failover_auth_sent u = failover_auth_sent s1"
        "failover_auth_count u = failover_auth_count s1" "cluster_size u = cluster_size s1" for u
      using that s1 by (simp add: elected_def s1_def cong: option.case_cong)
    obtain w where w: "failover_schedule s1 = Some w" "inv_view w = inv_view s1" "\<forall>a. flags (nd w a) = flags (nd s a)"
      using failover_schedule_role [OF slave] s1 by auto
    obtain u where u: "failover_update_rank s1 = Some u" "failover_auth_count u = failover_auth_count s1"
      "cluster_size u = cluster_size s1"
      using failover_update_rank_returns [OF slave] by auto
    note k = keep_update_rank [OF u(1)]
    have iu: "cluster_inv u" "master_ok u" "slaveof (me u) = Some m" "\<not> nodeIsMaster (me u)"
      using i1 cluster_inv_cong [OF k(1)] inv_view_live [OF k(1)] k s1 m by (simp_all add: master_ok_def)
    have cause: "failover_has_cause (mf_end s \<noteq> 0 \<and> mf_can_start s \<noteq> 0) s1"
      using True s1(1,3) by (simp add: failover_has_cause_def s1_def cong: option.case_cong)
    have su: "heap u = heap s" "slots u = slots s" "myself u = myself s" "zklc u = zklc s"
      "elected zk z u = elected zk z s"
      using k u s1 el [of u] by (simp_all add: s1_def)
    have "taken_over u = taken_over s" using su by (simp add: taken_over_def fun_eq_iff)
    then have tk: "promotion u t = promotion s t" for t using su(3) by (simp add: promotion_def)
    let ?v = "clusterHandleSlaveFailover zk z s"
    have "(\<exists>r. ?v = Some (z, clusterLogCantFailover r s1)) \<or>
        ?v = map_option (\<lambda>s. (z, s)) (failover_schedule s1) \<or>
        (\<exists>r. ?v = Some (z, clusterLogCantFailover r u)) \<or>
        (zklc u \<noteq> None \<and> ?v = failover_by_zk zk z u) \<or>
        (zklc u = None \<and> ?v = map_option (\<lambda>s. (z, s)) (failover_by_votes u))"
      using cause u(1) unfolding clusterHandleSlaveFailover_def Let_def s1_def [symmetric] by auto
    then consider r where "?v = Some (z, clusterLogCantFailover r s1)" | "?v = Some (z, w)"
      | r where "?v = Some (z, clusterLogCantFailover r u)"
      | c where "zklc u = Some c" "?v = failover_by_zk zk z u"
      | "zklc u = None" "?v = map_option (\<lambda>s. (z, s)) (failover_by_votes u)"
      using w(1) by auto
    then show ?thesis
    proof cases
      case 1
      then show ?thesis using same [of "clusterLogCantFailover r s1"] s1 by auto
    next
      case 2
      then show ?thesis using same_flags [OF w(2) w(3)] by auto
    next
      case 3
      then show ?thesis using same [of "clusterLogCantFailover r u"] su k(1) by auto
    next
      case 4
      from failover_by_zk_result [OF iu 4(1), of zk z]
      show ?thesis using 4 True su tk by (auto split: if_splits)
    next
      case 5
      from failover_by_votes_result [OF iu 5(1), of zk z]
      show ?thesis using 5 True su tk by (auto split: if_splits)
    qed
  qed
qed

section \<open>Migration keeps the tables\<close>

lemma keep_migration_scan:
  "inv_view (snd (snd (fold (\<lambda>(nm, node). migration_scan k node) ns (t, c, s)))) = inv_view s \<and>
   epoch_view (snd (snd (fold (\<lambda>(nm, node). migration_scan k node) ns (t, c, s)))) = epoch_view s \<and>
   link_node (snd (snd (fold (\<lambda>(nm, node). migration_scan k node) ns (t, c, s)))) = link_node s"
proof (induction ns arbitrary: t c s)
  case (Cons e ns)
  obtain nm a where e: "e = (nm, a)" by (cases e)
  obtain t' c' s' where m: "migration_scan k a (t, c, s) = (t', c', s')" by (metis prod_cases3)
  have "inv_view s' = inv_view s" "epoch_view s' = epoch_view s" "link_node s' = link_node s"
    using m by (auto simp: migration_scan_def Let_def upd_node_inv_view split: if_splits)
  then show ?case using Cons.IH [of t' c' s'] by (simp add: e m)
qed simp

lemma keep_migration:
  assumes "clusterHandleSlaveMigration k s = Some t"
  shows "inv_view t = inv_view s" "epoch_view t = epoch_view s" "link_node t = link_node s"
proof -
  define r where "r = fold (\<lambda>(nm, node). migration_scan k node) (nodes s) (None, myself s, s)"
  have "t = s \<or> t = snd (snd r) \<or> (\<exists>n. clusterSetMaster n (snd (snd r)) = Some t)"
    using assms unfolding clusterHandleSlaveMigration_def Let_def r_def [symmetric]
    by (auto simp: case_prod_beta split: if_splits option.splits)
  then show "inv_view t = inv_view s" "epoch_view t = epoch_view s" "link_node t = link_node s"
    using keep_migration_scan [of k "nodes s" None "myself s" s] keep_SetMaster [of _ "snd (snd r)" t]
    by (auto simp: r_def)
qed

end
