(* ===== verification/ClusterPacket.thy ===== *)
theory ClusterPacket
  imports ClusterElection
begin

text \<open>
  Receiving: handshakes, the gossip section, the address of a node, and
  \<open>clusterProcessPacket\<close>, cut into the passages of its body. A passage that may
  leave the function early returns \<open>Inl\<close> with the final state, one that goes on
  returns \<open>Inr\<close>. \<open>None\<close> is a failed assertion or a read outside the packet.
\<close>

section \<open>Addresses and handshakes\<close>

definition clusterHandshakeInProgress :: "bytes \<Rightarrow> int \<Rightarrow> int \<Rightarrow> server \<Rightarrow> bool" where
  "clusterHandshakeInProgress a p cp s =
     list_ex (\<lambda>(nm, node). nodeInHandshake (nd s node) \<and> strcaseeq (ip (nd s node)) a \<and>
                           port (nd s node) = p \<and> cport (nd s node) = cp) (nodes s)"

definition clusterStartHandshake :: "bytes \<Rightarrow> int \<Rightarrow> int \<Rightarrow> server \<Rightarrow> int \<times> server" where
  "clusterStartHandshake a p cp s =
     (case inet_norm s a of
        None \<Rightarrow> (0, s)
      | Some norm_ip \<Rightarrow>
          if p \<le> 0 \<or> p > 65535 \<or> cp \<le> 0 \<or> cp > 65535 then (0, s)
          else if clusterHandshakeInProgress norm_ip p cp s then (0, s)
          else
            let (n, s) = createClusterNode None (CLUSTER_NODE_HANDSHAKE OR CLUSTER_NODE_MEET) s;
                s = upd_node n (\<lambda>x. x\<lparr>ip := norm_ip, port := p, cport := cp\<rparr>) s
            in (1, snd (clusterAddNode n s)))"

definition nodeIp2String :: "laddr \<Rightarrow> bytes \<Rightarrow> server \<Rightarrow> bytes" where
  "nodeIp2String l announced_ip s =
     (if announced_ip \<noteq> [] then take (NET_IP_STR_LEN - 1) announced_ip else link_peer s l)"

definition nodeUpdateAddressIfNeeded :: "naddr \<Rightarrow> laddr \<Rightarrow> clusterMsg \<Rightarrow> server \<Rightarrow> bool \<times> server" where
  "nodeUpdateAddressIfNeeded node l hdr s =
     (let p = uint (h_port hdr); cp = uint (h_cport hdr)
      in if link (nd s node) = Some l then (False, s)
         else
           let a = nodeIp2String l (h_myip hdr) s
           in if port (nd s node) = p \<and> cport (nd s node) = cp \<and> a = ip (nd s node) then (False, s)
              else
                let s = upd_node node (\<lambda>x. x\<lparr>ip := a, port := p, cport := cp\<rparr>) s;
                    s = (case link (nd s node) of Some l' \<Rightarrow> freeClusterLink l' s | None \<Rightarrow> s);
                    s = upd_node node (\<lambda>x. x\<lparr>flags := flags x AND NOT CLUSTER_NODE_NOADDR\<rparr>) s;
                    s = (if nodeIsSlave (me s) \<and> slaveof (me s) = Some node
                         then replicationSetMaster (ip (nd s node)) (port (nd s node)) s else s)
                in (True, s))"

section \<open>Gossip\<close>

definition gossip_report :: "naddr option \<Rightarrow> naddr \<Rightarrow> u16 \<Rightarrow> server \<Rightarrow> server" where
  "gossip_report sender node fl s =
     (case sender of
        None \<Rightarrow> s
      | Some sd \<Rightarrow>
          if nodeIsMaster (nd s sd) \<and> node \<noteq> myself s
          then if ucast fl AND (CLUSTER_NODE_FAIL OR CLUSTER_NODE_PFAIL) \<noteq> 0
               then markNodeAsFailingIfNeeded node (snd (clusterNodeAddFailureReport node sd s))
               else snd (clusterNodeDelFailureReport node sd s)
          else s)"

definition gossip_known ::
  "naddr option \<Rightarrow> naddr \<Rightarrow> clusterMsgDataGossip \<Rightarrow> server \<Rightarrow> server" where
  "gossip_known sender node g s =
     (let fl = ucast (g_flags g) :: u32;
          failing = (fl AND (CLUSTER_NODE_FAIL OR CLUSTER_NODE_PFAIL) \<noteq> 0);
          s = gossip_report sender node (g_flags g) s;
          s = (if \<not> failing \<and> ping_sent (nd s node) = 0
               then let (n, s) = clusterNodeFailureReportsCount node s;
                        pongtime = uint (g_pong_received g) * 1000
                    in if n = 0 \<and> pongtime \<le> server_mstime s + 500 \<and> pongtime > pong_received (nd s node)
                       then upd_node node (\<lambda>x. x\<lparr>pong_received := pongtime\<rparr>) s
                       else s
               else s)
      in if flags (nd s node) AND (CLUSTER_NODE_FAIL OR CLUSTER_NODE_PFAIL) \<noteq> 0 \<and>
            fl AND CLUSTER_NODE_NOADDR = 0 \<and> \<not> failing \<and>
            (\<not> strcaseeq (ip (nd s node)) (g_ip g) \<or> port (nd s node) \<noteq> uint (g_port g) \<or>
             cport (nd s node) \<noteq> uint (g_cport g))
         then let s = (case link (nd s node) of Some l \<Rightarrow> freeClusterLink l s | None \<Rightarrow> s)
              in upd_node node (\<lambda>x. x\<lparr>ip := g_ip g, port := uint (g_port g), cport := uint (g_cport g),
                                      flags := flags x AND NOT CLUSTER_NODE_NOADDR\<rparr>) s
         else s)"

definition gossip_unknown :: "naddr option \<Rightarrow> clusterMsgDataGossip \<Rightarrow> server \<Rightarrow> server" where
  "gossip_unknown sender g s =
     (let fl = ucast (g_flags g) :: u32
      in if sender \<noteq> None \<and> fl AND CLUSTER_NODE_NOADDR = 0
         then let (listed, s) = clusterBlacklistExists (g_nodename g) s
              in if listed then s
                 else
                   let (n, s) = createClusterNode (Some (g_nodename g)) fl s;
                       s = upd_node n (\<lambda>x. x\<lparr>ip := g_ip g, port := uint (g_port g), cport := uint (g_cport g)\<rparr>) s
                   in snd (clusterAddNode n s)
         else s)"

definition clusterProcessGossipSection :: "clusterMsg \<Rightarrow> laddr \<Rightarrow> server \<Rightarrow> server" where
  "clusterProcessGossipSection hdr l s =
     (let gossip = (case h_data hdr of PingData gs \<Rightarrow> take (unat (h_count hdr)) gs | _ \<Rightarrow> []);
          sender = (case link_node s l of Some n \<Rightarrow> Some n | None \<Rightarrow> clusterLookupNode (h_sender hdr) s)
      in fold (\<lambda>g s. case clusterLookupNode (g_nodename g) s of
                       Some node \<Rightarrow> gossip_known sender node g s
                     | None \<Rightarrow> gossip_unknown sender g s) gossip s)"

section \<open>The passages of clusterProcessPacket\<close>

definition is_ping_type :: "nat \<Rightarrow> bool" where
  "is_ping_type t \<longleftrightarrow> t = CLUSTERMSG_TYPE_PING \<or> t = CLUSTERMSG_TYPE_PONG \<or> t = CLUSTERMSG_TYPE_MEET"

text \<open>
  The sanity checks; \<open>explen\<close> is computed in 32 bits as in the code. That the buffer holds
  \<open>totlen\<close> bytes is not tested again: \<open>clusterReadHandler\<close> processes a packet only when the length of
  its buffer is \<open>totlen\<close>.
\<close>

definition packet_length_ok :: "clusterMsg \<Rightarrow> bool" where
  "packet_length_ok hdr =
     (let totlen = h_totlen hdr; type = h_type hdr
      in \<not> totlen < 16 \<and> h_ver hdr = CLUSTER_PROTO_VER \<and>
         (if is_ping_type type
          then totlen = CLUSTERMSG_MIN_LEN + sizeof_clusterMsgDataGossip * ucast (h_count hdr)
          else if type = CLUSTERMSG_TYPE_FAIL then totlen = CLUSTERMSG_MIN_LEN + sizeof_clusterMsgDataFail
          else if type = CLUSTERMSG_TYPE_PUBLISH
          then (case h_data hdr of
                  PublishData channel_len message_len _ \<Rightarrow>
                    totlen = CLUSTERMSG_MIN_LEN +
                      (sizeof_clusterMsgDataPublish - 8 + channel_len + message_len)
                | _ \<Rightarrow> False)
          else if type = CLUSTERMSG_TYPE_FAILOVER_AUTH_REQUEST \<or>
                  type = CLUSTERMSG_TYPE_FAILOVER_AUTH_ACK \<or> type = CLUSTERMSG_TYPE_MFSTART
          then totlen = CLUSTERMSG_MIN_LEN
          else if type = CLUSTERMSG_TYPE_UPDATE then totlen = CLUSTERMSG_MIN_LEN + sizeof_clusterMsgDataUpdate
          else if type = CLUSTERMSG_TYPE_MODULE
          then (case h_data hdr of
                  ModuleData _ len _ _ \<Rightarrow>
                    totlen = CLUSTERMSG_MIN_LEN + (sizeof_clusterMsgDataPublish - 3 + len)
                | _ \<Rightarrow> False)
          else True))"

text \<open>What any packet tells about its sender: epochs, replication offset, manual failover.\<close>

definition packet_sender_info :: "naddr option \<Rightarrow> clusterMsg \<Rightarrow> server \<Rightarrow> server" where
  "packet_sender_info sender hdr s =
     (case sender of
        None \<Rightarrow> s
      | Some sd \<Rightarrow>
          let s = upd_node sd (\<lambda>x. x\<lparr>data_received := mstime s\<rparr>) s
          in if nodeInHandshake (nd s sd) then s
             else
               let s = (if h_currentEpoch hdr > currentEpoch s
                        then s\<lparr>currentEpoch := h_currentEpoch hdr\<rparr> else s);
                   s = (if h_configEpoch hdr > configEpoch (nd s sd)
                        then clusterDoBeforeSleep (CLUSTER_TODO_SAVE_CONFIG OR CLUSTER_TODO_FSYNC_CONFIG)
                               (upd_node sd (\<lambda>x. x\<lparr>configEpoch := h_configEpoch hdr\<rparr>) s)
                        else s);
                   s = upd_node sd (\<lambda>x. x\<lparr>repl_offset := sint (h_offset hdr), repl_offset_time := mstime s\<rparr>) s
               in if mf_end s \<noteq> 0 \<and> nodeIsSlave (me s) \<and> slaveof (me s) = Some sd \<and>
                     h_mflags0 hdr AND CLUSTERMSG_FLAG0_PAUSED \<noteq> 0 \<and> mf_master_offset s = 0
                  then s\<lparr>mf_master_offset := repl_offset (nd s sd)\<rparr> else s)"

definition packet_ping_meet :: "naddr option \<Rightarrow> laddr \<Rightarrow> clusterMsg \<Rightarrow> server \<Rightarrow> server" where
  "packet_ping_meet sender l hdr s =
     (let type = h_type hdr;
          s = (if (type = CLUSTERMSG_TYPE_MEET \<or> ip (me s) = []) \<and> cluster_announce_ip s = None
               then (case link_sockname s l of
                       Some a \<Rightarrow> if a \<noteq> ip (me s)
                                 then clusterDoBeforeSleep CLUSTER_TODO_SAVE_CONFIG
                                        (upd_node (myself s) (\<lambda>x. x\<lparr>ip := a\<rparr>) s)
                                 else s
                     | None \<Rightarrow> s)
               else s);
          s = (if sender = None \<and> type = CLUSTERMSG_TYPE_MEET
               then let (n, s) = createClusterNode None CLUSTER_NODE_HANDSHAKE s;
                        s = upd_node n (\<lambda>x. x\<lparr>ip := nodeIp2String l (h_myip hdr) s,
                                              port := uint (h_port hdr), cport := uint (h_cport hdr)\<rparr>) s;
                        s = clusterDoBeforeSleep CLUSTER_TODO_SAVE_CONFIG (snd (clusterAddNode n s))
                    in clusterProcessGossipSection hdr l s
               else s)
      in clusterSendPing l CLUSTERMSG_TYPE_PONG s)"

text \<open>The node at the other end of the link is in handshake, or has another name.\<close>

definition packet_handshake ::
  "naddr option \<Rightarrow> laddr \<Rightarrow> clusterMsg \<Rightarrow> server \<Rightarrow> (server + server) option" where
  "packet_handshake sender l hdr s =
     (case link_node s l of
        None \<Rightarrow> Some (Inr s)
      | Some n \<Rightarrow>
          if nodeInHandshake (nd s n)
          then (case sender of
                  Some sd \<Rightarrow> do {
                    let (changed, s) = nodeUpdateAddressIfNeeded sd l hdr s;
                    let s = (if changed
                             then clusterDoBeforeSleep (CLUSTER_TODO_SAVE_CONFIG OR CLUSTER_TODO_UPDATE_STATE) s
                             else s);
                    s \<leftarrow> clusterDelNode n s;
                    Some (Inl s)
                  }
                | None \<Rightarrow> do {
                    s \<leftarrow> clusterRenameNode n (h_sender hdr) s;
                    let s = upd_node n (\<lambda>x. x\<lparr>flags := (flags x AND NOT CLUSTER_NODE_HANDSHAKE) OR
                              (ucast (h_flags hdr) AND (CLUSTER_NODE_MASTER OR CLUSTER_NODE_SLAVE))\<rparr>) s;
                    Some (Inr (clusterDoBeforeSleep CLUSTER_TODO_SAVE_CONFIG s))
                  })
          else if name (nd s n) \<noteq> h_sender hdr
          then let s = upd_node n (\<lambda>x. x\<lparr>flags := flags x OR CLUSTER_NODE_NOADDR, ip := [],
                                         port := 0, cport := 0\<rparr>) s
               in Some (Inl (clusterDoBeforeSleep CLUSTER_TODO_SAVE_CONFIG (freeClusterLink l s)))
          else Some (Inr s))"

definition packet_node_info ::
  "naddr option \<Rightarrow> laddr \<Rightarrow> clusterMsg \<Rightarrow> server \<Rightarrow> server option" where
  "packet_node_info sender l hdr s =
     (let type = h_type hdr;
          s = (case sender of
                 None \<Rightarrow> s
               | Some sd \<Rightarrow>
                   upd_node sd (\<lambda>x. x\<lparr>flags := (flags x AND NOT CLUSTER_NODE_NOFAILOVER) OR
                                    (ucast (h_flags hdr) AND CLUSTER_NODE_NOFAILOVER)\<rparr>) s);
          s = (case sender of
                 None \<Rightarrow> s
               | Some sd \<Rightarrow>
                   if type = CLUSTERMSG_TYPE_PING \<and> \<not> nodeInHandshake (nd s sd)
                   then let (changed, s) = nodeUpdateAddressIfNeeded sd l hdr s
                        in if changed
                           then clusterDoBeforeSleep (CLUSTER_TODO_SAVE_CONFIG OR CLUSTER_TODO_UPDATE_STATE) s
                           else s
                   else s)
      in case link_node s l of
           None \<Rightarrow> Some s
         | Some n \<Rightarrow>
             if type = CLUSTERMSG_TYPE_PONG
             then let s = upd_node n (\<lambda>x. x\<lparr>pong_received := mstime s, ping_sent := 0\<rparr>) s
                  in if nodeTimedOut (nd s n)
                     then Some (clusterDoBeforeSleep (CLUSTER_TODO_SAVE_CONFIG OR CLUSTER_TODO_UPDATE_STATE)
                                  (upd_node n (\<lambda>x. x\<lparr>flags := flags x AND NOT CLUSTER_NODE_PFAIL\<rparr>) s))
                     else if nodeFailed (nd s n) then clearNodeFailureIfNeeded n s
                     else Some s
             else Some s)"

definition packet_role :: "naddr \<Rightarrow> clusterMsg \<Rightarrow> server \<Rightarrow> server option" where
  "packet_role sd hdr s =
     (if h_slaveof hdr = CLUSTER_NODE_NULL_NAME then Some (clusterSetNodeAsMaster sd s)
      else do {
        let master = clusterLookupNode (h_slaveof hdr) s;
        s \<leftarrow> (if nodeIsMaster (nd s sd)
              then do {
                (_, s) \<leftarrow> clusterDelNodeSlots sd s;
                let s = upd_node sd (\<lambda>x. x\<lparr>flags :=
                          (flags x AND NOT (CLUSTER_NODE_MASTER OR CLUSTER_NODE_MIGRATE_TO)) OR CLUSTER_NODE_SLAVE\<rparr>) s;
                Some (clusterDoBeforeSleep (CLUSTER_TODO_SAVE_CONFIG OR CLUSTER_TODO_UPDATE_STATE) s)
              }
              else Some s);
        Some (case master of
          None \<Rightarrow> s
        | Some m \<Rightarrow>
            if slaveof (nd s sd) \<noteq> Some m
            then let s = (case slaveof (nd s sd) of
                            Some old \<Rightarrow> snd (clusterNodeRemoveSlave old sd s) | None \<Rightarrow> s);
                     s = snd (clusterNodeAddSlave m sd s);
                     s = upd_node sd (\<lambda>x. x\<lparr>slaveof := Some m\<rparr>) s
                 in clusterDoBeforeSleep CLUSTER_TODO_SAVE_CONFIG s
            else s)
      })"

text \<open>The first claimed slot that a master with a greater epoch serves, if any.\<close>

definition outdated_owner :: "naddr \<Rightarrow> u64 \<Rightarrow> bytes \<Rightarrow> server \<Rightarrow> naddr option" where
  "outdated_owner sd senderConfigEpoch claimed s =
     (case find (\<lambda>j. bitmapTestBit claimed j \<and>
                    (case slots s j of None \<Rightarrow> False
                     | Some m \<Rightarrow> m \<noteq> sd \<and> configEpoch (nd s m) > senderConfigEpoch)) [0..<CLUSTER_SLOTS] of
        None \<Rightarrow> None | Some j \<Rightarrow> slots s j)"

definition packet_slots :: "naddr \<Rightarrow> u64 \<Rightarrow> clusterMsg \<Rightarrow> server \<Rightarrow> server option" where
  "packet_slots sd senderConfigEpoch hdr s = do {
     let sender_master = (if nodeIsMaster (nd s sd) then Some sd else slaveof (nd s sd));
     let dirty_slots = (case sender_master of None \<Rightarrow> False | Some m \<Rightarrow> node_slots (nd s m) \<noteq> h_myslots hdr);
     s \<leftarrow> (if nodeIsMaster (nd s sd) \<and> dirty_slots
           then clusterUpdateSlotsConfigWith sd senderConfigEpoch (h_myslots hdr) s else Some s);
     Some (if dirty_slots
           then (case outdated_owner sd senderConfigEpoch (h_myslots hdr) s of
                   Some m \<Rightarrow> clusterSendUpdate (link (nd s sd)) m s | None \<Rightarrow> s)
           else s)
   }"

definition packet_ping :: "naddr option \<Rightarrow> u64 \<Rightarrow> laddr \<Rightarrow> clusterMsg \<Rightarrow> server \<Rightarrow> (int \<times> server) option" where
  "packet_ping sender senderConfigEpoch l hdr s = do {
     r \<leftarrow> packet_handshake sender l hdr s;
     (case r of
        Inl s \<Rightarrow> Some (0, s)
      | Inr s \<Rightarrow> do {
          s \<leftarrow> packet_node_info sender l hdr s;
          (case sender of
             None \<Rightarrow> Some (1, s)
           | Some sd \<Rightarrow> do {
               s \<leftarrow> packet_role sd hdr s;
               s \<leftarrow> packet_slots sd senderConfigEpoch hdr s;
               let s = (if nodeIsMaster (me s) \<and> nodeIsMaster (nd s sd) \<and> senderConfigEpoch = configEpoch (me s)
                        then clusterHandleConfigEpochCollision sd s else s);
               Some (1, clusterProcessGossipSection hdr l s)
             })
        })
   }"

definition packet_fail :: "naddr option \<Rightarrow> bytes \<Rightarrow> server \<Rightarrow> server" where
  "packet_fail sender about s =
     (case sender of
        None \<Rightarrow> s
      | Some _ \<Rightarrow>
          (case clusterLookupNode about s of
             None \<Rightarrow> s
           | Some failing \<Rightarrow>
               if flags (nd s failing) AND (CLUSTER_NODE_FAIL OR CLUSTER_NODE_MYSELF) = 0
               then clusterDoBeforeSleep (CLUSTER_TODO_SAVE_CONFIG OR CLUSTER_TODO_UPDATE_STATE)
                      (upd_node failing (\<lambda>x. x\<lparr>flags := (flags x OR CLUSTER_NODE_FAIL) AND NOT CLUSTER_NODE_PFAIL,
                                               fail_time := mstime s\<rparr>) s)
               else s))"

definition packet_publish :: "u32 \<Rightarrow> u32 \<Rightarrow> bytes \<Rightarrow> server \<Rightarrow> server option" where
  "packet_publish channel_len message_len bulk_data s =
     (if pubsub_in_use s
      then if unat channel_len + unat message_len \<le> length bulk_data
           then Some (emit (PublishMessage (take (unat channel_len) bulk_data)
                        (take (unat message_len) (drop (unat channel_len) bulk_data))) s)
           else None
      else Some s)"

definition packet_auth_ack :: "naddr \<Rightarrow> u64 \<Rightarrow> server \<Rightarrow> server" where
  "packet_auth_ack sd senderCurrentEpoch s =
     (if nodeIsMaster (nd s sd) \<and> numslots (nd s sd) > 0 \<and> senderCurrentEpoch \<ge> failover_auth_epoch s
      then clusterDoBeforeSleep CLUSTER_TODO_HANDLE_FAILOVER
             (s\<lparr>failover_auth_count := failover_auth_count s + 1\<rparr>)
      else s)"

definition packet_mfstart :: "naddr \<Rightarrow> server \<Rightarrow> server" where
  "packet_mfstart sd s =
     (if slaveof (nd s sd) \<noteq> Some (myself s) then s
      else
        let s = resetManualFailover s;
            s = s\<lparr>mf_end := mstime s + CLUSTER_MF_TIMEOUT, mf_slave := Some sd\<rparr>
        in pauseClients (mstime s + CLUSTER_MF_TIMEOUT * CLUSTER_MF_PAUSE_MULT) s)"

definition packet_update :: "u64 \<Rightarrow> bytes \<Rightarrow> bytes \<Rightarrow> server \<Rightarrow> server option" where
  "packet_update reportedConfigEpoch nodename claimed s =
     (case clusterLookupNode nodename s of
        None \<Rightarrow> Some s
      | Some n \<Rightarrow>
          if configEpoch (nd s n) \<ge> reportedConfigEpoch then Some s
          else
            let s = (if nodeIsSlave (nd s n) then clusterSetNodeAsMaster n s else s);
                s = upd_node n (\<lambda>x. x\<lparr>configEpoch := reportedConfigEpoch\<rparr>) s;
                s = clusterDoBeforeSleep (CLUSTER_TODO_SAVE_CONFIG OR CLUSTER_TODO_FSYNC_CONFIG) s
            in clusterUpdateSlotsConfigWith n reportedConfigEpoch claimed s)"

text \<open>The other message types, by what their data carries.\<close>

definition packet_other ::
  "naddr option \<Rightarrow> u64 \<Rightarrow> clusterMsg \<Rightarrow> server \<Rightarrow> server option" where
  "packet_other sender senderCurrentEpoch hdr s =
     (let type = h_type hdr
      in if type = CLUSTERMSG_TYPE_FAIL
         then (case h_data hdr of FailData about \<Rightarrow> Some (packet_fail sender about s) | _ \<Rightarrow> None)
         else if type = CLUSTERMSG_TYPE_PUBLISH
         then (case h_data hdr of
                 PublishData channel_len message_len bulk_data \<Rightarrow>
                   packet_publish channel_len message_len bulk_data s
               | _ \<Rightarrow> None)
         else case sender of
           None \<Rightarrow> Some s
         | Some sd \<Rightarrow>
             if type = CLUSTERMSG_TYPE_FAILOVER_AUTH_REQUEST
             then Some (clusterSendFailoverAuthIfNeeded sd hdr s)
             else if type = CLUSTERMSG_TYPE_FAILOVER_AUTH_ACK
             then Some (packet_auth_ack sd senderCurrentEpoch s)
             else if type = CLUSTERMSG_TYPE_MFSTART then Some (packet_mfstart sd s)
             else if type = CLUSTERMSG_TYPE_UPDATE
             then (case h_data hdr of
                     UpdateData e nm claimed \<Rightarrow> packet_update e nm claimed s | _ \<Rightarrow> None)
             else if type = CLUSTERMSG_TYPE_MODULE
             then (case h_data hdr of
                     ModuleData module_id len t payload \<Rightarrow>
                       if unat len \<le> length payload
                       then Some (emit (CallClusterReceivers (name (nd s sd)) module_id t
                                    (take (unat len) payload)) s)
                       else None
                   | _ \<Rightarrow> None)
             else Some s)"

section \<open>clusterProcessPacket\<close>

definition clusterProcessPacket :: "laddr \<Rightarrow> clusterMsg \<Rightarrow> server \<Rightarrow> (int \<times> server) option" where
  "clusterProcessPacket l hdr s =
     (let type = h_type hdr;
          s = (if type < CLUSTERMSG_TYPE_COUNT
               then s\<lparr>stats_bus_messages_received :=
                        (stats_bus_messages_received s)(type := stats_bus_messages_received s type + 1)\<rparr>
               else s)
      in if \<not> packet_length_ok hdr then Some (1, s)
         else
           let sender = clusterLookupNode (h_sender hdr) s;
               s = packet_sender_info sender hdr s;
               known = (case sender of None \<Rightarrow> False | Some sd \<Rightarrow> \<not> nodeInHandshake (nd s sd));
               senderCurrentEpoch = (if known then h_currentEpoch hdr else 0);
               senderConfigEpoch = (if known then h_configEpoch hdr else 0);
               s = (if type = CLUSTERMSG_TYPE_PING \<or> type = CLUSTERMSG_TYPE_MEET
                    then packet_ping_meet sender l hdr s else s)
           in if is_ping_type type
              then packet_ping sender senderConfigEpoch l hdr s
              else map_option (\<lambda>s. (1, s)) (packet_other sender senderCurrentEpoch hdr s))"

section \<open>What a passage keeps\<close>

text \<open>
  From a consistent state a passage reaches a consistent state in which no node left
  the table, and this node has the role and the slots it had.
\<close>

definition my_role :: "server \<Rightarrow> naddr \<times> bool \<times> naddr option \<times> int" where
  "my_role s = (myself s, nodeIsMaster (me s), slaveof (me s), numslots (me s))"

definition keeps :: "server \<Rightarrow> server \<Rightarrow> bool" where
  "keeps s t \<longleftrightarrow> (cluster_inv s \<longrightarrow>
     cluster_inv t \<and> live s \<subseteq> live t \<and> link_node t = link_node s \<and> my_role t = my_role s)"

lemma keeps_refl [simp]: "keeps s s" by (simp add: keeps_def)

lemma keeps_trans [trans]: "keeps s t \<Longrightarrow> keeps t u \<Longrightarrow> keeps s u"
  by (auto simp: keeps_def)

lemma keeps_fold: "(\<And>x u. keeps u (f x u)) \<Longrightarrow> keeps s (fold f xs s)"
  by (induction xs arbitrary: s) (auto intro: keeps_trans)

lemma keepsI:
  "inv_view t = inv_view s \<Longrightarrow> link_node t = link_node s \<Longrightarrow> my_role t = my_role s \<Longrightarrow> keeps s t"
  using cluster_inv_cong [of t s] inv_view_live [of t s] by (simp add: keeps_def)

lemma keeps_view:
  assumes "inv_view t = inv_view s" "link_node t = link_node s" "heap t = heap s"
  shows "keeps s t"
  using assms inv_view_nodes [OF assms(1)] by (intro keepsI) (simp_all add: my_role_def)

lemma keeps_upd:
  assumes "\<And>x. (node_slots (f x), numslots (f x), name (f x), fail_reports (f x), slaveof (f x), nodeIsMaster (f x)) =
             (node_slots x, numslots x, name x, fail_reports x, slaveof x, nodeIsMaster x)"
  shows "keeps s (upd_node a f s)"
proof (rule keepsI)
  show "inv_view (upd_node a f s) = inv_view s" by (rule upd_node_inv_view) (use assms in auto)
  show "my_role (upd_node a f s) = my_role s" using assms by (auto simp: my_role_def)
qed simp

lemma keeps_flags:
  "nodeIsMaster (x\<lparr>flags := flags x AND NOT CLUSTER_NODE_NOADDR\<rparr>) = nodeIsMaster x"
  "nodeIsMaster (x\<lparr>flags := flags x AND NOT CLUSTER_NODE_PFAIL\<rparr>) = nodeIsMaster x"
  "nodeIsMaster (x\<lparr>flags := flags x AND NOT CLUSTER_NODE_FAIL\<rparr>) = nodeIsMaster x"
  "nodeIsMaster (x\<lparr>flags := flags x OR CLUSTER_NODE_NOADDR\<rparr>) = nodeIsMaster x"
  "nodeIsMaster (x\<lparr>flags := (flags x AND NOT CLUSTER_NODE_PFAIL) OR CLUSTER_NODE_FAIL\<rparr>) = nodeIsMaster x"
  "nodeIsMaster (x\<lparr>flags := (flags x OR CLUSTER_NODE_FAIL) AND NOT CLUSTER_NODE_PFAIL\<rparr>) = nodeIsMaster x"
  "nodeIsMaster (x\<lparr>flags := (flags x AND NOT CLUSTER_NODE_NOFAILOVER) OR (w AND CLUSTER_NODE_NOFAILOVER)\<rparr>) = nodeIsMaster x"
  by (simp_all add: node_flag_bits flag_simps flag_defs bit_simps)

lemma keeps_simple [simp]:
  "keeps s (clusterDoBeforeSleep fl s)" "keeps s (emit e s)" "keeps s (clusterSaveConfigOrDie b s)"
  "keeps s (replicationSetMaster h p s)" "keeps s (freeClusterLink l s)"
  "keeps s (clusterSendUpdate lk n s)" "keeps s (resetManualFailover s)" "keeps s (pauseClients until s)"
proof -
  show "keeps s (freeClusterLink l s)"
    using table_frameD(6,8) [OF freeClusterLink_effect(1)] freeClusterLink_effect(3,4)
    by (intro keepsI) (simp_all add: my_role_def nodeIsMaster_def)
  show "keeps s (pauseClients until s)"
    by (rule keeps_view) (simp_all, simp add: pauseClients_def)
qed (auto intro!: keeps_view)

lemma keeps_todo: "keeps s t \<Longrightarrow> keeps s (clusterDoBeforeSleep fl t)"
  using keeps_trans keeps_simple(1) by blast

lemma keeps_pinged: "pinged s t \<Longrightarrow> keeps s t"
  by (intro keepsI) (auto simp: my_role_def pingedD)

lemma keeps_upd_plain:
  assumes "\<And>x. (node_slots (f x), numslots (f x), name (f x), fail_reports (f x), slaveof (f x), flags (f x)) =
             (node_slots x, numslots x, name x, fail_reports x, slaveof x, flags x)"
  shows "keeps s (upd_node a f s)"
  using assms by (intro keeps_upd) (auto simp: nodeIsMaster_def)

lemma keeps_addSlave [simp]: "keeps s (snd (clusterNodeAddSlave m n s))"
proof (rule keepsI)
  show "my_role (snd (clusterNodeAddSlave m n s)) = my_role s"
    by (auto simp: my_role_def clusterNodeAddSlave_def upd_node_def node_flag_bits flag_simps flag_defs bit_simps)
qed simp_all

lemma keeps_removeSlave [simp]: "keeps s (snd (clusterNodeRemoveSlave m n s))"
proof (rule keepsI)
  show "my_role (snd (clusterNodeRemoveSlave m n s)) = my_role s"
    by (auto simp: my_role_def clusterNodeRemoveSlave_def Let_def upd_node_def node_flag_bits flag_simps flag_defs
        bit_simps)
qed simp_all

lemma inv_view_nodeUpdateAddress [simp]:
  "inv_view (snd (nodeUpdateAddressIfNeeded n l hdr s)) = inv_view s"
  by (auto simp: nodeUpdateAddressIfNeeded_def Let_def upd_node_inv_view split: option.split)

lemma keeps_nodeUpdateAddress [simp]:
  "keeps s (snd (nodeUpdateAddressIfNeeded n l hdr s))"
  "epoch_view (snd (nodeUpdateAddressIfNeeded n l hdr s)) = epoch_view s"
proof -
  define s1 where "s1 = upd_node n (\<lambda>x. x\<lparr>ip := nodeIp2String l (h_myip hdr) s, port := uint (h_port hdr),
                                           cport := uint (h_cport hdr)\<rparr>) s"
  define s2 where "s2 = (case link (nd s1 n) of Some l' \<Rightarrow> freeClusterLink l' s1 | None \<Rightarrow> s1)"
  define s3 where "s3 = upd_node n (\<lambda>x. x\<lparr>flags := flags x AND NOT CLUSTER_NODE_NOADDR\<rparr>) s2"
  have k: "keeps s s1" "keeps s1 s2" "keeps s2 s3" "epoch_view s3 = epoch_view s"
    by (auto simp: s1_def s2_def s3_def keeps_flags intro: keeps_upd keeps_upd_plain split: option.split)
  have "keeps s s3" using keeps_trans [OF keeps_trans [OF k(1,2)] k(3)] .
  moreover have "snd (nodeUpdateAddressIfNeeded n l hdr s) \<in>
      {s, s3, replicationSetMaster (ip (nd s3 n)) (port (nd s3 n)) s3}"
    unfolding nodeUpdateAddressIfNeeded_def Let_def s1_def [symmetric] s2_def [symmetric] s3_def [symmetric] by simp
  ultimately show "keeps s (snd (nodeUpdateAddressIfNeeded n l hdr s))"
    "epoch_view (snd (nodeUpdateAddressIfNeeded n l hdr s)) = epoch_view s"
    using keeps_trans [of s s3] k(4) by auto
qed

section \<open>The gossip section keeps the tables\<close>

lemma keeps_reports:
  "keeps s (snd (clusterNodeAddFailureReport a b s))"
  "keeps s (snd (clusterNodeDelFailureReport a b s))"
  "keeps s (snd (clusterNodeFailureReportsCount a s))"
proof -
  have r: "my_role (snd (clusterNodeAddFailureReport a b s)) = my_role s"
    "my_role (snd (clusterNodeDelFailureReport a b s)) = my_role s"
    "my_role (snd (clusterNodeFailureReportsCount a s)) = my_role s"
    by (auto simp: my_role_def clusterNodeAddFailureReport_def clusterNodeDelFailureReport_def
        clusterNodeFailureReportsCount_def clusterNodeCleanupFailureReports_def Let_def upd_node_def nodeIsMaster_def
        split: option.split)
  then show "keeps s (snd (clusterNodeAddFailureReport a b s))"
    "keeps s (snd (clusterNodeDelFailureReport a b s))"
    "keeps s (snd (clusterNodeFailureReportsCount a s))"
    using keep_reports by (simp_all add: keeps_def)
qed

lemma keeps_mark: "keeps s (markNodeAsFailingIfNeeded a s)"
proof -
  have c: "my_role (snd (clusterNodeFailureReportsCount a s)) = my_role s"
    by (simp add: my_role_def clusterNodeFailureReportsCount_def clusterNodeCleanupFailureReports_def Let_def
        upd_node_def nodeIsMaster_def)
  have f: "my_role (upd_node a (\<lambda>x. x\<lparr>flags := (flags x AND NOT CLUSTER_NODE_PFAIL) OR CLUSTER_NODE_FAIL,
              fail_time := t\<rparr>) u) = my_role u" for t u
    by (auto simp: my_role_def node_flag_bits flag_simps flag_defs bit_simps)
  have p: "my_role (clusterSendFail nm u) = my_role u" "my_role (clusterDoBeforeSleep fl u) = my_role u" for nm fl u
    by (simp_all add: my_role_def)
  have "my_role (markNodeAsFailingIfNeeded a s) = my_role s"
    by (simp add: markNodeAsFailingIfNeeded_def Let_def case_prod_beta c f p)
  then show ?thesis using keep_mark [where s = s and a = a] by (simp add: keeps_def)
qed

lemma keeps_gossip_report: "keeps s (gossip_report sender n fl s)" "epoch_view (gossip_report sender n fl s) = epoch_view s"
  using keeps_trans [OF keeps_reports(1) keeps_mark] keeps_reports(2)
  by (auto simp: gossip_report_def keep_mark(2) split: option.split)

lemma keeps_gossip_known: "keeps s (gossip_known sender n g s)" "epoch_view (gossip_known sender n g s) = epoch_view s"
proof -
  define s1 where "s1 = gossip_report sender n (g_flags g) s"
  define s2 where "s2 = (if \<not> (ucast (g_flags g) :: u32) AND (CLUSTER_NODE_FAIL OR CLUSTER_NODE_PFAIL) \<noteq> 0 \<and> ping_sent (nd s1 n) = 0
               then let (k, s) = clusterNodeFailureReportsCount n s1;
                        pongtime = uint (g_pong_received g) * 1000
                    in if k = 0 \<and> pongtime \<le> server_mstime s + 500 \<and> pongtime > pong_received (nd s n)
                       then upd_node n (\<lambda>x. x\<lparr>pong_received := pongtime\<rparr>) s
                       else s
               else s1)"
  define s3 where "s3 = (case link (nd s2 n) of Some l \<Rightarrow> freeClusterLink l s2 | None \<Rightarrow> s2)"
  define s4 where "s4 = upd_node n (\<lambda>x. x\<lparr>ip := g_ip g, port := uint (g_port g), cport := uint (g_cport g),
                                      flags := flags x AND NOT CLUSTER_NODE_NOADDR\<rparr>) s3"
  have "snd (clusterNodeFailureReportsCount n s1) = u \<Longrightarrow> keeps s1 u \<and> epoch_view u = epoch_view s1" for u
    using keeps_reports(3) by auto
  moreover have "keeps u (upd_node n (\<lambda>x. x\<lparr>pong_received := v\<rparr>) u)" for u v by (rule keeps_upd_plain) simp
  ultimately have k2: "keeps s1 s2 \<and> epoch_view s2 = epoch_view s1"
    unfolding s2_def Let_def case_prod_beta using keeps_trans by (auto split: prod.split)
  have k3: "keeps s2 s3 \<and> epoch_view s3 = epoch_view s2" by (auto simp: s3_def split: option.split)
  have k4: "keeps s3 s4 \<and> epoch_view s4 = epoch_view s3"
    by (auto simp: s4_def node_flag_bits flag_simps flag_defs bit_simps intro!: keeps_upd)
  have "gossip_known sender n g s \<in> {s2, s4}"
    unfolding gossip_known_def Let_def s1_def [symmetric] s2_def [unfolded Let_def, symmetric]
      s3_def [symmetric] s4_def [symmetric] by simp
  then show "keeps s (gossip_known sender n g s)" "epoch_view (gossip_known sender n g s) = epoch_view s"
    using keeps_gossip_report [where s = s and sender = sender and n = n and fl = "g_flags g", folded s1_def] k2 k3 k4 keeps_trans by (metis insertE singletonD)+
qed

lemma createClusterNode_epoch [simp]:
  "epoch_view (snd (createClusterNode nm fl s)) = epoch_view s" "link_node (snd (createClusterNode nm fl s)) = link_node s"
  by (simp_all add: createClusterNode_def Let_def view_defs split: option.split)

text \<open>A new node, with any address, in the table.\<close>

lemma keeps_new_node:
  assumes c: "(a, u) = createClusterNode nm fl s"
    and f: "\<And>x. (node_slots (f x), numslots (f x), fail_reports (f x)) = (node_slots x, numslots x, fail_reports x)"
  shows "keeps s (snd (clusterAddNode a (upd_node a f u)))"
    "epoch_view (snd (clusterAddNode a (upd_node a f u))) = epoch_view s"
proof -
  have u: "u = snd (createClusterNode nm fl s)" using arg_cong [OF c, of snd] by simp
  then show "epoch_view (snd (clusterAddNode a (upd_node a f u))) = epoch_view s" by simp
  have "keeps s (snd (clusterAddNode a (upd_node a f u)))" if inv: "cluster_inv s"
  proof -
    note n = createClusterNode_fresh [OF inv c]
    define v where "v = upd_node a f u"
    have a: "a \<notin> live u" using n(2) by (simp add: fresh_node_def)
    have v: "cluster_inv v" "fresh_node v a"
      using cluster_inv_upd_fresh [OF n(1) a] fresh_node_upd [OF n(2)] f by (simp_all add: v_def)
    note w = clusterAddNode_inv [OF v]
    have "myself s \<noteq> a" using cluster_invD(4) [OF inv] n(3) a by auto
    moreover have "heap u b = heap s b" "myself u = myself s" if "b \<noteq> a" for b
      using c that by (auto simp: createClusterNode_def Let_def split: option.splits)
    moreover have "myself u = myself s" using epoch_viewD [OF n(4)] by simp
    ultimately have "my_role (snd (clusterAddNode a v)) = my_role s" by (simp add: my_role_def v_def)
    moreover have "live s \<subseteq> live (snd (clusterAddNode a v))" using w(3) n(3) by (simp add: v_def)
    ultimately show ?thesis using w n(5) by (simp add: keeps_def v_def)
  qed
  then show "keeps s (snd (clusterAddNode a (upd_node a f u)))" by (auto simp: keeps_def)
qed

lemma keeps_gossip_unknown: "keeps s (gossip_unknown sender g s)" "epoch_view (gossip_unknown sender g s) = epoch_view s"
proof -
  define s1 where "s1 = snd (clusterBlacklistExists (g_nodename g) s)"
  obtain a u where c: "(a, u) = createClusterNode (Some (g_nodename g)) (ucast (g_flags g)) s1" by (metis surj_pair)
  define s2 where "s2 = snd (clusterAddNode a (upd_node a (\<lambda>x. x\<lparr>ip := g_ip g, port := uint (g_port g), cport := uint (g_cport g)\<rparr>) u))"
  have k1: "keeps s s1 \<and> epoch_view s1 = epoch_view s"
    by (auto simp: s1_def clusterBlacklistExists_def clusterBlacklistCleanup_def Let_def inv_view_def view_defs intro!: keeps_view)
  have k2: "keeps s1 s2 \<and> epoch_view s2 = epoch_view s1"
    using keeps_new_node [OF c, of "\<lambda>x. x\<lparr>ip := g_ip g, port := uint (g_port g), cport := uint (g_cport g)\<rparr>"] by (simp add: s2_def)
  have "gossip_unknown sender g s \<in> {s, s1, s2}"
    unfolding gossip_unknown_def Let_def case_prod_beta s1_def [symmetric] c [symmetric] s2_def fst_conv snd_conv by simp
  then show "keeps s (gossip_unknown sender g s)" "epoch_view (gossip_unknown sender g s) = epoch_view s"
    using k1 k2 keeps_trans keeps_refl by auto
qed

lemma keeps_gossip:
  "keeps s (clusterProcessGossipSection hdr l s)"
  "epoch_view (clusterProcessGossipSection hdr l s) = epoch_view s"
proof -
  define sd where "sd = (case link_node s l of Some n \<Rightarrow> Some n | None \<Rightarrow> clusterLookupNode (h_sender hdr) s)"
  define f where "f = (\<lambda>g s. case clusterLookupNode (g_nodename g) s of
       Some node \<Rightarrow> gossip_known sd node g s | None \<Rightarrow> gossip_unknown sd g s)"
  have "keeps u (f g u)" "epoch_view (f g u) = epoch_view u" for g u
    by (simp_all add: f_def keeps_gossip_known keeps_gossip_unknown split: option.split)
  then have "keeps s (fold f gs s) \<and> epoch_view (fold f gs s) = epoch_view s" for gs
    using keeps_fold [of f] fold_keep [of epoch_view f] by blast
  then show "keeps s (clusterProcessGossipSection hdr l s)"
    "epoch_view (clusterProcessGossipSection hdr l s) = epoch_view s"
    unfolding clusterProcessGossipSection_def Let_def sd_def [symmetric] f_def [symmetric] by simp_all
qed

section \<open>The passages, whatever the state\<close>

text \<open>What the partial operations on the table do to the epochs: nothing.\<close>

lemma epoch_table [simp]:
  "epoch_view (s\<lparr>nodes := d\<rparr>) = epoch_view s" "epoch_view (s\<lparr>importing_slots_from := f\<rparr>) = epoch_view s"
  "epoch_view (s\<lparr>migrating_slots_to := f\<rparr>) = epoch_view s"
  by (simp_all add: view_defs)

lemma epoch_slot_ops [simp]: "epoch_view (snd (clusterAddSlot n j s)) = epoch_view s"
  using slot_frame_server(11) [OF slot_ops_frame(1)] .

lemma epoch_clusterDelSlot: "clusterDelSlot j s = Some (r, t) \<Longrightarrow> epoch_view t = epoch_view s"
  using slot_frame_server(11) [OF slot_ops_frame(2)] .

lemma epoch_clusterDelNode_slot: "clusterDelNode_slot d j s = Some t \<Longrightarrow> epoch_view t = epoch_view s"
  by (auto simp: clusterDelNode_slot_def Let_def dest: epoch_clusterDelSlot split: if_splits)

lemma epoch_freeClusterNode:
  assumes "freeClusterNode d s = Some t" shows "epoch_view t = epoch_view s"
proof -
  define u where "u = fold (\<lambda>b. upd_node b (\<lambda>x. x\<lparr>slaveof := None\<rparr>)) (slaves (nd s d)) s"
  have "epoch_view u = epoch_view s" unfolding u_def by (rule fold_keep) simp
  moreover have "epoch_view t = epoch_view u"
    using assms by (auto simp: freeClusterNode_def u_def [symmetric] Let_def split: bind_splits option.splits if_splits)
  ultimately show ?thesis by simp
qed

lemma epoch_clusterDelNode:
  assumes "clusterDelNode d s = Some t"
  shows "epoch_view t = epoch_view s"
proof -
  define f where "f = (\<lambda>(nm :: bytes, node) s. if node = d then s else snd (clusterNodeDelFailureReport node d s))"
  obtain u where u: "for_each [0..<CLUSTER_SLOTS] (clusterDelNode_slot d) s = Some u"
    "freeClusterNode d (fold f (nodes u) u) = Some t"
    using assms by (auto simp: clusterDelNode_def f_def split: bind_splits)
  have "epoch_view u = epoch_view s" by (rule for_each_keep [OF u(1)]) (rule epoch_clusterDelNode_slot)
  moreover have "epoch_view (fold f (nodes u) u) = epoch_view u"
    by (rule fold_keep) (simp add: f_def split: prod.split)
  ultimately show ?thesis using epoch_freeClusterNode [OF u(2)] by simp
qed

lemma epoch_clusterRenameNode: "clusterRenameNode n nm s = Some t \<Longrightarrow> epoch_view t = epoch_view s"
  by (auto simp: clusterRenameNode_def split: bind_splits option.splits)

lemma epoch_clusterDelNodeSlots:
  assumes "clusterDelNodeSlots n s = Some (d, t)" shows "epoch_view t = epoch_view s"
proof -
  have "epoch_view (snd (d, t)) = epoch_view (snd (0 :: nat, s))"
    by (rule for_each_keep [OF assms [unfolded clusterDelNodeSlots_def]])
      (auto dest: epoch_clusterDelSlot split: prod.splits if_splits bind_splits)
  then show ?thesis by simp
qed

lemma epoch_clusterUpdateSlots_slot:
  assumes "clusterUpdateSlots_slot n e claimed cm j v = Some w" shows "epoch_view (snd w) = epoch_view (snd v)"
proof -
  obtain ds nm u where v: "v = ((ds, nm), u)" by (metis surj_pair)
  show ?thesis using assms
    by (auto simp: clusterUpdateSlots_slot_def v dest: epoch_clusterDelSlot split: if_splits bind_splits)
qed

lemma epoch_clusterUpdateSlots:
  assumes "clusterUpdateSlotsConfigWith n e claimed s = Some t" shows "epoch_view t = epoch_view s"
proof (cases "n = myself s")
  case True
  then show ?thesis using assms by (simp add: clusterUpdateSlotsConfigWith_def)
next
  case False
  define cm where "cm = (if nodeIsMaster (me s) then Some (myself s) else slaveof (me s))"
  obtain ds nm u where u: "for_each [0..<CLUSTER_SLOTS] (clusterUpdateSlots_slot n e claimed cm) (([], False), s) = Some ((ds, nm), u)"
    "clusterUpdateSlots_finish n cm nm ds u = Some t"
    using assms False unfolding clusterUpdateSlotsConfigWith_def cm_def [symmetric] Let_def
    by (auto split: bind_splits)
  note k = for_each_keep [OF u(1), where g = "\<lambda>p. epoch_view (snd p)", OF epoch_clusterUpdateSlots_slot]
  then show ?thesis using clusterUpdateSlots_finish_keep [OF u(2)] by simp
qed

section \<open>The passages, from a consistent state\<close>

lemma keeps_currentEpoch [simp]: "keeps s (s\<lparr>currentEpoch := e\<rparr>)"
  by (rule keeps_view) simp_all

lemma packet_sender_info_keeps:
  "keeps s (packet_sender_info sender hdr s)" "epoch_step s (packet_sender_info sender hdr s)"
proof -
  have "keeps s (packet_sender_info sender hdr s) \<and> epoch_step s (packet_sender_info sender hdr s)"
  proof (cases sender)
    case (Some sd)
    define s1 where "s1 = upd_node sd (\<lambda>x. x\<lparr>data_received := mstime s\<rparr>) s"
    define s2 where "s2 = (if h_currentEpoch hdr > currentEpoch s1 then s1\<lparr>currentEpoch := h_currentEpoch hdr\<rparr> else s1)"
    define s3 where "s3 = (if h_configEpoch hdr > configEpoch (nd s2 sd)
                        then clusterDoBeforeSleep (CLUSTER_TODO_SAVE_CONFIG OR CLUSTER_TODO_FSYNC_CONFIG)
                               (upd_node sd (\<lambda>x. x\<lparr>configEpoch := h_configEpoch hdr\<rparr>) s2)
                        else s2)"
    define s4 where "s4 = upd_node sd (\<lambda>x. x\<lparr>repl_offset := sint (h_offset hdr), repl_offset_time := mstime s3\<rparr>) s3"
    have k1: "keeps s s1" "epoch_step s s1"
      by (auto simp: s1_def intro!: keeps_upd_plain epoch_step_same)
    have k2: "keeps s1 s2" "epoch_step s1 s2"
      by (simp_all add: s2_def epoch_step_raise epoch_step_same)
    have k3: "keeps s2 s3" "epoch_step s2 s3"
      by (auto simp: s3_def intro!: epoch_step_same keeps_todo keeps_upd_plain)
    have k4: "keeps s3 s4" "epoch_step s3 s4"
      by (auto simp: s4_def intro!: keeps_upd_plain epoch_step_same)
    have k5: "keeps s4 (s4\<lparr>mf_master_offset := v\<rparr>)" "epoch_step s4 (s4\<lparr>mf_master_offset := v\<rparr>)" for v
    proof -
      have "inv_view (s4\<lparr>mf_master_offset := v\<rparr>) = inv_view s4" by (simp add: inv_view_def view_defs)
      then show "keeps s4 (s4\<lparr>mf_master_offset := v\<rparr>)" by (rule keeps_view) simp_all
      show "epoch_step s4 (s4\<lparr>mf_master_offset := v\<rparr>)" by (simp add: epoch_step_def acks_def)
    qed
    note k14 = keeps_trans [OF keeps_trans [OF keeps_trans [OF k1(1) k2(1)] k3(1)] k4(1)]
      epoch_step_trans [OF epoch_step_trans [OF epoch_step_trans [OF k1(2) k2(2)] k3(2)] k4(2)]
    have "packet_sender_info sender hdr s \<in> {s1, s4} \<union> range (\<lambda>v. s4\<lparr>mf_master_offset := v\<rparr>)"
      unfolding packet_sender_info_def Let_def Some option.case s1_def [symmetric] s2_def [symmetric]
        s3_def [symmetric] s4_def [symmetric] by simp
    then consider "packet_sender_info sender hdr s = s1" | "packet_sender_info sender hdr s = s4"
      | v where "packet_sender_info sender hdr s = s4\<lparr>mf_master_offset := v\<rparr>" by blast
    then show ?thesis
      by cases (use k1 k14 keeps_trans [OF k14(1) k5(1)] epoch_step_trans [OF k14(2) k5(2)] in simp_all)
  qed (simp add: packet_sender_info_def epoch_step_same)
  then show "keeps s (packet_sender_info sender hdr s)" "epoch_step s (packet_sender_info sender hdr s)" by simp_all
qed

lemma packet_ping_meet_keeps:
  "keeps s (packet_ping_meet sender l hdr s)" "epoch_view (packet_ping_meet sender l hdr s) = epoch_view s"
  "h_type hdr \<noteq> CLUSTERMSG_TYPE_MEET \<Longrightarrow> nodes (packet_ping_meet sender l hdr s) = nodes s"
proof -
  define s1 where "s1 = (if (h_type hdr = CLUSTERMSG_TYPE_MEET \<or> ip (me s) = []) \<and> cluster_announce_ip s = None
               then (case link_sockname s l of
                       Some a \<Rightarrow> if a \<noteq> ip (me s)
                                 then clusterDoBeforeSleep CLUSTER_TODO_SAVE_CONFIG
                                        (upd_node (myself s) (\<lambda>x. x\<lparr>ip := a\<rparr>) s)
                                 else s
                     | None \<Rightarrow> s)
               else s)"
  obtain a u where c: "(a, u) = createClusterNode None CLUSTER_NODE_HANDSHAKE s1" by (metis surj_pair)
  define v where "v = snd (clusterAddNode a (upd_node a (\<lambda>x. x\<lparr>ip := nodeIp2String l (h_myip hdr) u,
                                              port := uint (h_port hdr), cport := uint (h_cport hdr)\<rparr>) u))"
  define w where "w = clusterProcessGossipSection hdr l (clusterDoBeforeSleep CLUSTER_TODO_SAVE_CONFIG v)"
  have k1: "keeps s s1" "epoch_view s1 = epoch_view s" "nodes s1 = nodes s"
    by (auto simp: s1_def intro!: keeps_todo keeps_upd_plain split: option.split)
  have kv: "keeps s1 v" "epoch_view v = epoch_view s1"
    unfolding v_def by (rule keeps_new_node [OF c]; simp)+
  have kw: "keeps v w" "epoch_view w = epoch_view v"
    using keeps_trans [OF keeps_simple(1) keeps_gossip(1)] keeps_gossip(2) by (simp_all add: w_def)
  have eq: "packet_ping_meet sender l hdr s = clusterSendPing l CLUSTERMSG_TYPE_PONG
      (if sender = None \<and> h_type hdr = CLUSTERMSG_TYPE_MEET then w else s1)"
    unfolding packet_ping_meet_def Let_def s1_def [symmetric]
    by (simp add: c [symmetric] v_def w_def)
  have pong: "keeps x (clusterSendPing l CLUSTERMSG_TYPE_PONG x)" for x
    using keeps_pinged [OF pinged_ping] by simp
  show "keeps s (packet_ping_meet sender l hdr s)"
    unfolding eq using k1 kv kw keeps_trans pong by (metis (full_types))
  show "epoch_view (packet_ping_meet sender l hdr s) = epoch_view s"
    unfolding eq using k1 kv kw by simp
  show "h_type hdr \<noteq> CLUSTERMSG_TYPE_MEET \<Longrightarrow> nodes (packet_ping_meet sender l hdr s) = nodes s"
    unfolding eq using k1 by simp
qed

text \<open>
  A link points to a node of the table other than this node (the links are opened by
  \<open>clusterCron\<close>), and a MEET comes over an incoming link, which has no node yet.
\<close>

definition link_ok :: "server \<Rightarrow> laddr \<Rightarrow> clusterMsg \<Rightarrow> bool" where
  "link_ok s l hdr \<longleftrightarrow> (\<forall>n. link_node s l = Some n \<longrightarrow>
     n \<in> live s \<and> n \<noteq> myself s \<and> h_type hdr \<noteq> CLUSTERMSG_TYPE_MEET)"

lemma keepsD:
  assumes "keeps s t" "cluster_inv s"
  shows "cluster_inv t" "live s \<subseteq> live t" "link_node t = link_node s" "my_role t = my_role s" "myself t = myself s"
proof -
  show r: "cluster_inv t" "live s \<subseteq> live t" "link_node t = link_node s" "my_role t = my_role s"
    using assms by (simp_all add: keeps_def)
  from r(4) show "myself t = myself s" by (simp add: my_role_def)
qed

lemma packet_handshake_returns:
  assumes inv: "cluster_inv s" and l: "link_ok s l hdr"
    and unknown: "sender = None \<Longrightarrow> link_node s l \<noteq> None \<Longrightarrow> clusterLookupNode (h_sender hdr) s = None"
    and known: "\<And>sd. sender = Some sd \<Longrightarrow> sd \<in> live s"
  obtains (stop) t where "packet_handshake sender l hdr s = Some (Inl t)" "cluster_inv t"
  | (go) t where "packet_handshake sender l hdr s = Some (Inr t)" "keeps s t" "live t = live s" "cluster_inv t"
proof (cases "link_node s l")
  case None
  then show ?thesis using go [of s] inv by (simp add: packet_handshake_def)
next
  case (Some n)
  then have n: "n \<in> live s" "n \<noteq> myself s" using l by (simp_all add: link_ok_def)
  show ?thesis
  proof (cases "nodeInHandshake (nd s n)")
    case hs: True
    show ?thesis
    proof (cases sender)
      case (Some sd)
      define c where "c = nodeUpdateAddressIfNeeded sd l hdr s"
      define u where "u = (if fst c then clusterDoBeforeSleep (CLUSTER_TODO_SAVE_CONFIG OR CLUSTER_TODO_UPDATE_STATE) (snd c)
                           else snd c)"
      have k: "keeps s u" by (auto simp: u_def c_def intro: keeps_todo)
      note u = keepsD [OF k inv]
      obtain t where t: "clusterDelNode n u = Some t" "cluster_inv t"
        using clusterDelNode_inv [OF u(1) subsetD [OF u(2) n(1)]] n(2) u(5) by auto
      then have "packet_handshake sender l hdr s = Some (Inl t)"
        using \<open>link_node s l = Some n\<close> hs Some t(1) unfolding u_def c_def
        by (cases "fst (nodeUpdateAddressIfNeeded sd l hdr s)") (simp_all add: packet_handshake_def Let_def case_prod_beta)
      from this t(2) show ?thesis by (rule stop)
    next
      case None
      obtain u where u: "clusterRenameNode n (h_sender hdr) s = Some u" "cluster_inv u" "live u = live s"
        "epoch_view u = epoch_view s" "link_node u = link_node s"
        "\<forall>a. heap u a = (if a = n then (heap s a)\<lparr>name := h_sender hdr\<rparr> else heap s a)"
        using clusterRenameNode_inv [OF inv n(1) unknown [OF None]] \<open>link_node s l = Some n\<close> by auto
      define v where "v = upd_node n (\<lambda>x. x\<lparr>flags := (flags x AND NOT CLUSTER_NODE_HANDSHAKE) OR
                              (ucast (h_flags hdr) AND (CLUSTER_NODE_MASTER OR CLUSTER_NODE_SLAVE))\<rparr>) u"
      define t where "t = clusterDoBeforeSleep CLUSTER_TODO_SAVE_CONFIG v"
      have vu: "inv_view t = inv_view u" by (simp add: t_def v_def upd_node_inv_view)
      have my: "myself t = myself s" using epoch_viewD [OF u(4)] by (simp add: t_def v_def)
      have "cluster_inv t" using u(2) cluster_inv_cong [OF vu] by simp
      moreover have "keeps s t" "live t = live s"
        using \<open>cluster_inv t\<close> u my n(2) inv_view_live [OF vu] by (simp_all add: keeps_def my_role_def t_def v_def)
      moreover have "packet_handshake sender l hdr s = Some (Inr t)"
        using \<open>link_node s l = Some n\<close> hs None u(1) by (simp add: packet_handshake_def t_def v_def)
      ultimately show ?thesis using go by blast
    qed
  next
    case nohs: False
    show ?thesis
    proof (cases "name (nd s n) = h_sender hdr")
      case True
      then show ?thesis using go [of s] inv nohs Some by (simp add: packet_handshake_def)
    next
      case False
      define u where "u = upd_node n (\<lambda>x. x\<lparr>flags := flags x OR CLUSTER_NODE_NOADDR, ip := [],
                                         port := 0, cport := 0\<rparr>) s"
      define t where "t = clusterDoBeforeSleep CLUSTER_TODO_SAVE_CONFIG (freeClusterLink l u)"
      have v: "inv_view t = inv_view s" by (simp add: t_def u_def upd_node_inv_view)
      have "packet_handshake sender l hdr s = Some (Inl t)"
        using False nohs Some by (simp add: packet_handshake_def t_def u_def)
      then show ?thesis using stop inv cluster_inv_cong [OF v] by simp
    qed
  qed
qed

lemma keeps_clear:
  assumes "clearNodeFailureIfNeeded n s = Some t" shows "keeps s t"
proof -
  define f where "f = (\<lambda>s. clusterDoBeforeSleep (CLUSTER_TODO_UPDATE_STATE OR CLUSTER_TODO_SAVE_CONFIG)
                     (upd_node n (\<lambda>x. x\<lparr>flags := flags x AND NOT CLUSTER_NODE_FAIL\<rparr>) s))"
  define u where "u = (if nodeIsSlave (nd s n) \<or> numslots (nd s n) = 0 then f s else s)"
  have f: "keeps v (f v)" for v by (auto simp: f_def keeps_flags intro!: keeps_todo keeps_upd)
  have fold_f: "clusterDoBeforeSleep (CLUSTER_TODO_UPDATE_STATE OR CLUSTER_TODO_SAVE_CONFIG)
                     (upd_node n (\<lambda>x. x\<lparr>flags := flags x AND NOT CLUSTER_NODE_FAIL\<rparr>) v) = f v" for v
    by (simp add: f_def)
  have "t = u \<or> t = f u"
    using assms unfolding clearNodeFailureIfNeeded_def fold_f Let_def u_def [symmetric]
    by (auto split: if_splits bind_splits)
  moreover have "keeps s u" by (simp add: u_def f)
  ultimately show ?thesis using f keeps_trans by blast
qed

lemma packet_node_info_returns:
  "\<exists>t. packet_node_info sender l hdr s = Some t \<and> keeps s t \<and> live t = live s \<and> epoch_view t = epoch_view s"
proof -
  define s1 where "s1 = (case sender of
                 None \<Rightarrow> s
               | Some sd \<Rightarrow>
                   upd_node sd (\<lambda>x. x\<lparr>flags := (flags x AND NOT CLUSTER_NODE_NOFAILOVER) OR
                                    (ucast (h_flags hdr) AND CLUSTER_NODE_NOFAILOVER)\<rparr>) s)"
  define s2 where "s2 = (case sender of
                 None \<Rightarrow> s1
               | Some sd \<Rightarrow>
                   if h_type hdr = CLUSTERMSG_TYPE_PING \<and> \<not> nodeInHandshake (nd s1 sd)
                   then let (changed, s) = nodeUpdateAddressIfNeeded sd l hdr s1
                        in if changed
                           then clusterDoBeforeSleep (CLUSTER_TODO_SAVE_CONFIG OR CLUSTER_TODO_UPDATE_STATE) s
                           else s
                   else s1)"
  define s3 where "s3 n = upd_node n (\<lambda>x. x\<lparr>pong_received := mstime s2, ping_sent := 0\<rparr>) s2" for n
  define s4 where "s4 n = upd_node n (\<lambda>x. x\<lparr>flags := flags x AND NOT CLUSTER_NODE_PFAIL\<rparr>) (s3 n)" for n
  have k1: "keeps s s1" "inv_view s1 = inv_view s" "epoch_view s1 = epoch_view s"
    by (auto simp: s1_def keeps_flags upd_node_inv_view intro!: keeps_upd split: option.split)
  have k2: "keeps s1 s2" "inv_view s2 = inv_view s1" "epoch_view s2 = epoch_view s1"
    by (auto simp: s2_def Let_def case_prod_beta intro!: keeps_todo split: option.split)
  have k3: "keeps s2 (s3 n)" "inv_view (s3 n) = inv_view s2" "epoch_view (s3 n) = epoch_view s2" for n
    by (auto simp: s3_def upd_node_inv_view intro!: keeps_upd_plain)
  have k4: "keeps (s3 n) (clusterDoBeforeSleep fl (s4 n))" "inv_view (s4 n) = inv_view (s3 n)" "epoch_view (s4 n) = epoch_view (s3 n)" for n fl
    by (auto simp: s4_def keeps_flags upd_node_inv_view intro!: keeps_todo keeps_upd)
  have k5: "keeps (s3 n) w" "inv_view w = inv_view (s3 n)" "epoch_view w = epoch_view (s3 n)"
    if "clearNodeFailureIfNeeded n (s3 n) = Some w" for n w
    using keeps_clear [OF that] clearNodeFailure_keep [OF that] by simp_all
  have ks2: "keeps s s2" and ks3: "keeps s (s3 n)" for n
    using keeps_trans [OF k1(1) k2(1)] keeps_trans [OF keeps_trans [OF k1(1) k2(1)] k3(1)] by simp_all
  have "(\<exists>n. packet_node_info sender l hdr s = Some (clusterDoBeforeSleep (CLUSTER_TODO_SAVE_CONFIG OR CLUSTER_TODO_UPDATE_STATE) (s4 n))) \<or>
      (\<exists>n. nodeFailed (nd (s3 n) n) \<and> packet_node_info sender l hdr s = clearNodeFailureIfNeeded n (s3 n)) \<or>
      (\<exists>n. packet_node_info sender l hdr s = Some (s3 n)) \<or> packet_node_info sender l hdr s = Some s2"
    unfolding packet_node_info_def Let_def s1_def [symmetric] s2_def [unfolded Let_def, symmetric]
      s3_def [symmetric] s4_def [symmetric] by (auto split: option.split)
  then show ?thesis
  proof (elim disjE exE conjE)
    fix n assume f: "nodeFailed (nd (s3 n) n)" "packet_node_info sender l hdr s = clearNodeFailureIfNeeded n (s3 n)"
    obtain w where w: "clearNodeFailureIfNeeded n (s3 n) = Some w" using clearNodeFailureIfNeeded_effect [OF f(1)] by blast
    have "live w = live s" using inv_view_live [OF k5(2) [OF w]] inv_view_live [OF k3(2)] inv_view_live [OF k2(2)] inv_view_live [OF k1(2)] by simp
    then show ?thesis using f(2) w k5 [OF w] k3 k2 k1 keeps_trans [OF ks3 k5(1) [OF w]] by simp
  next
    fix n assume "packet_node_info sender l hdr s = Some (clusterDoBeforeSleep (CLUSTER_TODO_SAVE_CONFIG OR CLUSTER_TODO_UPDATE_STATE) (s4 n))"
    moreover have "live (s4 n) = live s" using inv_view_live [OF k4(2)] inv_view_live [OF k3(2)] inv_view_live [OF k2(2)] inv_view_live [OF k1(2)] by simp
    ultimately show ?thesis using k4 k3 k2 k1 keeps_trans [OF ks3 k4(1)] by simp
  next
    fix n assume "packet_node_info sender l hdr s = Some (s3 n)"
    moreover have "live (s3 n) = live s" using inv_view_live [OF k3(2)] inv_view_live [OF k2(2)] inv_view_live [OF k1(2)] by simp
    ultimately show ?thesis using k3 k2 k1 ks3 by simp
  next
    assume "packet_node_info sender l hdr s = Some s2"
    moreover have "live s2 = live s" using inv_view_live [OF k2(2)] inv_view_live [OF k1(2)] by simp
    ultimately show ?thesis using k2 k1 ks2 by simp
  qed
qed

text \<open>The role of another node.\<close>

lemma keeps_SetNodeAsMaster:
  assumes "n \<noteq> myself s" shows "keeps s (clusterSetNodeAsMaster n s)"
proof -
  define s1 where "s1 = (case slaveof (nd s n) of None \<Rightarrow> s
      | Some m \<Rightarrow> snd (clusterNodeRemoveSlave m n s))"
  have k1: "keeps s s1" "myself s1 = myself s"
    using table_frameD(6) [OF clusterNodeRemoveSlave_effect(1)] by (auto simp: s1_def split: option.split)
  have other: "keeps u (upd_node n f u)" if "inv_view (upd_node n f u) = inv_view u" "myself u = myself s" for u f
    using that assms by (intro keepsI) (auto simp: my_role_def)
  define s2 where "s2 = upd_node n (\<lambda>x. x\<lparr>flags := flags x OR CLUSTER_NODE_MIGRATE_TO\<rparr>) s1"
  have k2: "keeps s1 s2" "myself s2 = myself s" using k1(2) by (auto simp: s2_def upd_node_inv_view intro!: other)
  define g :: "clusterNode \<Rightarrow> clusterNode" where "g = (\<lambda>x. x\<lparr>flags := (flags x AND NOT CLUSTER_NODE_SLAVE) OR CLUSTER_NODE_MASTER, slaveof := None\<rparr>)"
  have k3: "keeps u (clusterDoBeforeSleep fl (upd_node n g u))" if "myself u = myself s" for u fl
    using that by (intro keeps_todo other) (auto simp: g_def upd_node_inv_view)
  have "clusterSetNodeAsMaster n s \<in> {s, clusterDoBeforeSleep (CLUSTER_TODO_SAVE_CONFIG OR CLUSTER_TODO_UPDATE_STATE) (upd_node n g s1),
      clusterDoBeforeSleep (CLUSTER_TODO_SAVE_CONFIG OR CLUSTER_TODO_UPDATE_STATE) (upd_node n g s2)}"
    using assms k1(2)
    by (auto simp: clusterSetNodeAsMaster_def Let_def s1_def s2_def g_def
        table_frameD(6) [OF clusterNodeRemoveSlave_effect(1)] split: option.split)
  then show ?thesis
    using keeps_trans [OF k1(1) k3 [OF k1(2)]] keeps_trans [OF keeps_trans [OF k1(1) k2(1)] k3 [OF k2(2)]] by auto
qed

lemma keeps_inv_view:
  assumes "inv_view t = inv_view s" "cluster_inv s"
  shows "cluster_inv t" "live t = live s" "myself t = myself s"
  using assms cluster_inv_cong inv_view_live inv_view_nodes by blast+

text \<open>A node that is not this one loses its slots.\<close>

lemma keeps_DelNodeSlots:
  assumes inv: "cluster_inv s" and n: "n \<in> live s"
  obtains d t where "clusterDelNodeSlots n s = Some (d, t)" "cluster_inv t" "live t = live s" "link_node t = link_node s"
    "myself t = myself s" "n \<noteq> myself s \<Longrightarrow> my_role t = my_role s"
proof -
  obtain d t where t: "clusterDelNodeSlots n s = Some (d, t)" "slot_inv t" "slot_frame t = slot_frame s" "live t = live s"
    "slots t = (\<lambda>j. if j < CLUSTER_SLOTS \<and> slots s j = Some n then None else slots s j)"
    using clusterDelNodeSlots_effect [OF cluster_invD(1) [OF inv] n] by blast
  note c = cluster_inv_slots [OF inv t(2,3)]
  have my: "myself t = myself s" using slot_frame_server [OF t(3)] by simp
  have me: "myself s \<in> live s" using cluster_invD [OF inv] by simp
  have "my_role t = my_role s" if ne: "n \<noteq> myself s"
  proof -
    have "{j. j < CLUSTER_SLOTS \<and> slots t j = Some (myself s)} = {j. j < CLUSTER_SLOTS \<and> slots s j = Some (myself s)}"
      using ne by (auto simp: t(5))
    then have "numslots (nd t (myself s)) = numslots (me s)"
      using slot_inv_numslots [OF t(2), of "myself s"] slot_inv_numslots [OF cluster_invD(1) [OF inv] me] me t(4) by simp
    then show ?thesis using my slot_frame_node [OF t(3)] by (simp add: my_role_def)
  qed
  with t(1,4) c my show ?thesis using that by blast
qed

lemma packet_role_returns:
  assumes inv: "cluster_inv s" and sd: "sd \<in> live s"
  shows "\<exists>t. packet_role sd hdr s = Some t \<and> cluster_inv t \<and> live t = live s \<and> link_node t = link_node s \<and>
           myself t = myself s \<and> (sd \<noteq> myself s \<longrightarrow> my_role t = my_role s)"
proof (cases "h_slaveof hdr = CLUSTER_NODE_NULL_NAME")
  case True
  have v: "inv_view (clusterSetNodeAsMaster sd s) = inv_view s" by simp
  note k = keeps_inv_view [OF v inv]
  have "my_role (clusterSetNodeAsMaster sd s) = my_role s" if "sd \<noteq> myself s"
    using keepsD(4) [OF keeps_SetNodeAsMaster [OF that] inv] .
  then show ?thesis using True k by (simp add: packet_role_def)
next
  case False
  define master where "master = clusterLookupNode (h_slaveof hdr) s"
  define f :: "clusterNode \<Rightarrow> clusterNode" where "f = (\<lambda>x. x\<lparr>flags :=
      (flags x AND NOT (CLUSTER_NODE_MASTER OR CLUSTER_NODE_MIGRATE_TO)) OR CLUSTER_NODE_SLAVE\<rparr>)"
  define P where "P t \<longleftrightarrow> cluster_inv t \<and> live t = live s \<and> link_node t = link_node s \<and> myself t = myself s \<and>
      (sd \<noteq> myself s \<longrightarrow> my_role t = my_role s)" for t
  define demote where "demote = (if nodeIsMaster (nd s sd)
      then do {
        (_, s) \<leftarrow> clusterDelNodeSlots sd s;
        Some (clusterDoBeforeSleep (CLUSTER_TODO_SAVE_CONFIG OR CLUSTER_TODO_UPDATE_STATE) (upd_node sd f s))
      } else Some s)"
  have "\<exists>u. demote = Some u \<and> P u"
  proof (cases "nodeIsMaster (nd s sd)")
    case True
    obtain d t where t: "clusterDelNodeSlots sd s = Some (d, t)" "cluster_inv t" "live t = live s" "link_node t = link_node s"
      "myself t = myself s" "sd \<noteq> myself s \<Longrightarrow> my_role t = my_role s"
      using keeps_DelNodeSlots [OF inv sd] by metis
    have v: "inv_view (upd_node sd f t) = inv_view t" by (simp add: f_def upd_node_inv_view)
    have "my_role (upd_node sd f t) = my_role s" if "sd \<noteq> myself s"
      using t(5,6) that by (simp add: my_role_def)
    then have "P (clusterDoBeforeSleep (CLUSTER_TODO_SAVE_CONFIG OR CLUSTER_TODO_UPDATE_STATE) (upd_node sd f t))"
      using t(2-5) cluster_inv_cong [of "clusterDoBeforeSleep (CLUSTER_TODO_SAVE_CONFIG OR CLUSTER_TODO_UPDATE_STATE) (upd_node sd f t)" t] v
      by (simp add: P_def my_role_def)
    then show ?thesis using True t(1) by (simp add: demote_def)
  qed (use inv in \<open>simp add: demote_def P_def\<close>)
  then obtain u where u: "demote = Some u" "P u" by blast
  have later: "P w" if "keeps u w" "live w = live u" for w
    using that u(2) keepsD [OF that(1)] by (auto simp: P_def)
  define w1 where "w1 = (case slaveof (nd u sd) of Some old \<Rightarrow> snd (clusterNodeRemoveSlave old sd u) | None \<Rightarrow> u)"
  define w2 where "w2 m = snd (clusterNodeAddSlave m sd w1)" for m
  define w3 where "w3 m = clusterDoBeforeSleep CLUSTER_TODO_SAVE_CONFIG (upd_node sd (\<lambda>x. x\<lparr>slaveof := Some m\<rparr>) (w2 m))" for m
  have eq: "packet_role sd hdr s = Some (case master of None \<Rightarrow> u
      | Some m \<Rightarrow> if slaveof (nd u sd) \<noteq> Some m then w3 m else u)"
    using False u(1) unfolding packet_role_def master_def [symmetric] demote_def f_def w1_def w2_def w3_def Let_def
    by (simp split: option.split)
  have k1: "keeps u w1" "inv_view w1 = inv_view u"
    by (auto simp: w1_def split: option.split)
  have k2: "keeps w1 (w2 m)" "inv_view (w2 m) = inv_view w1" "keeps u (w2 m)" "live (w2 m) = live u" for m
    using keeps_trans [OF k1(1) keeps_addSlave] inv_view_live [OF k1(2)] inv_view_live [of "w2 m" w1]
    by (simp_all add: w2_def)
  have "P (w3 m)" for m
  proof -
    have p2: "P (w2 m)" using later k2 by blast
    have v: "inv_view (w3 m) = inv_view (w2 m)" by (simp add: w3_def upd_node_inv_view)
    have "my_role (w3 m) = my_role (w2 m)" if "sd \<noteq> myself s" using that p2 by (simp add: w3_def P_def my_role_def)
    then show ?thesis using p2 keeps_inv_view [OF v] by (auto simp: P_def w3_def)
  qed
  then have "P (case master of None \<Rightarrow> u | Some m \<Rightarrow> if slaveof (nd u sd) \<noteq> Some m then w3 m else u)"
    using u(2) by (auto split: option.split)
  then show ?thesis unfolding eq by (auto simp: P_def)
qed

text \<open>This node knows its master, and serves no slots when it is a replica.\<close>

definition role_ok :: "server \<Rightarrow> bool" where
  "role_ok s \<longleftrightarrow> my_master s \<noteq> None \<and> (\<not> nodeIsMaster (me s) \<longrightarrow> numslots (me s) = 0)"

lemma role_ok_my_role: "role_ok s = (case my_role s of (a, m, so, k) \<Rightarrow> m \<or> so \<noteq> None \<and> k = 0)"
  by (auto simp: role_ok_def my_role_def my_master_def)

lemma role_ok_cong: "my_role t = my_role s \<Longrightarrow> role_ok t = role_ok s"
  by (simp only: role_ok_my_role)

lemma role_ok_keeps: "keeps s t \<Longrightarrow> cluster_inv s \<Longrightarrow> role_ok s \<Longrightarrow> role_ok t"
  using role_ok_cong keepsD(4) by blast

lemma update_slots_returns:
  assumes "cluster_inv s" "n \<in> live s" "n \<noteq> myself s \<Longrightarrow> role_ok s"
  obtains t where "clusterUpdateSlotsConfigWith n e claimed s = Some t" "cluster_inv t" "live t = live s"
    "link_node t = link_node s"
proof -
  obtain t where t: "clusterUpdateSlotsConfigWith n e claimed s = Some t"
  proof (cases "n = myself s")
    case True
    then show ?thesis using that by (simp add: clusterUpdateSlotsConfigWith_def)
  next
    case False
    then show ?thesis
      using that assms clusterUpdateSlotsConfigWith_returns [of s n e claimed] by (auto simp: role_ok_def)
  qed
  show ?thesis by (rule that [OF t]) (rule clusterUpdateSlotsConfigWith_keep(1,3,4) [OF assms(1,2) t])+
qed

lemma packet_slots_returns:
  assumes "cluster_inv s" "sd \<in> live s" "sd \<noteq> myself s \<Longrightarrow> role_ok s"
  shows "\<exists>t. packet_slots sd e hdr s = Some t \<and> cluster_inv t \<and> live t = live s"
proof -
  obtain u where u: "clusterUpdateSlotsConfigWith sd e (h_myslots hdr) s = Some u" "cluster_inv u" "live u = live s"
    using update_slots_returns [OF assms] by metis
  have k: "cluster_inv (clusterSendUpdate lk m w)" "live (clusterSendUpdate lk m w) = live s"
    if "cluster_inv w" "live w = live s" for lk m w
    using keepsD(1) [OF keeps_simple(6) that(1)] that(2) by simp_all
  show ?thesis using u assms(1) k unfolding packet_slots_def Let_def by (simp split: option.split)
qed

lemma packet_ping_returns:
  assumes inv: "cluster_inv s" "link_ok s l hdr" "role_ok s"
    and unknown: "sender = None \<Longrightarrow> link_node s l \<noteq> None \<Longrightarrow> clusterLookupNode (h_sender hdr) s = None"
    and known: "\<And>sd. sender = Some sd \<Longrightarrow> sd \<in> live s"
  shows "\<exists>r t. packet_ping sender e l hdr s = Some (r, t) \<and> cluster_inv t"
proof -
  from packet_handshake_returns [OF inv(1,2) unknown known]
  consider t where "packet_handshake sender l hdr s = Some (Inl t)" "cluster_inv t"
    | s1 where "packet_handshake sender l hdr s = Some (Inr s1)" "keeps s s1" "live s1 = live s" "cluster_inv s1"
    by blast
  then show ?thesis
  proof cases
    case 1
    then show ?thesis by (simp add: packet_ping_def)
  next
    case h: 2
    obtain s2 where n: "packet_node_info sender l hdr s1 = Some s2" "keeps s1 s2" "live s2 = live s1"
      using packet_node_info_returns by blast
    note s2 = keepsD [OF n(2) h(4)]
    show ?thesis
    proof (cases sender)
      case None
      then show ?thesis using h(1) n(1) s2(1) by (simp add: packet_ping_def)
    next
      case (Some sd)
      then have sd: "sd \<in> live s2" using known h(3) n(3) by simp
      obtain s3 where r: "packet_role sd hdr s2 = Some s3" "cluster_inv s3" "live s3 = live s2" "myself s3 = myself s2"
        "sd \<noteq> myself s2 \<Longrightarrow> my_role s3 = my_role s2"
        using packet_role_returns [OF s2(1) sd, of hdr] by blast
      have "role_ok s2" using role_ok_keeps [OF keeps_trans [OF h(2) n(2)] inv(1,3)] .
      then have ok: "sd \<noteq> myself s3 \<Longrightarrow> role_ok s3" using r(4,5) role_ok_cong [of s3 s2] by simp
      have sd3: "sd \<in> live s3" using sd r(3) by simp
      obtain s4 where p: "packet_slots sd e hdr s3 = Some s4" "cluster_inv s4"
        using packet_slots_returns [OF r(2) sd3 ok] by blast
      define s5 where "s5 = (if nodeIsMaster (me s4) \<and> nodeIsMaster (nd s4 sd) \<and> e = configEpoch (me s4)
                          then clusterHandleConfigEpochCollision sd s4 else s4)"
      have v: "inv_view s5 = inv_view s4" by (simp add: s5_def keep_collision)
      have "cluster_inv (clusterProcessGossipSection hdr l s5)"
        using keepsD(1) [OF keeps_gossip(1)] p(2) cluster_inv_cong [OF v] by simp
      moreover have "packet_ping sender e l hdr s = Some (1, clusterProcessGossipSection hdr l s5)"
        using Some h(1) n(1) r(1) p(1) unfolding packet_ping_def s5_def by simp
      ultimately show ?thesis by blast
    qed
  qed
qed

text \<open>The data of a packet is the member its type selects, and the announced lengths fit.\<close>

definition packet_wf :: "clusterMsg \<Rightarrow> bool" where
  "packet_wf hdr \<longleftrightarrow>
     (h_type hdr = CLUSTERMSG_TYPE_FAIL \<longrightarrow> (case h_data hdr of FailData _ \<Rightarrow> True | _ \<Rightarrow> False)) \<and>
     (h_type hdr = CLUSTERMSG_TYPE_PUBLISH \<longrightarrow>
        (case h_data hdr of PublishData c m b \<Rightarrow> unat c + unat m \<le> length b | _ \<Rightarrow> False)) \<and>
     (h_type hdr = CLUSTERMSG_TYPE_UPDATE \<longrightarrow> (case h_data hdr of UpdateData _ _ _ \<Rightarrow> True | _ \<Rightarrow> False)) \<and>
     (h_type hdr = CLUSTERMSG_TYPE_MODULE \<longrightarrow>
        (case h_data hdr of ModuleData _ len _ p \<Rightarrow> unat len \<le> length p | _ \<Rightarrow> False))"

lemma packet_update_returns:
  assumes inv: "cluster_inv s" and ok: "role_ok s"
  shows "\<exists>t. packet_update e nm claimed s = Some t \<and> cluster_inv t"
proof (cases "clusterLookupNode nm s")
  case None
  then show ?thesis using inv by (simp add: packet_update_def)
next
  case (Some n)
  define s1 where "s1 = (if nodeIsSlave (nd s n) then clusterSetNodeAsMaster n s else s)"
  define s2 where "s2 = clusterDoBeforeSleep (CLUSTER_TODO_SAVE_CONFIG OR CLUSTER_TODO_FSYNC_CONFIG)
      (upd_node n (\<lambda>x. x\<lparr>configEpoch := e\<rparr>) s1)"
  have v: "inv_view s2 = inv_view s" by (simp add: s2_def s1_def upd_node_inv_view)
  note k = keeps_inv_view [OF v inv]
  have n: "n \<in> live s2" using clusterLookupNode_live [OF Some] k(2) by simp
  have "role_ok s2" if "n \<noteq> myself s2"
  proof -
    have "keeps s s1" using keeps_SetNodeAsMaster that k(3) by (simp add: s1_def)
    moreover have "keeps s1 s2" by (auto simp: s2_def intro!: keeps_todo keeps_upd_plain)
    ultimately show ?thesis using role_ok_keeps keeps_trans inv ok by blast
  qed
  from update_slots_returns [OF k(1) n this]
  obtain t where "clusterUpdateSlotsConfigWith n e claimed s2 = Some t" "cluster_inv t" by metis
  then show ?thesis using Some inv by (auto simp: packet_update_def s1_def s2_def)
qed

lemma inv_view_auth: "inv_view (clusterSendFailoverAuthIfNeeded n hdr s) = inv_view s"
proof -
  have "inv_view (clusterSendFailoverAuth n u) = inv_view u" for u
    using clusterSendFailoverAuth_effect [of u n] sentD(15) by blast
  then show ?thesis
    by (simp add: clusterSendFailoverAuthIfNeeded_def Let_def upd_node_inv_view split: option.split)
qed

lemma inv_view_mfstart: "inv_view (packet_mfstart n s) = inv_view s"
proof -
  have "inv_view (u\<lparr>mf_end := a, mf_slave := b\<rparr>) = inv_view u" for u a b by (simp add: inv_view_def view_defs)
  then show ?thesis by (simp add: packet_mfstart_def Let_def)
qed

lemma packet_other_returns:
  assumes inv: "cluster_inv s" "role_ok s" and wf: "packet_wf hdr" and sd: "\<And>n. sender = Some n \<Longrightarrow> n \<in> live s"
  shows "\<exists>t. packet_other sender e hdr s = Some t \<and> cluster_inv t"
proof -
  have k: "cluster_inv t" if "keeps s t" for t using keepsD(1) [OF that inv(1)] .
  have fail: "cluster_inv (packet_fail sender about s)" for about
    by (rule k) (auto simp: packet_fail_def node_flag_bits flag_simps flag_defs bit_simps intro!: keeps_todo keeps_upd
        split: option.split)
  have view: "cluster_inv t" if "inv_view t = inv_view s" for t using inv(1) cluster_inv_cong [OF that] by simp
  have auth: "cluster_inv (clusterSendFailoverAuthIfNeeded n hdr s)" for n by (rule view) (rule inv_view_auth)
  have mf: "cluster_inv (packet_mfstart n s)" for n by (rule view) (rule inv_view_mfstart)
  have ack: "cluster_inv (packet_auth_ack n e s)" for n by (rule view) (simp add: packet_auth_ack_def)
  have em: "cluster_inv (emit ef s)" for ef by (rule k) simp
  show ?thesis
    using wf fail auth mf ack em packet_update_returns [OF inv] inv(1)
    by (auto simp: packet_other_def packet_wf_def packet_publish_def Let_def split: clusterMsgData.splits option.split)
qed

section \<open>Every packet\<close>

lemma lookup_nodes: "nodes t = nodes s \<Longrightarrow> clusterLookupNode nm t = clusterLookupNode nm s"
  by (simp add: clusterLookupNode_def)

lemma packet_sender_info_nodes:
  "nodes (packet_sender_info sender hdr s) = nodes s" "link_node (packet_sender_info sender hdr s) = link_node s"
  by (auto simp: packet_sender_info_def Let_def split: option.split)

text \<open>
  A packet never makes a consistent node fail, and leaves it consistent: every
  assertion of the handlers holds and no pointer that is followed is NULL.
\<close>

lemma clusterProcessPacket_returns:
  assumes inv: "cluster_inv s" "role_ok s" and l: "link_ok s l hdr" and wf: "packet_wf hdr"
  shows "\<exists>r t. clusterProcessPacket l hdr s = Some (r, t) \<and> cluster_inv t"
proof -
  define s0 where "s0 = (if h_type hdr < CLUSTERMSG_TYPE_COUNT
               then s\<lparr>stats_bus_messages_received :=
                        (stats_bus_messages_received s)(h_type hdr := stats_bus_messages_received s (h_type hdr) + 1)\<rparr>
               else s)"
  define sender where "sender = clusterLookupNode (h_sender hdr) s0"
  define s1 where "s1 = packet_sender_info sender hdr s0"
  define known where "known = (case sender of None \<Rightarrow> False | Some sd \<Rightarrow> \<not> nodeInHandshake (nd s1 sd))"
  define ce where "ce = (if known then h_currentEpoch hdr else 0)"
  define fe where "fe = (if known then h_configEpoch hdr else 0)"
  define s2 where "s2 = (if h_type hdr = CLUSTERMSG_TYPE_PING \<or> h_type hdr = CLUSTERMSG_TYPE_MEET
                    then packet_ping_meet sender l hdr s1 else s1)"
  have v0: "inv_view s0 = inv_view s" by (simp add: s0_def inv_view_def view_defs)
  have k0: "keeps s s0" by (rule keeps_view [OF v0]) (simp_all add: s0_def)
  have k1: "keeps s0 s1" by (simp add: s1_def packet_sender_info_keeps)
  have k2: "keeps s1 s2" by (simp add: s2_def packet_ping_meet_keeps)
  note k01 = keeps_trans [OF k0 k1] and k = keeps_trans [OF keeps_trans [OF k0 k1] k2]
  note i2 = keepsD [OF k inv(1)]
  have ok2: "role_ok s2" using role_ok_keeps [OF k inv] .
  have l2: "link_ok s2 l hdr" using l i2(2,3,5) by (auto simp: link_ok_def)
  have sd: "sd \<in> live s2" if "sender = Some sd" for sd
    using clusterLookupNode_live [of "h_sender hdr" s0 sd] that inv_view_live [OF v0] i2(2) by (auto simp: sender_def)
  have unknown: "clusterLookupNode (h_sender hdr) s2 = None" if "sender = None" "link_node s2 l \<noteq> None"
  proof -
    have "link_node s l \<noteq> None" using that(2) i2(3) by simp
    then have "h_type hdr \<noteq> CLUSTERMSG_TYPE_MEET" using l by (auto simp: link_ok_def)
    then have "nodes s2 = nodes s0"
      using packet_ping_meet_keeps(3) [of hdr sender l s1] packet_sender_info_nodes(1) [of sender hdr s0]
      by (auto simp: s2_def s1_def)
    then show ?thesis using that(1) lookup_nodes [of s2 s0] by (simp add: sender_def)
  qed
  have eq: "clusterProcessPacket l hdr s =
      (if \<not> packet_length_ok hdr then Some (1, s0)
       else if is_ping_type (h_type hdr) then packet_ping sender fe l hdr s2
       else map_option (\<lambda>s. (1, s)) (packet_other sender ce hdr s2))"
    unfolding clusterProcessPacket_def Let_def s0_def [symmetric] sender_def [symmetric] s1_def [symmetric]
      known_def [symmetric] ce_def [symmetric] fe_def [symmetric] s2_def [symmetric] by simp
  show ?thesis
    using keepsD(1) [OF k0 inv(1)] packet_ping_returns [OF i2(1) l2 ok2 unknown sd, where e = fe]
      packet_other_returns [OF i2(1) ok2 wf sd, where e = ce]
    unfolding eq by auto
qed

end
