(* ===== verification/ClusterCron.thy ===== *)
theory ClusterCron
  imports ClusterPacket ClusterReset
begin

text \<open>
  The periodic work of a node: \<open>clusterCron\<close>, ten times a second, in the order of
  its body (announced address, reconnection of links, the random ping, failure
  detection, manual failover, election and migration), and \<open>clusterBeforeSleep\<close>.
\<close>

section \<open>Links\<close>

definition createClusterLink :: "naddr option \<Rightarrow> server \<Rightarrow> laddr \<times> server" where
  "createClusterLink node s =
     (let l = next_link s
      in (l, s\<lparr>link_node := (link_node s)(l := node), link_ctime := (link_ctime s)(l := mstime s),
              next_link := Suc l\<rparr>))"

definition cron_announce_ip :: "server \<Rightarrow> server" where
  "cron_announce_ip s =
     (let curr_ip = cluster_announce_ip s
      in if prev_announce_ip s \<noteq> curr_ip
         then let s = s\<lparr>prev_announce_ip := curr_ip\<rparr>
              in (case curr_ip of
                    Some a \<Rightarrow> upd_node (myself s) (\<lambda>x. x\<lparr>ip := take (NET_IP_STR_LEN - 1) a\<rparr>) s
                  | None \<Rightarrow> upd_node (myself s) (\<lambda>x. x\<lparr>ip := []\<rparr>) s)
         else s)"

text \<open>One node in the loop that removes stale handshakes and opens missing links.\<close>

definition cron_connect :: "int \<Rightarrow> naddr \<Rightarrow> server \<Rightarrow> server option" where
  "cron_connect handshake_timeout node s =
     (if flags (nd s node) AND (CLUSTER_NODE_MYSELF OR CLUSTER_NODE_NOADDR) \<noteq> 0 then Some s
      else
        let s = (if flags (nd s node) AND CLUSTER_NODE_PFAIL \<noteq> 0
                 then s\<lparr>stats_pfail_nodes := stats_pfail_nodes s + 1\<rparr> else s)
        in if nodeInHandshake (nd s node) \<and> mstime s - ctime (nd s node) > handshake_timeout
           then clusterDelNode node s
           else if link (nd s node) \<noteq> None then Some s
           else if \<not> connect_ok s (ip (nd s node)) (cport (nd s node))
           then Some (if ping_sent (nd s node) = 0
                      then upd_node node (\<lambda>x. x\<lparr>ping_sent := mstime s\<rparr>) s else s)
           else
             let (l, s) = createClusterLink (Some node) s;
                 s = upd_node node (\<lambda>x. x\<lparr>link := Some l\<rparr>) s;
                 old_ping_sent = ping_sent (nd s node);
                 s = clusterSendPing l (if flags (nd s node) AND CLUSTER_NODE_MEET \<noteq> 0
                                        then CLUSTERMSG_TYPE_MEET else CLUSTERMSG_TYPE_PING) s;
                 s = (if old_ping_sent \<noteq> 0
                      then upd_node node (\<lambda>x. x\<lparr>ping_sent := old_ping_sent\<rparr>) s else s)
             in Some (upd_node node (\<lambda>x. x\<lparr>flags := flags x AND NOT CLUSTER_NODE_MEET\<rparr>) s))"

text \<open>The five random nodes, the one with the oldest PONG is pinged.\<close>

fun cron_random_nodes :: "nat \<Rightarrow> naddr option \<Rightarrow> server \<Rightarrow> naddr option \<times> server" where
  "cron_random_nodes 0 min_pong_node s = (min_pong_node, s)"
| "cron_random_nodes (Suc j) min_pong_node s =
     (let this = random_key s (random_pos s);
          s = s\<lparr>random_pos := random_pos s + 1\<rparr>
      in if link (nd s this) = None \<or> ping_sent (nd s this) \<noteq> 0 then cron_random_nodes j min_pong_node s
         else if flags (nd s this) AND (CLUSTER_NODE_MYSELF OR CLUSTER_NODE_HANDSHAKE) \<noteq> 0
         then cron_random_nodes j min_pong_node s
         else cron_random_nodes j
                (case min_pong_node of
                   None \<Rightarrow> Some this
                 | Some m \<Rightarrow> if pong_received (nd s m) > pong_received (nd s this) then Some this else Some m) s)"

definition cron_random_ping :: "server \<Rightarrow> server" where
  "cron_random_ping s =
     (if cron_iteration s mod 10 = 0
      then let (n, s) = cron_random_nodes 5 None s
           in (case n of
                 Some n \<Rightarrow> (case link (nd s n) of
                              Some l \<Rightarrow> clusterSendPing l CLUSTERMSG_TYPE_PING s | None \<Rightarrow> s)
               | None \<Rightarrow> s)
      else s)"

text \<open>
  One node in the failure detection loop. The counters are the orphaned masters, the
  greatest number of working replicas of a master, and those of our own master.
\<close>

record cron_counts =
  orphaned_masters :: int
  max_slaves :: int
  this_slaves :: int
  update_state :: bool

definition cron_count_orphans :: "naddr \<Rightarrow> server \<Rightarrow> cron_counts \<Rightarrow> cron_counts" where
  "cron_count_orphans node s c =
     (if nodeIsSlave (me s) \<and> nodeIsMaster (nd s node) \<and> \<not> nodeFailed (nd s node)
      then let okslaves = clusterCountNonFailingSlaves node s;
               c = (if okslaves = 0 \<and> numslots (nd s node) > 0 \<and>
                       flags (nd s node) AND CLUSTER_NODE_MIGRATE_TO \<noteq> 0
                    then c\<lparr>orphaned_masters := orphaned_masters c + 1\<rparr> else c);
               c = (if okslaves > max_slaves c then c\<lparr>max_slaves := okslaves\<rparr> else c)
           in if slaveof (me s) = Some node then c\<lparr>this_slaves := okslaves\<rparr> else c
      else c)"

definition cron_check_node :: "naddr \<Rightarrow> cron_counts \<times> server \<Rightarrow> cron_counts \<times> server" where
  "cron_check_node node = (\<lambda>(c, s).
     if flags (nd s node) AND
          (CLUSTER_NODE_MYSELF OR CLUSTER_NODE_NOADDR OR CLUSTER_NODE_HANDSHAKE) \<noteq> 0
     then (c, s)
     else
       let c = cron_count_orphans node s c;
           now = mstime s;
           timeout = cluster_node_timeout s;
           s = (case link (nd s node) of
                  Some l \<Rightarrow>
                    if now - link_ctime s l > timeout \<and> ping_sent (nd s node) \<noteq> 0 \<and>
                       pong_received (nd s node) < ping_sent (nd s node) \<and>
                       now - ping_sent (nd s node) > timeout div 2 \<and>
                       now - data_received (nd s node) > timeout div 2
                    then freeClusterLink l s else s
                | None \<Rightarrow> s)
       in (case link (nd s node) of
             Some l \<Rightarrow>
               if ping_sent (nd s node) = 0 \<and> now - pong_received (nd s node) > timeout div 2
               then (c, clusterSendPing l CLUSTERMSG_TYPE_PING s)
               else if mf_end s \<noteq> 0 \<and> nodeIsMaster (me s) \<and> mf_slave s = Some node
               then (c, clusterSendPing l CLUSTERMSG_TYPE_PING s)
               else if ping_sent (nd s node) = 0 then (c, s)
               else (let (u, s) = clusterCron_checkTimeout node (update_state c, s)
                     in (c\<lparr>update_state := u\<rparr>, s))
           | None \<Rightarrow>
               if ping_sent (nd s node) = 0 then (c, s)
               else (let (u, s) = clusterCron_checkTimeout node (update_state c, s)
                     in (c\<lparr>update_state := u\<rparr>, s))))"

text \<open>What follows the loops: replication, manual failover, election, migration, state.\<close>

definition cron_failover :: "'z zk_api \<Rightarrow> cron_counts \<Rightarrow> 'z \<Rightarrow> server \<Rightarrow> ('z \<times> server) option" where
  "cron_failover zk c z s = do {
     let s = (case slaveof (me s) of
                Some m \<Rightarrow> if nodeIsSlave (me s) \<and> masterhost s = None \<and> nodeHasAddr (nd s m)
                          then replicationSetMaster (ip (nd s m)) (port (nd s m)) s else s
              | None \<Rightarrow> s);
     let s = manualFailoverCheckTimeout s;
     (z, s) \<leftarrow> (if nodeIsSlave (me s)
               then do {
                 let s = clusterHandleManualFailover s;
                 (z, s) \<leftarrow> (if cluster_module_flags s AND CLUSTER_MODULE_FLAG_NO_FAILOVER = 0
                           then clusterHandleSlaveFailover zk z s else Some (z, s));
                 s \<leftarrow> (if orphaned_masters c \<noteq> 0 \<and> max_slaves c \<ge> 2 \<and> this_slaves c = max_slaves c
                       then clusterHandleSlaveMigration (max_slaves c) s else Some s);
                 Some (z, s)
               }
               else Some (z, s));
     Some (z, if update_state c \<or> state s = CLUSTER_FAIL then clusterUpdateState s else s)
   }"

definition clusterCron :: "'z zk_api \<Rightarrow> 'z \<Rightarrow> server \<Rightarrow> ('z \<times> server) option" where
  "clusterCron zk z s = do {
     let s = cron_announce_ip (s\<lparr>cron_iteration := cron_iteration s + 1\<rparr>);
     let handshake_timeout = (if cluster_node_timeout s < 1000 then 1000 else cluster_node_timeout s);
     let s = clusterUpdateMyselfFlags s;
     let s = s\<lparr>stats_pfail_nodes := 0\<rparr>;
     s \<leftarrow> for_each (nodes s) (\<lambda>(nm, node). cron_connect handshake_timeout node) s;
     let s = cron_random_ping s;
     let (c, s) = fold (\<lambda>(nm, node). cron_check_node node) (nodes s)
                    (\<lparr>orphaned_masters = 0, max_slaves = 0, this_slaves = 0, update_state = False\<rparr>, s);
     cron_failover zk c z s
   }"

section \<open>Before sleeping\<close>

definition clusterBeforeSleep :: "'z zk_api \<Rightarrow> 'z \<Rightarrow> server \<Rightarrow> ('z \<times> server) option" where
  "clusterBeforeSleep zk z s = do {
     (z, s) \<leftarrow> (if todo_before_sleep s AND CLUSTER_TODO_HANDLE_FAILOVER \<noteq> 0
               then clusterHandleSlaveFailover zk z s else Some (z, s));
     let s = (if todo_before_sleep s AND CLUSTER_TODO_UPDATE_STATE \<noteq> 0 then clusterUpdateState s else s);
     let s = (if todo_before_sleep s AND CLUSTER_TODO_SAVE_CONFIG \<noteq> 0
              then clusterSaveConfigOrDie (todo_before_sleep s AND CLUSTER_TODO_FSYNC_CONFIG \<noteq> 0) s else s);
     Some (z, s\<lparr>todo_before_sleep := 0\<rparr>)
   }"

section \<open>What the periodic work keeps\<close>

text \<open>The role of every node and the links between masters and replicas.\<close>

definition role_of :: "clusterNode \<Rightarrow> bool \<times> bool \<times> bool" where
  "role_of n = (nodeIsMaster n, nodeIsSlave n, bit (flags n) 4)"

definition link_view :: "server \<Rightarrow> naddr \<times> (naddr \<Rightarrow> (bool \<times> bool \<times> bool) \<times> naddr option \<times> naddr list)" where
  "link_view s = (myself s, \<lambda>a. (role_of (heap s a), slaveof (heap s a), slaves (heap s a)))"

text \<open>
  A consistent node: besides the tables, it knows itself by its flag, it is a master or a
  replica, a replica serves no slot, and its master is a known node that lists it.
\<close>

definition me_ok :: "server \<Rightarrow> bool" where
  "me_ok s \<longleftrightarrow> cluster_inv s \<and> bit (flags (me s)) 4 \<and> nodeIsSlave (me s) = (\<not> nodeIsMaster (me s)) \<and>
     (\<not> nodeIsMaster (me s) \<longrightarrow> numslots (me s) = 0) \<and>
     (\<forall>m. slaveof (me s) = Some m \<longrightarrow>
        m \<in> live s \<and> m \<noteq> myself s \<and> nodeIsSlave (me s) \<and> myself s \<in> set (slaves (nd s m)))"

lemma me_okD:
  assumes "me_ok s"
  shows "cluster_inv s" "master_ok s" "bit (flags (me s)) 4" "\<not> nodeIsMaster (me s) \<Longrightarrow> numslots (me s) = 0"
    "nodeIsSlave (me s) = (\<not> nodeIsMaster (me s))"
  using assms by (auto simp: me_ok_def master_ok_def)

lemma me_ok_keep:
  assumes "inv_view t = inv_view s" "link_view t = link_view s" "me_ok s"
  shows "me_ok t"
proof -
  have i: "cluster_inv t = cluster_inv s" "live t = live s"
    using cluster_inv_cong [OF assms(1)] inv_view_live [OF assms(1)] by simp_all
  have m: "myself t = myself s" using assms(2) by (simp add: link_view_def)
  have r: "role_of (heap t a) = role_of (heap s a)" "slaveof (heap t a) = slaveof (heap s a)"
    "slaves (heap t a) = slaves (heap s a)" for a
    using assms(2) by (auto simp: link_view_def dest: fun_cong [of _ _ a])
  have n: "numslots (heap t a) = numslots (heap s a)" for a
    using assms(1) by (auto simp: inv_view_def slot_view_def dest: fun_cong [of _ _ a])
  have "nodeIsMaster (heap t a) = nodeIsMaster (heap s a)" "nodeIsSlave (heap t a) = nodeIsSlave (heap s a)"
    "bit (flags (heap t a)) 4 = bit (flags (heap s a)) 4" for a
    using r(1) [of a] by (simp_all add: role_of_def)
  then show ?thesis using assms(3) i m r n by (auto simp: me_ok_def)
qed

lemma link_view_upd:
  assumes "\<And>x. (role_of (f x), slaveof (f x), slaves (f x)) = (role_of x, slaveof x, slaves x)"
  shows "link_view (upd_node a f s) = link_view s"
  using assms by (auto simp: link_view_def upd_node_def fun_eq_iff)

lemma link_view_heap: "heap t = heap s \<Longrightarrow> myself t = myself s \<Longrightarrow> link_view t = link_view s"
  by (simp add: link_view_def)

lemma link_view_pinged: "pinged s t \<Longrightarrow> link_view t = link_view s"
  using pingedD [of s t] by (auto simp: link_view_def role_of_def fun_eq_iff)

lemma role_of_flags [simp]:
  "role_of (x\<lparr>flags := flags x AND NOT CLUSTER_NODE_MEET\<rparr>) = role_of x"
  "role_of (x\<lparr>flags := flags x OR CLUSTER_NODE_FAIL\<rparr>) = role_of x"
  "role_of (x\<lparr>flags := flags x OR CLUSTER_NODE_PFAIL\<rparr>) = role_of x"
  "role_of (x\<lparr>flags := (flags x AND NOT CLUSTER_NODE_NOFAILOVER) OR CLUSTER_NODE_NOFAILOVER\<rparr>) = role_of x"
  "role_of (x\<lparr>flags := flags x AND NOT CLUSTER_NODE_NOFAILOVER\<rparr>) = role_of x"
  "role_of (x\<lparr>flags := flags x AND NOT CLUSTER_NODE_MIGRATE_TO\<rparr>) = role_of x"
  "role_of (x\<lparr>slaves := ss, flags := flags x AND NOT CLUSTER_NODE_MIGRATE_TO\<rparr>) = role_of x"
  by (simp_all add: role_of_def node_flag_bits flag_defs flag_simps)

lemma role_of_fields [simp]:
  "role_of (x\<lparr>ip := i\<rparr>) = role_of x" "role_of (x\<lparr>ping_sent := p\<rparr>) = role_of x" "role_of (x\<lparr>link := l\<rparr>) = role_of x"
  "role_of (x\<lparr>fail_reports := r\<rparr>) = role_of x" "role_of (x\<lparr>slaveof := m\<rparr>) = role_of x"
  "role_of (x\<lparr>slaves := ss\<rparr>) = role_of x"
  by (simp_all add: role_of_def node_flag_defs)

lemma slot_frame_role: "slot_frame t = slot_frame s \<Longrightarrow> role_of (heap t a) = role_of (heap s a)"
proof -
  assume f: "slot_frame t = slot_frame s"
  from arg_cong [OF slot_frame_heap [OF f, of a], of flags]
  have "flags (heap t a) AND NOT CLUSTER_NODE_MIGRATE_TO = flags (heap s a) AND NOT CLUSTER_NODE_MIGRATE_TO" by simp
  moreover have "bit (w AND NOT CLUSTER_NODE_MIGRATE_TO) k = bit w k" if "k \<in> {0, 1, 4}" for w k
    using that by (auto simp: flag_defs flag_simps)
  ultimately have "bit (flags (heap t a)) k = bit (flags (heap s a)) k" if "k \<in> {0, 1, 4}" for k
    using that by metis
  then show ?thesis by (simp add: role_of_def node_flag_bits)
qed

section \<open>Forgetting a stale handshake\<close>

lemma clusterDelNode_role:
  assumes "clusterDelNode d s = Some t"
  shows "role_of (heap t a) = role_of (heap s a)"
proof -
  define f where "f = (\<lambda>(nm :: bytes, node) s. if node = d then s else snd (clusterNodeDelFailureReport node d s))"
  obtain u where u: "for_each [0..<CLUSTER_SLOTS] (clusterDelNode_slot d) s = Some u"
    "freeClusterNode d (fold f (nodes u) u) = Some t"
    using assms by (auto simp: clusterDelNode_def f_def split: bind_splits)
  have "role_of (heap u a) = role_of (heap s a)"
  proof (rule for_each_keep [OF u(1)])
    fix j v w assume "clusterDelNode_slot d j v = Some w"
    moreover define v' where "v' = (let s = (if importing_slots_from v j = Some d
               then v\<lparr>importing_slots_from := (importing_slots_from v)(j := None)\<rparr> else v)
          in if migrating_slots_to s j = Some d
             then s\<lparr>migrating_slots_to := (migrating_slots_to s)(j := None)\<rparr> else s)"
    ultimately have "(if slots v' j = Some d then map_option snd (clusterDelSlot j v') else Some v') = Some w"
      by (simp only: clusterDelNode_slot_def Let_def)
    then have "w = v' \<or> (\<exists>r. clusterDelSlot j v' = Some (r, w))"
      by (auto split: if_splits)
    moreover have "heap v' = heap v" by (simp add: v'_def Let_def)
    ultimately show "role_of (heap w a) = role_of (heap v a)"
      using slot_frame_role slot_ops_frame(2) by metis
  qed
  moreover have "role_of (heap (fold f (nodes u) u) a) = role_of (heap u a)"
  proof (rule fold_keep)
    fix x v
    have "role_of (heap (snd (clusterNodeDelFailureReport n d v)) a) = role_of (heap v a)" for n
      using clusterNodeDelFailureReport_effect(1) [OF refl, where c = a and a = n and b = d and s = v]
        clusterNodeDelFailureReport_effect(2) [OF refl, where a = n and b = d and s = v] role_of_fields(4)
      by (cases "a = n") metis+
    then show "role_of (heap (f x v) a) = role_of (heap v a)" by (simp add: f_def split: prod.split)
  qed
  moreover define v where "v = fold f (nodes u) u"
  have "role_of (heap t a) = role_of (heap v a)"
  proof -
    define w where "w = fold (\<lambda>b. upd_node b (\<lambda>x. x\<lparr>slaveof := None\<rparr>)) (slaves (nd v d)) v"
    have "role_of (heap w a) = role_of (heap v a)"
      unfolding w_def fold_unset_slaveof by simp
    moreover have "role_of (heap (snd (clusterNodeRemoveSlave m n w)) a) = role_of (heap w a)" for m n
      by (auto simp: clusterNodeRemoveSlave_def Let_def)
    moreover have "role_of (heap (freeClusterLink l x) a) = role_of (heap x a)" for l x
      using freeClusterLink_effect(4) [of l x a] by (simp add: role_of_def node_flag_defs)
    ultimately show ?thesis
      using u(2) unfolding v_def [symmetric] freeClusterNode_def w_def [symmetric] Let_def
      by (auto split: bind_splits option.splits if_splits)
  qed
  ultimately show ?thesis by (simp add: v_def)
qed

lemma me_ok_DelNode:
  assumes ok: "me_ok s" and d: "d \<in> live s" "d \<noteq> myself s"
  shows "\<exists>t. clusterDelNode d s = Some t \<and> me_ok t \<and> live t = live s - {d} \<and> myself t = myself s"
proof -
  note inv = me_okD(1) [OF ok]
  note i = cluster_invD [OF inv]
  obtain t where t: "clusterDelNode d s = Some t" "cluster_inv t" "live t = live s - {d}" "epoch_view t = epoch_view s"
    using clusterDelNode_inv [OF inv d] by blast
  from clusterDelNode_core [OF i(1-3) d(1)] t(1)
  have sl: "slots t = (\<lambda>i. if i < CLUSTER_SLOTS \<and> slots s i = Some d then None else slots s i)"
    and so: "\<And>a. slaveof (heap t a) = (if a \<in> set (slaves (nd s d)) then None else slaveof (heap s a))"
    and ss: "\<And>a. slaves (heap t a) =
         (if slaveof (nd s d) = Some a \<and> d \<notin> set (slaves (nd s d)) \<and> nodeIsSlave (nd s d)
          then remove1 d (slaves (heap s a)) else slaves (heap s a))"
    by auto
  have my: "myself t = myself s" using epoch_viewD [OF t(4)] by simp
  have role: "nodeIsMaster (me t) = nodeIsMaster (me s)" "nodeIsSlave (me t) = nodeIsSlave (me s)"
    "bit (flags (me t)) 4 = bit (flags (me s)) 4"
    using clusterDelNode_role [OF t(1), of "myself s"] my by (simp_all add: role_of_def)
  have "{j. j < CLUSTER_SLOTS \<and> slots t j = Some (myself s)} = {j. j < CLUSTER_SLOTS \<and> slots s j = Some (myself s)}"
    using d(2) by (auto simp: sl)
  then have num: "numslots (me t) = numslots (me s)"
    using slot_inv_numslots [OF cluster_invD(1) [OF t(2)] cluster_invD(4) [OF t(2)]]
      slot_inv_numslots [OF i(1,4)] my by simp
  have "m \<in> live t \<and> m \<noteq> myself t \<and> nodeIsSlave (me t) \<and> myself t \<in> set (slaves (nd t m))"
    if m: "slaveof (me t) = Some m" for m
  proof -
    have "myself s \<notin> set (slaves (nd s d))" "slaveof (me s) = Some m"
      using m so [of "myself s"] my by (auto split: if_splits)
    then have "m \<in> live s" "m \<noteq> myself s" "nodeIsSlave (me s)" "myself s \<in> set (slaves (nd s m))" "m \<noteq> d"
      using ok by (auto simp: me_ok_def)
    then show ?thesis using d(2) t(3) my role ss [of m] by (auto simp: in_set_remove1)
  qed
  then have "me_ok t" using t(2) ok my role num by (simp add: me_ok_def)
  then show ?thesis using t(1,3) my by blast
qed

section \<open>The loops\<close>

lemma cron_connect_returns:
  assumes ok: "me_ok s" and node: "node \<in> live s"
  shows "\<exists>t. cron_connect ht node s = Some t \<and> me_ok t \<and> live s - {node} \<subseteq> live t"
proof -
  define s1 where "s1 = (if flags (nd s node) AND CLUSTER_NODE_PFAIL \<noteq> 0
                 then s\<lparr>stats_pfail_nodes := stats_pfail_nodes s + 1\<rparr> else s)"
  have v1: "inv_view s1 = inv_view s" "link_view s1 = link_view s" "live s1 = live s" "myself s1 = myself s" "heap s1 = heap s"
    by (simp_all add: s1_def inv_view_def view_defs link_view_def)
  note ok1 = me_ok_keep [OF v1(1,2) ok]
  have keep: "me_ok t \<and> live s - {node} \<subseteq> live t" if "inv_view t = inv_view s1" "link_view t = link_view s1" for t
    using me_ok_keep [OF that ok1] inv_view_live [OF that(1)] v1(3) by simp
  show ?thesis
  proof (cases "flags (nd s node) AND (CLUSTER_NODE_MYSELF OR CLUSTER_NODE_NOADDR) \<noteq> 0")
    case True
    then show ?thesis using ok by (simp add: cron_connect_def)
  next
    case False
    have nm: "node \<noteq> myself s"
    proof
      assume "node = myself s"
      then have "bit (flags (nd s node) AND (CLUSTER_NODE_MYSELF OR CLUSTER_NODE_NOADDR)) 4"
        using me_okD(3) [OF ok] by (simp add: flag_defs flag_simps)
      then show False using False by simp
    qed
    have c: "cron_connect ht node s =
       (if nodeInHandshake (nd s1 node) \<and> mstime s1 - ctime (nd s1 node) > ht then clusterDelNode node s1
        else if link (nd s1 node) \<noteq> None then Some s1
        else if \<not> connect_ok s1 (ip (nd s1 node)) (cport (nd s1 node))
        then Some (if ping_sent (nd s1 node) = 0 then upd_node node (\<lambda>x. x\<lparr>ping_sent := mstime s1\<rparr>) s1 else s1)
        else
          let (l, s) = createClusterLink (Some node) s1;
              s = upd_node node (\<lambda>x. x\<lparr>link := Some l\<rparr>) s;
              old_ping_sent = ping_sent (nd s node);
              s = clusterSendPing l (if flags (nd s node) AND CLUSTER_NODE_MEET \<noteq> 0
                                     then CLUSTERMSG_TYPE_MEET else CLUSTERMSG_TYPE_PING) s;
              s = (if old_ping_sent \<noteq> 0 then upd_node node (\<lambda>x. x\<lparr>ping_sent := old_ping_sent\<rparr>) s else s)
          in Some (upd_node node (\<lambda>x. x\<lparr>flags := flags x AND NOT CLUSTER_NODE_MEET\<rparr>) s))"
      using False by (simp add: cron_connect_def s1_def [symmetric] Let_def)
    show ?thesis
    proof (cases "nodeInHandshake (nd s1 node) \<and> mstime s1 - ctime (nd s1 node) > ht")
      case True
      then show ?thesis using c me_ok_DelNode [OF ok1, of node] node nm v1(3,4) by auto
    next
      case hs: False
      show ?thesis
      proof (cases "link (nd s1 node) \<noteq> None \<or> \<not> connect_ok s1 (ip (nd s1 node)) (cport (nd s1 node))")
        case True
        then have "cron_connect ht node s = Some s1 \<or> cron_connect ht node s = Some (upd_node node (\<lambda>x. x\<lparr>ping_sent := mstime s1\<rparr>) s1)"
          using c hs by auto
        then show ?thesis
          using keep [of s1] keep [of "upd_node node (\<lambda>x. x\<lparr>ping_sent := mstime s1\<rparr>) s1"]
          by (auto simp: upd_node_inv_view link_view_upd)
      next
        case False
        obtain l u where u: "createClusterLink (Some node) s1 = (l, u)" by fastforce
        have vu: "inv_view u = inv_view s1" "link_view u = link_view s1"
          using u by (auto simp: createClusterLink_def Let_def inv_view_def view_defs link_view_def)
        define u1 where "u1 = upd_node node (\<lambda>x. x\<lparr>link := Some l\<rparr>) u"
        define u2 where "u2 = clusterSendPing l (if flags (nd u1 node) AND CLUSTER_NODE_MEET \<noteq> 0
                                     then CLUSTERMSG_TYPE_MEET else CLUSTERMSG_TYPE_PING) u1"
        define u3 where "u3 = (if ping_sent (nd u1 node) \<noteq> 0 then upd_node node (\<lambda>x. x\<lparr>ping_sent := ping_sent (nd u1 node)\<rparr>) u2 else u2)"
        define t where "t = upd_node node (\<lambda>x. x\<lparr>flags := flags x AND NOT CLUSTER_NODE_MEET\<rparr>) u3"
        have p: "pinged u1 u2" unfolding u2_def by (rule pinged_ping) simp
        have "inv_view t = inv_view s1" "link_view t = link_view s1"
          using vu pingedD(14) [OF p] link_view_pinged [OF p]
          by (simp_all add: t_def u3_def u1_def upd_node_inv_view link_view_upd)
        moreover have "cron_connect ht node s = Some t"
          unfolding c Let_def u case_prod_conv u1_def [symmetric] u2_def [symmetric] u3_def [symmetric] t_def [symmetric]
          using hs False by auto
        ultimately show ?thesis using keep by blast
      qed
    qed
  qed
qed

lemma cron_connect_loop:
  assumes "me_ok s" "snd ` set ns \<subseteq> live s" "distinct (map snd ns)"
  shows "\<exists>t. for_each ns (\<lambda>(nm, node). cron_connect ht node) s = Some t \<and> me_ok t"
  using assms
proof (induction ns arbitrary: s)
  case (Cons e ns)
  obtain nm node where e: "e = (nm, node)" by fastforce
  obtain u where u: "cron_connect ht node s = Some u" "me_ok u" "live s - {node} \<subseteq> live u"
    using cron_connect_returns [OF Cons.prems(1), of node ht] Cons.prems(2) e by auto
  have sub: "snd ` set ns \<subseteq> live u" using Cons.prems(2,3) e u(3) by force
  have "distinct (map snd ns)" using Cons.prems(3) by simp
  from Cons.IH [OF u(2) sub this] show ?case using u(1) e by simp
qed simp

lemma me_ok_random_ping: "me_ok s \<Longrightarrow> me_ok (cron_random_ping s)"
proof -
  assume ok: "me_ok s"
  have v: "heap (snd (cron_random_nodes k m u)) = heap u \<and> inv_view (snd (cron_random_nodes k m u)) = inv_view u \<and>
      myself (snd (cron_random_nodes k m u)) = myself u" for k m u
    by (induction k m u rule: cron_random_nodes.induct)
      (auto simp: Let_def inv_view_def view_defs split: option.splits)
  obtain n u where u: "cron_random_nodes 5 None s = (n, u)" by fastforce
  have u1: "inv_view u = inv_view s" "link_view u = link_view s"
    using v [of 5 None s] u link_view_heap [of u s] by simp_all
  have p: "inv_view (clusterSendPing l CLUSTERMSG_TYPE_PING u) = inv_view u"
    "link_view (clusterSendPing l CLUSTERMSG_TYPE_PING u) = link_view u" for l
    using pinged_ping [of CLUSTERMSG_TYPE_PING u l] pingedD(14) link_view_pinged by simp_all
  have "inv_view (cron_random_ping s) = inv_view s \<and> link_view (cron_random_ping s) = link_view s"
    unfolding cron_random_ping_def u Let_def case_prod_conv
    using u1 p by (simp split: option.split)
  then show ?thesis using me_ok_keep ok by blast
qed

lemma link_view_checkTimeout: "link_view (snd (clusterCron_checkTimeout a (b, s))) = link_view s"
proof -
  have "link_view (clusterSendFail nm u) = link_view u" for nm u
    by (rule link_view_pinged) (rule pinged_sends)
  then show ?thesis
    by (simp add: clusterCron_checkTimeout_def Let_def link_view_upd)
qed

lemma cron_check_node_view:
  "inv_view (snd (cron_check_node node (c, s))) = inv_view s \<and> link_view (snd (cron_check_node node (c, s))) = link_view s"
proof -
  have free: "link_view (freeClusterLink l u) = link_view u" for l u
    using freeClusterLink_effect [of l u] by (simp add: link_view_def role_of_def node_flag_bits freeClusterLink_def split: option.split)
  have p: "inv_view (clusterSendPing l CLUSTERMSG_TYPE_PING u) = inv_view u"
    "link_view (clusterSendPing l CLUSTERMSG_TYPE_PING u) = link_view u" for l u
    using pinged_ping [of CLUSTERMSG_TYPE_PING u l] pingedD(14) link_view_pinged by simp_all
  show ?thesis
    unfolding cron_check_node_def Let_def case_prod_beta
    by (auto simp: free p link_view_checkTimeout keep_checkTimeout split: option.split)
qed

lemma me_ok_check_loop:
  assumes "me_ok (snd p)" shows "me_ok (snd (fold (\<lambda>(nm, node). cron_check_node node) ns p))"
proof -
  have "(inv_view (snd (fold (\<lambda>(nm, node). cron_check_node node) ns p)),
      link_view (snd (fold (\<lambda>(nm, node). cron_check_node node) ns p))) = (inv_view (snd p), link_view (snd p))"
    using cron_check_node_view by (intro fold_keep) (simp add: case_prod_beta, metis prod.collapse)
  then show ?thesis using me_ok_keep assms by simp
qed

section \<open>The whole cron\<close>

lemma migration_scan_keep:
  "inv_view (snd (snd (fold (\<lambda>(nm, node). migration_scan k node) ns p))) = inv_view (snd (snd p)) \<and>
   link_view (snd (snd (fold (\<lambda>(nm, node). migration_scan k node) ns p))) = link_view (snd (snd p))"
proof -
  have o: "role_of (x\<lparr>orphaned_time := v\<rparr>) = role_of x" for x v by (simp add: role_of_def node_flag_defs)
  have "(inv_view (snd (snd (migration_scan k node q))), link_view (snd (snd (migration_scan k node q)))) =
      (inv_view (snd (snd q)), link_view (snd (snd q)))" for node q
    by (cases q) (simp add: migration_scan_def Let_def upd_node_inv_view link_view_upd o)
  then have "(inv_view (snd (snd (fold (\<lambda>(nm, node). migration_scan k node) ns p))),
      link_view (snd (snd (fold (\<lambda>(nm, node). migration_scan k node) ns p)))) = (inv_view (snd (snd p)), link_view (snd (snd p)))"
    by (intro fold_keep) (simp split: prod.split)
  then show ?thesis by simp
qed

text \<open>The target of a migration is a master, not this node.\<close>

lemma migration_scan_target:
  assumes "nodeIsSlave (me s)"
  shows "fst (fold (\<lambda>(nm, node). migration_scan k node) ns (None, c, s)) \<noteq> Some (myself s)"
proof -
  have "fst (fold (\<lambda>(nm, node). migration_scan k node) ns p) \<noteq> Some (myself s)"
    if "link_view (snd (snd p)) = link_view s" "fst p \<noteq> Some (myself s)" for p
    using that
  proof (induction ns arbitrary: p)
    case (Cons e ns)
    obtain nm node where e: "e = (nm, node)" by fastforce
    obtain tg cd u where p: "p = (tg, cd, u)" by (cases p)
    have lv: "role_of (heap u a) = role_of (heap s a)" for a
      using Cons.prems(1) p by (auto simp: link_view_def dest: fun_cong [of _ _ a])
    have sl: "nodeIsSlave (heap u (myself s))" using lv [of "myself s"] assms by (simp add: role_of_def)
    have "fst (migration_scan k node p) \<noteq> Some (myself s)"
      using Cons.prems(2) sl p by (auto simp: migration_scan_def Let_def)
    moreover have "link_view (snd (snd (migration_scan k node p))) = link_view s"
      using migration_scan_keep [of k "[(nm, node)]" p] Cons.prems(1) by simp
    ultimately show ?case using Cons.IH [of "migration_scan k node p"] e by simp
  qed simp
  from this [of "(None, c, s)"] show ?thesis by simp
qed

lemma clusterHandleSlaveMigration_returns:
  assumes inv: "cluster_inv s" and num: "\<And>m. slaveof (me s) = Some m \<Longrightarrow> nodeIsSlave (me s) \<and> numslots (me s) = 0"
  shows "\<exists>t. clusterHandleSlaveMigration k s = Some t \<and> cluster_inv t"
proof -
  have ret: "\<exists>t. clusterHandleSlaveMigration k s = Some t"
  proof (cases "slaveof (me s)")
    case None
    then show ?thesis by (simp add: clusterHandleSlaveMigration_def)
  next
    case (Some m)
    obtain target candidate u where f: "fold (\<lambda>(nm, node). migration_scan k node) (nodes s) (None, myself s, s) = (target, candidate, u)"
      by (cases "fold (\<lambda>(nm, node). migration_scan k node) (nodes s) (None, myself s, s)")
    have v: "inv_view u = inv_view s" "link_view u = link_view s"
      using migration_scan_keep [of k "nodes s" "(None, myself s, s)"] f by simp_all
    have my: "myself u = myself s" using v(2) by (simp add: link_view_def)
    have "numslots (heap u a) = numslots (heap s a)" for a
      using v(1) by (auto simp: inv_view_def slot_view_def dest: fun_cong [of _ _ a])
    then have nu: "numslots (me u) = 0" using num Some my by simp
    have tg: "target \<noteq> Some (myself s)"
      using migration_scan_target [of s k "nodes s" "myself s"] num Some f by simp
    have "t \<noteq> myself u" if "target = Some t" for t using tg my that by simp
    then have "\<exists>w. clusterSetMaster t u = Some w" if "target = Some t" for t
      using clusterSetMaster_Some [OF _ nu] that by blast
    then show ?thesis
      unfolding clusterHandleSlaveMigration_def Let_def Some f option.case case_prod_conv
      by (auto split: option.split)
  qed
  then obtain t where t: "clusterHandleSlaveMigration k s = Some t" by blast
  then have "cluster_inv t" using cluster_inv_cong [OF keep_migration(1) [OF t]] inv by simp
  then show ?thesis using t by blast
qed

lemma cron_failover_returns:
  assumes ok: "me_ok s"
  shows "\<exists>z' t. cron_failover zk c z s = Some (z', t) \<and> cluster_inv t"
proof -
  define s1 where "s1 = manualFailoverCheckTimeout (case slaveof (me s) of
                Some m \<Rightarrow> if nodeIsSlave (me s) \<and> masterhost s = None \<and> nodeHasAddr (nd s m)
                          then replicationSetMaster (ip (nd s m)) (port (nd s m)) s else s
              | None \<Rightarrow> s)"
  have h: "heap (manualFailoverCheckTimeout u) = heap u" "myself (manualFailoverCheckTimeout u) = myself u"
    "heap (clusterHandleManualFailover u) = heap u" "myself (clusterHandleManualFailover u) = myself u" for u
    by (simp_all add: manualFailoverCheckTimeout_def clusterHandleManualFailover_def)
  have v1: "inv_view s1 = inv_view s" "link_view s1 = link_view s"
    by (auto simp: s1_def link_view_def h split: option.split)
  have v2: "inv_view (clusterHandleManualFailover s1) = inv_view s1" "link_view (clusterHandleManualFailover s1) = link_view s1"
    by (simp_all add: link_view_def h)
  note ok1 = me_ok_keep [OF v1 ok]
  define s2 where "s2 = clusterHandleManualFailover s1"
  note ok2 = me_ok_keep [OF v2 ok1, folded s2_def]
  have upd: "cluster_inv (if b then clusterUpdateState u else u) = cluster_inv u" for b u
    using cluster_inv_cong [OF state_frameD(1) [OF state_frame_UpdateState]] by simp
  have c: "cron_failover zk c z s = (do {
     (z, s) \<leftarrow> (if nodeIsSlave (me s1)
               then do {
                 (z, s) \<leftarrow> (if cluster_module_flags s2 AND CLUSTER_MODULE_FLAG_NO_FAILOVER = 0
                           then clusterHandleSlaveFailover zk z s2 else Some (z, s2));
                 s \<leftarrow> (if orphaned_masters c \<noteq> 0 \<and> max_slaves c \<ge> 2 \<and> this_slaves c = max_slaves c
                       then clusterHandleSlaveMigration (max_slaves c) s else Some s);
                 Some (z, s)
               }
               else Some (z, s1));
     Some (z, if update_state c \<or> state s = CLUSTER_FAIL then clusterUpdateState s else s)
   })"
    unfolding cron_failover_def Let_def s1_def [symmetric] s2_def [symmetric] by (rule refl)
  show ?thesis
  proof (cases "nodeIsSlave (me s1)")
    case False
    then show ?thesis using me_okD(1) [OF ok1] upd by (simp add: c)
  next
    case True
    obtain z3 s3 where s3: "(if cluster_module_flags s2 AND CLUSTER_MODULE_FLAG_NO_FAILOVER = 0
        then clusterHandleSlaveFailover zk z s2 else Some (z, s2)) = Some (z3, s3)" "cluster_inv s3"
      "promotion s2 s3 \<or> slots s3 = slots s2 \<and> flags (me s3) = flags (me s2) \<and> myself s3 = myself s2"
    proof (cases "cluster_module_flags s2 AND CLUSTER_MODULE_FLAG_NO_FAILOVER = 0")
      case True
      then show ?thesis
        using clusterHandleSlaveFailover_result [OF me_okD(1,2) [OF ok2], of zk z] that by fastforce
    next
      case False
      then show ?thesis using me_okD(1) [OF ok2] that by auto
    qed
    have sl2: "nodeIsSlave (me s2)"
      using True v2(2) unfolding s2_def link_view_def role_of_def by (auto dest: fun_cong [of _ _ "myself s1"])
    have num: "nodeIsSlave (me s3) \<and> numslots (me s3) = 0" if m: "slaveof (me s3) = Some m" for m
    proof -
      have same: "slots s3 = slots s2" "flags (me s3) = flags (me s2)" "myself s3 = myself s2"
        using s3(3) m by (auto simp: promotion_def)
      have i2: "slot_inv s2" "myself s2 \<in> live s2" and i3: "slot_inv s3" "myself s3 \<in> live s3"
        using cluster_invD [OF me_okD(1) [OF ok2]] cluster_invD [OF s3(2)] by auto
      have n: "numslots (me s3) = numslots (me s2)"
        using slot_inv_numslots [OF i2] slot_inv_numslots [OF i3] same by simp
      have slave: "nodeIsSlave (me s3)" using sl2 same(2) by (simp add: nodeIsSlave_def)
      show ?thesis using n slave me_okD(4,5) [OF ok2] sl2 by simp
    qed
    obtain s4 where s4: "(if orphaned_masters c \<noteq> 0 \<and> max_slaves c \<ge> 2 \<and> this_slaves c = max_slaves c
                       then clusterHandleSlaveMigration (max_slaves c) s3 else Some s3) = Some s4" "cluster_inv s4"
    proof (cases "orphaned_masters c \<noteq> 0 \<and> max_slaves c \<ge> 2 \<and> this_slaves c = max_slaves c")
      case True
      have "\<exists>t. clusterHandleSlaveMigration (max_slaves c) s3 = Some t \<and> cluster_inv t"
        by (rule clusterHandleSlaveMigration_returns [OF s3(2)]) (rule num)
      then show ?thesis using that True by auto
    qed (use that s3(2) in auto)
    show ?thesis using True s3(1) s4 upd by (simp add: c)
  qed
qed

lemma clusterCron_returns:
  assumes ok: "me_ok s"
  shows "\<exists>z' t. clusterCron zk z s = Some (z', t) \<and> cluster_inv t"
proof -
  define s1 where "s1 = cron_announce_ip (s\<lparr>cron_iteration := cron_iteration s + 1\<rparr>)"
  define ht where "ht = (if cluster_node_timeout s1 < 1000 then 1000 else cluster_node_timeout s1)"
  define s2 where "s2 = (clusterUpdateMyselfFlags s1)\<lparr>stats_pfail_nodes := 0\<rparr>"
  have plain: "inv_view (u\<lparr>cron_iteration := i\<rparr>) = inv_view u" "inv_view (u\<lparr>prev_announce_ip := a\<rparr>) = inv_view u"
    "inv_view (u\<lparr>stats_pfail_nodes := k\<rparr>) = inv_view u" "link_view (u\<lparr>cron_iteration := i\<rparr>) = link_view u"
    "link_view (u\<lparr>prev_announce_ip := a\<rparr>) = link_view u" "link_view (u\<lparr>stats_pfail_nodes := k\<rparr>) = link_view u" for u i a k
    by (simp_all add: inv_view_def view_defs link_view_def)
  have a: "inv_view (cron_announce_ip u) = inv_view u" "link_view (cron_announce_ip u) = link_view u" for u
    by (auto simp: cron_announce_ip_def Let_def plain upd_node_inv_view link_view_upd split: option.split)
  have f: "link_view (clusterUpdateMyselfFlags u) = link_view u" for u
  proof -
    define v where "v = upd_node (myself u) (\<lambda>x. x\<lparr>flags := (flags x AND NOT CLUSTER_NODE_NOFAILOVER) OR
        (if cluster_slave_no_failover u then CLUSTER_NODE_NOFAILOVER else 0)\<rparr>) u"
    have "link_view v = link_view u" unfolding v_def by (rule link_view_upd) simp
    moreover have "clusterUpdateMyselfFlags u = v \<or> (\<exists>w. clusterUpdateMyselfFlags u = clusterDoBeforeSleep w v)"
      unfolding clusterUpdateMyselfFlags_def Let_def v_def by auto
    ultimately show ?thesis using link_view_heap [of "clusterDoBeforeSleep _ v" v] by auto
  qed
  have ok2: "me_ok s2"
    by (rule me_ok_keep [OF _ _ ok]) (simp_all add: s2_def s1_def plain a f)
  obtain s3 where s3: "for_each (nodes s2) (\<lambda>(nm, node). cron_connect ht node) s2 = Some s3" "me_ok s3"
    using cron_connect_loop [OF ok2, of "nodes s2" ht] nodes_distinct [OF cluster_invD(2) [OF me_okD(1) [OF ok2]]]
    by (auto simp: live_def)
  define p where "p = fold (\<lambda>(nm, node). cron_check_node node) (nodes (cron_random_ping s3))
                    (\<lparr>orphaned_masters = 0, max_slaves = 0, this_slaves = 0, update_state = False\<rparr>, cron_random_ping s3)"
  have ok4: "me_ok (snd p)" unfolding p_def by (rule me_ok_check_loop) (simp add: me_ok_random_ping s3(2))
  have "clusterCron zk z s = cron_failover zk (fst p) z (snd p)"
    unfolding clusterCron_def Let_def s1_def [symmetric] ht_def [symmetric] s2_def [symmetric]
    by (simp add: s3(1) p_def case_prod_beta)
  then show ?thesis using cron_failover_returns [OF ok4] by simp
qed

lemma clusterBeforeSleep_returns:
  assumes "cluster_inv s" "master_ok s"
  shows "\<exists>z' t. clusterBeforeSleep zk z s = Some (z', t) \<and> cluster_inv t"
proof -
  obtain z1 u where u: "(if todo_before_sleep s AND CLUSTER_TODO_HANDLE_FAILOVER \<noteq> 0
               then clusterHandleSlaveFailover zk z s else Some (z, s)) = Some (z1, u)" "cluster_inv u"
  proof (cases "todo_before_sleep s AND CLUSTER_TODO_HANDLE_FAILOVER \<noteq> 0")
    case True
    then show ?thesis using clusterHandleSlaveFailover_result [OF assms, of zk z] that by auto
  qed (use that assms(1) in auto)
  have upd: "inv_view (clusterUpdateState v) = inv_view v" for v
    using state_frameD(1) [OF state_frame_UpdateState] .
  have todo: "inv_view (v\<lparr>todo_before_sleep := w\<rparr>) = inv_view v" for v w by (simp add: inv_view_def view_defs)
  define w where "w = (let v = (if todo_before_sleep u AND CLUSTER_TODO_UPDATE_STATE \<noteq> 0 then clusterUpdateState u else u)
     in if todo_before_sleep v AND CLUSTER_TODO_SAVE_CONFIG \<noteq> 0
        then clusterSaveConfigOrDie (todo_before_sleep v AND CLUSTER_TODO_FSYNC_CONFIG \<noteq> 0) v else v)"
  have "inv_view w = inv_view u" by (simp add: w_def Let_def upd)
  then have "cluster_inv (w\<lparr>todo_before_sleep := 0\<rparr>)"
    using cluster_inv_cong [of "w\<lparr>todo_before_sleep := 0\<rparr>" u] u(2) by (simp add: todo)
  moreover have "clusterBeforeSleep zk z s = Some (z1, w\<lparr>todo_before_sleep := 0\<rparr>)"
    by (simp add: clusterBeforeSleep_def u(1) w_def Let_def)
  ultimately show ?thesis by blast
qed

end
