(* ===== verification/ClusterCommand.thy ===== *)
theory ClusterCommand
  imports ClusterFile ClusterCron ClusterRoute
begin

text \<open>
  The CLUSTER command (\<open>clusterCommand\<close> of \<open>cluster.c\<close>), one definition for every
  subcommand that does some work, and the dispatcher. A command returns its reply and
  the new state; \<open>None\<close> is a failed assertion or a read outside an argument.
\<close>

section \<open>Replies and arguments\<close>

datatype fmt_arg = FmtS bytes | FmtD int

datatype reply =
    ReplyOK
  | ReplySyntaxErr
  | ReplySubcommandSyntaxError bytes
  | ReplyHelp
  | ReplyError string "fmt_arg list"
  | ReplyStatus string "fmt_arg list"
  | ReplyInt int
  | ReplyBulk bytes
  | ReplyKeysInSlot nat nat
  | ReplyArray "reply list"

text \<open>The conversion of a \<open>long long\<close> to an \<open>int\<close>.\<close>

definition int_of_llong :: "int \<Rightarrow> int" where
  "int_of_llong i = sint (word_of_int i :: u32)"

definition getSlotOrReply :: "bytes \<Rightarrow> reply + nat" where
  "getSlotOrReply a =
     (case string2ll a of
        Some slot \<Rightarrow> if slot < 0 \<or> slot \<ge> int CLUSTER_SLOTS
                     then Inl (ReplyError ''Invalid or out of range slot'' []) else Inr (nat slot)
      | None \<Rightarrow> Inl (ReplyError ''Invalid or out of range slot'' []))"

definition getLongLongFromObjectOrReply :: "bytes \<Rightarrow> reply + int" where
  "getLongLongFromObjectOrReply a =
     (case string2ll a of
        Some v \<Rightarrow> Inr v
      | None \<Rightarrow> Inl (ReplyError ''value is not an integer or out of range'' []))"

text \<open>
  \<open>clusterLookupNode\<close> of an argument copies 40 bytes from it whatever its length. The
  terminator of the argument may be the last of them; with a shorter argument the copy
  reads beyond its memory.
\<close>

definition lookup_arg :: "bytes \<Rightarrow> server \<Rightarrow> naddr option option" where
  "lookup_arg a s =
     (if length a + 1 < CLUSTER_NAMELEN then None
      else Some (clusterLookupNode (take CLUSTER_NAMELEN (a @ [0])) s))"

section \<open>Slots and their owners\<close>

text \<open>The check of the slots of ADDSLOTS and DELSLOTS; \<open>seen\<close> is the array \<open>slots\<close>.\<close>

fun check_slots :: "bool \<Rightarrow> server \<Rightarrow> bytes list \<Rightarrow> (nat \<Rightarrow> nat) \<Rightarrow> reply + (nat \<Rightarrow> nat)" where
  "check_slots del s [] seen = Inr seen"
| "check_slots del s (a # as) seen =
     (case getSlotOrReply a of
        Inl r \<Rightarrow> Inl r
      | Inr slot \<Rightarrow>
          if del \<and> slots s slot = None then Inl (ReplyError ''Slot %d is already unassigned'' [FmtD (int slot)])
          else if \<not> del \<and> slots s slot \<noteq> None then Inl (ReplyError ''Slot %d is already busy'' [FmtD (int slot)])
          else if seen slot = 1 then Inl (ReplyError ''Slot %d specified multiple times'' [FmtD (int slot)])
          else check_slots del s as (seen(slot := seen slot + 1)))"

definition change_slot :: "bool \<Rightarrow> (nat \<Rightarrow> nat) \<Rightarrow> nat \<Rightarrow> server \<Rightarrow> server option" where
  "change_slot del seen j s =
     (if seen j \<noteq> 0 then do {
        let s = (if importing_slots_from s j \<noteq> None
                 then s\<lparr>importing_slots_from := (importing_slots_from s)(j := None)\<rparr> else s);
        (retval, s) \<leftarrow> (if del then clusterDelSlot j s else Some (clusterAddSlot (myself s) j s));
        serverAssert (retval = C_OK);
        Some s
      } else Some s)"

definition cluster_addslots :: "bool \<Rightarrow> bytes list \<Rightarrow> server \<Rightarrow> (reply \<times> server) option" where
  "cluster_addslots del as s =
     (case check_slots del s as (\<lambda>_. 0) of
        Inl r \<Rightarrow> Some (r, s)
      | Inr seen \<Rightarrow> do {
          s \<leftarrow> for_each [0..<CLUSTER_SLOTS] (change_slot del seen) s;
          Some (ReplyOK, clusterDoBeforeSleep (CLUSTER_TODO_UPDATE_STATE OR CLUSTER_TODO_SAVE_CONFIG) s)
        })"

definition cluster_flushslots :: "server \<Rightarrow> (reply \<times> server) option" where
  "cluster_flushslots s =
     (if db_sizes s ! 0 \<noteq> 0 then Some (ReplyError ''DB must be empty to perform CLUSTER FLUSHSLOTS.'' [], s)
      else do {
        (_, s) \<leftarrow> clusterDelNodeSlots (myself s) s;
        Some (ReplyOK, clusterDoBeforeSleep (CLUSTER_TODO_UPDATE_STATE OR CLUSTER_TODO_SAVE_CONFIG) s)
      })"

text \<open>SETSLOT with the node \<open>n\<close> as the new owner of the slot.\<close>

definition setslot_node :: "nat \<Rightarrow> naddr \<Rightarrow> server \<Rightarrow> (reply \<times> server) option" where
  "setslot_node slot n s =
     (if slots s slot = Some (myself s) \<and> n \<noteq> myself s \<and> countKeysInSlot s slot \<noteq> 0
      then Some (ReplyError
             ''Can't assign hashslot %d to a different node while I still hold keys for this hash slot.''
             [FmtD (int slot)], s)
      else do {
        let s = (if countKeysInSlot s slot = 0 \<and> migrating_slots_to s slot \<noteq> None
                 then s\<lparr>migrating_slots_to := (migrating_slots_to s)(slot := None)\<rparr> else s);
        let s = (if n = myself s \<and> importing_slots_from s slot \<noteq> None
                 then let s = snd (clusterBumpConfigEpochWithoutConsensus s)
                      in s\<lparr>importing_slots_from := (importing_slots_from s)(slot := None)\<rparr>
                 else s);
        (_, s) \<leftarrow> clusterDelSlot slot s;
        Some (ReplyOK, snd (clusterAddSlot n slot s))
      })"

definition cluster_setslot :: "bytes list \<Rightarrow> server \<Rightarrow> (reply \<times> server) option" where
  "cluster_setslot argv s =
     (if nodeIsSlave (me s) then Some (ReplyError ''Please use SETSLOT only with masters.'' [], s)
      else
        case getSlotOrReply (argv ! 2) of
          Inl r \<Rightarrow> Some (r, s)
        | Inr slot \<Rightarrow> do {
            let argc = length argv;
            (r, s) \<leftarrow>
              (if arg_is (argv ! 3) ''migrating'' \<and> argc = 5 then
                 if slots s slot \<noteq> Some (myself s)
                 then Some (ReplyError ''I'm not the owner of hash slot %u'' [FmtD (int slot)], s)
                 else do {
                   n \<leftarrow> lookup_arg (argv ! 4) s;
                   case n of
                     None \<Rightarrow> Some (ReplyError ''I don't know about node %s'' [FmtS (cstr (argv ! 4))], s)
                   | Some n \<Rightarrow> Some (ReplyOK, s\<lparr>migrating_slots_to := (migrating_slots_to s)(slot := Some n)\<rparr>)
                 }
               else if arg_is (argv ! 3) ''importing'' \<and> argc = 5 then
                 if slots s slot = Some (myself s)
                 then Some (ReplyError ''I'm already the owner of hash slot %u'' [FmtD (int slot)], s)
                 else do {
                   n \<leftarrow> lookup_arg (argv ! 4) s;
                   case n of
                     None \<Rightarrow> Some (ReplyError ''I don't know about node %s'' [FmtS (cstr (argv ! 4))], s)
                   | Some n \<Rightarrow> Some (ReplyOK, s\<lparr>importing_slots_from := (importing_slots_from s)(slot := Some n)\<rparr>)
                 }
               else if arg_is (argv ! 3) ''stable'' \<and> argc = 4 then
                 Some (ReplyOK, s\<lparr>importing_slots_from := (importing_slots_from s)(slot := None),
                                  migrating_slots_to := (migrating_slots_to s)(slot := None)\<rparr>)
               else if arg_is (argv ! 3) ''node'' \<and> argc = 5 then do {
                 n \<leftarrow> lookup_arg (argv ! 4) s;
                 case n of
                   None \<Rightarrow> Some (ReplyError ''Unknown node %s'' [FmtS (cstr (argv ! 4))], s)
                 | Some n \<Rightarrow> setslot_node slot n s
               }
               else Some (ReplyError
                 ''Invalid CLUSTER SETSLOT action or number of arguments. Try CLUSTER HELP'' [], s));
            Some (r, if r = ReplyOK
                     then clusterDoBeforeSleep (CLUSTER_TODO_SAVE_CONFIG OR CLUSTER_TODO_UPDATE_STATE) s else s)
          })"

section \<open>Nodes\<close>

text \<open>
  MEET: the ports are parsed as \<open>long long\<close> and passed as \<open>int\<close>; the addition of the
  bus port offset is taken to wrap. \<open>meet_EINVAL\<close> is when \<open>clusterStartHandshake\<close>
  returns 0 with \<open>errno\<close> set to EINVAL.
\<close>

definition meet_EINVAL :: "bytes \<Rightarrow> int \<Rightarrow> int \<Rightarrow> server \<Rightarrow> bool" where
  "meet_EINVAL a p cp s \<longleftrightarrow> inet_norm s a = None \<or> p \<le> 0 \<or> p > 65535 \<or> cp \<le> 0 \<or> cp > 65535"

definition cluster_meet :: "bytes list \<Rightarrow> server \<Rightarrow> reply \<times> server" where
  "cluster_meet argv s =
     (case string2ll (argv ! 3) of
        None \<Rightarrow> (ReplyError ''Invalid TCP base port specified: %s'' [FmtS (cstr (argv ! 3))], s)
      | Some p \<Rightarrow>
          (case (if length argv = 5 then string2ll (argv ! 4) else Some (p + CLUSTER_PORT_INCR)) of
             None \<Rightarrow> (ReplyError ''Invalid TCP bus port specified: %s'' [FmtS (cstr (argv ! 4))], s)
           | Some cp \<Rightarrow>
               let a = cstr (argv ! 2); p = int_of_llong p; cp = int_of_llong cp;
                   (r, t) = clusterStartHandshake a p cp s
               in if r = 0 \<and> meet_EINVAL a p cp s
                  then (ReplyError ''Invalid node address specified: %s:%s'' [FmtS a, FmtS (cstr (argv ! 3))], t)
                  else (ReplyOK, t)))"

definition cluster_forget :: "bytes \<Rightarrow> server \<Rightarrow> (reply \<times> server) option" where
  "cluster_forget a s = do {
     n \<leftarrow> lookup_arg a s;
     case n of
       None \<Rightarrow> Some (ReplyError ''Unknown node %s'' [FmtS (cstr a)], s)
     | Some n \<Rightarrow>
         if n = myself s then Some (ReplyError ''I tried hard but I can't forget myself...'' [], s)
         else if nodeIsSlave (me s) \<and> slaveof (me s) = Some n
         then Some (ReplyError ''Can't forget my master!'' [], s)
         else do {
           s \<leftarrow> clusterDelNode n (clusterBlacklistAddNode n s);
           Some (ReplyOK, clusterDoBeforeSleep (CLUSTER_TODO_UPDATE_STATE OR CLUSTER_TODO_SAVE_CONFIG) s)
         }
   }"

definition cluster_replicate :: "bytes \<Rightarrow> server \<Rightarrow> (reply \<times> server) option" where
  "cluster_replicate a s = do {
     n \<leftarrow> lookup_arg a s;
     case n of
       None \<Rightarrow> Some (ReplyError ''Unknown node %s'' [FmtS (cstr a)], s)
     | Some n \<Rightarrow>
         if n = myself s then Some (ReplyError ''Can't replicate myself'' [], s)
         else if nodeIsSlave (nd s n) then Some (ReplyError ''I can only replicate a master, not a replica.'' [], s)
         else if nodeIsMaster (me s) \<and> (numslots (me s) \<noteq> 0 \<or> db_sizes s ! 0 \<noteq> 0)
         then Some (ReplyError ''To set a master the node must be empty and without assigned slots.'' [], s)
         else do {
           s \<leftarrow> clusterSetMaster n s;
           Some (ReplyOK, clusterDoBeforeSleep (CLUSTER_TODO_UPDATE_STATE OR CLUSTER_TODO_SAVE_CONFIG) s)
         }
   }"

definition cluster_slaves :: "bytes \<Rightarrow> server \<Rightarrow> (reply \<times> server) option" where
  "cluster_slaves a s = do {
     n \<leftarrow> lookup_arg a s;
     case n of
       None \<Rightarrow> Some (ReplyError ''Unknown node %s'' [FmtS (cstr a)], s)
     | Some n \<Rightarrow>
         if nodeIsSlave (nd s n) then Some (ReplyError ''The specified node is not a master'' [], s)
         else Some (ReplyArray (map (\<lambda>sl. ReplyBulk (clusterGenNodeDescription sl s)) (slaves (nd s n))), s)
   }"

definition cluster_count_failure_reports :: "bytes \<Rightarrow> server \<Rightarrow> (reply \<times> server) option" where
  "cluster_count_failure_reports a s = do {
     n \<leftarrow> lookup_arg a s;
     case n of
       None \<Rightarrow> Some (ReplyError ''Unknown node %s'' [FmtS (cstr a)], s)
     | Some n \<Rightarrow> let (k, s) = clusterNodeFailureReportsCount n s in Some (ReplyInt k, s)
   }"

section \<open>Failover, epochs and reset\<close>

definition cluster_failover :: "bytes list \<Rightarrow> server \<Rightarrow> (reply \<times> server) option" where
  "cluster_failover argv s =
     (let takeover = (length argv = 3 \<and> \<not> arg_is (argv ! 2) ''force'' \<and> arg_is (argv ! 2) ''takeover'');
          force = (length argv = 3 \<and> (arg_is (argv ! 2) ''force'' \<or> arg_is (argv ! 2) ''takeover''))
      in if length argv = 3 \<and> \<not> force then Some (ReplySyntaxErr, s)
         else if nodeIsMaster (me s)
         then Some (ReplyError ''You should send CLUSTER FAILOVER to a replica'' [], s)
         else
           (case slaveof (me s) of
              None \<Rightarrow> Some (ReplyError ''I'm a replica but my master is unknown to me'' [], s)
            | Some m \<Rightarrow>
                if \<not> force \<and> (nodeFailed (nd s m) \<or> link (nd s m) = None)
                then Some (ReplyError ''Master is down or failed, please use CLUSTER FAILOVER FORCE'' [], s)
                else do {
                  let s = resetManualFailover s;
                  let s = s\<lparr>mf_end := mstime s + CLUSTER_MF_TIMEOUT\<rparr>;
                  s \<leftarrow> (if takeover
                        then clusterFailoverReplaceYourMaster (snd (clusterBumpConfigEpochWithoutConsensus s))
                        else if force then Some (s\<lparr>mf_can_start := 1\<rparr>)
                        else Some (clusterSendMFStart m s));
                  Some (ReplyOK, s)
                }))"

definition cluster_bumpepoch :: "server \<Rightarrow> reply \<times> server" where
  "cluster_bumpepoch s =
     (let (retval, s) = clusterBumpConfigEpochWithoutConsensus s
      in (ReplyStatus ''+%s %llu'' [FmtS (if retval = C_OK then str ''BUMPED'' else str ''STILL''),
                                    FmtD (uint (configEpoch (me s)))], s))"

definition cluster_set_config_epoch :: "bytes \<Rightarrow> server \<Rightarrow> reply \<times> server" where
  "cluster_set_config_epoch a s =
     (case getLongLongFromObjectOrReply a of
        Inl r \<Rightarrow> (r, s)
      | Inr epoch \<Rightarrow>
          if epoch < 0 then (ReplyError ''Invalid config epoch specified: %lld'' [FmtD epoch], s)
          else if length (nodes s) > 1
          then (ReplyError ''The user can assign a config epoch only when the node does not know any other node.'' [], s)
          else if configEpoch (me s) \<noteq> 0 then (ReplyError ''Node config epoch is already non-zero'' [], s)
          else
            let s = upd_node (myself s) (\<lambda>x. x\<lparr>configEpoch := word_of_int epoch\<rparr>) s;
                s = (if currentEpoch s < word_of_int epoch then s\<lparr>currentEpoch := word_of_int epoch\<rparr> else s)
            in (ReplyOK, clusterDoBeforeSleep (CLUSTER_TODO_UPDATE_STATE OR CLUSTER_TODO_SAVE_CONFIG) s))"

text \<open>RESET; the second argument is the database of the client.\<close>

definition cluster_reset :: "bytes list \<Rightarrow> nat \<Rightarrow> server \<Rightarrow> (reply \<times> server) option" where
  "cluster_reset argv db s =
     (if length argv = 3 \<and> \<not> arg_is (argv ! 2) ''hard'' \<and> \<not> arg_is (argv ! 2) ''soft''
      then Some (ReplySyntaxErr, s)
      else if nodeIsMaster (me s) \<and> db_sizes s ! db \<noteq> 0
      then Some (ReplyError ''CLUSTER RESET can't be called with master nodes containing keys'' [], s)
      else do {
        s \<leftarrow> clusterReset (length argv = 3 \<and> arg_is (argv ! 2) ''hard'') s;
        Some (ReplyOK, s)
      })"

section \<open>Reports\<close>

definition clusterGetMessageTypeString :: "nat \<Rightarrow> bytes" where
  "clusterGetMessageTypeString type =
     (if type = CLUSTERMSG_TYPE_PING then str ''ping''
      else if type = CLUSTERMSG_TYPE_PONG then str ''pong''
      else if type = CLUSTERMSG_TYPE_MEET then str ''meet''
      else if type = CLUSTERMSG_TYPE_FAIL then str ''fail''
      else if type = CLUSTERMSG_TYPE_PUBLISH then str ''publish''
      else if type = CLUSTERMSG_TYPE_FAILOVER_AUTH_REQUEST then str ''auth-req''
      else if type = CLUSTERMSG_TYPE_FAILOVER_AUTH_ACK then str ''auth-ack''
      else if type = CLUSTERMSG_TYPE_UPDATE then str ''update''
      else if type = CLUSTERMSG_TYPE_MFSTART then str ''mfstart''
      else if type = CLUSTERMSG_TYPE_MODULE then str ''module''
      else str ''unknown'')"

text \<open>How many slots are assigned, and to nodes that are fine, suspected or failed.\<close>

definition info_slots :: "server \<Rightarrow> nat \<times> nat \<times> nat \<times> nat" where
  "info_slots s =
     fold (\<lambda>j (assigned, ok, pfail, fl).
             case slots s j of
               None \<Rightarrow> (assigned, ok, pfail, fl)
             | Some n \<Rightarrow> if nodeFailed (nd s n) then (assigned + 1, ok, pfail, fl + 1)
                         else if nodeTimedOut (nd s n) then (assigned + 1, ok, pfail + 1, fl)
                         else (assigned + 1, ok + 1, pfail, fl)) [0..<CLUSTER_SLOTS] (0, 0, 0, 0)"

definition info_stats :: "string \<Rightarrow> (nat \<Rightarrow> int) \<Rightarrow> bytes" where
  "info_stats kind st =
     (let (tot, info) =
            fold (\<lambda>i (tot, info).
                    if st i = 0 then (tot, info)
                    else (tot + st i,
                          info @ str ''cluster_stats_messages_'' @ clusterGetMessageTypeString i @ 95 # str kind @ 58 #
                            dec_int (st i) @ [13, 10]))
              [0..<CLUSTERMSG_TYPE_COUNT] (0, [])
      in info @ str ''cluster_stats_messages_'' @ str kind @ 58 # dec_int tot @ [13, 10])"

definition cluster_info :: "server \<Rightarrow> bytes" where
  "cluster_info s =
     (let (assigned, ok, pfail, fl) = info_slots s;
          myepoch = (case slaveof (me s) of
                       Some m \<Rightarrow> if nodeIsSlave (me s) then configEpoch (nd s m) else configEpoch (me s)
                     | None \<Rightarrow> configEpoch (me s))
      in str ''cluster_state:'' @ [str ''ok'', str ''fail'', str ''needhelp''] ! nat (state s) @ [13, 10] @
         str ''cluster_slots_assigned:'' @ dec_bytes assigned @ [13, 10] @
         str ''cluster_slots_ok:'' @ dec_bytes ok @ [13, 10] @
         str ''cluster_slots_pfail:'' @ dec_bytes pfail @ [13, 10] @
         str ''cluster_slots_fail:'' @ dec_bytes fl @ [13, 10] @
         str ''cluster_known_nodes:'' @ dec_bytes (length (nodes s)) @ [13, 10] @
         str ''cluster_size:'' @ dec_int (cluster_size s) @ [13, 10] @
         str ''cluster_current_epoch:'' @ dec_bytes (unat (currentEpoch s)) @ [13, 10] @
         str ''cluster_my_epoch:'' @ dec_bytes (unat myepoch) @ [13, 10] @
         info_stats ''sent'' (stats_bus_messages_sent s) @
         info_stats ''received'' (stats_bus_messages_received s))"

text \<open>CLUSTER SLOTS: every range of slots with its master and the replicas that have not failed.\<close>

definition reply_node :: "clusterNode \<Rightarrow> reply" where
  "reply_node n = ReplyArray [ReplyBulk (cstr (ip n)), ReplyInt (port n), ReplyBulk (take CLUSTER_NAMELEN (name n))]"

definition clusterReplyMultiBulkSlots :: "server \<Rightarrow> reply" where
  "clusterReplyMultiBulkSlots s =
     ReplyArray (concat (map (\<lambda>(nm, node).
       let n = nd s node
       in if \<not> nodeIsMaster n \<or> numslots n = 0 then []
          else map (\<lambda>(a, b).
                 ReplyArray ([ReplyInt (int a), ReplyInt (int b), reply_node n] @
                   map (\<lambda>sl. reply_node (nd s sl)) (filter (\<lambda>sl. \<not> nodeFailed (nd s sl)) (slaves n))))
               (slot_ranges n)) (nodes s)))"

definition cluster_countkeysinslot :: "bytes \<Rightarrow> server \<Rightarrow> reply" where
  "cluster_countkeysinslot a s =
     (case getLongLongFromObjectOrReply a of
        Inl r \<Rightarrow> r
      | Inr slot \<Rightarrow> if slot < 0 \<or> slot \<ge> int CLUSTER_SLOTS then ReplyError ''Invalid slot'' []
                    else ReplyInt (int (countKeysInSlot s (nat slot))))"

text \<open>GETKEYSINSLOT: the reply tells how many keys of the slot it holds.\<close>

definition cluster_getkeysinslot :: "bytes \<Rightarrow> bytes \<Rightarrow> server \<Rightarrow> reply" where
  "cluster_getkeysinslot a b s =
     (case getLongLongFromObjectOrReply a of
        Inl r \<Rightarrow> r
      | Inr slot \<Rightarrow>
          (case getLongLongFromObjectOrReply b of
             Inl r \<Rightarrow> r
           | Inr maxkeys \<Rightarrow>
               if slot < 0 \<or> slot \<ge> int CLUSTER_SLOTS \<or> maxkeys < 0
               then ReplyError ''Invalid slot or number of keys'' []
               else
                 let keys_in_slot = countKeysInSlot s (nat slot)
                 in ReplyKeysInSlot (nat slot) (if maxkeys > int keys_in_slot then keys_in_slot else nat maxkeys)))"

section \<open>The dispatcher\<close>

text \<open>
  The arity in the command table gives the command at least two arguments. \<open>write_ok\<close>
  tells whether writing the configuration file succeeds, for SAVECONFIG.
\<close>

definition clusterCommand :: "bool \<Rightarrow> bool \<Rightarrow> nat \<Rightarrow> bytes list \<Rightarrow> server \<Rightarrow> (reply \<times> server) option" where
  "clusterCommand cluster_enabled write_ok db argv s =
     (let argc = length argv; sub = argv ! 1
      in if argc < 2 then None
         else if \<not> cluster_enabled
         then Some (ReplyError ''This instance has cluster support disabled'' [], s)
         else if argc = 2 \<and> arg_is sub ''help'' then Some (ReplyHelp, s)
         else if arg_is sub ''meet'' \<and> (argc = 4 \<or> argc = 5) then Some (cluster_meet argv s)
         else if arg_is sub ''nodes'' \<and> argc = 2 then Some (ReplyBulk (clusterGenNodesDescription 0 s), s)
         else if arg_is sub ''myid'' \<and> argc = 2 then Some (ReplyBulk (take CLUSTER_NAMELEN (name (me s))), s)
         else if arg_is sub ''slots'' \<and> argc = 2 then Some (clusterReplyMultiBulkSlots s, s)
         else if arg_is sub ''flushslots'' \<and> argc = 2 then cluster_flushslots s
         else if (arg_is sub ''addslots'' \<or> arg_is sub ''delslots'') \<and> argc \<ge> 3
         then cluster_addslots (arg_is sub ''delslots'') (drop 2 argv) s
         else if arg_is sub ''setslot'' \<and> argc \<ge> 4 then cluster_setslot argv s
         else if arg_is sub ''bumpepoch'' \<and> argc = 2 then Some (cluster_bumpepoch s)
         else if arg_is sub ''info'' \<and> argc = 2 then Some (ReplyBulk (cluster_info s), s)
         else if arg_is sub ''saveconfig'' \<and> argc = 2
         then let (retval, s) = clusterSaveConfig write_ok True s
              in Some (if retval = 0 then ReplyOK else ReplyError ''error saving the cluster node config: %s'' [], s)
         else if arg_is sub ''keyslot'' \<and> argc = 3 then Some (ReplyInt (int (keyHashSlot (argv ! 2))), s)
         else if arg_is sub ''countkeysinslot'' \<and> argc = 3 then Some (cluster_countkeysinslot (argv ! 2) s, s)
         else if arg_is sub ''getkeysinslot'' \<and> argc = 4
         then Some (cluster_getkeysinslot (argv ! 2) (argv ! 3) s, s)
         else if arg_is sub ''forget'' \<and> argc = 3 then cluster_forget (argv ! 2) s
         else if arg_is sub ''replicate'' \<and> argc = 3 then cluster_replicate (argv ! 2) s
         else if (arg_is sub ''slaves'' \<or> arg_is sub ''replicas'') \<and> argc = 3 then cluster_slaves (argv ! 2) s
         else if arg_is sub ''count-failure-reports'' \<and> argc = 3
         then cluster_count_failure_reports (argv ! 2) s
         else if arg_is sub ''failover'' \<and> (argc = 2 \<or> argc = 3) then cluster_failover argv s
         else if arg_is sub ''set-config-epoch'' \<and> argc = 3 then Some (cluster_set_config_epoch (argv ! 2) s)
         else if arg_is sub ''reset'' \<and> (argc = 2 \<or> argc = 3) then cluster_reset argv db s
         else Some (ReplySubcommandSyntaxError (cstr sub), s))"

section \<open>Epochs\<close>

lemma pinged_mfstart: "pinged s (clusterSendMFStart n s)"
proof (cases "link (nd s n)")
  case (Some l)
  show ?thesis unfolding clusterSendMFStart_def Some option.case
    by (rule pinged_sent [OF sent_message]) (simp add: msgtype_defs)
qed (simp add: clusterSendMFStart_def pinged_refl)

lemmas keep_mfstart [simp] = pingedD(1-17) [OF pinged_mfstart]

lemma keeps_StartHandshake:
  "keeps s (snd (clusterStartHandshake a p cp s))" "epoch_view (snd (clusterStartHandshake a p cp s)) = epoch_view s"
proof -
  obtain n t where c: "(n, t) = createClusterNode None (CLUSTER_NODE_HANDSHAKE OR CLUSTER_NODE_MEET) s" by (metis surj_pair)
  note k = keeps_new_node [OF c, of "\<lambda>x. x\<lparr>ip := _, port := p, cport := cp\<rparr>"]
  show "keeps s (snd (clusterStartHandshake a p cp s))" "epoch_view (snd (clusterStartHandshake a p cp s)) = epoch_view s"
    unfolding clusterStartHandshake_def c [symmetric] Let_def using k by (auto split: option.split)
qed

lemma epoch_bump:
  assumes "currentEpoch s \<noteq> -1"
  shows "epoch_step s (snd (clusterBumpConfigEpochWithoutConsensus s))"
proof -
  define s1 where "s1 = s\<lparr>currentEpoch := currentEpoch s + 1\<rparr>"
  have "epoch_step s s1" using epoch_step_raise [OF epoch_incr [OF assms]] by (simp add: s1_def)
  then have "epoch_step s (clusterDoBeforeSleep fl (upd_node (myself s) f s1))" for f fl
    using epoch_step_view by simp
  then show ?thesis
    by (simp add: clusterBumpConfigEpochWithoutConsensus_def Let_def s1_def epoch_step_same)
qed

lemma epoch_clusterAddSlot: "clusterAddSlot n j s = (r, t) \<Longrightarrow> epoch_view t = epoch_view s"
  using epoch_slot_ops [of n j s] by simp

lemma epoch_addslots:
  assumes "cluster_addslots del as s = Some (r, t)" shows "epoch_view t = epoch_view s"
proof (cases "check_slots del s as (\<lambda>_. 0)")
  case (Inr seen)
  then obtain u where u: "for_each [0..<CLUSTER_SLOTS] (change_slot del seen) s = Some u" "epoch_view t = epoch_view u"
    using assms by (auto simp: cluster_addslots_def split: bind_splits)
  have "epoch_view u = epoch_view s"
  proof (rule for_each_keep [OF u(1)])
    fix j u v assume c: "change_slot del seen j u = Some v"
    define w where "w = (if importing_slots_from u j \<noteq> None
                 then u\<lparr>importing_slots_from := (importing_slots_from u)(j := None)\<rparr> else u)"
    have w: "epoch_view w = epoch_view u" by (simp add: w_def)
    show "epoch_view v = epoch_view u"
      using c w unfolding change_slot_def w_def [symmetric]
      by (auto dest: epoch_clusterDelSlot epoch_clusterAddSlot split: if_splits bind_splits prod.splits)
  qed
  then show ?thesis using u by simp
qed (use assms in \<open>simp add: cluster_addslots_def\<close>)

lemma epoch_setslot_node:
  assumes "setslot_node slot n s = Some (r, t)" "currentEpoch s \<noteq> -1"
  shows "epoch_step s t"
proof (cases "r = ReplyOK")
  case True
  define s1 where "s1 = (if countKeysInSlot s slot = 0 \<and> migrating_slots_to s slot \<noteq> None
                 then s\<lparr>migrating_slots_to := (migrating_slots_to s)(slot := None)\<rparr> else s)"
  define s2 where "s2 = (if n = myself s1 \<and> importing_slots_from s1 slot \<noteq> None
                 then let s = snd (clusterBumpConfigEpochWithoutConsensus s1)
                      in s\<lparr>importing_slots_from := (importing_slots_from s)(slot := None)\<rparr>
                 else s1)"
  have e1: "epoch_view s1 = epoch_view s" by (simp add: s1_def)
  then have "currentEpoch s1 \<noteq> -1" using assms(2) epoch_viewD [OF e1] by simp
  then have e2: "epoch_step s s2"
    using epoch_step_view [OF epoch_bump [of s1]] epoch_step_same by (intro epoch_step_keep [OF e1]) (simp add: s2_def Let_def)
  obtain q u where u: "clusterDelSlot slot s2 = Some (q, u)" "t = snd (clusterAddSlot n slot u)"
    using assms(1) True unfolding setslot_node_def s1_def [symmetric] Let_def s2_def [unfolded Let_def, symmetric]
    by (auto split: if_splits bind_splits)
  then have "epoch_view t = epoch_view s2" using epoch_clusterDelSlot by simp
  then show ?thesis using e2 epoch_step_view by blast
next
  case False
  then show ?thesis using assms(1) by (auto simp: setslot_node_def Let_def epoch_step_same split: if_splits bind_splits)
qed

lemma epoch_setslot:
  assumes "cluster_setslot argv s = Some (r, t)" "currentEpoch s \<noteq> -1"
  shows "epoch_step s t"
proof -
  have ok: "epoch_step s (clusterDoBeforeSleep fl u)" if "epoch_step s u" for u fl
    using that epoch_step_view by simp
  show ?thesis
    using assms unfolding cluster_setslot_def Let_def
    by (auto intro!: ok dest: epoch_setslot_node split: if_splits sum.splits bind_splits option.splits prod.splits
        simp: epoch_step_same)
qed

lemma epoch_reset_soft:
  assumes "clusterReset False s = Some t" shows "epoch_view t = epoch_view s"
proof -
  define s1 where "s1 = resetManualFailover (clusterCloseAllSlots (if nodeIsSlave (me s)
              then emptyDb (replicationUnsetMaster (clusterSetNodeAsMaster (myself s) s)) else s))"
  obtain u v where u: "for_each [0..<CLUSTER_SLOTS] (\<lambda>j s. map_option snd (clusterDelSlot j s)) s1 = Some u"
    and v: "for_each (nodes u) (\<lambda>(nm, node) s. if node = myself s then Some s else clusterDelNode node s) u = Some v"
    and t: "epoch_view t = epoch_view v"
    using assms unfolding clusterReset_def Let_def s1_def [symmetric] by (auto split: bind_splits)
  have "epoch_view s1 = epoch_view s" by (simp add: s1_def)
  moreover have "epoch_view u = epoch_view s1"
    by (rule for_each_keep [OF u]) (auto dest: epoch_clusterDelSlot)
  moreover have "epoch_view v = epoch_view u"
    by (rule for_each_keep [OF v]) (auto dest: epoch_clusterDelNode split: if_splits)
  ultimately show ?thesis using t by simp
qed

lemma epoch_failover:
  assumes "cluster_failover argv s = Some (r, t)" "currentEpoch s \<noteq> -1"
  shows "epoch_step s t"
proof -
  have e: "epoch_view (u\<lparr>mf_end := a\<rparr>) = epoch_view u" "epoch_view (u\<lparr>mf_can_start := b\<rparr>) = epoch_view u" for u a b
    by (simp_all add: view_defs)
  have c: "currentEpoch ((resetManualFailover s)\<lparr>mf_end := a\<rparr>) \<noteq> -1" for a
    using assms(2) epoch_viewD [OF keep_manual_failover(2) [of s]] by simp
  have take: "epoch_step s t" if "clusterFailoverReplaceYourMaster
      (snd (clusterBumpConfigEpochWithoutConsensus ((resetManualFailover s)\<lparr>mf_end := a\<rparr>))) = Some t" for a t
    using epoch_step_view [OF epoch_bump [OF c] keep_promotion(1) [OF that]]
    by (rule epoch_step_keep [rotated]) (simp add: e)
  show ?thesis
    using assms(1) unfolding cluster_failover_def Let_def
    by (auto simp: epoch_step_same e dest: take split: if_splits option.splits bind_splits)
qed

lemma epoch_set_config_epoch:
  assumes "cluster_set_config_epoch a s = (r, t)" shows "epoch_step s t"
proof -
  have raise: "epoch_step s (clusterDoBeforeSleep fl (u\<lparr>currentEpoch := e\<rparr>))"
    if "epoch_view u = epoch_view s" "currentEpoch s < e" for u e fl
    using that epoch_viewD [OF that(1)] epoch_step_view [OF epoch_step_keep [OF that(1) epoch_step_raise]] by simp
  have keep: "epoch_step s (clusterDoBeforeSleep fl u)" if "epoch_view u = epoch_view s" for u fl
    using epoch_step_view [OF epoch_step_same [OF that]] by simp
  show ?thesis using assms
    by (auto simp: cluster_set_config_epoch_def Let_def epoch_step_same raise keep split: sum.splits if_splits)
qed

text \<open>The hard reset is the one command that forgets the epochs.\<close>

definition hard_reset :: "bytes list \<Rightarrow> bool" where
  "hard_reset argv \<longleftrightarrow> length argv = 3 \<and> arg_is (argv ! 1) ''reset'' \<and> arg_is (argv ! 2) ''hard''"

text \<open>A test on the way to a result, when its failure does not matter.\<close>

lemma if_SomeE:
  "(if b then x else y) = Some p \<Longrightarrow> (b \<Longrightarrow> x = Some p \<Longrightarrow> P) \<Longrightarrow> (y = Some p \<Longrightarrow> P) \<Longrightarrow> P"
  by (simp split: if_splits)

text \<open>Which subcommand did the work.\<close>

lemma clusterCommand_cases:
  assumes "clusterCommand en w db argv s = Some (r, t)"
  obtains (same) "t = s" | (meet) "t = snd (cluster_meet argv s)" | (flush) "cluster_flushslots s = Some (r, t)"
  | (addslots) del where "cluster_addslots del (drop 2 argv) s = Some (r, t)"
  | (setslot) "arg_is (argv ! 1) ''setslot''" "length argv \<ge> 4" "cluster_setslot argv s = Some (r, t)"
  | (bump) "t = snd (cluster_bumpepoch s)" | (save) "t = snd (clusterSaveConfig w True s)"
  | (forget) "arg_is (argv ! 1) ''forget''" "length argv = 3" "cluster_forget (argv ! 2) s = Some (r, t)"
  | (replicate) "arg_is (argv ! 1) ''replicate''" "length argv = 3" "cluster_replicate (argv ! 2) s = Some (r, t)"
  | (reports) "cluster_count_failure_reports (argv ! 2) s = Some (r, t)"
  | (failover) "cluster_failover argv s = Some (r, t)"
  | (epoch) "t = snd (cluster_set_config_epoch (argv ! 2) s)"
  | (reset) "arg_is (argv ! 1) ''reset''" "cluster_reset argv db s = Some (r, t)"
proof -
  have slaves: "t = s" if "cluster_slaves a s = Some (r, t)" for a
    using that by (auto simp: cluster_slaves_def split: bind_splits option.splits if_splits)
  have eq: "t = snd p" if "Some p = Some (r, t)" for p using that by simp
  show ?thesis
    using assms unfolding clusterCommand_def Let_def case_prod_beta
    by (elim if_SomeE) (auto intro: that dest: slaves eq)
qed

lemma epoch_clusterCommand:
  assumes c: "clusterCommand en w db argv s = Some (r, t)" and ne: "currentEpoch s \<noteq> -1" and h: "\<not> hard_reset argv"
  shows "epoch_step s t"
proof -
  have start: "epoch_view (snd (cluster_meet argv s)) = epoch_view s"
    using keeps_StartHandshake(2) by (auto simp: cluster_meet_def Let_def case_prod_beta split: option.splits)
  have bump: "epoch_step s (snd (cluster_bumpepoch s))"
    using epoch_bump [OF ne] by (simp add: cluster_bumpepoch_def case_prod_beta)
  have save: "epoch_view (snd (clusterSaveConfig w True s)) = epoch_view s"
    by (simp add: clusterSaveConfig_def Let_def emit_def view_defs)
  have forget: "epoch_view t = epoch_view s" if "cluster_forget a s = Some (r, t)" for a r t
    using that by (auto simp: cluster_forget_def dest: epoch_clusterDelNode split: bind_splits option.splits if_splits)
  have replicate: "epoch_view t = epoch_view s" if "cluster_replicate a s = Some (r, t)" for a r t
    using that keep_SetMaster by (auto simp: cluster_replicate_def split: bind_splits option.splits if_splits)
  have reports: "epoch_view t = epoch_view s" if "cluster_count_failure_reports a s = Some (r, t)" for a r t
    using that by (auto simp: cluster_count_failure_reports_def case_prod_beta split: bind_splits option.splits)
  have flush: "epoch_view t = epoch_view s" if "cluster_flushslots s = Some (r, t)" for r t
    using that by (auto simp: cluster_flushslots_def dest: epoch_clusterDelNodeSlots split: bind_splits if_splits)
  have reset: "epoch_view t = epoch_view s" if "cluster_reset argv db s = Some (r, t)" "arg_is (argv ! 1) ''reset''" for r t
    using that h by (auto simp: cluster_reset_def hard_reset_def dest: epoch_reset_soft split: bind_splits if_splits)
  note epoch_step_same [intro]
  show ?thesis using c
  proof (cases rule: clusterCommand_cases)
    case epoch
    then show ?thesis using epoch_set_config_epoch by (metis prod.collapse)
  qed (use ne bump save start forget replicate reports flush reset epoch_addslots epoch_setslot epoch_failover
        in \<open>simp_all add: epoch_step_same\<close>)
qed

section \<open>Commands keep a node consistent\<close>

lemma me_ok_slots:
  assumes ok: "me_ok s" and i: "slot_inv t" and f: "slot_frame t = slot_frame s"
    and m: "nodeIsMaster (me s) \<or> (\<forall>j < CLUSTER_SLOTS. slots t j \<noteq> Some (myself s))"
  shows "me_ok t"
proof -
  have inv: "cluster_inv t" by (rule cluster_inv_slots(1) [OF me_okD(1) [OF ok] i f])
  have r: "role_of (heap t a) = role_of (heap s a)" for a by (rule slot_frame_role [OF f])
  then have r': "nodeIsMaster (heap t a) = nodeIsMaster (heap s a)" "nodeIsSlave (heap t a) = nodeIsSlave (heap s a)"
    "bit (flags (heap t a)) 4 = bit (flags (heap s a)) 4" for a
    using r [of a] by (simp_all add: role_of_def)
  note n = slot_frame_node(3,4) [OF f] slot_frame_server(2,10) [OF f]
  have "numslots (me t) = 0" if "\<not> nodeIsMaster (me s)"
  proof -
    have none: "{j. j < CLUSTER_SLOTS \<and> slots t j = Some (myself t)} = {}" using m that n(3) by auto
    show ?thesis using slot_inv_numslots [OF i cluster_invD(4) [OF inv]] unfolding none by simp
  qed
  then show ?thesis using ok inv r' n by (auto simp: me_ok_def)
qed

lemma role_slaves [simp]:
  "role_of (heap (snd (clusterNodeRemoveSlave m n s)) a) = role_of (heap s a)"
  "role_of (heap (snd (clusterNodeAddSlave m n s)) a) = role_of (heap s a)"
  by (auto simp: clusterNodeRemoveSlave_def clusterNodeAddSlave_def Let_def upd_node_def role_of_def
      node_flag_bits flag_defs flag_simps)

lemma role_SetNodeAsMaster:
  "role_of (heap (clusterSetNodeAsMaster n s) a) =
     (if a = n \<and> \<not> nodeIsMaster (nd s n) then (True, False, bit (flags (nd s n)) 4) else role_of (heap s a))"
proof -
  define s1 where "s1 = (case slaveof (nd s n) of None \<Rightarrow> s
                 | Some m \<Rightarrow>
                     let s = snd (clusterNodeRemoveSlave m n s)
                     in if n \<noteq> myself s
                        then upd_node n (\<lambda>x. x\<lparr>flags := flags x OR CLUSTER_NODE_MIGRATE_TO\<rparr>) s else s)"
  have mig: "role_of (x\<lparr>flags := flags x OR CLUSTER_NODE_MIGRATE_TO\<rparr>) = role_of x" for x
    by (simp add: role_of_def node_flag_bits flag_defs flag_simps)
  have r: "role_of (heap s1 a) = role_of (heap s a)" for a
    by (auto simp: s1_def Let_def mig upd_node_def split: option.split)
  have m: "role_of (x\<lparr>flags := (flags x AND NOT CLUSTER_NODE_SLAVE) OR CLUSTER_NODE_MASTER\<rparr>) =
      (True, False, bit (flags x) 4)" for x
    by (simp add: role_of_def node_flag_bits flag_defs flag_simps)
  have "bit (flags (heap s1 a)) 4 = bit (flags (heap s a)) 4" for a using r [of a] by (simp add: role_of_def)
  then show ?thesis
    unfolding clusterSetNodeAsMaster_def Let_def s1_def [unfolded Let_def, symmetric]
    by (auto simp: r m clusterDoBeforeSleep_def upd_node_def)
qed

lemma role_SetMaster:
  assumes "clusterSetMaster n s = Some t"
  shows "role_of (heap t a) =
     (if a = myself s \<and> nodeIsMaster (me s) then (False, True, bit (flags (me s)) 4) else role_of (heap s a))"
proof -
  define s1 where "s1 = (if nodeIsMaster (me s)
              then clusterCloseAllSlots
                     (upd_node (myself s)
                        (\<lambda>x. x\<lparr>flags := (flags x AND NOT (CLUSTER_NODE_MASTER OR CLUSTER_NODE_MIGRATE_TO))
                                          OR CLUSTER_NODE_SLAVE\<rparr>) s)
              else (case slaveof (me s) of
                      Some m \<Rightarrow> snd (clusterNodeRemoveSlave m (myself s) s)
                    | None \<Rightarrow> s))"
  have m: "role_of (x\<lparr>flags := (flags x AND NOT (CLUSTER_NODE_MASTER OR CLUSTER_NODE_MIGRATE_TO)) OR CLUSTER_NODE_SLAVE\<rparr>) =
      (False, True, bit (flags x) 4)" for x
    by (simp add: role_of_def node_flag_bits flag_defs flag_simps)
  have "role_of (heap s1 a) =
     (if a = myself s \<and> nodeIsMaster (me s) then (False, True, bit (flags (me s)) 4) else role_of (heap s a))"
    by (auto simp: s1_def m [simplified] upd_node_def split: option.split)
  moreover have "role_of (heap t a) = role_of (heap s1 a)"
    using assms unfolding clusterSetMaster_def Let_def s1_def [symmetric] by (auto simp: upd_node_def split: if_splits)
  ultimately show ?thesis by simp
qed

lemma me_ok_SetMaster:
  assumes ok: "me_ok s" and n: "n \<in> live s" "n \<noteq> myself s" "numslots (me s) = 0"
  shows "\<exists>t. clusterSetMaster n s = Some t \<and> me_ok t"
proof -
  obtain t where t: "clusterSetMaster n s = Some t" "slaveof (me t) = Some n" "myself s \<in> set (slaves (nd t n))"
    using clusterSetMaster_Some [OF n(2,3)] by blast
  note v = keep_SetMaster [OF t(1)]
  have i: "cluster_inv t" "live t = live s" "myself t = myself s"
    using cluster_inv_cong [OF v(1)] inv_view_live [OF v(1)] inv_view_nodes [OF v(1)] me_okD(1) [OF ok] by simp_all
  have r: "role_of (me t) = (False, True, True)"
    using role_SetMaster [OF t(1), of "myself s"] me_okD(3,5) [OF ok] i(3) by (auto simp: role_of_def)
  have "numslots (heap t a) = numslots (heap s a)" for a
    using v(1) by (auto simp: inv_view_def slot_view_def dest: fun_cong [of _ _ a])
  then have "me_ok t" using i r t n by (simp add: me_ok_def role_of_def)
  then show ?thesis using t(1) by blast
qed

lemma role_promotion:
  assumes "clusterFailoverReplaceYourMaster s = Some t" "slaveof (me s) = Some m" "\<not> nodeIsMaster (me s)"
  shows "role_of (heap t a) = (if a = myself s then (True, False, bit (flags (me s)) 4) else role_of (heap s a))"
proof -
  have claim: "slot_frame v = slot_frame u" if "failover_claim_slot m j u = Some v" for m j u v
    using that slot_ops_frame by (fastforce simp: failover_claim_slot_def split: if_splits bind_splits)
  obtain u where u: "for_each [0..<CLUSTER_SLOTS] (failover_claim_slot m)
         (replicationUnsetMaster (clusterSetNodeAsMaster (myself s) s)) = Some u"
      "t = resetManualFailover (clusterBroadcastPong CLUSTER_BROADCAST_ALL
             (clusterSaveConfigOrDie True (clusterUpdateState u)))"
    using assms by (auto simp: clusterFailoverReplaceYourMaster_def split: bind_splits)
  have "slot_frame u = slot_frame (replicationUnsetMaster (clusterSetNodeAsMaster (myself s) s))"
    using for_each_keep [OF u(1), of slot_frame] claim by blast
  then have "role_of (heap u a) = role_of (heap (clusterSetNodeAsMaster (myself s) s) a)"
    using slot_frame_role [of u] by simp
  moreover have "link_view (clusterBroadcastPong k v) = link_view v" for k v
    by (rule link_view_pinged [OF pinged_broadcastPong])
  then have "role_of (heap (clusterBroadcastPong k v) a) = role_of (heap v a)" for k v
    by (auto simp: link_view_def dest: fun_cong [of _ _ a])
  ultimately show ?thesis using assms(3) by (simp add: u(2) role_SetNodeAsMaster)
qed

lemma me_ok_promotion:
  assumes ok: "me_ok s" and m: "slaveof (me s) = Some m"
  shows "\<exists>t. clusterFailoverReplaceYourMaster s = Some t \<and> me_ok t"
proof -
  have lm: "m \<in> live s" "m \<noteq> myself s" "\<not> nodeIsMaster (me s)" using ok m by (auto simp: me_ok_def)
  obtain t where t: "clusterFailoverReplaceYourMaster s = Some t" "cluster_inv t" "epoch_view t = epoch_view s"
    "slaveof (me t) = None"
    using clusterFailoverReplaceYourMaster_effect [OF me_okD(1) [OF ok] m lm] by blast
  have "role_of (me t) = (True, False, True)"
    using role_promotion [OF t(1) m lm(3), of "myself s"] me_okD(3) [OF ok] epoch_viewD [OF t(3)] by simp
  then have "me_ok t" using t by (simp add: me_ok_def role_of_def)
  then show ?thesis using t(1) by blast
qed

lemma me_ok_SetNodeAsMaster:
  assumes ok: "me_ok s" shows "me_ok (clusterSetNodeAsMaster (myself s) s)"
proof (cases "nodeIsMaster (me s)")
  case False
  let ?t = "clusterSetNodeAsMaster (myself s) s"
  have v: "inv_view ?t = inv_view s" by simp
  have i: "cluster_inv ?t" "myself ?t = myself s"
    using cluster_inv_cong [OF v] inv_view_nodes [OF v] me_okD(1) [OF ok] by simp_all
  have "role_of (me ?t) = (True, False, True)"
    using False me_okD(3) [OF ok] i(2) by (simp add: role_SetNodeAsMaster)
  moreover have "slaveof (me ?t) = None" using clusterSetNodeAsMaster_effect(3) [OF False] i(2) by simp
  ultimately show ?thesis using i by (simp add: me_ok_def role_of_def)
qed (simp add: clusterSetNodeAsMaster_def ok)

lemma me_ok_forget_nodes:
  assumes "me_ok s" "snd ` set ns \<subseteq> live s" "distinct (map snd ns)"
  shows "\<exists>t. for_each ns (\<lambda>(nm, node) s. if node = myself s then Some s else clusterDelNode node s) s = Some t \<and> me_ok t \<and>
     myself t = myself s \<and> role_of (me t) = role_of (me s)"
  using assms
proof (induction ns arbitrary: s)
  case (Cons p ns)
  obtain nm node where p: "p = (nm, node)" by force
  show ?case
  proof (cases "node = myself s")
    case True
    then show ?thesis using Cons p by simp
  next
    case False
    with Cons.prems p obtain t where t: "clusterDelNode node s = Some t" "me_ok t" "live t = live s - {node}"
      "myself t = myself s"
      using me_ok_DelNode [OF Cons.prems(1), of node] by auto
    have "snd ` set ns \<subseteq> live t" using Cons.prems p t(3) by force
    then obtain u where u: "for_each ns (\<lambda>(nm, node) s. if node = myself s then Some s else clusterDelNode node s) t = Some u"
      "me_ok u" "myself u = myself t" "role_of (me u) = role_of (me t)"
      using Cons.IH [OF t(2)] Cons.prems(3) p by auto
    then show ?thesis using t(1,4) False p clusterDelNode_role [OF t(1), of "myself s"] by simp
  qed
qed simp

lemma me_ok_reset:
  assumes ok: "me_ok s"
  shows "\<exists>t. clusterReset hard s = Some t \<and> me_ok t"
proof -
  define s0 where "s0 = (if nodeIsSlave (me s)
              then emptyDb (replicationUnsetMaster (clusterSetNodeAsMaster (myself s) s)) else s)"
  define s1 where "s1 = resetManualFailover (clusterCloseAllSlots s0)"
  have "me_ok s0"
    using me_ok_keep [OF _ _ me_ok_SetNodeAsMaster [OF ok], of s0] ok by (auto simp: s0_def link_view_def)
  moreover have m0: "nodeIsMaster (me s0)"
    using me_okD(5) [OF ok] clusterSetNodeAsMaster_effect(1) [of "myself s" s] inv_view_nodes [OF keep_SetNodeAsMaster(1)]
    by (auto simp: s0_def)
  ultimately have ok1: "me_ok s1" "nodeIsMaster (me s1)"
    using me_ok_keep [of s1 s0] by (simp_all add: s1_def link_view_def)
  obtain u where u: "for_each [0..<CLUSTER_SLOTS] (\<lambda>j s. map_option snd (clusterDelSlot j s)) s1 = Some u"
    "cluster_inv u" "slot_frame u = slot_frame s1"
    using clear_slots [OF me_okD(1) [OF ok1(1)], of CLUSTER_SLOTS] by auto
  have oku: "me_ok u" by (rule me_ok_slots [OF ok1(1) cluster_invD(1) [OF u(2)] u(3)]) (simp add: ok1(2))
  have "snd ` set (nodes u) \<subseteq> live u" by (simp add: live_def)
  then obtain v where v: "for_each (nodes u) (\<lambda>(nm, node) s. if node = myself s then Some s else clusterDelNode node s) u = Some v"
    "me_ok v" "myself v = myself u" "role_of (me v) = role_of (me u)" using me_ok_forget_nodes [OF oku _ nodes_distinct [OF cluster_invD(2) [OF u(2)]]] by blast
  obtain t where t: "clusterReset hard s = Some t" "cluster_inv t" "live t = {myself s}" "myself t = myself s"
    using clusterReset_effect [OF me_okD(1) [OF ok]] by blast
  have my: "myself u = myself s1" using slot_frame_server(2) [OF u(3)] .
  have role: "role_of (me v) = (True, False, True)" "slaveof (me v) = None"
    using slot_frame_role [OF u(3), of "myself u"] ok1 v(2,4) me_okD(3,5) [OF v(2)] my
    by (auto simp: me_ok_def role_of_def split: option.splits)
  have "me t = me v \<or> (\<exists>e nm. me t = (me v)\<lparr>configEpoch := e, name := nm\<rparr>)"
  proof (cases hard)
    case True
    have add: "heap (snd (clusterAddNode n x)) = heap x" "myself (snd (clusterAddNode n x)) = myself x" for n x
      by (simp_all add: clusterAddNode_def split: option.split)
    show ?thesis
      using t(1) True u(1) v(1) unfolding clusterReset_def Let_def s0_def [symmetric] s1_def [symmetric]
      by (intro disjI2 exI [of _ 0] exI [of _ "random_hex v (random_pos v)"])
        (auto simp: clusterDoBeforeSleep_def add upd_node_def)
  next
    case False
    then show ?thesis
      using t(1) u(1) v(1) unfolding clusterReset_def Let_def s0_def [symmetric] s1_def [symmetric]
      by (auto simp: clusterDoBeforeSleep_def)
  qed
  then have "role_of (me t) = role_of (me v)" "slaveof (me t) = slaveof (me v)"
    by (auto simp: role_of_def node_flag_defs)
  then have "me_ok t" using t role by (simp add: me_ok_def role_of_def)
  then show ?thesis using t(1) by blast
qed

section \<open>Every command returns\<close>

lemma me_ok_cong: "inv_view t = inv_view s \<Longrightarrow> link_view t = link_view s \<Longrightarrow> me_ok t = me_ok s"
  using me_ok_keep [of s t] me_ok_keep [of t s] by auto

text \<open>Changing what the consistency of the node does not read.\<close>

lemma me_ok_fields [simp]:
  "me_ok (clusterDoBeforeSleep fl s) = me_ok s"
  "me_ok (s\<lparr>migrating_slots_to := f\<rparr>) = me_ok s" "me_ok (s\<lparr>importing_slots_from := f\<rparr>) = me_ok s"
  "me_ok (s\<lparr>mf_end := a\<rparr>) = me_ok s" "me_ok (s\<lparr>mf_can_start := b\<rparr>) = me_ok s"
  "me_ok (s\<lparr>currentEpoch := e\<rparr>) = me_ok s" "me_ok (upd_node n (\<lambda>x. x\<lparr>configEpoch := e\<rparr>) s) = me_ok s"
  "me_ok (resetManualFailover s) = me_ok s" "me_ok (clusterSendMFStart n s) = me_ok s"
  "me_ok (clusterBlacklistAddNode n s) = me_ok s"
proof -
  have c: "role_of (x\<lparr>configEpoch := e\<rparr>) = role_of x" for x e by (simp add: role_of_def node_flag_defs)
  have b: "heap (clusterBlacklistAddNode n s) = heap s" "myself (clusterBlacklistAddNode n s) = myself s" for n s
    by (simp_all add: clusterBlacklistAddNode_def clusterBlacklistCleanup_def Let_def)
  show "me_ok (upd_node n (\<lambda>x. x\<lparr>configEpoch := e\<rparr>) s) = me_ok s"
    by (rule me_ok_cong) (simp_all add: upd_node_inv_view link_view_upd c)
  show "me_ok (resetManualFailover s) = me_ok s"
    by (rule me_ok_cong) (simp_all add: link_view_def)
  show "me_ok (clusterSendMFStart n s) = me_ok s"
    by (rule me_ok_cong [OF _ link_view_pinged [OF pinged_mfstart]]) simp
  show "me_ok (clusterBlacklistAddNode n s) = me_ok s"
    by (rule me_ok_cong) (simp_all add: link_view_def b)
qed (rule me_ok_cong; simp add: inv_view_def view_defs link_view_def clusterDoBeforeSleep_def; fail)+

lemma me_ok_extend:
  assumes ok: "me_ok s" and t: "cluster_inv t" "live s \<subseteq> live t" "myself t = myself s"
    and h: "\<And>b. b \<in> live s \<Longrightarrow> role_of (heap t b) = role_of (heap s b) \<and> slaveof (heap t b) = slaveof (heap s b) \<and>
       slaves (heap t b) = slaves (heap s b) \<and> numslots (heap t b) = numslots (heap s b)"
  shows "me_ok t"
proof -
  have my: "myself s \<in> live s" using cluster_invD(4) [OF me_okD(1) [OF ok]] .
  have "nodeIsMaster (me t) = nodeIsMaster (me s)" "nodeIsSlave (me t) = nodeIsSlave (me s)"
    "bit (flags (me t)) 4 = bit (flags (me s)) 4"
    using h [OF my] t(3) by (simp_all add: role_of_def)
  then show ?thesis using ok t h my by (auto simp: me_ok_def)
qed

lemma me_ok_FailureReportsCount:
  assumes "me_ok s" shows "me_ok (snd (clusterNodeFailureReportsCount n s))"
proof (rule me_ok_extend [OF assms])
  show "cluster_inv (snd (clusterNodeFailureReportsCount n s))"
    using me_okD(1) [OF assms] by (rule keep_reports)
qed (auto simp: clusterNodeFailureReportsCount_def clusterNodeCleanupFailureReports_def Let_def upd_node_def live_def)

lemma me_ok_StartHandshake:
  assumes "me_ok s" shows "me_ok (snd (clusterStartHandshake a p cp s))"
proof (rule me_ok_extend [OF assms])
  have k: "cluster_inv (snd (clusterStartHandshake a p cp s))" "live s \<subseteq> live (snd (clusterStartHandshake a p cp s))"
    using keeps_StartHandshake(1) [of s a p cp] me_okD(1) [OF assms] by (simp_all add: keeps_def)
  then show "cluster_inv (snd (clusterStartHandshake a p cp s))" "live s \<subseteq> live (snd (clusterStartHandshake a p cp s))" .
  show "myself (snd (clusterStartHandshake a p cp s)) = myself s"
    using epoch_viewD [OF keeps_StartHandshake(2)] by simp
  fix b assume "b \<in> live s"
  then have "b < next_addr s" using cluster_invD(2) [OF me_okD(1) [OF assms]] by (simp add: names_inv_def)
  then have "heap (snd (clusterStartHandshake a p cp s)) b = heap s b"
    by (auto simp: clusterStartHandshake_def createClusterNode_def clusterAddNode_def upd_node_def Let_def
        split: option.split)
  then show "role_of (heap (snd (clusterStartHandshake a p cp s)) b) = role_of (heap s b) \<and>
     slaveof (heap (snd (clusterStartHandshake a p cp s)) b) = slaveof (heap s b) \<and>
     slaves (heap (snd (clusterStartHandshake a p cp s)) b) = slaves (heap s b) \<and>
     numslots (heap (snd (clusterStartHandshake a p cp s)) b) = numslots (heap s b)" by simp
qed

lemma me_ok_bump: "me_ok s \<Longrightarrow> me_ok (snd (clusterBumpConfigEpochWithoutConsensus s))"
  by (simp add: clusterBumpConfigEpochWithoutConsensus_def Let_def)

lemma lookup_arg_live: "lookup_arg a s = Some (Some n) \<Longrightarrow> n \<in> live s"
  by (force simp: lookup_arg_def clusterLookupNode_def dictFind_def live_def split: if_splits dest!: map_of_SomeD)

lemma getSlotOrReply_less: "getSlotOrReply a = Inr j \<Longrightarrow> j < CLUSTER_SLOTS"
  by (auto simp: getSlotOrReply_def split: option.splits if_splits)

text \<open>What the checks of ADDSLOTS and DELSLOTS establish.\<close>

definition slots_ok :: "bool \<Rightarrow> server \<Rightarrow> bytes list \<Rightarrow> nat list \<Rightarrow> bool" where
  "slots_ok del s as js \<longleftrightarrow>
     map getSlotOrReply as = map Inr js \<and> distinct js \<and> (\<forall>j \<in> set js. (slots s j \<noteq> None) = del)"

lemma check_slots_Inr:
  assumes "check_slots del s as seen = Inr seen'" "\<forall>j. seen j \<le> 1"
  shows "\<exists>js. slots_ok del s as js \<and> (\<forall>j \<in> set js. seen j = 0) \<and> seen' = (\<lambda>j. if j \<in> set js then 1 else seen j)"
  using assms
proof (induction as arbitrary: seen)
  case Nil
  then show ?case by (intro exI [of _ "[]"]) (simp add: slots_ok_def)
next
  case (Cons a as)
  then obtain j where j: "getSlotOrReply a = Inr j" "(slots s j \<noteq> None) = del" "seen j \<noteq> 1"
    "check_slots del s as (seen(j := seen j + 1)) = Inr seen'"
    by (auto split: sum.splits if_splits)
  then have z: "seen j = 0" using Cons.prems(2) by (metis le_antisym less_one not_le)
  have le: "\<forall>i. (seen(j := seen j + 1)) i \<le> 1" using Cons.prems(2) z by simp
  obtain js where js: "slots_ok del s as js" "\<forall>i \<in> set js. (seen(j := seen j + 1)) i = 0"
    "seen' = (\<lambda>i. if i \<in> set js then 1 else (seen(j := seen j + 1)) i)"
    using Cons.IH [OF j(4) le] by blast
  then have nj: "j \<notin> set js" by auto
  show ?case
  proof (intro exI conjI)
    show "slots_ok del s (a # as) (j # js)" using js(1) j nj by (auto simp: slots_ok_def)
    show "\<forall>i \<in> set (j # js). seen i = 0" using js(2) nj z by (auto split: if_splits)
    show "seen' = (\<lambda>i. if i \<in> set (j # js) then 1 else seen i)" using js(3) nj z by (auto simp: fun_eq_iff)
  qed
qed

lemma check_slots_error: "check_slots del s as seen = Inl r \<Longrightarrow> r \<noteq> ReplyOK"
  by (induction as arbitrary: seen)
    (auto simp: getSlotOrReply_def split: sum.splits if_splits option.splits)

lemma check_slots_complete:
  assumes "slots_ok del s as js" "\<forall>j \<in> set js. seen j = 0"
  shows "\<exists>seen'. check_slots del s as seen = Inr seen'"
  using assms
proof (induction as arbitrary: js seen)
  case (Cons a as)
  then obtain j js' where js: "js = j # js'" by (cases js) (auto simp: slots_ok_def)
  then have a: "slots_ok del s as js'" "getSlotOrReply a = Inr j" "seen j = 0" "(slots s j \<noteq> None) = del"
    and z: "\<forall>i \<in> set js'. (seen(j := seen j + 1)) i = 0"
    using Cons.prems by (auto simp: slots_ok_def)
  then obtain seen' where "check_slots del s as (seen(j := seen j + 1)) = Inr seen'" using Cons.IH [OF a(1) z] by blast
  then show ?case using a by (auto simp del: fun_upd_apply)
qed simp

lemma slot_frame_importing:
  assumes "slot_frame t = slot_frame s"
  shows "slot_frame (t\<lparr>importing_slots_from := f\<rparr>) = slot_frame (s\<lparr>importing_slots_from := f\<rparr>)"
proof -
  have "slot_frame (t\<lparr>importing_slots_from := f\<rparr>) = (slot_frame t)\<lparr>importing_slots_from := f\<rparr>" for t
    by (simp add: slot_frame_def)
  then show ?thesis using assms by simp
qed

lemma change_slot_effect:
  assumes inv: "slot_inv s" and j: "j < CLUSTER_SLOTS" "j \<in> js" "(slots s j \<noteq> None) = del" and me: "myself s \<in> live s"
  shows "\<exists>t. change_slot del (\<lambda>j. if j \<in> js then 1 else 0) j s = Some t \<and> slot_inv t \<and>
     slot_frame t = slot_frame (s\<lparr>importing_slots_from := (importing_slots_from s)(j := None)\<rparr>) \<and>
     slots t = (slots s)(j := if del then None else Some (myself s))"
proof -
  define w where "w = s\<lparr>importing_slots_from := (importing_slots_from s)(j := None)\<rparr>"
  have w: "(if importing_slots_from s j \<noteq> None then s\<lparr>importing_slots_from := (importing_slots_from s)(j := None)\<rparr> else s) = w"
    by (auto simp: w_def fun_upd_idem)
  have iw: "slot_inv w" "slots w = slots s" "live w = live s" "myself w = myself s"
    using inv slot_inv_cong [of w s] by (simp_all add: w_def slot_view_def live_def)
  show ?thesis
  proof (cases del)
    case True
    obtain r t where t: "clusterDelSlot j w = Some (r, t)" "(r = C_OK) = (slots w j \<noteq> None)" "slot_inv t"
      "slots t = (slots w)(j := None)" "slot_frame t = slot_frame w"
      using clusterDelSlot_effect [OF iw(1) j(1)] by blast
    then show ?thesis using True j iw unfolding change_slot_def w by (simp add: w_def)
  next
    case False
    obtain t where t: "clusterAddSlot (myself w) j w = (C_OK, t)" "slot_inv t" "slots t = (slots w)(j \<mapsto> myself w)"
      "slot_frame t = slot_frame w"
      using clusterAddSlot_free [OF iw(1) j(1), of "myself w"] False j(3) me iw by auto
    then show ?thesis using False j iw unfolding change_slot_def w by (simp add: w_def)
  qed
qed

lemma change_slots_loop:
  assumes inv: "slot_inv s" and js: "\<forall>j \<in> js. (slots s j \<noteq> None) = del" and me: "myself s \<in> live s" and n: "n \<le> CLUSTER_SLOTS"
  shows "\<exists>t. for_each [0..<n] (change_slot del (\<lambda>j. if j \<in> js then 1 else 0)) s = Some t \<and> slot_inv t \<and>
     slot_frame t = slot_frame (s\<lparr>importing_slots_from := (\<lambda>j. if j < n \<and> j \<in> js then None else importing_slots_from s j)\<rparr>) \<and>
     slots t = (\<lambda>j. if j < n \<and> j \<in> js then if del then None else Some (myself s) else slots s j)"
  using n
proof (induction n)
  case 0
  then show ?case using inv by simp
next
  case (Suc n)
  let ?imp = "\<lambda>n j. if j < n \<and> j \<in> js then None else importing_slots_from s j"
  obtain t where t: "for_each [0..<n] (change_slot del (\<lambda>j. if j \<in> js then 1 else 0)) s = Some t" "slot_inv t"
    "slot_frame t = slot_frame (s\<lparr>importing_slots_from := ?imp n\<rparr>)"
    "slots t = (\<lambda>j. if j < n \<and> j \<in> js then if del then None else Some (myself s) else slots s j)"
    using Suc by auto
  note f = slot_frame_server [OF t(3)]
  show ?case
  proof (cases "n \<in> js")
    case True
    obtain u where u: "change_slot del (\<lambda>j. if j \<in> js then 1 else 0) n t = Some u" "slot_inv u"
      "slot_frame u = slot_frame (t\<lparr>importing_slots_from := (importing_slots_from t)(n := None)\<rparr>)"
      "slots u = (slots t)(n := if del then None else Some (myself t))"
      using change_slot_effect [OF t(2) _ True, of del] Suc.prems js True me f t(4) by (auto simp: live_def)
    have "(importing_slots_from t)(n := None) = ?imp (Suc n)" using f(5) True by (auto simp: less_Suc_eq fun_eq_iff)
    then have "slot_frame u = slot_frame (s\<lparr>importing_slots_from := ?imp (Suc n)\<rparr>)"
      using u(3) slot_frame_importing [OF t(3), of "?imp (Suc n)"] by simp
    moreover have "slots u = (\<lambda>j. if j < Suc n \<and> j \<in> js then if del then None else Some (myself s) else slots s j)"
      using u(4) t(4) f(2) True by (auto simp: fun_eq_iff less_Suc_eq)
    ultimately show ?thesis using t(1) u(1,2) by (simp add: for_each_append)
  next
    case False
    then have "(\<lambda>j. if j < Suc n \<and> j \<in> js then a else b j) = (\<lambda>j. if j < n \<and> j \<in> js then a else b j)" for a :: "naddr option" and b
      by (auto simp: fun_eq_iff less_Suc_eq)
    moreover have "change_slot del (\<lambda>j. if j \<in> js then 1 else 0) n t = Some t" using False by (simp add: change_slot_def)
    ultimately show ?thesis using t by (simp add: for_each_append)
  qed
qed

lemma cluster_addslots_effect:
  assumes inv: "cluster_inv s"
  shows "\<exists>r t. cluster_addslots del as s = Some (r, t) \<and>
     (r = ReplyOK \<and> cluster_inv t \<and> (\<exists>js. slots_ok del s as js \<and>
        (\<exists>u. t = clusterDoBeforeSleep (CLUSTER_TODO_UPDATE_STATE OR CLUSTER_TODO_SAVE_CONFIG) u \<and> slot_inv u \<and>
          slot_frame u = slot_frame (s\<lparr>importing_slots_from := (\<lambda>j. if j \<in> set js then None else importing_slots_from s j)\<rparr>)) \<and>
        slots t = (\<lambda>j. if j \<in> set js then if del then None else Some (myself s) else slots s j)) \<or>
      r \<noteq> ReplyOK \<and> t = s \<and> (\<nexists>js. slots_ok del s as js))"
proof (cases "check_slots del s as (\<lambda>_. 0)")
  case (Inl r)
  then have "\<nexists>js. slots_ok del s as js" using check_slots_complete [of del s as _ "\<lambda>_. 0"] by auto
  moreover have "r \<noteq> ReplyOK" using check_slots_error [OF Inl] .
  ultimately show ?thesis using Inl by (simp add: cluster_addslots_def)
next
  case (Inr seen)
  then obtain js where js: "slots_ok del s as js" "seen = (\<lambda>j. if j \<in> set js then 1 else 0)"
    using check_slots_Inr [of del s as "\<lambda>_. 0" seen] by auto
  have lt: "j < CLUSTER_SLOTS" if "j \<in> set js" for j
  proof -
    have "Inr j \<in> set (map getSlotOrReply as)" using that js(1) by (auto simp: slots_ok_def)
    then show ?thesis using getSlotOrReply_less by auto
  qed
  have lt': "j < CLUSTER_SLOTS \<and> j \<in> set js \<longleftrightarrow> j \<in> set js" for j using lt by auto
  obtain u where u: "for_each [0..<CLUSTER_SLOTS] (change_slot del seen) s = Some u" "slot_inv u"
     "slot_frame u = slot_frame (s\<lparr>importing_slots_from := (\<lambda>j. if j \<in> set js then None else importing_slots_from s j)\<rparr>)"
     "slots u = (\<lambda>j. if j \<in> set js then if del then None else Some (myself s) else slots s j)"
    using change_slots_loop [OF cluster_invD(1) [OF inv], of "set js" del CLUSTER_SLOTS] js cluster_invD(4) [OF inv]
    unfolding lt' by (auto simp: slots_ok_def)
  have "cluster_inv (s\<lparr>importing_slots_from := f\<rparr>)" for f
    using inv cluster_inv_cong [of "s\<lparr>importing_slots_from := f\<rparr>" s] by (simp add: inv_view_def view_defs)
  then have "cluster_inv u" using cluster_inv_slots(1) [OF _ u(2,3)] by blast
  then have "cluster_inv (clusterDoBeforeSleep fl u)" for fl using cluster_inv_cong [OF keep_simple(1)] by simp
  then show ?thesis using Inr js(1) u by (auto simp: cluster_addslots_def)
qed

text \<open>The arguments that name a node have room for a name.\<close>

definition node_args_ok :: "bytes list \<Rightarrow> bool" where
  "node_args_ok argv \<longleftrightarrow>
     (length argv = 3 \<and>
        (arg_is (argv ! 1) ''forget'' \<or> arg_is (argv ! 1) ''replicate'' \<or> arg_is (argv ! 1) ''slaves'' \<or>
         arg_is (argv ! 1) ''replicas'' \<or> arg_is (argv ! 1) ''count-failure-reports'') \<longrightarrow>
      CLUSTER_NAMELEN \<le> length (argv ! 2) + 1) \<and>
     (length argv = 5 \<and> arg_is (argv ! 1) ''setslot'' \<longrightarrow> CLUSTER_NAMELEN \<le> length (argv ! 4) + 1)"

lemma lookup_arg_Some: "CLUSTER_NAMELEN \<le> length a + 1 \<Longrightarrow> \<exists>n. lookup_arg a s = Some n"
  by (simp add: lookup_arg_def)

lemma me_ok_addslots:
  assumes ok: "me_ok s"
  shows "\<exists>r t. cluster_addslots del as s = Some (r, t) \<and> cluster_inv t \<and> (del \<or> nodeIsMaster (me s) \<longrightarrow> me_ok t)"
proof -
  obtain r t where t: "cluster_addslots del as s = Some (r, t)" and e: "t = s \<or>
     (\<exists>js u. cluster_inv t \<and> slots_ok del s as js \<and> t = clusterDoBeforeSleep (CLUSTER_TODO_UPDATE_STATE OR CLUSTER_TODO_SAVE_CONFIG) u \<and> slot_inv u \<and>
          slot_frame u = slot_frame (s\<lparr>importing_slots_from := (\<lambda>j. if j \<in> set js then None else importing_slots_from s j)\<rparr>) \<and>
        slots t = (\<lambda>j. if j \<in> set js then if del then None else Some (myself s) else slots s j))"
    using cluster_addslots_effect [OF me_okD(1) [OF ok], of del as] by blast
  have "me_ok t" if m: "del \<or> nodeIsMaster (me s)" "t \<noteq> s"
  proof -
    obtain js u where u: "t = clusterDoBeforeSleep (CLUSTER_TODO_UPDATE_STATE OR CLUSTER_TODO_SAVE_CONFIG) u" "slot_inv u"
      "slot_frame u = slot_frame (s\<lparr>importing_slots_from := (\<lambda>j. if j \<in> set js then None else importing_slots_from s j)\<rparr>)"
      "slots t = (\<lambda>j. if j \<in> set js then if del then None else Some (myself s) else slots s j)"
      using e m(2) by blast
    have own: "slots s j \<noteq> Some (myself s)" if "\<not> nodeIsMaster (me s)" "j < CLUSTER_SLOTS" for j
    proof -
      have "numslots (me s) = 0" using ok that(1) by (simp add: me_ok_def)
      then have "card {j. j < CLUSTER_SLOTS \<and> slots s j = Some (myself s)} = 0"
        using slot_inv_numslots [OF cluster_invD(1,4) [OF me_okD(1) [OF ok]]] by simp
      then show ?thesis using that(2) by auto
    qed
    have "me_ok u"
      by (rule me_ok_slots [OF _ u(2,3)]) (use ok m(1) own u(1,4) in auto)
    then show ?thesis using u(1) by simp
  qed
  then show ?thesis using t e ok me_okD(1) [OF ok] by blast
qed

lemma me_ok_flushslots:
  assumes ok: "me_ok s" shows "\<exists>r t. cluster_flushslots s = Some (r, t) \<and> me_ok t"
proof (cases "db_sizes s ! 0 = 0")
  case True
  note i = cluster_invD(1,4) [OF me_okD(1) [OF ok]]
  obtain d u where u: "clusterDelNodeSlots (myself s) s = Some (d, u)" "slot_inv u" "slot_frame u = slot_frame s"
    "slots u = (\<lambda>j. if j < CLUSTER_SLOTS \<and> slots s j = Some (myself s) then None else slots s j)"
    using clusterDelNodeSlots_effect [OF i] by blast
  have "me_ok u" by (rule me_ok_slots [OF ok u(2,3)]) (simp add: u(4))
  then show ?thesis using True u(1) by (simp add: cluster_flushslots_def)
qed (simp add: cluster_flushslots_def ok)

lemma setslot_node_effect:
  assumes ok: "me_ok s" and n: "n \<in> live s" and j: "slot < CLUSTER_SLOTS" and m: "nodeIsMaster (me s)"
  shows "\<exists>r t. setslot_node slot n s = Some (r, t) \<and> me_ok t \<and>
     (if slots s slot = Some (myself s) \<and> n \<noteq> myself s \<and> countKeysInSlot s slot \<noteq> 0 then r \<noteq> ReplyOK \<and> t = s
      else r = ReplyOK \<and> slots t = (slots s)(slot \<mapsto> n))"
proof (cases "slots s slot = Some (myself s) \<and> n \<noteq> myself s \<and> countKeysInSlot s slot \<noteq> 0")
  case False
  define s1 where "s1 = (if countKeysInSlot s slot = 0 \<and> migrating_slots_to s slot \<noteq> None
                 then s\<lparr>migrating_slots_to := (migrating_slots_to s)(slot := None)\<rparr> else s)"
  define s2 where "s2 = (if n = myself s1 \<and> importing_slots_from s1 slot \<noteq> None
                 then let s = snd (clusterBumpConfigEpochWithoutConsensus s1)
                      in s\<lparr>importing_slots_from := (importing_slots_from s)(slot := None)\<rparr>
                 else s1)"
  have b: "live (snd (clusterBumpConfigEpochWithoutConsensus u)) = live u" "slots (snd (clusterBumpConfigEpochWithoutConsensus u)) = slots u"
    "nodeIsMaster (me (snd (clusterBumpConfigEpochWithoutConsensus u))) = nodeIsMaster (me u)" for u
    by (simp_all add: clusterBumpConfigEpochWithoutConsensus_def Let_def live_def clusterDoBeforeSleep_def node_flag_defs)
  have 1: "me_ok s1" "live s1 = live s" "slots s1 = slots s" "nodeIsMaster (me s1)"
    using ok m by (simp_all add: s1_def live_def)
  have 2: "me_ok s2" "slots s2 = slots s" "nodeIsMaster (me s2)"
    using 1 me_ok_bump [OF 1(1)] b [of s1] by (auto simp: s2_def Let_def)
  have "live s2 = live s1" using b(1) [of s1] by (simp add: s2_def Let_def live_def)
  then have n2: "n \<in> live s2" using 1(2) n by simp
  obtain r u v where uv: "clusterDelSlot slot s2 = Some (r, u)" "clusterAddSlot n slot u = (C_OK, v)" "slot_inv v"
    "slots v = (slots s2)(slot \<mapsto> n)" "slot_frame v = slot_frame s2"
    using st.rebind [OF cluster_invD(1) [OF me_okD(1) [OF 2(1)]] j n2] by blast
  have "me_ok v" by (rule me_ok_slots [OF 2(1) uv(3,5)]) (simp add: 2(3))
  moreover have "setslot_node slot n s = Some (ReplyOK, v)"
    using False uv(1,2) unfolding setslot_node_def s1_def [symmetric] Let_def s2_def [unfolded Let_def, symmetric] by auto
  ultimately show ?thesis using uv(4) 2(2) False by auto
qed (simp add: setslot_node_def ok)

lemma me_ok_setslot:
  assumes ok: "me_ok s" and a: "length argv = 5 \<longrightarrow> CLUSTER_NAMELEN \<le> length (argv ! 4) + 1"
  shows "\<exists>r t. cluster_setslot argv s = Some (r, t) \<and> me_ok t"
proof (cases "nodeIsSlave (me s) \<or> (\<exists>r. getSlotOrReply (argv ! 2) = Inl r)")
  case False
  then obtain j where j: "getSlotOrReply (argv ! 2) = Inr j" by (cases "getSlotOrReply (argv ! 2)") auto
  note lt = getSlotOrReply_less [OF j]
  have m: "nodeIsMaster (me s)" using False me_okD(5) [OF ok] by simp
  show ?thesis
  proof (cases "length argv = 5")
    case True
    obtain n where n: "lookup_arg (argv ! 4) s = Some n" using lookup_arg_Some a True by blast
    have node: "\<exists>r t. setslot_node j n' s = Some (r, t) \<and> me_ok t" if "n = Some n'" for n'
      using setslot_node_effect [OF ok lookup_arg_live lt m] n that by blast
    show ?thesis
      using False j n True node ok unfolding cluster_setslot_def Let_def by (cases n) auto
  next
    case False
    then show ?thesis using j ok unfolding cluster_setslot_def Let_def by simp
  qed
qed (auto simp: cluster_setslot_def ok)

lemma me_ok_forget:
  assumes ok: "me_ok s" and a: "CLUSTER_NAMELEN \<le> length a + 1"
  shows "\<exists>r t. cluster_forget a s = Some (r, t) \<and> me_ok t"
proof -
  obtain n where n: "lookup_arg a s = Some n" using lookup_arg_Some [OF a] by blast
  show ?thesis
  proof (cases "\<exists>d. n = Some d \<and> d \<noteq> myself s")
    case True
    then obtain d where d: "n = Some d" "d \<noteq> myself s" by blast
    let ?u = "clusterBlacklistAddNode d s"
    have u: "me_ok ?u" using ok by simp
    have l: "live ?u = live s" "myself ?u = myself s"
      by (simp_all add: clusterBlacklistAddNode_def clusterBlacklistCleanup_def Let_def live_def)
    obtain t where "clusterDelNode d ?u = Some t" "me_ok t"
      using me_ok_DelNode [OF u, of d] lookup_arg_live [of a s d] n d l by auto
    then show ?thesis using n d ok by (auto simp: cluster_forget_def)
  qed (use n ok in \<open>auto simp: cluster_forget_def split: option.split\<close>)
qed

lemma me_ok_replicate:
  assumes ok: "me_ok s" and a: "CLUSTER_NAMELEN \<le> length a + 1"
  shows "\<exists>r t. cluster_replicate a s = Some (r, t) \<and> me_ok t"
proof -
  obtain n where n: "lookup_arg a s = Some n" using lookup_arg_Some [OF a] by blast
  show ?thesis
  proof (cases "\<exists>d. n = Some d \<and> d \<noteq> myself s \<and> numslots (me s) = 0")
    case True
    then obtain d where d: "n = Some d" "d \<noteq> myself s" "numslots (me s) = 0" by blast
    obtain t where "clusterSetMaster d s = Some t" "me_ok t"
      using me_ok_SetMaster [OF ok _ d(2,3)] lookup_arg_live [of a s d] n d(1) by auto
    then show ?thesis using n d ok by (auto simp: cluster_replicate_def)
  next
    case False
    then show ?thesis using n ok me_okD(4) [OF ok] by (auto simp: cluster_replicate_def split: option.split)
  qed
qed

lemma me_ok_failover:
  assumes ok: "me_ok s" shows "\<exists>r t. cluster_failover argv s = Some (r, t) \<and> me_ok t"
proof -
  have take: "\<exists>t. clusterFailoverReplaceYourMaster (snd (clusterBumpConfigEpochWithoutConsensus
      ((resetManualFailover s)\<lparr>mf_end := a\<rparr>))) = Some t \<and> me_ok t" if m: "slaveof (me s) = Some m" for m a
  proof (rule me_ok_promotion)
    show "me_ok (snd (clusterBumpConfigEpochWithoutConsensus ((resetManualFailover s)\<lparr>mf_end := a\<rparr>)))"
      using me_ok_bump ok by simp
    show "slaveof (me (snd (clusterBumpConfigEpochWithoutConsensus ((resetManualFailover s)\<lparr>mf_end := a\<rparr>)))) = Some m"
      using m by (simp add: clusterBumpConfigEpochWithoutConsensus_def Let_def clusterDoBeforeSleep_def)
  qed
  show ?thesis
  proof (cases "slaveof (me s)")
    case (Some m)
    obtain t where "clusterFailoverReplaceYourMaster (snd (clusterBumpConfigEpochWithoutConsensus
      ((resetManualFailover s)\<lparr>mf_end := mstime (resetManualFailover s) + CLUSTER_MF_TIMEOUT\<rparr>))) = Some t" "me_ok t"
      using take [OF Some] by blast
    then show ?thesis using Some ok unfolding cluster_failover_def Let_def by auto
  qed (auto simp: cluster_failover_def Let_def ok)
qed

text \<open>Alternatives that all return a result with the same property.\<close>

lemma if_returns:
  assumes "b \<Longrightarrow> \<exists>r t. x = Some (r, t) \<and> P t" "\<exists>r t. y = Some (r, t) \<and> P t"
  shows "\<exists>r t. (if b then x else y) = Some (r, t) \<and> P t"
  using assms by (cases b) simp_all

lemma arg_is_addslots: "arg_is a ''addslots'' \<Longrightarrow> \<not> arg_is a ''delslots''"
  by (auto simp: arg_is_def strcaseeq_def str_def tolower_def)

lemma clusterCommand_returns:
  assumes ok: "me_ok s" and a: "node_args_ok argv" "2 \<le> length argv"
  shows "\<exists>r t. clusterCommand en w db argv s = Some (r, t) \<and> (cluster_inv t \<and>
     (nodeIsMaster (me s) \<or> \<not> arg_is (argv ! 1) ''addslots'' \<longrightarrow> me_ok t))"
proof -
  let ?P = "\<lambda>t. cluster_inv t \<and> (nodeIsMaster (me s) \<or> \<not> arg_is (argv ! 1) ''addslots'' \<longrightarrow> me_ok t)"
  have keep: "\<exists>r t. x = Some (r, t) \<and> ?P t" if "\<exists>r t. x = Some (r, t) \<and> me_ok t" for x :: "(reply \<times> server) option"
    using that me_okD(1) by blast
  have slots: "\<exists>r t. cluster_addslots (arg_is (argv ! 1) ''delslots'') as s = Some (r, t) \<and> ?P t"
    if "arg_is (argv ! 1) ''addslots'' \<or> arg_is (argv ! 1) ''delslots''" for as
    using me_ok_addslots [OF ok] that by blast
  have meet: "me_ok (snd (cluster_meet argv s))"
    using me_ok_StartHandshake [OF ok] ok by (auto simp: cluster_meet_def Let_def case_prod_beta split: option.split)
  have bump: "me_ok (snd (cluster_bumpepoch s))"
    using me_ok_bump [OF ok] by (simp add: cluster_bumpepoch_def case_prod_beta)
  have epoch: "me_ok (snd (cluster_set_config_epoch b s))" for b
    using ok by (simp add: cluster_set_config_epoch_def Let_def split: sum.split)
  have save: "me_ok (snd (clusterSaveConfig w True s))"
    by (rule me_ok_keep [OF _ _ ok]) (simp_all add: clusterSaveConfig_def Let_def emit_def inv_view_def view_defs link_view_def)
  have slaves: "\<exists>r t. cluster_slaves b s = Some (r, t) \<and> me_ok t" if "CLUSTER_NAMELEN \<le> length b + 1" for b
    using lookup_arg_Some [OF that, of s] ok by (auto simp: cluster_slaves_def split: option.split)
  have reports: "\<exists>r t. cluster_count_failure_reports b s = Some (r, t) \<and> me_ok t" if "CLUSTER_NAMELEN \<le> length b + 1" for b
    using lookup_arg_Some [OF that, of s] ok me_ok_FailureReportsCount [OF ok]
    by (auto simp: cluster_count_failure_reports_def case_prod_beta split: option.split)
  have reset: "\<exists>r t. cluster_reset argv db s = Some (r, t) \<and> me_ok t"
  proof -
    obtain t where "clusterReset (length argv = 3 \<and> arg_is (argv ! 2) ''hard'') s = Some t" "me_ok t"
      using me_ok_reset [OF ok] by blast
    then show ?thesis using ok by (simp add: cluster_reset_def)
  qed
  have pair: "\<exists>r t. Some p = Some (r, t) \<and> ?P t" if "me_ok (snd p)" for p :: "reply \<times> server"
    using keep [of "Some p"] that by (cases p) auto
  note leaf = keep [OF me_ok_flushslots [OF ok]] keep [OF me_ok_setslot [OF ok]] keep [OF me_ok_forget [OF ok]]
    keep [OF me_ok_replicate [OF ok]] keep [OF me_ok_failover [OF ok]] keep [OF slaves] keep [OF reports]
    keep [OF reset] pair [OF meet] pair [OF bump] pair [OF epoch] slots
  have argc: "\<not> length argv < 2" using a(2) by simp
  have id: "\<exists>r t. Some (x, s) = Some (r, t) \<and> ?P t" for x :: reply
    using pair [of "(x, s)"] ok by simp
  have saved: "\<exists>r t. Some (x, snd (clusterSaveConfig w True s)) = Some (r, t) \<and> ?P t" for x :: reply
    using pair [of "(x, snd (clusterSaveConfig w True s))"] save by simp
  show ?thesis
    unfolding clusterCommand_def Let_def case_prod_beta if_not_P [OF argc]
    by (intro if_returns leaf id saved) (use a(1) in \<open>auto simp: node_args_ok_def\<close>)
qed

end
