(* ===== verification/ClusterVotes.thy ===== *)
theory ClusterVotes
  imports ClusterCommand
begin

text \<open>
  Votes and winners. Every handler of a node raises the current epoch only, and grants
  at most one vote, for an epoch it has not voted in (\<open>vote_step\<close>). The runs of a node
  are the sequences of its handlers; along a run the granted epochs increase. With a
  majority quorum, two candidates cannot both win the same epoch.
\<close>

section \<open>The passages of a packet\<close>

lemma epoch_handshake:
  assumes "packet_handshake sender l hdr s = Some r"
  shows "epoch_view (case r of Inl t \<Rightarrow> t | Inr t \<Rightarrow> t) = epoch_view s"
  using assms
  by (auto simp: packet_handshake_def Let_def case_prod_beta dest!: epoch_clusterDelNode epoch_clusterRenameNode
      split: option.splits if_splits bind_splits)

lemma epoch_role:
  assumes "packet_role sd hdr s = Some t" shows "epoch_view t = epoch_view s"
  using assms
  by (auto simp: packet_role_def Let_def dest!: epoch_clusterDelNodeSlots split: option.splits if_splits bind_splits)

lemma epoch_slots:
  assumes "packet_slots sd e hdr s = Some t" shows "epoch_view t = epoch_view s"
  using assms
  by (auto simp: packet_slots_def Let_def dest!: epoch_clusterUpdateSlots split: option.splits if_splits bind_splits)

lemma epoch_collision:
  assumes "currentEpoch s \<noteq> -1" shows "epoch_step s (clusterHandleConfigEpochCollision sd s)"
proof -
  define s1 where "s1 = s\<lparr>currentEpoch := currentEpoch s + 1\<rparr>"
  have "epoch_step s s1" using epoch_step_raise [OF epoch_incr [OF assms]] by (simp add: s1_def)
  then have "epoch_step s (clusterSaveConfigOrDie True (upd_node (myself s1) f s1))" for f
    using epoch_step_view by simp
  then show ?thesis
    by (simp add: clusterHandleConfigEpochCollision_def Let_def s1_def epoch_step_same)
qed

lemma epoch_packet_ping:
  assumes p: "packet_ping sender e l hdr s = Some (r, t)" and ne: "currentEpoch s \<noteq> -1"
  shows "epoch_step s t"
proof -
  obtain h where h: "packet_handshake sender l hdr s = Some h" using p by (auto simp: packet_ping_def split: bind_splits)
  show ?thesis
  proof (cases h)
    case (Inl u)
    then show ?thesis using p h epoch_handshake [OF h] by (simp add: packet_ping_def epoch_step_same)
  next
    case (Inr s1)
    have e1: "epoch_view s1 = epoch_view s" using epoch_handshake [OF h] Inr by simp
    obtain s2 where s2: "packet_node_info sender l hdr s1 = Some s2" "epoch_view s2 = epoch_view s1"
      using packet_node_info_returns by blast
    show ?thesis
    proof (cases sender)
      case None
      then show ?thesis using p h Inr s2 e1 by (simp add: packet_ping_def epoch_step_same)
    next
      case (Some sd)
      obtain s3 where s3: "packet_role sd hdr s2 = Some s3"
        using p h Inr s2 Some by (auto simp: packet_ping_def split: bind_splits)
      obtain s4 where s4: "packet_slots sd e hdr s3 = Some s4"
        using p h Inr s2 Some s3 by (auto simp: packet_ping_def split: bind_splits)
      have e4: "epoch_view s4 = epoch_view s" using epoch_slots [OF s4] epoch_role [OF s3] s2 e1 by simp
      define s5 where "s5 = (if nodeIsMaster (me s4) \<and> nodeIsMaster (nd s4 sd) \<and> e = configEpoch (me s4)
                        then clusterHandleConfigEpochCollision sd s4 else s4)"
      have "currentEpoch s4 \<noteq> -1" using epoch_viewD [OF e4] ne by simp
      then have "epoch_step s4 s5" by (simp add: s5_def epoch_collision epoch_step_same)
      moreover have "t = clusterProcessGossipSection hdr l s5"
        using p h Inr s2 Some s3 s4 unfolding packet_ping_def s5_def by simp
      ultimately show ?thesis
        using epoch_step_keep [OF e4] epoch_step_view keeps_gossip(2) by blast
    qed
  qed
qed

lemma vote_packet_other:
  assumes p: "packet_other sender e hdr s = Some t" and v: "lastVoteEpoch s \<le> currentEpoch s"
  shows "vote_step s t"
proof -
  have mf: "epoch_view (packet_mfstart n s) = epoch_view s" for n
  proof -
    have "epoch_view (u\<lparr>mf_end := a, mf_slave := b\<rparr>) = epoch_view u" for u a b by (simp add: view_defs)
    then show ?thesis by (simp add: packet_mfstart_def Let_def)
  qed
  have up: "epoch_view t = epoch_view s" if "packet_update re nm claimed s = Some t" for re nm claimed
    using that by (auto simp: packet_update_def Let_def dest!: epoch_clusterUpdateSlots split: option.splits if_splits)
  have fail: "epoch_view (packet_fail sender about s) = epoch_view s" for about
    by (simp add: packet_fail_def split: option.split)
  have ack: "epoch_view (packet_auth_ack n e s) = epoch_view s" for n
    by (simp add: packet_auth_ack_def)
  show ?thesis
    using p clusterSendFailoverAuthIfNeeded_vote(1) [OF v] mf up fail ack
    by (auto simp: packet_other_def packet_publish_def Let_def intro: vote_step_same
        split: if_splits option.splits clusterMsgData.splits)
qed

lemma vote_clusterProcessPacket:
  assumes p: "clusterProcessPacket l hdr s = Some (r, t)"
    and ne: "currentEpoch s \<noteq> -1" "h_currentEpoch hdr \<noteq> -1" and v: "lastVoteEpoch s \<le> currentEpoch s"
  shows "vote_step s t"
proof -
  define s0 where "s0 = (if h_type hdr < CLUSTERMSG_TYPE_COUNT
               then s\<lparr>stats_bus_messages_received :=
                        (stats_bus_messages_received s)(h_type hdr := stats_bus_messages_received s (h_type hdr) + 1)\<rparr>
               else s)"
  define sender where "sender = clusterLookupNode (h_sender hdr) s0"
  define s1 where "s1 = packet_sender_info sender hdr s0"
  define s2 where "s2 = (if h_type hdr = CLUSTERMSG_TYPE_PING \<or> h_type hdr = CLUSTERMSG_TYPE_MEET
                    then packet_ping_meet sender l hdr s1 else s1)"
  have e0: "epoch_view s0 = epoch_view s" by (simp add: s0_def view_defs)
  have e1: "epoch_step s s1" unfolding s1_def by (rule epoch_step_keep [OF e0 packet_sender_info_keeps(2)])
  have e2: "epoch_step s s2"
    using epoch_step_view [OF e1] packet_ping_meet_keeps(2) e1 by (simp add: s2_def)
  have c1: "currentEpoch s1 = currentEpoch s \<or> currentEpoch s1 = h_currentEpoch hdr"
    using epoch_viewD [OF e0]
    by (auto simp: s1_def packet_sender_info_def Let_def split: option.split)
  have ne2: "currentEpoch s2 \<noteq> -1"
    using c1 ne epoch_viewD [OF packet_ping_meet_keeps(2) [of sender l hdr s1]] by (auto simp: s2_def)
  have v2: "lastVoteEpoch s2 \<le> currentEpoch s2" using e2 v by (auto simp: epoch_step_def)
  define known where "known = (case sender of None \<Rightarrow> False | Some sd \<Rightarrow> \<not> nodeInHandshake (nd s1 sd))"
  define ce where "ce = (if known then h_currentEpoch hdr else 0)"
  define fe where "fe = (if known then h_configEpoch hdr else 0)"
  have eq: "clusterProcessPacket l hdr s =
      (if \<not> packet_length_ok hdr then Some (1, s0)
       else if is_ping_type (h_type hdr) then packet_ping sender fe l hdr s2
       else map_option (\<lambda>s. (1, s)) (packet_other sender ce hdr s2))"
    unfolding clusterProcessPacket_def Let_def s0_def [symmetric] sender_def [symmetric] s1_def [symmetric]
      known_def [symmetric] ce_def [symmetric] fe_def [symmetric] s2_def [symmetric] by simp
  have "t = s0 \<or> epoch_step s2 t \<or> vote_step s2 t"
    using p epoch_packet_ping [OF _ ne2] vote_packet_other [OF _ v2] unfolding eq by (auto split: if_splits)
  then show ?thesis
    using vote_step_same [OF e0] epoch_step_trans [OF e2, THEN epoch_step_vote] e2
    by (auto simp: epoch_step_def intro: vote_step_raise)
qed

section \<open>The periodic work\<close>

lemma epoch_cron_announce: "epoch_view (cron_announce_ip s) = epoch_view s"
proof -
  have "epoch_view (u\<lparr>prev_announce_ip := a\<rparr>) = epoch_view u" for u a by (simp add: view_defs)
  then show ?thesis by (simp add: cron_announce_ip_def Let_def split: option.split)
qed

lemma epoch_cron_connect:
  assumes "cron_connect h n s = Some t" shows "epoch_view t = epoch_view s"
proof -
  have l: "epoch_view (snd (createClusterLink m u)) = epoch_view u" for m u
    by (simp add: createClusterLink_def Let_def view_defs)
  have st: "epoch_view (u\<lparr>stats_pfail_nodes := k\<rparr>) = epoch_view u" for u k by (simp add: view_defs)
  have ping: "epoch_view (clusterSendPing lk (if b then CLUSTERMSG_TYPE_MEET else CLUSTERMSG_TYPE_PING) u) = epoch_view u" for lk b u
    by simp
  show ?thesis
    using assms
    by (auto simp: cron_connect_def Let_def case_prod_beta l st ping dest!: epoch_clusterDelNode split: if_splits)
qed

lemma epoch_cron_random_nodes: "epoch_view (snd (cron_random_nodes k m s)) = epoch_view s"
proof -
  have r: "epoch_view (u\<lparr>random_pos := p\<rparr>) = epoch_view u" for u p by (simp add: view_defs)
  show ?thesis
    by (induction k m s rule: cron_random_nodes.induct) (simp_all add: Let_def r split: option.split)
qed

lemma epoch_cron_random_ping: "epoch_view (cron_random_ping s) = epoch_view s"
  using epoch_cron_random_nodes [of 5 None s]
  by (simp add: cron_random_ping_def case_prod_beta split: option.split)

lemma epoch_cron_check_node: "epoch_view (snd (cron_check_node n (c, s))) = epoch_view s"
proof -
  define s1 where "s1 = (case link (nd s n) of
                  Some l \<Rightarrow>
                    if mstime s - link_ctime s l > cluster_node_timeout s \<and> ping_sent (nd s n) \<noteq> 0 \<and>
                       pong_received (nd s n) < ping_sent (nd s n) \<and>
                       mstime s - ping_sent (nd s n) > cluster_node_timeout s div 2 \<and>
                       mstime s - data_received (nd s n) > cluster_node_timeout s div 2
                    then freeClusterLink l s else s
                | None \<Rightarrow> s)"
  have e1: "epoch_view s1 = epoch_view s" by (simp add: s1_def split: option.split)
  have t: "epoch_view (snd (clusterCron_checkTimeout n (u, s1))) = epoch_view s1" for u by (rule keep_checkTimeout(2))
  show ?thesis
    using e1 t
    unfolding cron_check_node_def Let_def split s1_def [symmetric] by (simp add: case_prod_beta split: option.split)
qed

lemma epoch_cron_failover:
  assumes c: "cron_failover zk c z s = Some (z', t)" and ne: "currentEpoch s \<noteq> -1"
  shows "epoch_step s t"
proof -
  define s1 where "s1 = manualFailoverCheckTimeout (case slaveof (me s) of
                Some m \<Rightarrow> if nodeIsSlave (me s) \<and> masterhost s = None \<and> nodeHasAddr (nd s m)
                          then replicationSetMaster (ip (nd s m)) (port (nd s m)) s else s
              | None \<Rightarrow> s)"
  have e1: "epoch_view s1 = epoch_view s" by (simp add: s1_def split: option.split)
  define s2 where "s2 = clusterHandleManualFailover s1"
  have e2: "epoch_view s2 = epoch_view s" using e1 by (simp add: s2_def)
  have ne2: "currentEpoch s2 \<noteq> -1" using epoch_viewD [OF e2] ne by simp
  obtain u where u: "t = u \<or> t = clusterUpdateState u" "epoch_step s u"
  proof (cases "nodeIsSlave (me s1)")
    case False
    then show ?thesis
      using that [of s1] c e1 unfolding cron_failover_def Let_def s1_def [symmetric]
      by (auto simp: epoch_step_same split: if_splits)
  next
    case True
    obtain z3 s3 where s3: "(if cluster_module_flags s2 AND CLUSTER_MODULE_FLAG_NO_FAILOVER = 0
        then clusterHandleSlaveFailover zk z s2 else Some (z, s2)) = Some (z3, s3)"
      using c True unfolding cron_failover_def Let_def s1_def [symmetric] s2_def [symmetric]
      by (auto split: bind_splits)
    have e3: "epoch_step s s3"
      using s3 epoch_step_keep [OF e2 clusterHandleSlaveFailover_epoch(1) [OF _ ne2]] epoch_step_same [OF e2]
      by (auto split: if_splits)
    obtain s4 where s4: "(if orphaned_masters c \<noteq> 0 \<and> max_slaves c \<ge> 2 \<and> this_slaves c = max_slaves c
        then clusterHandleSlaveMigration (max_slaves c) s3 else Some s3) = Some s4"
      using c True s3 unfolding cron_failover_def Let_def s1_def [symmetric] s2_def [symmetric]
      by (auto split: bind_splits)
    have "epoch_view s4 = epoch_view s3" using s4 keep_migration(2) by (auto split: if_splits)
    with e3 have e4: "epoch_step s s4" using epoch_step_view by blast
    have "t = s4 \<or> t = clusterUpdateState s4"
      using c True s3 s4 unfolding cron_failover_def Let_def s1_def [symmetric] s2_def [symmetric]
      by (auto split: if_splits)
    with e4 show ?thesis using that by blast
  qed
  then show ?thesis using epoch_step_view [of s u t] by auto
qed

lemma epoch_clusterCron:
  assumes c: "clusterCron zk z s = Some (z', t)" and ne: "currentEpoch s \<noteq> -1"
  shows "epoch_step s t"
proof -
  define s1 where "s1 = (clusterUpdateMyselfFlags (cron_announce_ip (s\<lparr>cron_iteration := cron_iteration s + 1\<rparr>)))\<lparr>stats_pfail_nodes := 0\<rparr>"
  have st: "epoch_view (u\<lparr>stats_pfail_nodes := k\<rparr>) = epoch_view u"
    "epoch_view (u\<lparr>cron_iteration := i\<rparr>) = epoch_view u" for u k i by (simp_all add: view_defs)
  have e1: "epoch_view s1 = epoch_view s" by (simp add: s1_def st epoch_cron_announce)
  define ht where "ht = (if cluster_node_timeout (cron_announce_ip (s\<lparr>cron_iteration := cron_iteration s + 1\<rparr>)) < 1000 then 1000
      else cluster_node_timeout (cron_announce_ip (s\<lparr>cron_iteration := cron_iteration s + 1\<rparr>)))"
  obtain s2 where s2: "for_each (nodes s1) (\<lambda>(nm, node). cron_connect ht node) s1 = Some s2"
    using c unfolding clusterCron_def Let_def s1_def [symmetric] ht_def [symmetric] by (auto split: bind_splits)
  have "epoch_view s2 = epoch_view s1"
    by (rule for_each_keep [OF s2]) (auto dest: epoch_cron_connect split: prod.splits)
  then have e3: "epoch_view (cron_random_ping s2) = epoch_view s" using e1 epoch_cron_random_ping by simp
  define p where "p = fold (\<lambda>(nm, node). cron_check_node node) (nodes (cron_random_ping s2))
                    (\<lparr>orphaned_masters = 0, max_slaves = 0, this_slaves = 0, update_state = False\<rparr>, cron_random_ping s2)"
  have "epoch_view (snd (fold (\<lambda>(nm, node). cron_check_node node) ns q)) = epoch_view (snd q)" for ns :: "(bytes \<times> naddr) list" and q
    by (rule fold_keep) (metis (mono_tags, lifting) case_prod_conv epoch_cron_check_node prod.exhaust_sel)
  then have e4: "epoch_view (snd p) = epoch_view s" using e3 by (simp add: p_def)
  have "cron_failover zk (fst p) z (snd p) = Some (z', t)"
    using c s2 unfolding clusterCron_def Let_def s1_def [symmetric] ht_def [symmetric] by (simp add: p_def case_prod_beta)
  then show ?thesis
    using epoch_cron_failover epoch_step_keep [OF e4] epoch_viewD [OF e4] ne by metis
qed

lemma epoch_clusterBeforeSleep:
  assumes c: "clusterBeforeSleep zk z s = Some (z', t)" and ne: "currentEpoch s \<noteq> -1"
  shows "epoch_step s t"
proof -
  obtain u where u: "(if todo_before_sleep s AND CLUSTER_TODO_HANDLE_FAILOVER \<noteq> 0
               then clusterHandleSlaveFailover zk z s else Some (z, s)) = Some (z', u)"
    using c by (auto simp: clusterBeforeSleep_def Let_def split: bind_splits)
  have "epoch_step s u" using u clusterHandleSlaveFailover_epoch(1) [OF _ ne] by (auto simp: epoch_step_same split: if_splits)
  moreover have "epoch_view t = epoch_view u"
    using c u by (auto simp: clusterBeforeSleep_def Let_def split: bind_splits if_splits)
  ultimately show ?thesis using epoch_step_view by blast
qed

section \<open>The runs of a node\<close>

text \<open>
  What the event loop of a node does, one handler at a time: a packet, the cron, the
  work before sleeping, a CLUSTER command other than the hard reset (which forgets the
  epochs on purpose), the ZooKeeper cron and watcher, and the clocks. The first
  component of a configuration is the state of the ZooKeeper ensemble. The epochs are
  64 bits wide; a step is taken only while they are not exhausted, which a cluster that
  starts at epoch 0 cannot reach in practice.
\<close>

inductive node_step :: "'z zk_api \<Rightarrow> 'z \<times> server \<Rightarrow> 'z \<times> server \<Rightarrow> bool" for zk where
  packet: "clusterProcessPacket l hdr s = Some (r, t) \<Longrightarrow> currentEpoch s \<noteq> -1 \<Longrightarrow> h_currentEpoch hdr \<noteq> -1 \<Longrightarrow>
           node_step zk (z, s) (z, t)"
| cron: "clusterCron zk z s = Some (z', t) \<Longrightarrow> currentEpoch s \<noteq> -1 \<Longrightarrow> node_step zk (z, s) (z', t)"
| sleep: "clusterBeforeSleep zk z s = Some (z', t) \<Longrightarrow> currentEpoch s \<noteq> -1 \<Longrightarrow> node_step zk (z, s) (z', t)"
| command: "clusterCommand en w db argv s = Some (r, t) \<Longrightarrow> currentEpoch s \<noteq> -1 \<Longrightarrow> \<not> hard_reset argv \<Longrightarrow>
           node_step zk (z, s) (z, t)"
| zk_cron: "zklinkCron zk z s = (z', t) \<Longrightarrow> node_step zk (z, s) (z', t)"
| zk_watch: "zklinkWatcher ty st p s = Some t \<Longrightarrow> node_step zk (z, s) (z, t)"
| ensemble: "node_step zk (z, s) (z', s)"
| clock: "node_step zk (z, s) (z, s\<lparr>mstime := a, unixtime := b, server_mstime := c, sys_time := d\<rparr>)"

inductive runs :: "'z zk_api \<Rightarrow> 'z \<times> server \<Rightarrow> 'z \<times> server \<Rightarrow> bool" for zk where
  start: "runs zk c c"
| step: "runs zk c c' \<Longrightarrow> node_step zk c' c'' \<Longrightarrow> runs zk c c''"

inductive_cases node_stepE: "node_step zk (z, s) (z', t)"

lemma node_step_votes:
  assumes n: "node_step zk (z, s) (z', t)" and v: "lastVoteEpoch s \<le> currentEpoch s"
  shows "vote_step s t"
  using n
proof (elim node_stepE)
  fix l hdr r
  assume "clusterProcessPacket l hdr s = Some (r, t)" "currentEpoch s \<noteq> -1" "h_currentEpoch hdr \<noteq> -1"
  then show ?thesis by (rule vote_clusterProcessPacket [OF _ _ _ v])
next
  assume "clusterCron zk z s = Some (z', t)" "currentEpoch s \<noteq> -1"
  then show ?thesis by (rule epoch_step_vote [OF epoch_clusterCron])
next
  assume "clusterBeforeSleep zk z s = Some (z', t)" "currentEpoch s \<noteq> -1"
  then show ?thesis by (rule epoch_step_vote [OF epoch_clusterBeforeSleep])
next
  fix en w db argv r
  assume "clusterCommand en w db argv s = Some (r, t)" "currentEpoch s \<noteq> -1" "\<not> hard_reset argv"
  then show ?thesis by (rule epoch_step_vote [OF epoch_clusterCommand])
next
  assume "zklinkCron zk z s = (z', t)"
  then show ?thesis using keep_zkCron(2) [of zk z s] by (simp add: vote_step_same)
next
  fix ty st p assume "zklinkWatcher ty st p s = Some t"
  then show ?thesis using keep_zkWatcher(2) by (simp add: vote_step_same)
qed (simp_all add: vote_step_def acks_def)

text \<open>The epochs of the votes a node granted increase and are bounded by its last vote.\<close>

definition vote_inv :: "server \<Rightarrow> bool" where
  "vote_inv s \<longleftrightarrow> sorted_wrt (<) (map ack_epoch (acks s)) \<and>
     (\<forall>a \<in> set (acks s). ack_epoch a \<le> lastVoteEpoch s) \<and> lastVoteEpoch s \<le> currentEpoch s"

lemma vote_step_inv:
  assumes "vote_inv s" "vote_step s t" shows "vote_inv t"
proof -
  consider (none) "lastVoteEpoch t = lastVoteEpoch s" "acks t = acks s" "currentEpoch s \<le> currentEpoch t"
    | (vote) "lastVoteEpoch s < lastVoteEpoch t" "lastVoteEpoch t \<le> currentEpoch t"
        "acks t = acks s \<or> (\<exists>a. acks t = acks s @ [a] \<and> ack_epoch a = lastVoteEpoch t)"
    using assms(2) unfolding vote_step_def by blast
  then show ?thesis
  proof cases
    case none
    then show ?thesis using assms(1) by (auto simp: vote_inv_def)
  next
    case vote
    have "ack_epoch a < lastVoteEpoch t" if "a \<in> set (acks s)" for a
      using assms(1) that vote(1) le_less_trans unfolding vote_inv_def by blast
    then show ?thesis using assms(1) vote by (auto simp: vote_inv_def sorted_wrt_append less_imp_le)
  qed
qed

lemma runs_vote_inv: "runs zk c c' \<Longrightarrow> vote_inv (snd c) \<Longrightarrow> vote_inv (snd c')"
proof (induction rule: runs.induct)
  case (step c c' c'')
  then have "vote_inv (snd c')" by blast
  moreover have "vote_step (snd c') (snd c'')"
    using node_step_votes [of zk "fst c'" "snd c'" "fst c''" "snd c''"] step.hyps(2) \<open>vote_inv (snd c')\<close>
    by (simp add: vote_inv_def)
  ultimately show ?case by (rule vote_step_inv)
qed

text \<open>Along a run the epochs only grow and no vote is taken back.\<close>

definition votes_grow :: "server \<Rightarrow> server \<Rightarrow> bool" where
  "votes_grow s t \<longleftrightarrow> myself t = myself s \<and> currentEpoch s \<le> currentEpoch t \<and>
     lastVoteEpoch s \<le> lastVoteEpoch t \<and> (\<exists>new. acks t = acks s @ new \<and> (\<forall>a \<in> set new. lastVoteEpoch s < ack_epoch a))"

lemma vote_step_grow: "vote_step s t \<Longrightarrow> votes_grow s t"
  by (auto simp: vote_step_def votes_grow_def)

lemma votes_grow_trans:
  assumes "votes_grow s t" "votes_grow t u" shows "votes_grow s u"
proof -
  obtain n m where n: "acks t = acks s @ n" "\<forall>a \<in> set n. lastVoteEpoch s < ack_epoch a"
    and m: "acks u = acks t @ m" "\<forall>a \<in> set m. lastVoteEpoch t < ack_epoch a"
    using assms by (auto simp: votes_grow_def)
  have "\<forall>a \<in> set (n @ m). lastVoteEpoch s < ack_epoch a"
    using assms n m by (auto simp: votes_grow_def intro: le_less_trans)
  then show ?thesis using assms n m by (auto simp: votes_grow_def)
qed

lemma runs_grow:
  assumes "runs zk c c'" "vote_inv (snd c)"
  shows "votes_grow (snd c) (snd c')"
  using assms
proof (induction rule: runs.induct)
  case (start c)
  show ?case by (simp add: votes_grow_def)
next
  case (step c c' c'')
  have "vote_inv (snd c')" using runs_vote_inv step by blast
  then have "vote_step (snd c') (snd c'')"
    using node_step_votes [of zk "fst c'" "snd c'" "fst c''" "snd c''"] step.hyps(2) by (simp add: vote_inv_def)
  then show ?case using votes_grow_trans vote_step_grow step by blast
qed

lemma vote_inv_unique:
  assumes "vote_inv s" "a \<in> set (acks s)" "b \<in> set (acks s)" "ack_epoch a = ack_epoch b"
  shows "a = b"
proof -
  have "sorted_wrt (<) (map ack_epoch (acks s))" using assms(1) by (simp add: vote_inv_def)
  then have "distinct (map ack_epoch (acks s))" by (simp add: strict_sorted_iff)
  then have "inj_on ack_epoch (set (acks s))" by (simp add: distinct_map)
  then show ?thesis using assms(2-4) by (auto dest: inj_onD)
qed

section \<open>Quorums\<close>

text \<open>What an election needs of its quorums: two of them share a voter.\<close>

locale quorum_system =
  fixes quorum :: "'v set \<Rightarrow> bool"
  assumes intersect: "quorum A \<Longrightarrow> quorum B \<Longrightarrow> A \<inter> B \<noteq> {}"
begin

lemma one_winner:
  assumes "quorum {v. vote v = Some c}" "quorum {v. vote v = Some d}"
  shows "c = d"
  using intersect [OF assms] by auto

end

text \<open>The quorums of a cluster of at least three masters.\<close>

definition voter_quorum :: "'v set \<Rightarrow> 'v set \<Rightarrow> bool" where
  "voter_quorum M A \<longleftrightarrow> finite M \<and> 3 \<le> card M \<and> A \<subseteq> M \<and> needed_quorum (int (card M)) \<le> int (card A)"

interpretation voters: quorum_system "voter_quorum M" for M :: "'v set"
proof unfold_locales
  fix A B assume q: "voter_quorum M A" "voter_quorum M B"
  have fin: "finite A" "finite B" using q by (auto simp: voter_quorum_def intro: finite_subset)
  show "A \<inter> B \<noteq> {}"
  proof
    assume "A \<inter> B = {}"
    then have "card A + card B = card (A \<union> B)" using fin by (simp add: card_Un_disjoint)
    also have "\<dots> \<le> card M" using q by (intro card_mono) (auto simp: voter_quorum_def)
    finally have "int (card A) + int (card B) \<le> int (card M)" by linarith
    moreover have "int (card M) < 2 * needed_quorum (int (card M))"
      using q needed_quorum_majority [of "int (card M)"] by (simp add: voter_quorum_def)
    ultimately show False using q by (simp add: voter_quorum_def)
  qed
qed

text \<open>The candidate that a voter voted for in an epoch, by the other end of the link of the vote.\<close>

definition ack_link :: "effect \<Rightarrow> laddr" where
  "ack_link e = (case e of SendMessage l m \<Rightarrow> l | _ \<Rightarrow> 0)"

definition voted_for :: "(laddr \<Rightarrow> 'c) \<Rightarrow> server \<Rightarrow> u64 \<Rightarrow> 'c option" where
  "voted_for peer s e = map_option (peer \<circ> ack_link) (find (\<lambda>a. ack_epoch a = e) (acks s))"

definition supporters :: "'v set \<Rightarrow> ('v \<Rightarrow> laddr \<Rightarrow> 'c) \<Rightarrow> ('v \<Rightarrow> server) \<Rightarrow> u64 \<Rightarrow> 'c \<Rightarrow> 'v set" where
  "supporters M peer st e c =
     {v \<in> M. \<exists>a \<in> set (acks (st v)). ack_epoch a = e \<and> peer v (ack_link a) = c}"

lemma supporters_voted:
  assumes "\<And>v. v \<in> M \<Longrightarrow> vote_inv (st v)"
  shows "supporters M peer st e c = {v. (if v \<in> M then voted_for (peer v) (st v) e else None) = Some c}"
proof -
  have "voted_for (peer v) (st v) e = Some c \<longleftrightarrow>
      (\<exists>a \<in> set (acks (st v)). ack_epoch a = e \<and> peer v (ack_link a) = c)" if v: "v \<in> M" for v
  proof
    assume "voted_for (peer v) (st v) e = Some c"
    then obtain a where "find (\<lambda>a. ack_epoch a = e) (acks (st v)) = Some a" "peer v (ack_link a) = c"
      by (auto simp: voted_for_def)
    then show "\<exists>a \<in> set (acks (st v)). ack_epoch a = e \<and> peer v (ack_link a) = c"
      by (auto simp: find_Some_iff)
  next
    assume "\<exists>a \<in> set (acks (st v)). ack_epoch a = e \<and> peer v (ack_link a) = c"
    then obtain a where a: "a \<in> set (acks (st v))" "ack_epoch a = e" "peer v (ack_link a) = c" by blast
    then obtain b where b: "find (\<lambda>a. ack_epoch a = e) (acks (st v)) = Some b"
      by (cases "find (\<lambda>a. ack_epoch a = e) (acks (st v))") (auto simp: find_None_iff)
    then have "b \<in> set (acks (st v))" "ack_epoch b = e" by (auto simp: find_Some_iff)
    then have "b = a" using vote_inv_unique [OF assms [OF v]] a by blast
    then show "voted_for (peer v) (st v) e = Some c" using a b by (simp add: voted_for_def)
  qed
  then show ?thesis by (auto simp: supporters_def)
qed

lemma supporters_unique:
  assumes inv: "\<And>v. v \<in> M \<Longrightarrow> vote_inv (st v)"
    and q: "voter_quorum M (supporters M peer st e c)" "voter_quorum M (supporters M peer st e d)"
  shows "c = d"
proof -
  define vote where "vote v = (if v \<in> M then voted_for (peer v) (st v) e else None)" for v
  have "supporters M peer st e x = {v. vote v = Some x}" for x
    unfolding vote_def by (rule supporters_voted) (rule inv)
  then show ?thesis using q voters.one_winner [of M vote c d] by simp
qed

end
