(* ===== verification/ClusterWire.thy ===== *)
theory ClusterWire
  imports Bytes ClusterPacket ClusterFile
begin

text \<open>
  The packets of the cluster bus as bytes (\<open>cluster.h\<close>): the layout of \<open>clusterMsg\<close> with
  its integers in the order of the network, how it is written and how it is read.
\<close>

section \<open>Writing\<close>

text \<open>A string in an array of \<open>n\<close> characters that was cleared before.\<close>

definition padded :: "nat \<Rightarrow> bytes \<Rightarrow> bytes" where
  "padded n s = take n (s @ replicate n 0)"

definition encode_gossip :: "clusterMsgDataGossip \<Rightarrow> bytes" where
  "encode_gossip g =
     g_nodename g @ be_bytes 4 (uint (g_ping_sent g)) @ be_bytes 4 (uint (g_pong_received g)) @
     padded NET_IP_STR_LEN (g_ip g) @ be_bytes 2 (uint (g_port g)) @ be_bytes 2 (uint (g_cport g)) @
     be_bytes 2 (uint (g_flags g)) @ replicate 4 0"

text \<open>The identifier of a module is sent as it is in memory.\<close>

fun encode_data :: "clusterMsgData \<Rightarrow> bytes" where
  "encode_data NoData = []"
| "encode_data (PingData gs) = concat (map encode_gossip gs)"
| "encode_data (FailData nm) = nm"
| "encode_data (PublishData channel_len message_len bulk) =
     be_bytes 4 (uint channel_len) @ be_bytes 4 (uint message_len) @ bulk"
| "encode_data (UpdateData e nm claimed) = be_bytes 8 (uint e) @ nm @ claimed"
| "encode_data (ModuleData module_id len type payload) =
     le_bytes 8 (uint module_id) @ be_bytes 4 (uint len) @ type # payload"

definition encode_header :: "clusterMsg \<Rightarrow> bytes" where
  "encode_header m =
     str ''RCmb'' @ be_bytes 4 (uint (h_totlen m)) @ be_bytes 2 (uint (h_ver m)) @
     be_bytes 2 (uint (h_port m)) @ be_bytes 2 (int (h_type m)) @ be_bytes 2 (uint (h_count m)) @
     be_bytes 8 (uint (h_currentEpoch m)) @ be_bytes 8 (uint (h_configEpoch m)) @
     be_bytes 8 (uint (h_offset m)) @ h_sender m @ h_myslots m @ h_slaveof m @
     padded NET_IP_STR_LEN (h_myip m) @ replicate 34 0 @ be_bytes 2 (uint (h_cport m)) @
     be_bytes 2 (uint (h_flags m)) @ [h_state m, h_mflags0 m, 0, 0]"

definition encode_msg :: "clusterMsg \<Rightarrow> bytes" where
  "encode_msg m = encode_header m @ encode_data (h_data m)"

section \<open>Reading\<close>

definition field :: "nat \<Rightarrow> nat \<Rightarrow> bytes \<Rightarrow> bytes" where
  "field i n bs = take n (drop i bs)"

definition net_field :: "nat \<Rightarrow> nat \<Rightarrow> bytes \<Rightarrow> int" where
  "net_field i n bs = be_uint (field i n bs)"

definition msg_totlen :: "bytes \<Rightarrow> u32" where
  "msg_totlen bs = word_of_int (net_field 4 4 bs)"

definition decode_gossip :: "bytes \<Rightarrow> clusterMsgDataGossip" where
  "decode_gossip bs =
     \<lparr>g_nodename = field 0 40 bs, g_ping_sent = word_of_int (net_field 40 4 bs),
      g_pong_received = word_of_int (net_field 44 4 bs), g_ip = cstr (field 48 46 bs),
      g_port = word_of_int (net_field 94 2 bs), g_cport = word_of_int (net_field 96 2 bs),
      g_flags = word_of_int (net_field 98 2 bs)\<rparr>"

definition decode_data :: "nat \<Rightarrow> nat \<Rightarrow> bytes \<Rightarrow> clusterMsgData" where
  "decode_data type count d =
     (if is_ping_type type then PingData (map (\<lambda>i. decode_gossip (field (i * 104) 104 d)) [0..<count])
      else if type = CLUSTERMSG_TYPE_FAIL then FailData (field 0 40 d)
      else if type = CLUSTERMSG_TYPE_PUBLISH
      then PublishData (word_of_int (net_field 0 4 d)) (word_of_int (net_field 4 4 d)) (drop 8 d)
      else if type = CLUSTERMSG_TYPE_UPDATE
      then UpdateData (word_of_int (net_field 0 8 d)) (field 8 40 d) (field 48 2048 d)
      else if type = CLUSTERMSG_TYPE_MODULE
      then ModuleData (word_of_int (le_uint (field 0 8 d))) (word_of_int (net_field 8 4 d))
             (hd (drop 12 d @ [0])) (drop 13 d)
      else NoData)"

definition decode_msg :: "bytes \<Rightarrow> clusterMsg" where
  "decode_msg bs =
     \<lparr>h_totlen = msg_totlen bs, h_ver = word_of_int (net_field 8 2 bs), h_port = word_of_int (net_field 10 2 bs),
      h_type = nat (net_field 12 2 bs), h_count = word_of_int (net_field 14 2 bs),
      h_currentEpoch = word_of_int (net_field 16 8 bs), h_configEpoch = word_of_int (net_field 24 8 bs),
      h_offset = word_of_int (net_field 32 8 bs), h_sender = field 40 40 bs, h_myslots = field 80 2048 bs,
      h_slaveof = field 2128 40 bs, h_myip = cstr (field 2168 46 bs), h_cport = word_of_int (net_field 2248 2 bs),
      h_flags = word_of_int (net_field 2250 2 bs), h_state = hd (drop 2252 bs @ [0]),
      h_mflags0 = hd (drop 2253 bs @ [0]),
      h_data = decode_data (nat (net_field 12 2 bs)) (nat (net_field 14 2 bs)) (drop 2256 bs)\<rparr>"

text \<open>
  \<open>clusterProcessPacket\<close> reads the type of a packet, and its length check the lengths in a
  PUBLISH or MODULE packet, before it knows that the packet has room for them. The bytes
  behind the packet may belong to the buffer, but they hold no defined value.
\<close>

definition reads_beyond :: "bytes \<Rightarrow> bool" where
  "reads_beyond bs \<longleftrightarrow> length bs < 14 \<or> h_ver (decode_msg bs) = CLUSTER_PROTO_VER \<and>
     (h_type (decode_msg bs) = CLUSTERMSG_TYPE_PUBLISH \<and> length bs < 2264 \<or>
      h_type (decode_msg bs) = CLUSTERMSG_TYPE_MODULE \<and> length bs < 2268)"

definition process_bytes :: "laddr \<Rightarrow> bytes \<Rightarrow> server \<Rightarrow> (int \<times> server) option" where
  "process_bytes l bs s = (if reads_beyond bs then None else clusterProcessPacket l (decode_msg bs) s)"

section \<open>What was written is read\<close>

definition ip_ok :: "bytes \<Rightarrow> bool" where
  "ip_ok a \<longleftrightarrow> length a < NET_IP_STR_LEN \<and> 0 \<notin> set a"

definition gossip_ok :: "clusterMsgDataGossip \<Rightarrow> bool" where
  "gossip_ok g \<longleftrightarrow> length (g_nodename g) = CLUSTER_NAMELEN \<and> ip_ok (g_ip g)"

text \<open>The data is the member that the type selects, with arrays of the right length.\<close>

definition data_ok :: "clusterMsg \<Rightarrow> bool" where
  "data_ok m \<longleftrightarrow>
     (case h_data m of
        PingData gs \<Rightarrow> is_ping_type (h_type m) \<and> length gs = unat (h_count m) \<and> list_all gossip_ok gs
      | FailData nm \<Rightarrow> h_type m = CLUSTERMSG_TYPE_FAIL \<and> length nm = CLUSTER_NAMELEN
      | PublishData _ _ _ \<Rightarrow> h_type m = CLUSTERMSG_TYPE_PUBLISH
      | UpdateData _ nm claimed \<Rightarrow>
          h_type m = CLUSTERMSG_TYPE_UPDATE \<and> length nm = CLUSTER_NAMELEN \<and> length claimed = CLUSTER_SLOTS div 8
      | ModuleData _ _ _ _ \<Rightarrow> h_type m = CLUSTERMSG_TYPE_MODULE
      | NoData \<Rightarrow> \<not> is_ping_type (h_type m) \<and> h_type m \<notin> {CLUSTERMSG_TYPE_FAIL, CLUSTERMSG_TYPE_PUBLISH,
          CLUSTERMSG_TYPE_UPDATE, CLUSTERMSG_TYPE_MODULE})"

definition wire_ok :: "clusterMsg \<Rightarrow> bool" where
  "wire_ok m \<longleftrightarrow> length (h_sender m) = CLUSTER_NAMELEN \<and> length (h_myslots m) = CLUSTER_SLOTS div 8 \<and>
     length (h_slaveof m) = CLUSTER_NAMELEN \<and> ip_ok (h_myip m) \<and> h_type m < 2 ^ 16 \<and> data_ok m \<and>
     h_totlen m = of_nat (length (encode_msg m)) \<and> length (encode_msg m) < 2 ^ 32"

lemma length_padded [simp]: "length (padded n s) = n"
  by (simp add: padded_def)

lemma cstr_padded: "ip_ok a \<Longrightarrow> cstr (padded NET_IP_STR_LEN a) = a"
proof -
  assume a: "ip_ok a"
  then have "padded NET_IP_STR_LEN a = a @ 0 # replicate (NET_IP_STR_LEN - length a - 1) 0"
    by (simp add: padded_def ip_ok_def replicate_Suc [symmetric] Suc_diff_Suc del: replicate_Suc)
  moreover have "takeWhile (\<lambda>b. b \<noteq> 0) (a @ 0 # r) = a" for r
    using a by (subst takeWhile_append2) (auto simp: ip_ok_def)
  ultimately show ?thesis by (simp add: cstr_def)
qed

lemma length_encode_gossip: "gossip_ok g \<Longrightarrow> length (encode_gossip g) = 104"
  by (simp add: encode_gossip_def gossip_ok_def CLUSTER_NAMELEN_def NET_IP_STR_LEN_def)

lemma decode_encode_gossip: "gossip_ok g \<Longrightarrow> decode_gossip (encode_gossip g) = g"
  using cstr_padded [of "g_ip g"]
  by (simp add: decode_gossip_def encode_gossip_def field_def net_field_def gossip_ok_def CLUSTER_NAMELEN_def NET_IP_STR_LEN_def)

lemma field_concat:
  "list_all (\<lambda>x. length (f x) = e) xs \<Longrightarrow> i < length xs \<Longrightarrow> field (i * e) e (concat (map f xs)) = f (xs ! i)"
proof (induction xs arbitrary: i)
  case (Cons x xs)
  then show ?case by (cases i) (simp_all add: field_def)
qed simp

lemma length_encode_header: "wire_ok m \<Longrightarrow> length (encode_header m) = 2256"
  by (simp add: encode_header_def wire_ok_def CLUSTER_NAMELEN_def CLUSTER_SLOTS_def NET_IP_STR_LEN_def str_def)

lemma decode_encode_data:
  assumes "data_ok m"
  shows "decode_data (h_type m) (unat (h_count m)) (encode_data (h_data m)) = h_data m"
proof (cases "h_data m")
  case (PingData gs)
  then have gs: "is_ping_type (h_type m)" "unat (h_count m) = length gs" "list_all gossip_ok gs"
    using assms by (simp_all add: data_ok_def)
  then have "list_all (\<lambda>x. length (encode_gossip x) = 104) gs" by (auto simp: list_all_iff length_encode_gossip)
  then have "map (\<lambda>i. decode_gossip (field (i * 104) 104 (encode_data (PingData gs)))) [0..<length gs] = gs"
    using gs(3) by (intro nth_equalityI) (simp_all add: field_concat list_all_length decode_encode_gossip)
  then show ?thesis using gs PingData by (simp add: decode_data_def)
qed (use assms in \<open>simp_all add: data_ok_def decode_data_def is_ping_type_def msgtype_defs field_def net_field_def
    CLUSTER_NAMELEN_def CLUSTER_SLOTS_def\<close>)


lemma decode_encode_msg:
  assumes ok: "wire_ok m"
  shows "decode_msg (encode_msg m) = m"
proof -
  have len: "length (h_sender m) = 40" "length (h_myslots m) = 2048" "length (h_slaveof m) = 40" "h_type m < 65536"
    using ok by (simp_all add: wire_ok_def CLUSTER_NAMELEN_def CLUSTER_SLOTS_def)
  note f = encode_msg_def encode_header_def field_def net_field_def msg_totlen_def NET_IP_STR_LEN_def
  let ?b = "encode_msg m"
  have str: "length (str ''RCmb'') = 4" by (simp add: str_def)
  have type: "nat (net_field 12 2 ?b) = h_type m" using len str by (simp add: f be_uint_be_bytes)
  have count: "nat (net_field 14 2 ?b) = unat (h_count m)"
    using len str uint_lt2p [of "h_count m"] by (simp add: f be_uint_be_bytes)
  have ip: "cstr (field 2168 46 ?b) = h_myip m"
  proof -
    have "field 2168 46 ?b = padded NET_IP_STR_LEN (h_myip m)" using len str by (simp add: f)
    then show ?thesis using cstr_padded ok by (simp add: wire_ok_def)
  qed
  have data: "drop 2256 ?b = encode_data (h_data m)"
    using length_encode_header [OF ok] by (simp add: encode_msg_def)
  have "decode_data (h_type m) (unat (h_count m)) (encode_data (h_data m)) = h_data m"
    using ok by (intro decode_encode_data) (simp add: wire_ok_def)
  moreover have "msg_totlen ?b = h_totlen m" "word_of_int (net_field 8 2 ?b) = h_ver m" "word_of_int (net_field 10 2 ?b) = h_port m"
    "word_of_int (net_field 14 2 ?b) = h_count m" "word_of_int (net_field 16 8 ?b) = h_currentEpoch m"
    "word_of_int (net_field 24 8 ?b) = h_configEpoch m" "word_of_int (net_field 32 8 ?b) = h_offset m"
    "field 40 40 ?b = h_sender m" "field 80 2048 ?b = h_myslots m" "field 2128 40 ?b = h_slaveof m"
    "word_of_int (net_field 2248 2 ?b) = h_cport m" "word_of_int (net_field 2250 2 ?b) = h_flags m"
    "hd (drop 2252 ?b @ [0]) = h_state m" "hd (drop 2253 ?b @ [0]) = h_mflags0 m"
    using len str by (simp_all add: f)
  ultimately show ?thesis
    unfolding decode_msg_def type count ip data by (intro clusterMsg.equality) simp_all
qed

lemma encode_reads:
  assumes "wire_ok m"
  shows "\<not> reads_beyond (encode_msg m)" and "process_bytes l (encode_msg m) s = clusterProcessPacket l m s"
proof -
  have "length (encode_msg m) = 2256 + length (encode_data (h_data m))"
    using length_encode_header [OF assms] by (simp add: encode_msg_def)
  moreover have "h_type m = CLUSTERMSG_TYPE_PUBLISH \<Longrightarrow> 8 \<le> length (encode_data (h_data m))"
    "h_type m = CLUSTERMSG_TYPE_MODULE \<Longrightarrow> 12 \<le> length (encode_data (h_data m))"
    using assms by (cases "h_data m"; simp add: wire_ok_def data_ok_def is_ping_type_def msgtype_defs)+
  ultimately show "\<not> reads_beyond (encode_msg m)"
    using decode_encode_msg [OF assms] by (auto simp: reads_beyond_def)
  then show "process_bytes l (encode_msg m) s = clusterProcessPacket l m s"
    using decode_encode_msg [OF assms] by (simp add: process_bytes_def)
qed

end
