(* ===== verification/ClusterLink.thy ===== *)
theory ClusterLink
  imports ClusterWire ClusterCron Sds
begin

text \<open>
  The links of the cluster bus (\<open>cluster.c\<close>): connections that are accepted, the send buffer
  that is written piece by piece, and the receive buffer that is filled until it holds a
  packet, which is then processed. What the sockets do is an argument.
\<close>

section \<open>Accepting\<close>

definition MAX_CLUSTER_ACCEPTS_PER_CALL :: nat where "MAX_CLUSTER_ACCEPTS_PER_CALL = 1000"

text \<open>\<open>pending\<close> connections wait to be accepted; \<open>loading\<close> is \<open>server.loading\<close>.\<close>

definition clusterAcceptHandler :: "bool \<Rightarrow> nat \<Rightarrow> server \<Rightarrow> server" where
  "clusterAcceptHandler loading pending s =
     (if masterhost s = None \<and> loading then s
      else fold (\<lambda>_ s. snd (createClusterLink None s)) [0..<min pending MAX_CLUSTER_ACCEPTS_PER_CALL] s)"

section \<open>Sending\<close>

text \<open>The send buffer of a link and whether the write handler is installed.\<close>

record sending =
  sndbuf :: bytes
  writable :: bool

definition clusterSendBytes :: "bytes \<Rightarrow> sending \<Rightarrow> sending" where
  "clusterSendBytes msg lk =
     \<lparr>sndbuf = sndbuf lk @ msg, writable = (if sndbuf lk = [] \<and> msg \<noteq> [] then True else writable lk)\<rparr>"

text \<open>\<open>nwritten\<close> is what \<open>write\<close> returns: the bytes that it took, which go to the peer.\<close>

definition clusterWriteHandler :: "int \<Rightarrow> laddr \<Rightarrow> sending \<Rightarrow> server \<Rightarrow> bytes \<times> sending option \<times> server" where
  "clusterWriteHandler nwritten l lk s =
     (if nwritten \<le> 0 then ([], None, freeClusterLink l s)
      else
        let buf = sdsrange (sndbuf lk) nwritten (-1)
        in (take (nat nwritten) (sndbuf lk),
            Some \<lparr>sndbuf = buf, writable = (if buf = [] then False else writable lk)\<rparr>, s))"

section \<open>Receiving\<close>

text \<open>
  What arrives at a socket: bytes, a moment with nothing to read, or the loss of the connection. A call of
  \<open>read\<close> takes no more than one segment. Reading no bytes counts as an error.
\<close>

datatype arrival = Segment bytes | Again | Lost

datatype reading = NotReady | Broken | Got bytes

fun sock_read :: "nat \<Rightarrow> arrival list \<Rightarrow> reading \<times> arrival list" where
  "sock_read n [] = (NotReady, [])"
| "sock_read n (Again # inp) = (NotReady, inp)"
| "sock_read n (Lost # inp) = (Broken, inp)"
| "sock_read n (Segment bs # inp) =
     (if n = 0 \<or> bs = [] then (Broken, inp)
      else (Got (take n bs), if length bs \<le> n then inp else Segment (drop n bs) # inp))"

definition sizeof_clusterMsg :: u32 where "sizeof_clusterMsg = 4352"

text \<open>The check of the first eight bytes.\<close>

definition bad_start :: "bytes \<Rightarrow> bool" where
  "bad_start bs \<longleftrightarrow> take 4 bs \<noteq> str ''RCmb'' \<or> msg_totlen bs < CLUSTERMSG_MIN_LEN"

definition bytes_wanted :: "bytes \<Rightarrow> u32" where
  "bytes_wanted rcvbuf =
     (let rcvbuflen = of_nat (length rcvbuf) :: u32
      in if rcvbuflen < 8 then 8 - rcvbuflen
         else let readlen = msg_totlen rcvbuf - rcvbuflen
              in if readlen > sizeof_clusterMsg then sizeof_clusterMsg else readlen)"

definition arrival_size :: "arrival list \<Rightarrow> nat" where
  "arrival_size inp = sum_list (map (\<lambda>a. case a of Segment bs \<Rightarrow> Suc (length bs) | _ \<Rightarrow> 1) inp)"

lemma sock_read_size: "sock_read n inp = (r, inp') \<Longrightarrow> inp \<noteq> [] \<Longrightarrow> arrival_size inp' < arrival_size inp"
  by (induction n inp rule: sock_read.induct) (auto simp: arrival_size_def split: if_splits)

text \<open>
  The handler returns the receive buffer, or none if the link was freed; the whole is \<open>None\<close>
  if a packet makes the node crash.
\<close>

function clusterReadHandler :: "laddr \<Rightarrow> bytes \<Rightarrow> arrival list \<Rightarrow> server \<Rightarrow> (bytes option \<times> arrival list \<times> server) option" where
  "clusterReadHandler l rcvbuf inp s =
     (if (of_nat (length rcvbuf) :: u32) = 8 \<and> bad_start rcvbuf then Some (None, inp, freeClusterLink l s)
      else
        case sock_read (unat (bytes_wanted rcvbuf)) inp of
          (NotReady, inp') \<Rightarrow> Some (Some rcvbuf, inp', s)
        | (Broken, inp') \<Rightarrow> Some (None, inp', freeClusterLink l s)
        | (Got bs, inp') \<Rightarrow>
            let rcvbuf = rcvbuf @ bs; rcvbuflen = of_nat (length rcvbuf) :: u32
            in if rcvbuflen \<ge> 8 \<and> rcvbuflen = msg_totlen rcvbuf
               then (case process_bytes l rcvbuf s of
                       None \<Rightarrow> None
                     | Some (r, s) \<Rightarrow> if r \<noteq> 0 then clusterReadHandler l [] inp' s else Some (None, inp', s))
               else clusterReadHandler l rcvbuf inp' s)"
  by pat_completeness auto
termination
proof (relation "measure (\<lambda>(l, rcvbuf, inp, s). arrival_size inp)", goal_cases)
  case 1
  then show ?case by simp
next
  case (2 l rcvbuf inp s)
  then show ?case using sock_read_size by (cases inp) (auto dest!: sym [where t = "sock_read _ _"])
next
  case (3 l rcvbuf inp s)
  then show ?case using sock_read_size by (cases inp) (auto dest!: sym [where t = "sock_read _ _"])
qed

declare clusterReadHandler.simps [simp del]


section \<open>The packets of a stream\<close>

text \<open>
  What the bytes of a connection mean, however they arrive: packet after packet. A packet that
  announces eight bytes is processed before its signature and length are checked, and its
  type is then read outside the buffer.
\<close>

function deliver :: "laddr \<Rightarrow> bytes \<Rightarrow> server \<Rightarrow> (bytes option \<times> server) option" where
  "deliver l bs s =
     (if length bs < 8 then Some (Some bs, s)
      else if msg_totlen bs = 8 then None
      else if bad_start bs then Some (None, freeClusterLink l s)
      else if length bs < unat (msg_totlen bs) then Some (Some bs, s)
      else case process_bytes l (take (unat (msg_totlen bs)) bs) s of
             None \<Rightarrow> None
           | Some (r, s) \<Rightarrow> if r \<noteq> 0 then deliver l (drop (unat (msg_totlen bs)) bs) s else Some (None, s))"
  by pat_completeness auto
termination
proof (relation "measure (\<lambda>(l, bs, s). length bs)", goal_cases)
  case 1
  then show ?case by simp
next
  case (2 l bs s)
  then have "CLUSTERMSG_MIN_LEN \<le> msg_totlen bs" by (simp add: bad_start_def not_less)
  then have "0 < unat (msg_totlen bs)" by (simp add: word_le_nat_alt CLUSTERMSG_MIN_LEN_def)
  then show ?case using 2 by simp
qed

declare deliver.simps [simp del]

definition stream :: "arrival list \<Rightarrow> bytes" where
  "stream inp = concat (map (\<lambda>a. case a of Segment bs \<Rightarrow> bs | _ \<Rightarrow> []) inp)"

definition orderly :: "arrival list \<Rightarrow> bool" where
  "orderly inp \<longleftrightarrow> list_all (\<lambda>a. case a of Segment bs \<Rightarrow> bs \<noteq> [] | Again \<Rightarrow> True | Lost \<Rightarrow> False) inp"

definition partial :: "bytes \<Rightarrow> bool" where
  "partial rcvbuf \<longleftrightarrow> length rcvbuf < 8 \<or> length rcvbuf = 8 \<and> msg_totlen rcvbuf \<noteq> 8 \<or>
     \<not> bad_start rcvbuf \<and> length rcvbuf < unat (msg_totlen rcvbuf)"

lemma stream_simps [simp]:
  "stream [] = []" "stream (Segment bs # inp) = bs @ stream inp" "stream (Again # inp) = stream inp"
  by (simp_all add: stream_def)

lemma start_append:
  assumes "8 \<le> length p"
  shows "msg_totlen (p @ q) = msg_totlen p" and "bad_start (p @ q) = bad_start p"
proof -
  show m: "msg_totlen (p @ q) = msg_totlen p" using assms by (simp add: msg_totlen_def net_field_def field_def)
  show "bad_start (p @ q) = bad_start p" using assms by (simp add: bad_start_def m)
qed

lemma good_start: "\<not> bad_start bs \<Longrightarrow> 2256 \<le> unat (msg_totlen bs)"
  by (simp add: bad_start_def CLUSTERMSG_MIN_LEN_def not_less word_le_nat_alt)

lemma bytes_wanted_bounds:
  assumes "partial rcvbuf" and "\<not> (length rcvbuf = 8 \<and> bad_start rcvbuf)"
  shows "0 < unat (bytes_wanted rcvbuf)"
    and "length rcvbuf < 8 \<Longrightarrow> length rcvbuf + unat (bytes_wanted rcvbuf) = 8"
    and "8 \<le> length rcvbuf \<Longrightarrow> length rcvbuf + unat (bytes_wanted rcvbuf) \<le> unat (msg_totlen rcvbuf) \<and> \<not> bad_start rcvbuf"
    and "length rcvbuf < 2 ^ 32"
proof -
  have lim: "unat (msg_totlen rcvbuf) < 2 ^ 32" using unsigned_less [of "msg_totlen rcvbuf"] by simp
  show len: "length rcvbuf < 2 ^ 32" using assms(1) lim by (auto simp: partial_def)
  then have n: "unat (of_nat (length rcvbuf) :: u32) = length rcvbuf" by (simp add: unat_of_nat)
  have "0 < unat (bytes_wanted rcvbuf) \<and> (length rcvbuf < 8 \<longrightarrow> length rcvbuf + unat (bytes_wanted rcvbuf) = 8) \<and>
    (8 \<le> length rcvbuf \<longrightarrow> length rcvbuf + unat (bytes_wanted rcvbuf) \<le> unat (msg_totlen rcvbuf) \<and> \<not> bad_start rcvbuf)"
  proof (cases "length rcvbuf < 8")
    case True
    then have "(of_nat (length rcvbuf) :: u32) < 8" by (simp add: word_less_nat_alt n)
    moreover from this have "unat (8 - of_nat (length rcvbuf) :: u32) = 8 - length rcvbuf"
      by (subst unat_sub) (simp_all add: n word_less_nat_alt word_le_nat_alt)
    ultimately show ?thesis using True by (simp add: bytes_wanted_def)
  next
    case False
    then have good: "\<not> bad_start rcvbuf" "length rcvbuf < unat (msg_totlen rcvbuf)"
      using assms good_start [of rcvbuf] by (auto simp: partial_def)
    then have "unat (msg_totlen rcvbuf - of_nat (length rcvbuf)) = unat (msg_totlen rcvbuf) - length rcvbuf"
      by (subst unat_sub) (simp_all add: n word_le_nat_alt)
    moreover have "\<not> (of_nat (length rcvbuf) :: u32) < 8" using False by (simp add: word_less_nat_alt n)
    ultimately show ?thesis
      using False good by (simp add: bytes_wanted_def Let_def sizeof_clusterMsg_def word_less_nat_alt) arith
  qed
  then show "0 < unat (bytes_wanted rcvbuf)" "length rcvbuf < 8 \<Longrightarrow> length rcvbuf + unat (bytes_wanted rcvbuf) = 8"
    "8 \<le> length rcvbuf \<Longrightarrow> length rcvbuf + unat (bytes_wanted rcvbuf) \<le> unat (msg_totlen rcvbuf) \<and> \<not> bad_start rcvbuf" by auto
qed

lemma sock_read_orderly:
  assumes "orderly inp" and "0 < n" and "sock_read n inp = (r, inp')"
  shows "orderly inp' \<and> (r = NotReady \<and> stream inp = stream inp' \<or>
    (\<exists>bs. r = Got bs \<and> stream inp = bs @ stream inp' \<and> bs \<noteq> [] \<and> length bs \<le> n))"
  using assms by (induction n inp rule: sock_read.induct) (auto simp: orderly_def split: if_splits)


text \<open>A call of the handler processes what is complete and leaves the rest for the next calls.\<close>

definition leaves :: "nat \<Rightarrow> laddr \<Rightarrow> (bytes option \<times> server) option \<Rightarrow> (bytes option \<times> arrival list \<times> server) option \<Rightarrow> bool" where
  "leaves k l d r =
     (case r of
        None \<Rightarrow> d = None
      | Some (None, inp, t) \<Rightarrow> d = Some (None, t)
      | Some (Some buf, inp, t) \<Rightarrow> d = deliver l (buf @ stream inp) t \<and> partial buf \<and>
          \<not> (length buf = 8 \<and> bad_start buf) \<and> orderly inp \<and> arrival_size inp \<le> k)"

lemma leaves_mono: "leaves k l d r \<Longrightarrow> k \<le> k' \<Longrightarrow> leaves k' l d r"
  by (auto simp: leaves_def split: option.splits prod.splits)

lemma leaves_simps [simp]:
  "leaves k l None None" "leaves k l (Some (None, t)) (Some (None, inp, t))"
  "leaves k l (deliver l (buf @ stream inp) t) (Some (Some buf, inp, t)) \<longleftrightarrow>
     partial buf \<and> \<not> (length buf = 8 \<and> bad_start buf) \<and> orderly inp \<and> arrival_size inp \<le> k"
  by (auto simp: leaves_def)

lemma totlen_less: "unat (msg_totlen b) < 2 ^ 32"
  using unsigned_less [of "msg_totlen b"] by simp

lemma partial_length: "partial rcvbuf \<Longrightarrow> length rcvbuf < 2 ^ 32"
  using totlen_less [of rcvbuf] by (auto simp: partial_def)

text \<open>The next read, with the lengths as natural numbers.\<close>

lemma read_step:
  assumes "partial rcvbuf" and "\<not> (length rcvbuf = 8 \<and> bad_start rcvbuf)" and "orderly inp"
    and r: "sock_read (unat (bytes_wanted rcvbuf)) inp = (Got bs, inp')"
  shows "clusterReadHandler l rcvbuf inp s =
      (if 8 \<le> length (rcvbuf @ bs) \<and> length (rcvbuf @ bs) = unat (msg_totlen (rcvbuf @ bs))
       then (case process_bytes l (rcvbuf @ bs) s of None \<Rightarrow> None
             | Some (r, s) \<Rightarrow> if r \<noteq> 0 then clusterReadHandler l [] inp' s else Some (None, inp', s))
       else clusterReadHandler l (rcvbuf @ bs) inp' s)"
    and "length (rcvbuf @ bs) \<le> 8 \<or> length (rcvbuf @ bs) \<le> unat (msg_totlen (rcvbuf @ bs)) \<and> \<not> bad_start (rcvbuf @ bs)"
    and "rcvbuf @ stream inp = (rcvbuf @ bs) @ stream inp'" and "orderly inp'" and "arrival_size inp' < arrival_size inp"
proof -
  note w = bytes_wanted_bounds [OF assms(1,2)]
  have o: "orderly inp'" "stream inp = bs @ stream inp'" "bs \<noteq> []" "length bs \<le> unat (bytes_wanted rcvbuf)"
    using sock_read_orderly [OF assms(3) w(1) r] by auto
  then show "rcvbuf @ stream inp = (rcvbuf @ bs) @ stream inp'" "orderly inp'" by simp_all
  have "inp \<noteq> []" using o(2,3) by auto
  then show "arrival_size inp' < arrival_size inp" using sock_read_size [OF r] by simp
  define buf where "buf = rcvbuf @ bs"
  have blim: "length buf \<le> 8 \<or> length buf \<le> unat (msg_totlen buf) \<and> \<not> bad_start buf"
    using w(2,3) o(4) start_append [of rcvbuf bs] by (cases "length rcvbuf < 8") (auto simp: buf_def)
  then show "length (rcvbuf @ bs) \<le> 8 \<or> length (rcvbuf @ bs) \<le> unat (msg_totlen (rcvbuf @ bs)) \<and> \<not> bad_start (rcvbuf @ bs)"
    by (simp only: buf_def)
  have "length buf < 2 ^ 32" using blim totlen_less [of buf] by auto
  then have "unat (of_nat (length buf) :: u32) = length buf" by (simp add: unat_of_nat)
  then have full: "(of_nat (length buf) :: u32) \<ge> 8 \<and> of_nat (length buf) = msg_totlen buf \<longleftrightarrow>
      8 \<le> length buf \<and> length buf = unat (msg_totlen buf)"
    by (auto simp: word_le_nat_alt word_unat_eq_iff)
  have "unat (of_nat (length rcvbuf) :: u32) = length rcvbuf" using partial_length [OF assms(1)] by (simp add: unat_of_nat)
  then have eight: "(of_nat (length rcvbuf) :: u32) = 8 \<longleftrightarrow> length rcvbuf = 8" by (simp add: word_unat_eq_iff)
  show "clusterReadHandler l rcvbuf inp s =
      (if 8 \<le> length (rcvbuf @ bs) \<and> length (rcvbuf @ bs) = unat (msg_totlen (rcvbuf @ bs))
       then (case process_bytes l (rcvbuf @ bs) s of None \<Rightarrow> None
             | Some (r, s) \<Rightarrow> if r \<noteq> 0 then clusterReadHandler l [] inp' s else Some (None, inp', s))
       else clusterReadHandler l (rcvbuf @ bs) inp' s)"
    unfolding full [unfolded buf_def, symmetric]
    by (subst clusterReadHandler.simps) (simp only: eight assms(2) r if_False prod.case reading.case Let_def)
qed

text \<open>A complete buffer is the first packet of the stream.\<close>

lemma deliver_packet:
  assumes "8 \<le> length buf" and "length buf = unat (msg_totlen buf)" and "length buf \<le> 8 \<or> \<not> bad_start buf"
  shows "deliver l (buf @ bs) s = (case process_bytes l buf s of None \<Rightarrow> None
      | Some (r, s) \<Rightarrow> if r \<noteq> 0 then deliver l bs s else Some (None, s))"
proof (cases "msg_totlen buf = 8")
  case True
  then have "process_bytes l buf s = None" using assms(2) by (simp add: process_bytes_def reads_beyond_def)
  then show ?thesis using True assms start_append [of buf bs] by (subst deliver.simps) simp
next
  case False
  then have "length buf \<noteq> 8" using assms(2) by (auto simp: word_unat_eq_iff)
  then show ?thesis using False assms start_append [of buf bs]
    by (subst deliver.simps) (simp split: option.split)
qed

lemma read_handler_leaves:
  assumes "partial rcvbuf" and "orderly inp"
  shows "leaves (arrival_size inp - 1) l (deliver l (rcvbuf @ stream inp) s) (clusterReadHandler l rcvbuf inp s)"
  using assms
proof (induction "arrival_size inp" arbitrary: rcvbuf inp s rule: less_induct)
  case less
  have eight: "(of_nat (length rcvbuf) :: u32) = 8 \<longleftrightarrow> length rcvbuf = 8"
    using partial_length [OF less.prems(1)] by (simp add: word_unat_eq_iff unat_of_nat)
  show ?case
  proof (cases "length rcvbuf = 8 \<and> bad_start rcvbuf")
    case True
    then have "deliver l (rcvbuf @ stream inp) s = Some (None, freeClusterLink l s)"
      using less.prems(1) start_append [of rcvbuf "stream inp"] good_start by (subst deliver.simps) (auto simp: partial_def)
    then show ?thesis using True eight by (subst clusterReadHandler.simps) simp
  next
    case False
    obtain r inp' where r: "sock_read (unat (bytes_wanted rcvbuf)) inp = (r, inp')" by fastforce
    from sock_read_orderly [OF less.prems(2) bytes_wanted_bounds(1) [OF less.prems(1) False] r]
    consider "r = NotReady" "stream inp = stream inp'" "orderly inp'" | bs where "r = Got bs" by blast
    then show ?thesis
    proof cases
      case 1
      have "arrival_size inp' \<le> arrival_size inp - 1"
        using sock_read_size [OF r] r by (cases "inp = []") (auto simp: arrival_size_def [of "[]"])
      then show ?thesis
        unfolding 1(2) using r 1 False less.prems(1)
        by (subst clusterReadHandler.simps) (simp only: eight if_False prod.case reading.case leaves_simps simp_thms)
    next
      case (2 bs)
      define buf where "buf = rcvbuf @ bs"
      note st = read_step [OF less.prems(1) False less.prems(2) r [unfolded 2], folded buf_def]
      have more: "leaves (arrival_size inp - 1) l (deliver l (b @ stream inp') t) (clusterReadHandler l b inp' t)" if "partial b" for b t
        using leaves_mono [OF less.hyps [OF st(5) that st(4)]] st(5) by simp
      show ?thesis
      proof (cases "8 \<le> length buf \<and> length buf = unat (msg_totlen buf)")
        case True
        have "partial []" by (simp add: partial_def)
        note rest = more [OF this, simplified]
        have d: "deliver l (rcvbuf @ stream inp) s = (case process_bytes l buf s of None \<Rightarrow> None
            | Some (r, s) \<Rightarrow> if r \<noteq> 0 then deliver l (stream inp') s else Some (None, s))"
          unfolding st(3) using st(2) True by (intro deliver_packet) auto
        show ?thesis unfolding st(1) d using True rest by (auto split: option.splits)
      next
        case False
        then have "partial buf" using st(2) by (auto simp: partial_def)
        then show ?thesis unfolding st(1,3) using False more by auto
      qed
    qed
  qed
qed


lemma deliver_partial: "partial buf \<Longrightarrow> \<not> (length buf = 8 \<and> bad_start buf) \<Longrightarrow> deliver l buf s = Some (Some buf, s)"
  using good_start [of buf] by (subst deliver.simps) (auto simp: partial_def)

text \<open>The handler is called as long as something arrives.\<close>

primrec read_calls :: "nat \<Rightarrow> laddr \<Rightarrow> bytes \<Rightarrow> arrival list \<Rightarrow> server \<Rightarrow> (bytes option \<times> server) option" where
  "read_calls 0 l rcvbuf inp s = Some (Some rcvbuf, s)"
| "read_calls (Suc k) l rcvbuf inp s =
     (case clusterReadHandler l rcvbuf inp s of
        None \<Rightarrow> None
      | Some (None, inp', t) \<Rightarrow> Some (None, t)
      | Some (Some buf, inp', t) \<Rightarrow> read_calls k l buf inp' t)"

lemma read_calls_deliver:
  assumes "partial rcvbuf" and "\<not> (length rcvbuf = 8 \<and> bad_start rcvbuf)" and "orderly inp" and "arrival_size inp \<le> k"
  shows "read_calls k l rcvbuf inp s = deliver l (rcvbuf @ stream inp) s"
  using assms
proof (induction k arbitrary: rcvbuf inp s)
  case 0
  then have "inp = []" by (cases inp) (auto simp: arrival_size_def split: arrival.splits)
  then show ?case using 0 deliver_partial by simp
next
  case (Suc k)
  have step: "leaves (arrival_size inp - 1) l (deliver l (rcvbuf @ stream inp) s) (clusterReadHandler l rcvbuf inp s)"
    using Suc.prems by (intro read_handler_leaves)
  show ?case
  proof (cases "clusterReadHandler l rcvbuf inp s")
    case None
    then show ?thesis using step by (simp add: leaves_def)
  next
    case (Some p)
    obtain b inp' t where p: "p = (b, inp', t)" by (cases p)
    show ?thesis
    proof (cases b)
      case None
      then show ?thesis using step Some p by (simp add: leaves_def)
    next
      case b: (Some buf)
      then have "deliver l (rcvbuf @ stream inp) s = deliver l (buf @ stream inp') t" "partial buf"
        "\<not> (length buf = 8 \<and> bad_start buf)" "orderly inp'" "arrival_size inp' \<le> k"
        using step Some p Suc.prems(4) by (auto simp: leaves_def)
      then show ?thesis using Suc.IH [of buf inp' t] Some p b by simp
    qed
  qed
qed

section \<open>From one node to another\<close>

fun receive :: "laddr \<Rightarrow> clusterMsg list \<Rightarrow> server \<Rightarrow> (bytes option \<times> server) option" where
  "receive l [] s = Some (Some [], s)"
| "receive l (m # ms) s =
     (case clusterProcessPacket l m s of
        None \<Rightarrow> None
      | Some (r, s) \<Rightarrow> if r \<noteq> 0 then receive l ms s else Some (None, s))"

lemma deliver_messages:
  assumes "list_all wire_ok ms"
  shows "deliver l (concat (map encode_msg ms)) s = receive l ms s"
  using assms
proof (induction ms arbitrary: s)
  case Nil
  then show ?case by (subst deliver.simps) simp
next
  case (Cons m ms)
  then have m: "wire_ok m" by simp
  let ?b = "encode_msg m"
  have "msg_totlen ?b = h_totlen (decode_msg ?b)" by (simp add: decode_msg_def)
  also have "\<dots> = of_nat (length ?b)" using decode_encode_msg [OF m] m by (simp add: wire_ok_def)
  finally have t: "msg_totlen ?b = of_nat (length ?b)" .
  then have len: "length ?b = unat (msg_totlen ?b)" using m by (simp add: wire_ok_def unat_of_nat)
  have long: "2256 \<le> length ?b" using length_encode_header [OF m] by (simp add: encode_msg_def)
  have "take 4 ?b = str ''RCmb''" by (simp add: encode_msg_def encode_header_def str_def)
  then have "\<not> bad_start ?b" using long len by (simp add: bad_start_def CLUSTERMSG_MIN_LEN_def word_less_nat_alt)
  then have "deliver l (?b @ concat (map encode_msg ms)) s = (case process_bytes l ?b s of None \<Rightarrow> None
      | Some (r, s) \<Rightarrow> if r \<noteq> 0 then deliver l (concat (map encode_msg ms)) s else Some (None, s))"
    using len long by (intro deliver_packet) auto
  then show ?case using Cons encode_reads(2) [OF m] by (simp split: option.split)
qed

text \<open>At the sending end messages are queued and, when the handler is installed, written as far as the socket takes them.\<close>

datatype send_event = Queue bytes | Writable nat

fun send_step :: "laddr \<Rightarrow> send_event \<Rightarrow> bytes \<times> sending option \<times> server \<Rightarrow> bytes \<times> sending option \<times> server" where
  "send_step l e (w, None, s) = (w, None, s)"
| "send_step l (Queue msg) (w, Some lk, s) = (w, Some (clusterSendBytes msg lk), s)"
| "send_step l (Writable n) (w, Some lk, s) =
     (if writable lk
      then let (out, lk, s) = clusterWriteHandler (int (min n (length (sndbuf lk)))) l lk s in (w @ out, lk, s)
      else (w, Some lk, s))"

definition queued :: "send_event list \<Rightarrow> bytes" where
  "queued es = concat (map (\<lambda>e. case e of Queue msg \<Rightarrow> msg | Writable n \<Rightarrow> []) es)"

lemma sdsrange_rest: "0 < n \<Longrightarrow> n \<le> length buf \<Longrightarrow> sdsrange buf (int n) (-1) = drop n buf"
  by (cases "n = length buf") (auto simp: sdsrange_def Let_def)

lemma send_step_order:
  assumes "send_step l e (w0, Some lk0, s0) = (w, Some lk, s)" and "writable lk0 \<longleftrightarrow> sndbuf lk0 \<noteq> []"
  shows "w @ sndbuf lk = w0 @ sndbuf lk0 @ queued [e] \<and> (writable lk \<longleftrightarrow> sndbuf lk \<noteq> [])"
proof (cases e)
  case (Queue msg)
  then show ?thesis using assms by (auto simp: clusterSendBytes_def queued_def)
next
  case (Writable n)
  define k where "k = min n (length (sndbuf lk0))"
  show ?thesis
  proof (cases "writable lk0 \<and> 0 < n")
    case True
    then have k: "0 < k" "k \<le> length (sndbuf lk0)" using assms(2) by (simp_all add: k_def)
    then have "(w, Some lk, s) = (w0 @ take k (sndbuf lk0), Some \<lparr>sndbuf = drop k (sndbuf lk0), writable = drop k (sndbuf lk0) \<noteq> []\<rparr>, s0)"
      using assms(1) True Writable sdsrange_rest [OF k] by (auto simp: clusterWriteHandler_def k_def [symmetric] Let_def)
    then show ?thesis using Writable by (simp add: queued_def)
  next
    case False
    then show ?thesis using assms Writable by (auto simp: clusterWriteHandler_def queued_def split: if_splits)
  qed
qed

lemma sends_in_order:
  assumes "fold (send_step l) es (w0, Some lk0, s0) = (w, Some lk, s)" and "writable lk0 \<longleftrightarrow> sndbuf lk0 \<noteq> []"
  shows "w @ sndbuf lk = w0 @ sndbuf lk0 @ queued es \<and> (writable lk \<longleftrightarrow> sndbuf lk \<noteq> [])"
  using assms
proof (induction es arbitrary: w0 lk0 s0)
  case Nil
  then show ?case by (simp add: queued_def)
next
  case (Cons e es)
  have dead: "fold (send_step l) es (x, None, y) = (x, None, y)" for x y by (induction es) simp_all
  obtain w1 r s1 where e: "send_step l e (w0, Some lk0, s0) = (w1, r, s1)" using prod_cases3 by blast
  then obtain lk1 where r: "r = Some lk1" using Cons.prems(1) dead by (cases r) auto
  have "w1 @ sndbuf lk1 = w0 @ sndbuf lk0 @ queued [e] \<and> (writable lk1 \<longleftrightarrow> sndbuf lk1 \<noteq> [])"
    using send_step_order [OF e [unfolded r] Cons.prems(2)] .
  moreover have "fold (send_step l) es (w1, Some lk1, s1) = (w, Some lk, s)" using Cons.prems(1) e r by simp
  moreover have "queued (e # es) = queued [e] @ queued es" by (simp add: queued_def)
  ultimately show ?case using Cons.IH [of w1 lk1 s1] by (simp flip: append_assoc)
qed

end
