(* ===== verification/Crc64.thy ===== *)
theory Crc64
  imports Prelude
begin

text \<open>
  The CRC64 of serialised values (\<open>crc64.c\<close>): the table, the byte-at-a-time loop, its
  equivalence with the bit-at-a-time division by the reflected Jones polynomial, and that
  no step loses information, so that a change of one byte always changes the result.
\<close>

definition crc64_tab :: "u64 list" where
  "crc64_tab = [
    0x0000000000000000, 0x7ad870c830358979, 0xf5b0e190606b12f2, 0x8f689158505e9b8b,
    0xc038e5739841b68f, 0xbae095bba8743ff6, 0x358804e3f82aa47d, 0x4f50742bc81f2d04,
    0xab28ecb46814fe75, 0xd1f09c7c5821770c, 0x5e980d24087fec87, 0x24407dec384a65fe,
    0x6b1009c7f05548fa, 0x11c8790fc060c183, 0x9ea0e857903e5a08, 0xe478989fa00bd371,
    0x7d08ff3b88be6f81, 0x07d08ff3b88be6f8, 0x88b81eabe8d57d73, 0xf2606e63d8e0f40a,
    0xbd301a4810ffd90e, 0xc7e86a8020ca5077, 0x4880fbd87094cbfc, 0x32588b1040a14285,
    0xd620138fe0aa91f4, 0xacf86347d09f188d, 0x2390f21f80c18306, 0x594882d7b0f40a7f,
    0x1618f6fc78eb277b, 0x6cc0863448deae02, 0xe3a8176c18803589, 0x997067a428b5bcf0,
    0xfa11fe77117cdf02, 0x80c98ebf2149567b, 0x0fa11fe77117cdf0, 0x75796f2f41224489,
    0x3a291b04893d698d, 0x40f16bccb908e0f4, 0xcf99fa94e9567b7f, 0xb5418a5cd963f206,
    0x513912c379682177, 0x2be1620b495da80e, 0xa489f35319033385, 0xde51839b2936bafc,
    0x9101f7b0e12997f8, 0xebd98778d11c1e81, 0x64b116208142850a, 0x1e6966e8b1770c73,
    0x8719014c99c2b083, 0xfdc17184a9f739fa, 0x72a9e0dcf9a9a271, 0x08719014c99c2b08,
    0x4721e43f0183060c, 0x3df994f731b68f75, 0xb29105af61e814fe, 0xc849756751dd9d87,
    0x2c31edf8f1d64ef6, 0x56e99d30c1e3c78f, 0xd9810c6891bd5c04, 0xa3597ca0a188d57d,
    0xec09088b6997f879, 0x96d1784359a27100, 0x19b9e91b09fcea8b, 0x636199d339c963f2,
    0xdf7adabd7a6e2d6f, 0xa5a2aa754a5ba416, 0x2aca3b2d1a053f9d, 0x50124be52a30b6e4,
    0x1f423fcee22f9be0, 0x659a4f06d21a1299, 0xeaf2de5e82448912, 0x902aae96b271006b,
    0x74523609127ad31a, 0x0e8a46c1224f5a63, 0x81e2d7997211c1e8, 0xfb3aa75142244891,
    0xb46ad37a8a3b6595, 0xceb2a3b2ba0eecec, 0x41da32eaea507767, 0x3b024222da65fe1e,
    0xa2722586f2d042ee, 0xd8aa554ec2e5cb97, 0x57c2c41692bb501c, 0x2d1ab4dea28ed965,
    0x624ac0f56a91f461, 0x1892b03d5aa47d18, 0x97fa21650afae693, 0xed2251ad3acf6fea,
    0x095ac9329ac4bc9b, 0x7382b9faaaf135e2, 0xfcea28a2faafae69, 0x8632586aca9a2710,
    0xc9622c4102850a14, 0xb3ba5c8932b0836d, 0x3cd2cdd162ee18e6, 0x460abd1952db919f,
    0x256b24ca6b12f26d, 0x5fb354025b277b14, 0xd0dbc55a0b79e09f, 0xaa03b5923b4c69e6,
    0xe553c1b9f35344e2, 0x9f8bb171c366cd9b, 0x10e3202993385610, 0x6a3b50e1a30ddf69,
    0x8e43c87e03060c18, 0xf49bb8b633338561, 0x7bf329ee636d1eea, 0x012b592653589793,
    0x4e7b2d0d9b47ba97, 0x34a35dc5ab7233ee, 0xbbcbcc9dfb2ca865, 0xc113bc55cb19211c,
    0x5863dbf1e3ac9dec, 0x22bbab39d3991495, 0xadd33a6183c78f1e, 0xd70b4aa9b3f20667,
    0x985b3e827bed2b63, 0xe2834e4a4bd8a21a, 0x6debdf121b863991, 0x1733afda2bb3b0e8,
    0xf34b37458bb86399, 0x8993478dbb8deae0, 0x06fbd6d5ebd3716b, 0x7c23a61ddbe6f812,
    0x3373d23613f9d516, 0x49aba2fe23cc5c6f, 0xc6c333a67392c7e4, 0xbc1b436e43a74e9d,
    0x95ac9329ac4bc9b5, 0xef74e3e19c7e40cc, 0x601c72b9cc20db47, 0x1ac40271fc15523e,
    0x5594765a340a7f3a, 0x2f4c0692043ff643, 0xa02497ca54616dc8, 0xdafce7026454e4b1,
    0x3e847f9dc45f37c0, 0x445c0f55f46abeb9, 0xcb349e0da4342532, 0xb1eceec59401ac4b,
    0xfebc9aee5c1e814f, 0x8464ea266c2b0836, 0x0b0c7b7e3c7593bd, 0x71d40bb60c401ac4,
    0xe8a46c1224f5a634, 0x927c1cda14c02f4d, 0x1d148d82449eb4c6, 0x67ccfd4a74ab3dbf,
    0x289c8961bcb410bb, 0x5244f9a98c8199c2, 0xdd2c68f1dcdf0249, 0xa7f41839ecea8b30,
    0x438c80a64ce15841, 0x3954f06e7cd4d138, 0xb63c61362c8a4ab3, 0xcce411fe1cbfc3ca,
    0x83b465d5d4a0eece, 0xf96c151de49567b7, 0x76048445b4cbfc3c, 0x0cdcf48d84fe7545,
    0x6fbd6d5ebd3716b7, 0x15651d968d029fce, 0x9a0d8ccedd5c0445, 0xe0d5fc06ed698d3c,
    0xaf85882d2576a038, 0xd55df8e515432941, 0x5a3569bd451db2ca, 0x20ed197575283bb3,
    0xc49581ead523e8c2, 0xbe4df122e51661bb, 0x3125607ab548fa30, 0x4bfd10b2857d7349,
    0x04ad64994d625e4d, 0x7e7514517d57d734, 0xf11d85092d094cbf, 0x8bc5f5c11d3cc5c6,
    0x12b5926535897936, 0x686de2ad05bcf04f, 0xe70573f555e26bc4, 0x9ddd033d65d7e2bd,
    0xd28d7716adc8cfb9, 0xa85507de9dfd46c0, 0x273d9686cda3dd4b, 0x5de5e64efd965432,
    0xb99d7ed15d9d8743, 0xc3450e196da80e3a, 0x4c2d9f413df695b1, 0x36f5ef890dc31cc8,
    0x79a59ba2c5dc31cc, 0x037deb6af5e9b8b5, 0x8c157a32a5b7233e, 0xf6cd0afa9582aa47,
    0x4ad64994d625e4da, 0x300e395ce6106da3, 0xbf66a804b64ef628, 0xc5bed8cc867b7f51,
    0x8aeeace74e645255, 0xf036dc2f7e51db2c, 0x7f5e4d772e0f40a7, 0x05863dbf1e3ac9de,
    0xe1fea520be311aaf, 0x9b26d5e88e0493d6, 0x144e44b0de5a085d, 0x6e963478ee6f8124,
    0x21c640532670ac20, 0x5b1e309b16452559, 0xd476a1c3461bbed2, 0xaeaed10b762e37ab,
    0x37deb6af5e9b8b5b, 0x4d06c6676eae0222, 0xc26e573f3ef099a9, 0xb8b627f70ec510d0,
    0xf7e653dcc6da3dd4, 0x8d3e2314f6efb4ad, 0x0256b24ca6b12f26, 0x788ec2849684a65f,
    0x9cf65a1b368f752e, 0xe62e2ad306bafc57, 0x6946bb8b56e467dc, 0x139ecb4366d1eea5,
    0x5ccebf68aecec3a1, 0x2616cfa09efb4ad8, 0xa97e5ef8cea5d153, 0xd3a62e30fe90582a,
    0xb0c7b7e3c7593bd8, 0xca1fc72bf76cb2a1, 0x45775673a732292a, 0x3faf26bb9707a053,
    0x70ff52905f188d57, 0x0a2722586f2d042e, 0x854fb3003f739fa5, 0xff97c3c80f4616dc,
    0x1bef5b57af4dc5ad, 0x61372b9f9f784cd4, 0xee5fbac7cf26d75f, 0x9487ca0fff135e26,
    0xdbd7be24370c7322, 0xa10fceec0739fa5b, 0x2e675fb4576761d0, 0x54bf2f7c6752e8a9,
    0xcdcf48d84fe75459, 0xb71738107fd2dd20, 0x387fa9482f8c46ab, 0x42a7d9801fb9cfd2,
    0x0df7adabd7a6e2d6, 0x772fdd63e7936baf, 0xf8474c3bb7cdf024, 0x829f3cf387f8795d,
    0x66e7a46c27f3aa2c, 0x1c3fd4a417c62355, 0x935745fc4798b8de, 0xe98f353477ad31a7,
    0xa6df411fbfb21ca3, 0xdc0731d78f8795da, 0x536fa08fdfd90e51, 0x29b7d047efec8728]"

definition crc64_step :: "u64 \<Rightarrow> byte \<Rightarrow> u64" where
  "crc64_step crc b = (crc64_tab ! unat ((ucast crc :: byte) XOR b)) XOR drop_bit 8 crc"

definition crc64 :: "u64 \<Rightarrow> bytes \<Rightarrow> u64" where
  "crc64 crc s = foldl crc64_step crc s"

section \<open>Bit at a time\<close>

definition crc64_bit :: "u64 \<Rightarrow> u64" where
  "crc64_bit c = (if bit c 0 then drop_bit 1 c XOR 0x95ac9329ac4bc9b5 else drop_bit 1 c)"

definition crc64_byte :: "u64 \<Rightarrow> byte \<Rightarrow> u64" where
  "crc64_byte c b = (crc64_bit ^^ 8) (c XOR ucast b)"

definition crc64_ref :: "u64 \<Rightarrow> bytes \<Rightarrow> u64" where
  "crc64_ref crc s = foldl crc64_byte crc s"

lemma crc64_bit_xor: "crc64_bit (a XOR b) = crc64_bit a XOR crc64_bit b"
  by (auto simp: crc64_bit_def bit_xor_iff drop_bit_xor xor.assoc xor.left_commute xor.commute)

lemma crc64_bits_xor: "(crc64_bit ^^ n) (a XOR b) = (crc64_bit ^^ n) a XOR (crc64_bit ^^ n) b"
  by (induction n) (simp_all add: crc64_bit_xor)

text \<open>A value whose low bits are clear is only shifted.\<close>

lemma crc64_bits_high: "(\<And>i. i < n \<Longrightarrow> \<not> bit c i) \<Longrightarrow> (crc64_bit ^^ n) c = drop_bit n c"
proof (induction n)
  case (Suc n)
  then have "(crc64_bit ^^ n) c = drop_bit n c" by simp
  moreover have "\<not> bit (drop_bit n c) 0" using Suc.prems by (simp add: bit_drop_bit_eq)
  ultimately have "crc64_bit ((crc64_bit ^^ n) c) = drop_bit 1 (drop_bit n c)" by (simp only: crc64_bit_def if_False)
  then show ?case by (simp only: funpow.simps comp_def drop_bit_drop_bit plus_1_eq_Suc)
qed simp

text \<open>
  The table is linear: the entries at the powers of two give all the others, half of the table at a time.
\<close>

fun doubled :: "u64 list \<Rightarrow> u64 list \<Rightarrow> u64 list" where
  "doubled [] ws = ws"
| "doubled (e # es) ws = doubled es (ws @ map (\<lambda>w. w XOR e) ws)"

lemma add_power: "k < 2 ^ n \<Longrightarrow> n < 8 \<Longrightarrow> (of_nat (k + 2 ^ n) :: u64) = of_nat k XOR of_nat (2 ^ n)"
proof -
  assume k: "k < 2 ^ n" and n: "n < 8"
  have "k AND 2 ^ n = 0"
  proof (rule bit_eqI)
    fix i
    have "\<not> bit k n" using k by (metis bit_take_bit_iff less_irrefl take_bit_nat_eq_self)
    then show "bit (k AND 2 ^ n) i = bit (0 :: nat) i" by (auto simp: bit_and_iff bit_exp_iff)
  qed
  then have "k + 2 ^ n = k XOR 2 ^ n" by (rule disjunctive_add_eq_xor)
  then show ?thesis by (simp only: of_nat_xor_eq)
qed

lemma doubled_nth:
  assumes "length ws = 2 ^ n" and "n + length es = 8" and "\<And>k. k < 2 ^ n \<Longrightarrow> ws ! k = F (of_nat k)"
    and "\<And>i. i < length es \<Longrightarrow> es ! i = F (of_nat (2 ^ (n + i)))" and F: "\<And>a b :: u64. F (a XOR b) = F a XOR F b"
    and "k < 256"
  shows "doubled es ws ! k = F (of_nat k)"
  using assms(1-4)
proof (induction es arbitrary: ws n)
  case Nil
  then show ?case using assms(6) by simp
next
  case (Cons e es)
  let ?ws = "ws @ map (\<lambda>w. w XOR e) ws"
  have "?ws ! k = F (of_nat k)" if k: "k < 2 ^ Suc n" for k
  proof (cases "k < 2 ^ n")
    case True
    then show ?thesis using Cons.prems(1,3) by (simp add: nth_append)
  next
    case False
    define m where "m = k - 2 ^ n"
    have m: "k = m + 2 ^ n" "m < 2 ^ n" using False k by (simp_all add: m_def)
    have "?ws ! k = F (of_nat m) XOR F (of_nat (2 ^ n))"
      using m Cons.prems(1,3) Cons.prems(4) [of 0] by (simp add: nth_append)
    also have "\<dots> = F (of_nat k)" using add_power [OF m(2)] Cons.prems(2) by (simp only: F [symmetric] m(1)) simp
    finally show ?thesis .
  qed
  moreover have "es ! i = F (of_nat (2 ^ (Suc n + i)))" if "i < length es" for i
    using Cons.prems(4) [of "Suc i"] that by simp
  ultimately show ?case using Cons.IH [of ?ws "Suc n"] Cons.prems(1,2) by simp
qed

definition crc64_entry :: "u64 \<Rightarrow> u64" where
  "crc64_entry w = crc64_bit (crc64_bit (crc64_bit (crc64_bit (crc64_bit (crc64_bit (crc64_bit (crc64_bit w)))))))"

lemma crc64_entry_eq: "crc64_entry w = (crc64_bit ^^ 8) w"
  by (simp add: crc64_entry_def numeral_eq_Suc)

lemma crc64_powers: "map crc64_entry [1, 2, 4, 8, 16, 32, 64, 128] =
   [0x7ad870c830358979, 0xf5b0e190606b12f2, 0xc038e5739841b68f, 0xab28ecb46814fe75, 0x7d08ff3b88be6f81, 0xfa11fe77117cdf02, 0xdf7adabd7a6e2d6f, 0x95ac9329ac4bc9b5]"
  by code_simp

lemma crc64_tab_doubled: "doubled [0x7ad870c830358979, 0xf5b0e190606b12f2, 0xc038e5739841b68f, 0xab28ecb46814fe75, 0x7d08ff3b88be6f81, 0xfa11fe77117cdf02, 0xdf7adabd7a6e2d6f, 0x95ac9329ac4bc9b5] [0] = crc64_tab"
  by (simp add: crc64_tab_def)

lemma crc64_table: "k < 256 \<Longrightarrow> crc64_tab ! k = (crc64_bit ^^ 8) (of_nat k)"
proof -
  assume k: "k < 256"
  let ?F = "\<lambda>w. (crc64_bit ^^ 8) w"
  have es: "map ?F (map (\<lambda>i. of_nat (2 ^ i)) [0..<8]) = map crc64_entry [1, 2, 4, 8, 16, 32, 64, 128]"
    by (simp add: crc64_entry_eq upt_conv_Cons)
  have zero: "?F 0 = 0" using crc64_bits_xor [of 8 0 0] by simp
  have "doubled (map ?F (map (\<lambda>i. of_nat (2 ^ i)) [0..<8])) [0] ! k = ?F (of_nat k)"
    by (rule doubled_nth [where n = 0]) (use k zero crc64_bits_xor in simp_all)
  then show ?thesis unfolding es crc64_powers crc64_tab_doubled .
qed

lemma crc64_step_byte: "crc64_step c b = crc64_byte c b"
proof -
  define i :: byte where "i = ucast c XOR b"
  have "unat i < 2 ^ 8" using unsigned_less [of i] by simp
  then have "crc64_tab ! unat i = (crc64_bit ^^ 8) (of_nat (unat i))" by (intro crc64_table) simp
  then have tab: "crc64_tab ! unat i = (crc64_bit ^^ 8) (ucast i)" by simp
  have split: "c XOR ucast b = ucast i XOR push_bit 8 (drop_bit 8 c)"
    by (rule bit_eqI) (auto simp: i_def bit_simps)
  have "(crc64_bit ^^ 8) (push_bit 8 (drop_bit 8 c)) = drop_bit 8 (push_bit 8 (drop_bit 8 c))"
    by (rule crc64_bits_high) (simp add: bit_push_bit_iff)
  also have "\<dots> = drop_bit 8 c" by (rule bit_eqI) (auto simp: bit_simps dest: bit_imp_le_length)
  finally show ?thesis
    unfolding crc64_step_def crc64_byte_def split crc64_bits_xor i_def [symmetric] tab by simp
qed

lemma crc64_eq_ref: "crc64 crc s = crc64_ref crc s"
  by (simp add: crc64_def crc64_ref_def crc64_step_byte [abs_def])

section \<open>No step loses information\<close>

lemma xor_cancel: "x XOR y = x XOR z \<longleftrightarrow> y = z" "y XOR x = z XOR x \<longleftrightarrow> y = z" for x y z :: u64
  by (metis xor.assoc xor_self_eq xor.left_neutral xor.commute)+

lemma crc64_bit_inj: "crc64_bit a = crc64_bit b \<Longrightarrow> a = b"
proof -
  assume eq: "crc64_bit a = crc64_bit b"
  have top: "bit (crc64_bit c) 63 = bit c 0" for c
    using bit_imp_le_length [of c 64] by (auto simp: crc64_bit_def bit_xor_iff bit_drop_bit_eq)
  have low: "bit a 0 = bit b 0" using top [of a] top [of b] eq by simp
  then have "drop_bit 1 a = drop_bit 1 b"
    using eq by (cases "bit a 0") (simp_all add: crc64_bit_def xor_cancel del: One_nat_def)
  then have "bit (drop_bit 1 a) n = bit (drop_bit 1 b) n" for n by simp
  then have suc: "bit a (Suc n) = bit b (Suc n)" for n by (simp add: bit_drop_bit_eq)
  show ?thesis
  proof (rule bit_eqI)
    fix n
    show "bit a n = bit b n" using low suc by (cases n) simp_all
  qed
qed

lemma crc64_bits_inj: "(crc64_bit ^^ n) a = (crc64_bit ^^ n) b \<Longrightarrow> a = b"
  by (induction n) (auto dest: crc64_bit_inj)

lemma crc64_byte_inj: "crc64_byte c b = crc64_byte d b \<longleftrightarrow> c = d" "crc64_byte c b = crc64_byte c b' \<longleftrightarrow> b = b'"
proof -
  have "bit b i = (i < 8 \<and> bit (ucast b :: u64) i)" for b :: byte and i
    using bit_imp_le_length [of b i] by (auto simp: bit_simps)
  then have "b = b'" if "(ucast b :: u64) = ucast b'" using that by (intro bit_eqI) metis
  then have "(ucast b :: u64) = ucast b' \<longleftrightarrow> b = b'" by blast
  then show "crc64_byte c b = crc64_byte d b \<longleftrightarrow> c = d" "crc64_byte c b = crc64_byte c b' \<longleftrightarrow> b = b'"
    using crc64_bits_inj [of 8] xor_cancel unfolding crc64_byte_def by blast+
qed

lemma crc64_inj: "crc64 c s = crc64 d s \<longleftrightarrow> c = d"
  unfolding crc64_eq_ref by (induction s arbitrary: c d) (simp_all add: crc64_ref_def crc64_byte_inj)

text \<open>Changing one byte changes the CRC.\<close>

lemma crc64_change:
  assumes "i < length s" and "b \<noteq> s ! i"
  shows "crc64 c (s[i := b]) \<noteq> crc64 c s"
proof -
  have s: "s = take i s @ s ! i # drop (Suc i) s" using assms(1) by (simp add: id_take_nth_drop)
  have u: "s[i := b] = take i s @ b # drop (Suc i) s" using assms(1) by (simp add: upd_conv_take_nth_drop)
  have split: "crc64 c (p @ x # q) = crc64 (crc64_byte (crc64 c p) x) q" for p q x
    by (simp add: crc64_def crc64_step_byte)
  show ?thesis
    using assms(2) unfolding u by (subst (2) s) (simp add: split crc64_inj crc64_byte_inj)
qed

end
