(* ===== verification/ClusterDump.thy ===== *)
theory ClusterDump
  imports Crc64 Bytes
begin

text \<open>
  The payload of DUMP, RESTORE and MIGRATE (\<open>cluster.c\<close>): the serialised value, two bytes of
  RDB version and eight bytes of CRC64, the last two in little-endian order. The
  serialisation itself (\<open>rdb.c\<close>) is an argument.
\<close>

definition RDB_VERSION :: u16 where "RDB_VERSION = 9"

text \<open>\<open>createDumpPayload\<close>: \<open>rdb\<close> is what \<open>rdbSaveObjectType\<close> and \<open>rdbSaveObject\<close> wrote to the buffer.\<close>

definition createDumpPayload :: "bytes \<Rightarrow> bytes" where
  "createDumpPayload rdb =
    (let buf = [ucast (RDB_VERSION AND 0xff), ucast (drop_bit 8 RDB_VERSION AND 0xff)];
         payload = rdb @ buf;
         crc = crc64 0 payload
     in payload @ le_bytes 8 (uint crc))"

definition verifyDumpPayload :: "bytes \<Rightarrow> int" where
  "verifyDumpPayload p =
    (let len = length p in
     if len < 10 then C_ERR
     else
       let footer = drop (len - 10) p;
           rdbver = push_bit 8 (ucast (footer ! 1)) OR ucast (footer ! 0) :: u16
       in if rdbver > RDB_VERSION then C_ERR
          else
            let crc = crc64 0 (take (len - 8) p)
            in if le_bytes 8 (uint crc) = drop 2 footer then C_OK else C_ERR)"

lemma verify_created: "verifyDumpPayload (createDumpPayload rdb) = C_OK"
  by (simp add: createDumpPayload_def verifyDumpPayload_def RDB_VERSION_def Let_def)

lemma verify_valid: "verifyDumpPayload p = C_OK \<Longrightarrow>
    10 \<le> length p \<and> le_bytes 8 (uint (crc64 0 (take (length p - 8) p))) = drop (length p - 8) p"
  by (cases "length p < 10") (auto simp: verifyDumpPayload_def Let_def Suc_diff_le [symmetric] split: if_splits)

text \<open>A change in the checksum leaves the bytes it covers, and any other change alters the checksum.\<close>

lemma verify_changed:
  assumes ok: "verifyDumpPayload p = C_OK" and i: "i < length p" and b: "b \<noteq> p ! i"
  shows "verifyDumpPayload (p[i := b]) = C_ERR"
proof (rule ccontr)
  let ?n = "length p - 8"
  assume "verifyDumpPayload (p[i := b]) \<noteq> C_ERR"
  then have "verifyDumpPayload (p[i := b]) = C_OK" by (auto simp: verifyDumpPayload_def Let_def split: if_splits)
  then have new: "le_bytes 8 (uint (crc64 0 (take ?n (p[i := b])))) = drop ?n (p[i := b])"
    using verify_valid by fastforce
  have old: "le_bytes 8 (uint (crc64 0 (take ?n p))) = drop ?n p" using verify_valid [OF ok] by simp
  show False
  proof (cases "i < ?n")
    case True
    then have "le_bytes 8 (uint (crc64 0 ((take ?n p)[i := b]))) = le_bytes 8 (uint (crc64 0 (take ?n p)))"
      using new old by (simp add: take_update_swap)
    then have "crc64 0 ((take ?n p)[i := b]) = crc64 0 (take ?n p)" by (metis le_word)
    then show False using crc64_change [of i "take ?n p" b 0] True b by simp
  next
    case False
    then have "drop ?n (p[i := b]) = drop ?n p" using new old by simp
    then have "drop ?n (p[i := b]) ! (i - ?n) = drop ?n p ! (i - ?n)" by simp
    then show False using False i b by simp
  qed
qed

end
