(* ===== verification/SampleCluster.thy ===== *)
theory SampleCluster
  imports ClusterVotes ClusterRoute
begin

text \<open>
  A small cluster as seen by one of its nodes, for the instances of the theorems: the
  master 0 serves the lower half of the slots, the failed master 1 the upper half, and
  node 2 is the replica of 1. The parameter is the node whose state it is.
\<close>

definition sample_name :: "naddr \<Rightarrow> bytes" where
  "sample_name a = replicate CLUSTER_NAMELEN (word_of_nat (97 + a))"

definition sample_slots :: "naddr \<Rightarrow> bytes" where
  "sample_slots a = (if a = 0 then replicate 1024 255 @ replicate 1024 0
                     else if a = 1 then replicate 1024 0 @ replicate 1024 255
                     else replicate 2048 0)"

definition sample_node :: "naddr \<Rightarrow> naddr \<Rightarrow> clusterNode" where
  "sample_node m a =
     \<lparr>ctime = 0, name = sample_name a,
      flags = (if a = 0 then CLUSTER_NODE_MASTER
               else if a = 1 then CLUSTER_NODE_MASTER OR CLUSTER_NODE_FAIL OR CLUSTER_NODE_MIGRATE_TO
               else CLUSTER_NODE_SLAVE) OR (if a = m then CLUSTER_NODE_MYSELF else 0),
      configEpoch = (if a = 0 then 1 else 2), node_slots = sample_slots a,
      numslots = (if a \<le> 1 then 8192 else 0), slaves = (if a = 1 then [2] else []),
      slaveof = (if a = 2 then Some 1 else None), ping_sent = 0, pong_received = 99000, data_received = 99000,
      fail_time = (if a = 1 then 95000 else 0), voted_time = 0, repl_offset_time = 0, orphaned_time = 0,
      repl_offset = 0, ip = str ''10.0.0.1'', port = 7000 + int a, cport = 17000 + int a,
      link = (if a = m then None else Some (10 + a)), fail_reports = []\<rparr>"

definition sample :: "naddr \<Rightarrow> server" where
  "sample m =
     \<lparr>heap = sample_node m, link_node = (\<lambda>l. if l \<in> {10, 11, 12} \<and> l \<noteq> 10 + m then Some (l - 10) else None),
      link_ctime = (\<lambda>_. 50000), link_peer = (\<lambda>_. str ''10.0.0.1''), link_sockname = (\<lambda>_. None), next_link = 20,
      myself = m, currentEpoch = 5, state = CLUSTER_OK, cluster_size = 2,
      nodes = [(sample_name 0, 0), (sample_name 1, 1), (sample_name 2, 2)], nodes_black_list = [],
      migrating_slots_to = (\<lambda>_. None), importing_slots_from = (\<lambda>_. None),
      slots = (\<lambda>j. if j < 8192 then Some 0 else if j < 16384 then Some 1 else None),
      failover_auth_time = 99500, failover_auth_count = 0, failover_auth_sent = 0, failover_auth_rank = 0,
      failover_auth_epoch = 5, cant_failover_reason = 0, mf_end = 0, mf_slave = None, mf_master_offset = 0,
      mf_can_start = 0, lastVoteEpoch = 4, todo_before_sleep = 0, stats_pfail_nodes = 0,
      stats_bus_messages_sent = (\<lambda>_. 0), stats_bus_messages_received = (\<lambda>_. 0),
      cluster_node_timeout = 1000, cluster_slave_validity_factor = 10, cluster_migration_barrier = 1,
      cluster_require_full_coverage = True, cluster_slave_no_failover = False, cluster_module_flags = 0,
      cluster_announce_ip = None, server_port = 7000, cluster_announce_port = 0, cluster_announce_bus_port = 0,
      masterhost = (if m = 2 then Some (str ''10.0.0.1'') else None), masterport = 7001, master_reploff = None,
      master_closing = False, cached_master_reploff = None, master_repl_offset = 0, master_lastinteraction = 99,
      repl_connected = False, repl_down_since = 99, repl_ping_slave_period = 10, clients_paused = False,
      clients_pause_end_time = 0, pubsub_in_use = False, zk_host = None, zk_port = 0, zklc = None,
      countKeysInSlot = (\<lambda>_. 0), db_sizes = [0], among_minority_time = 0, first_call_time = 1, lastlog_time = 0,
      cron_iteration = 0, prev_announce_ip = None, mstime = 100000, unixtime = 100, server_mstime = 100000,
      sys_time = 100, connect_ok = (\<lambda>_ _. True), inet_norm = Some, random_key = (\<lambda>_. 0), random_num = (\<lambda>_. 0),
      random_hex = (\<lambda>_. replicate CLUSTER_NAMELEN 48), random_pos = 0, next_addr = 3, effects = []\<rparr>"

lemma sample_fields [simp]:
  "heap (sample m) = sample_node m" "myself (sample m) = m" "currentEpoch (sample m) = 5"
  "lastVoteEpoch (sample m) = 4" "effects (sample m) = []" "zklc (sample m) = None"
  "slots (sample m) = (\<lambda>j. if j < 8192 then Some 0 else if j < 16384 then Some 1 else None)"
  "nodes (sample m) = [(sample_name 0, 0), (sample_name 1, 1), (sample_name 2, 2)]"
  "mstime (sample m) = 100000" "next_addr (sample m) = 3" "cluster_size (sample m) = 2" "acks (sample m) = []" "live (sample m) = {0, 1, 2}"
  "migrating_slots_to (sample m) = (\<lambda>_. None)" "importing_slots_from (sample m) = (\<lambda>_. None)"
  "state (sample m) = CLUSTER_OK" "cluster_module_flags (sample m) = 0"
  by (simp_all add: sample_def acks_def live_def)

lemma sample_node_fields [simp]:
  "name (sample_node m a) = sample_name a" "slaveof (sample_node m a) = (if a = 2 then Some 1 else None)"
  "slaves (sample_node m a) = (if a = 1 then [2] else [])" "numslots (sample_node m a) = (if a \<le> 1 then 8192 else 0)"
  "configEpoch (sample_node m a) = (if a = 0 then 1 else 2)" "node_slots (sample_node m a) = sample_slots a"
  "fail_reports (sample_node m a) = []" "voted_time (sample_node m a) = 0"
  "nodeIsMaster (sample_node m a) = (a \<le> 1)" "nodeIsSlave (sample_node m a) = (a > 1)"
  "nodeFailed (sample_node m a) = (a = 1)" "\<not> nodeTimedOut (sample_node m a)" "\<not> nodeInHandshake (sample_node m a)"
  by (cases "a = 0"; cases "a = 1"; cases "a = m"; auto simp: sample_node_def node_flag_defs flag_defs)+

lemma sample_name_inj [simp]:
  "sample_name 0 \<noteq> sample_name (Suc 0)" "sample_name (Suc 0) \<noteq> sample_name 0"
  "sample_name (Suc 0) \<noteq> sample_name 2" "sample_name 2 \<noteq> sample_name (Suc 0)"
  "sample_name 0 \<noteq> sample_name 1" "sample_name 0 \<noteq> sample_name 2" "sample_name 1 \<noteq> sample_name 2"
  "sample_name 1 \<noteq> sample_name 0" "sample_name 2 \<noteq> sample_name 0" "sample_name 2 \<noteq> sample_name 1"
  by (simp_all add: sample_name_def CLUSTER_NAMELEN_def)

lemma length_sample_slots: "length (sample_slots a) = 2048"
  by (simp add: sample_slots_def)

lemma bit_255: "bit (255 :: int) k = (k < 8)"
proof -
  have "(255 :: int) = mask 8" by (simp add: mask_eq_exp_minus_1)
  then show ?thesis by (simp only: bit_mask_iff possible_bit_int simp_thms)
qed

lemma sample_slots_bit:
  assumes "j < 16384"
  shows "bitmapTestBit (sample_slots a) j = (a = 0 \<and> j < 8192 \<or> a = 1 \<and> 8192 \<le> j)"
proof -
  have "j div 8 < 1024 \<longleftrightarrow> j < 8192" by auto
  then show ?thesis using assms
    by (auto simp: bitmapTestBit_bit sample_slots_def nth_append bit_255)
qed

lemma sample_inv:
  assumes "m \<le> 2" shows "cluster_inv (sample m)"
proof -
  have lower: "{j. j < CLUSTER_SLOTS \<and> slots (sample m) j = Some 0} = {..<8192}"
    by (auto simp: CLUSTER_SLOTS_def split: if_splits)
  have upper: "{j. j < CLUSTER_SLOTS \<and> slots (sample m) j = Some 1} = {8192..<16384}"
    by (auto simp: CLUSTER_SLOTS_def split: if_splits)
  have none: "{j. j < CLUSTER_SLOTS \<and> slots (sample m) j = Some 2} = {}"
    by (auto split: if_splits)
  have "slot_inv (sample m)"
  proof (rule slot_invI)
    fix a assume "a \<in> live (sample m)"
    then consider "a = 0" | "a = 1" | "a = 2" by auto
    then show "numslots (nd (sample m) a) = int (card {j. j < CLUSTER_SLOTS \<and> slots (sample m) j = Some a})"
      by cases (simp_all only: lower upper none, simp_all)
  qed (auto simp: length_sample_slots CLUSTER_SLOTS_def sample_slots_bit split: if_splits)
  moreover have "names_inv (sample m)"
    by (simp add: names_inv_def dictOk_def)
  moreover have "reports_inv (sample m)" by (simp add: reports_inv_def)
  moreover have "m \<in> {0, 1, 2}" using assms by auto
  ultimately show ?thesis by (simp add: cluster_inv_def)
qed

lemma sample_role: "m \<le> 2 \<Longrightarrow> role_ok (sample m)" "m \<le> 2 \<Longrightarrow> master_ok (sample m)"
  by (auto simp: role_ok_def my_master_def master_ok_def)

lemma sample_me_ok: "m \<le> 2 \<Longrightarrow> me_ok (sample m)"
proof -
  assume m: "m \<le> 2"
  have "bit (flags (sample_node m m)) 4" using m by (simp add: sample_node_def flag_defs)
  then show "me_ok (sample m)" using m sample_inv [of m] by (auto simp: me_ok_def split: if_splits)
qed

lemma sample_votes: "vote_inv (sample m)"
  by (simp add: vote_inv_def)

section \<open>A vote in the sample cluster\<close>

text \<open>Node 2 asks node 0 for its vote in epoch 6, over the link 12.\<close>

definition sample_request :: clusterMsg where
  "sample_request = (clusterBuildMessageHdr CLUSTERMSG_TYPE_FAILOVER_AUTH_REQUEST (sample 2))
     \<lparr>h_totlen := CLUSTERMSG_MIN_LEN, h_currentEpoch := 6\<rparr>"

lemma sample_request_fields [simp]:
  "h_totlen sample_request = CLUSTERMSG_MIN_LEN" "h_ver sample_request = CLUSTER_PROTO_VER"
  "h_type sample_request = CLUSTERMSG_TYPE_FAILOVER_AUTH_REQUEST" "h_currentEpoch sample_request = 6"
  "h_configEpoch sample_request = 2" "h_sender sample_request = sample_name 2"
  "h_myslots sample_request = sample_slots 1" "h_data sample_request = NoData"
  by (simp_all add: sample_request_def clusterBuildMessageHdr_def Let_def)

lemma sample_lookup: "clusterLookupNode (sample_name 2) (sample m) = Some 2"
  by (simp add: clusterLookupNode_def dictFind_def)

lemma sample_claim:
  assumes "slots s = slots (sample m)" "\<And>a. configEpoch (nd s a) \<le> 2"
  shows "\<not> claim_outdated c 2 s"
  using assms by (auto simp: claim_outdated_def list_ex_iff not_less split: option.splits)

text \<open>The state of node 0 when the vote is considered.\<close>

definition sample_heard :: server where
  "sample_heard = packet_sender_info (Some 2) sample_request
     ((sample 0)\<lparr>stats_bus_messages_received := (\<lambda>_. 0)(5 := 1)\<rparr>)"

lemma sample_heard_fields:
  "currentEpoch sample_heard = 6" "lastVoteEpoch sample_heard = 4" "myself sample_heard = 0"
  "slots sample_heard = slots (sample 0)" "mstime sample_heard = 100000" "cluster_node_timeout sample_heard = 1000"
  "acks sample_heard = []"
  "nodeIsMaster (nd sample_heard a) = (a \<le> 1)" "nodeIsSlave (nd sample_heard a) = (a > 1)"
  "nodeFailed (nd sample_heard a) = (a = 1)" "numslots (nd sample_heard a) = (if a \<le> 1 then 8192 else 0)"
  "slaveof (nd sample_heard a) = (if a = 2 then Some 1 else None)" "voted_time (nd sample_heard a) = 0"
  "configEpoch (nd sample_heard a) \<le> 2" "link (nd sample_heard a) = (if a = 0 then None else Some (10 + a))"
proof -
  have fl: "P (x\<lparr>data_received := t\<rparr>) = P x" "P (x\<lparr>repl_offset := t\<rparr>) = P x" "P (x\<lparr>repl_offset_time := t\<rparr>) = P x"
    if "P \<in> {nodeIsMaster, nodeIsSlave, nodeFailed, nodeInHandshake}" for P x t
    using that by (auto simp: node_flag_defs)
  have mf: "mf_end (sample 0) = 0" "cluster_node_timeout (sample 0) = 1000" by (simp_all add: sample_def)
  have lk: "link (sample_node 0 a) = (if a = 0 then None else Some (10 + a))" for a by (simp add: sample_node_def)
  show "currentEpoch sample_heard = 6" "lastVoteEpoch sample_heard = 4" "myself sample_heard = 0"
    "slots sample_heard = slots (sample 0)" "mstime sample_heard = 100000" "cluster_node_timeout sample_heard = 1000"
    "acks sample_heard = []"
    "nodeIsMaster (nd sample_heard a) = (a \<le> 1)" "nodeIsSlave (nd sample_heard a) = (a > 1)"
    "nodeFailed (nd sample_heard a) = (a = 1)" "numslots (nd sample_heard a) = (if a \<le> 1 then 8192 else 0)"
    "slaveof (nd sample_heard a) = (if a = 2 then Some 1 else None)" "voted_time (nd sample_heard a) = 0"
    "configEpoch (nd sample_heard a) \<le> 2" "link (nd sample_heard a) = (if a = 0 then None else Some (10 + a))"
    by (simp_all add: sample_heard_def packet_sender_info_def Let_def mf lk acks_def upd_node_def clusterDoBeforeSleep_def fl)
qed

lemma sample_heard_vote:
  "\<exists>m. acks (clusterSendFailoverAuthIfNeeded 2 sample_request sample_heard) = [SendMessage 12 m] \<and> h_currentEpoch m = 6"
proof -
  define t where "t = clusterSendFailoverAuthIfNeeded 2 sample_request sample_heard"
  note h = sample_heard_fields
  define u where "u = clusterDoBeforeSleep (CLUSTER_TODO_SAVE_CONFIG OR CLUSTER_TODO_FSYNC_CONFIG)
     (upd_node 1 (\<lambda>x. x\<lparr>voted_time := 100000\<rparr>) (sample_heard\<lparr>lastVoteEpoch := 6\<rparr>))"
  have claim: "\<not> claim_outdated c 2 sample_heard" for c
    by (rule sample_claim [OF h(4) h(14)])
  have t: "t = clusterSendFailoverAuth 2 u"
    unfolding t_def clusterSendFailoverAuthIfNeeded_def Let_def by (simp add: h claim u_def)
  obtain m where m: "h_currentEpoch m = currentEpoch u"
    "acks t = acks u @ (case link (nd u 2) of Some l \<Rightarrow> [SendMessage l m] | None \<Rightarrow> [])"
    using clusterSendFailoverAuth_effect [of u 2] t by blast
  have "currentEpoch u = 6" "acks u = []" "link (nd u 2) = Some 12"
    using h(1,7) h(15) [of 2] by (simp_all add: u_def acks_def)
  with m show ?thesis by (simp add: t_def)
qed

lemma sample_vote:
  "\<exists>t m. clusterProcessPacket 12 sample_request (sample 0) = Some (1, t) \<and>
         acks t = [SendMessage 12 m] \<and> h_currentEpoch m = 6"
proof -
  define t where "t = clusterSendFailoverAuthIfNeeded 2 sample_request sample_heard"
  have len: "packet_length_ok sample_request"
    by (simp add: packet_length_ok_def is_ping_type_def msgtype_defs CLUSTERMSG_MIN_LEN_def Let_def)
  have "clusterProcessPacket 12 sample_request (sample 0) = Some (1, t)"
    using len sample_lookup [of 0]
    by (simp add: clusterProcessPacket_def Let_def msgtype_defs CLUSTERMSG_TYPE_COUNT_def is_ping_type_def
        packet_other_def t_def sample_heard_def clusterLookupNode_def sample_def)
  then show ?thesis using sample_heard_vote unfolding t_def [symmetric] by blast
qed

section \<open>Suspicion in the sample cluster\<close>

text \<open>Node 0 suspects the replica 2; node 1 was not failed but has not answered a ping.\<close>

definition sample_suspect :: server where
  "sample_suspect = upd_node 2 (\<lambda>x. x\<lparr>flags := CLUSTER_NODE_SLAVE OR CLUSTER_NODE_PFAIL\<rparr>) (sample 0)"

definition sample_silent :: server where
  "sample_silent = upd_node 1 (\<lambda>x. x\<lparr>flags := CLUSTER_NODE_MASTER, ping_sent := 90000, data_received := 90000,
     fail_time := 0\<rparr>) (sample 0)"

text \<open>The masters 0 and 1 with the same configuration epoch, each as the other one sees it.\<close>

definition sample_twin :: "naddr \<Rightarrow> server" where
  "sample_twin m = upd_node 0 (\<lambda>x. x\<lparr>configEpoch := 2\<rparr>) (sample m)"

abbreviation "sample_twin0 \<equiv> sample_twin 0"
abbreviation "sample_twin1 \<equiv> sample_twin 1"

lemma sample_twin_simps:
  "myself (sample_twin m) = m" "currentEpoch (sample_twin m) = 5"
  "nodeIsMaster (nd (sample_twin m) a) = (a \<le> 1)" "configEpoch (nd (sample_twin m) a) = 2"
  "name (nd (sample_twin m) a) = sample_name a"
  by (simp_all add: sample_twin_def node_flag_bits) (simp_all flip: node_flag_bits)

section \<open>A ZooKeeper ensemble\<close>

text \<open>
  An ensemble whose state is the set of its znodes, and the replica 2 with a client that
  watches the znode of the name \<open>rp\<close>.
\<close>

definition sample_ensemble :: "bytes set zk_api" where
  "sample_ensemble =
     \<lparr>zoo_create = (\<lambda>h p d z. if p \<in> z then (ZNODEEXISTS, z) else (ZOK, insert p z)),
      zoo_exists = (\<lambda>h p z. (if p \<in> z then ZOK else ZNONODE, z)),
      zoo_delete = (\<lambda>h p z. if p \<in> z then (ZOK, z - {p}) else (ZNONODE, z)),
      zoo_awget = (\<lambda>h p z. (if p \<in> z then ZOK else ZNONODE, z)),
      zookeeper_init = (\<lambda>a z. (True, z)), zookeeper_close = (\<lambda>z. z)\<rparr>"

definition sample_zk :: "bytes \<Rightarrow> server" where
  "sample_zk rp = (sample 2)\<lparr>zklc := Some \<lparr>zh = True, zkstate = ZKS_CONNECTED, zk_create_path = 0, zk_on_wath = 1,
     replace_path = Some rp, replace_path_del_tm = 0\<rparr>\<rparr>"

lemma sample_zk_fields [simp]:
  "heap (sample_zk rp) = sample_node 2" "myself (sample_zk rp) = 2"
  "zklc (sample_zk rp) = Some \<lparr>zh = True, zkstate = ZKS_CONNECTED, zk_create_path = 0, zk_on_wath = 1,
     replace_path = Some rp, replace_path_del_tm = 0\<rparr>"
  by (simp_all add: sample_zk_def)

definition sample_master_name :: bytes where
  "sample_master_name = name_cstr (sample_node 2 1)"

lemma sample_zk_try:
  "\<exists>s' p. zklinkTryCreateOldMasterPath sample_ensemble {} (sample_zk sample_master_name) = Some (1, {p}, s')"
  by (simp add: zklinkTryCreateOldMasterPath_def sample_master_name_def strneq_def sample_ensemble_def zk_code_defs
      Let_def del: sample_ensemble_def) (simp add: sample_ensemble_def zk_code_defs)

lemma sample_zk_other: "\<not> strneq CLUSTER_NAMELEN (sample_name 0) (name_cstr (sample_node 2 1))"
proof -
  have r: "replicate 40 x = x # replicate 39 x" for x :: byte
    using replicate_Suc [of 39 x] by simp
  have "name_cstr (sample_node 2 1) = 98 # takeWhile (\<lambda>b. b \<noteq> 0) (replicate 39 98 @ flag_bytes (flags (sample_node 2 1)))"
    by (simp add: name_cstr_def sample_name_def CLUSTER_NAMELEN_def r)
  moreover have "sample_name 0 = 97 # replicate 39 97"
    by (simp add: sample_name_def CLUSTER_NAMELEN_def r)
  ultimately show ?thesis by (simp add: strneq_def CLUSTER_NAMELEN_def)
qed

section \<open>A client\<close>

text \<open>GET, and a client with no flags.\<close>

definition sample_get :: redisCommand where
  "sample_get = \<lparr>cmd_proc = OtherCommand, arity = 2, cmd_flags = CMD_READONLY, getkeys_proc = None,
     firstkey = 1, lastkey = 1, keystep = 1\<rparr>"

definition sample_client :: client where
  "sample_client = \<lparr>c_flags = 0, mstate = [], btype = BLOCKED_NONE, bpop_keys = [], lastcmd = sample_get, c_reply = []\<rparr>"

lemma sample_get_keys: "getKeysFromCommand mk sample_get [a, b] = Some [1]"
  by (simp add: getKeysFromCommand_def sample_get_def flag_defs CMD_MODULE_GETKEYS_def getKeysUsingCommandTable_def Let_def eval_nat_numeral)

lemma sample_get_query:
  "\<exists>n. getNodeByQuery mk present sample_client sample_get [g, k] (sample 1) =
     Some (Some n, Some (keyHashSlot k), Some (if n = 1 then CLUSTER_REDIR_NONE else CLUSTER_REDIR_MOVED))"
proof -
  have "keyHashSlot k < 16384" using keyHashSlot_less [of k] by (simp add: CLUSTER_SLOTS_def)
  then obtain n where n: "slots (sample 1) (keyHashSlot k) = Some n" by (cases "keyHashSlot k < 8192") auto
  have "query_commands mk present (sample 1) [(sample_get, [g, k])] query_init =
      Some (Inr (query_init\<lparr>q_firstkey := Some k, q_slot := keyHashSlot k, q_node := Some n\<rparr>))"
    unfolding query_commands.simps sample_get_keys option.case list.map query_keys.simps query_key_def query_init_def
    using n by (simp add: Let_def)
  then show ?thesis
    by (simp add: getNodeByQuery_def sample_get_def query_result_def sample_client_def query_init_def Let_def)
qed

section \<open>Slots as arguments\<close>

lemma getSlotOrReply_dec: "j < CLUSTER_SLOTS \<Longrightarrow> getSlotOrReply (dec_int (int j)) = Inr j"
  using string2ll_dec_int [of "int j"] by (simp add: getSlotOrReply_def llong_def CLUSTER_SLOTS_def)

end
