(* ===== verification/Spec2Isabelle.thy ===== *)
theory Spec2Isabelle
  imports Crc16 CommandKeys Numbers Intset Sds ClusterRestart ClusterRoute ClusterReset ClusterCron ClusterCommand
    ClusterVotes ClusterLink ClusterDump SampleCluster
begin

text \<open>
  Redis Cluster with a ZooKeeper-assisted failover: the fork of Redis 5.0.12 under
  \<open>src/trunk/redis-5.0.12/src\<close>. The files named below are in that directory.

  The program. A cluster is a set of Redis servers that share 16384 hash slots. Each
  server keeps its own picture of the cluster (\<open>server.cluster\<close>, \<open>cluster.h\<close>): a table
  of nodes, the owner of every slot, the epochs of the configuration and of the votes.
  The pictures converge by messages on the cluster bus: PING, PONG and MEET with a gossip
  section, FAIL, UPDATE, PUBLISH, MODULE and the messages of an election. A master that
  enough masters suspect is marked as failed and one of its replicas takes over its slots.
  This fork adds two other ways to take over: quorums of one or none in clusters of two
  masters or one, and a znode \<open>/replace-<name>\<close> that a replica creates in ZooKeeper when
  the znode of its master disappears (\<open>zklink.c\<close>). Clients are served, redirected or
  refused by the slot of their keys (\<open>keyHashSlot\<close>, \<open>getNodeByQuery\<close>).

  How the state corresponds. A \<open>server\<close> (\<open>ClusterState\<close>) holds the fields of
  \<open>struct clusterState\<close>, of \<open>struct redisServer\<close> and of \<open>zklinkClient\<close> that the cluster
  reads or writes, under their C names. A pointer to a \<open>clusterNode\<close> is an address into
  \<open>heap\<close>, so that the aliasing of the C code (the slots table, the tables of migrating
  slots, the lists of replicas, the reports and the links all point at nodes) is kept;
  NULL is \<open>None\<close>. \<open>server.cluster->nodes\<close> is an association list keyed by names. Integers
  have the width of the code: epochs and offsets are 64-bit words, flags 16 or 32 bits,
  lengths of messages 32 bits; times in milliseconds are integers. What the code does to the
  outside (a message queued on a link, a file saved, clients paused, keys deleted) is an
  \<open>effect\<close> appended to \<open>effects\<close>, so that the order of the effects is part of the state.
  What the outside decides is a field of the state or an argument: the clocks, the random
  numbers, whether a connection succeeds, the peer address of a link, the keys of a slot.

  Errors. \<open>C_OK\<close> and \<open>C_ERR\<close> are values; a function that can fail a \<open>serverAssert\<close>,
  follow a NULL pointer or read beyond the bytes of its buffer returns an option and \<open>None\<close> is that
  crash. A theorem that says \<open>f s = Some t\<close> says that the handler returns. Starting a node
  can also end in \<open>exit(1)\<close>: there the result is a sum, with a \<open>stop\<close> on the left.

  The theories, and what their lemmas show.
  \<^item> \<open>Prelude\<close>: bytes, the loop \<open>for_each\<close> with its invariant rule, dictionaries (the
    locale \<open>dictionary\<close> with its instance on association lists), decimal numbers.
  \<^item> \<open>Crc16\<close> (\<open>crc16.c\<close>): the table-driven CRC equals the bitwise one, by linearity.
  \<^item> \<open>CommandKeys\<close> (\<open>db.c\<close>, \<open>getKeysFromCommand\<close> and below): every position of a key lies
    inside the arguments. \<open>table_keys\<close> has as fuel the number of arguments plus one, which
    is enough because the position grows with every key.
  \<^item> \<open>ClusterState\<close> (\<open>cluster.h\<close>, \<open>zklink.h\<close>): records, constants, flags as bits.
  \<^item> \<open>ClusterSlots\<close> (\<open>cluster.c\<close>, slots management): \<open>slot_inv\<close> (bitmaps, counters and the
    slots table agree) and the refinement of the partial map from slots to owners, which
    is the locale \<open>slot_table\<close> with its interpretation \<open>st\<close>.
  \<^item> \<open>ClusterNodes\<close> (nodes, replicas, failure reports, blacklist): \<open>cluster_inv\<close>, the
    invariant of all the tables (names, slots, master and replica links, reports, live
    pointers), and its preservation by every operation.
  \<^item> \<open>ClusterMsg\<close> (messages sent): which messages go to which links and what they carry.
  \<^item> \<open>ClusterFail\<close> (epochs, collisions, failure detection), \<open>ClusterConfig\<close> (roles, slot
    updates, the state of the cluster, manual failover), \<open>ClusterReset\<close> (reset, keys in
    slots that are not served): the functional behaviour on every branch.
  \<^item> \<open>ZkLink\<close> (\<open>zklink.c\<close>): the ZooKeeper client is the parameter \<open>zk_api\<close>; what the code
    relies on (a node that exists cannot be created) is a hypothesis where it is needed. The
    relation \<open>zk_run\<close> is what may happen to a replica that was given another master.
  \<^item> \<open>ClusterElection\<close>: votes, candidates, promotions, migration of replicas. The relations
    \<open>vote_step\<close> and \<open>epoch_step\<close> bound what one handler may do to votes and epochs.
  \<^item> \<open>ClusterPacket\<close> (\<open>clusterProcessPacket\<close>, cut into the passages of its body),
    \<open>ClusterCron\<close> (\<open>clusterCron\<close>, \<open>clusterBeforeSleep\<close>): they return, keep \<open>cluster_inv\<close>,
    and are vote and epoch steps.
  \<^item> \<open>Bytes\<close>: integers in memory and in the order of the network. \<open>ClusterWire\<close>
    (\<open>cluster.h\<close>, the layout of \<open>clusterMsg\<close>): a message that is written to bytes and read
    back is the same message. \<open>ClusterLink\<close> (\<open>clusterAcceptHandler\<close>, \<open>clusterReadHandler\<close>,
    \<open>clusterWriteHandler\<close>): whatever pieces a socket takes and delivers, the packets that are
    processed are those of the stream of bytes (\<open>deliver\<close>), so the ones that were queued.
  \<^item> \<open>ClusterVotes\<close>: the runs of a node as an inductive relation over its handlers, the
    invariant of the votes along a run, and the locale \<open>quorum_system\<close>: two quorums share a
    voter, so an epoch has one winner; its interpretation \<open>voters\<close> is the quorum of the code.
  \<^item> \<open>ClusterRoute\<close> (\<open>keyHashSlot\<close>, \<open>getNodeByQuery\<close>, redirections): what every answer
    promises about the keys, the slot and its owner.
  \<^item> \<open>ClusterFile\<close> (\<open>clusterGenNodesDescription\<close>, \<open>clusterSaveConfig\<close>) and \<open>Sds\<close>
    (\<open>sds.c\<close>: quoting and splitting of lines): nodes and arguments as text. \<open>ClusterLoad\<close>
    (\<open>clusterLoadConfig\<close>, \<open>clusterInit\<close>): whatever the file holds, the tables are consistent.
    \<open>ClusterText\<close>: the words of a line that were written are the ones that are parsed; the
    ranges of slots that are written are exactly the bits of the node. \<open>ClusterReload\<close>: the effect
    of every field of a line, on the view \<open>conf_of\<close> that forgets the addresses of the nodes;
    \<open>ClusterRestart\<close>: lines, their length, and the whole file, loaded again.
  \<^item> \<open>ClusterCommand\<close> (\<open>clusterCommand\<close>, one definition per subcommand): replies and
    effects, the invariant after every subcommand.
  \<^item> \<open>Numbers\<close> (\<open>util.c\<close>): \<open>string2ll\<close> and \<open>ll2string\<close> are inverse to each other.
  \<^item> \<open>Intset\<close> (\<open>intset.c\<close>): sorted integers in a block of bytes, whose element width grows;
    the operations on the bytes refine those of a finite set (locale \<open>bounded_set\<close>,
    interpretation \<open>intsets\<close>).
  \<^item> \<open>Crc64\<close> (\<open>crc64.c\<close>): the table-driven CRC equals the bitwise one and a change of one
    byte changes it. \<open>ClusterDump\<close> (\<open>createDumpPayload\<close>, \<open>verifyDumpPayload\<close>): the footer of
    a serialised value protects it.
  \<^item> \<open>SampleCluster\<close>: a cluster of three nodes on which the hypotheses are instantiated.

  Bounds. There are \<open>CLUSTER_SLOTS\<close> = 16384 slots; loops over them are folds over
  \<open>[0..<CLUSTER_SLOTS]\<close>. Where a counter could wrap (epochs) the theorem has a hypothesis that
  it has not, or states the wrap (\<open>publish_length_wraps\<close>).

  Not modelled: sockets and the event loop (what they answer is an argument) and the threads
  of the ZooKeeper client (its watcher runs here as a step of its own, between the handlers
  of the main thread); the lock of the configuration file and the way it is written; logging;
  the values of the keyspace (only how many keys a slot holds matters to the cluster); the
  commands DUMP, RESTORE and MIGRATE beyond the payload, whose serialised value is an
  argument; the RDB and AOF files; scripting, modules and Sentinel. Of the data types of
  upstream Redis, which this fork does not change, only sets of integers are modelled.
\<close>

section \<open>Elections\<close>

text \<open>C1. Along every run of a node (packets, cron, work before sleeping, CLUSTER commands but for
  hard resets, ZooKeeper events, in any order) the epochs of the votes it grants are pairwise different: a node votes at most
  once in an epoch.\<close>

theorem one_vote_per_epoch:
  assumes "runs zk (z, s) (z', t)" "vote_inv s"
  shows "distinct (map ack_epoch (acks t))"
  using runs_vote_inv [OF assms(1)] assms(2) by (simp add: vote_inv_def strict_sorted_iff)

theorem one_vote_per_epoch_witness:
  "\<exists>t :: server. length (acks t) = 1 \<and> distinct (map ack_epoch (acks t))"
proof -
  obtain t m where t: "clusterProcessPacket 12 sample_request (sample 0) = Some (1, t)" "acks t = [SendMessage 12 m]"
    using sample_vote by blast
  have "runs (undefined :: unit zk_api) ((), sample 0) ((), t)"
    by (rule runs.step [OF runs.start node_step.packet [OF t(1)]]) simp_all
  then show ?thesis using one_vote_per_epoch [OF _ sample_votes] t(2) by (intro exI [of _ t]) simp
qed

text \<open>C2. Two candidates cannot both collect, in the same epoch, the votes of a majority of a
  cluster of three masters or more, whatever runs the voters made before.\<close>

theorem unique_winner_per_epoch:
  assumes "\<And>v. v \<in> M \<Longrightarrow> vote_inv (st v) \<and> runs zk (zs v, st v) (zs' v, st' v)"
    and "voter_quorum M (supporters M peer st' e c)" "voter_quorum M (supporters M peer st' e d)"
  shows "c = d"
proof (rule supporters_unique)
  show "vote_inv (st' v)" if "v \<in> M" for v
    using runs_vote_inv [of zk "(zs v, st v)" "(zs' v, st' v)"] assms(1) [OF that] by simp
qed (rule assms)+

theorem unique_winner_per_epoch_witness:
  "\<exists>t :: server. length (acks t) = 1 \<and>
     (\<forall>d. voter_quorum {0, 1, 2 :: nat} (supporters {0, 1, 2} (\<lambda>_ l. l) (\<lambda>_. t) 6 d) \<longrightarrow> d = (12 :: nat)) \<and>
     voter_quorum {0, 1, 2 :: nat} (supporters {0, 1, 2} (\<lambda>_ l. l) (\<lambda>_. t) 6 12)"
proof -
  obtain t m where t: "clusterProcessPacket 12 sample_request (sample 0) = Some (1, t)" "acks t = [SendMessage 12 m]"
    "h_currentEpoch m = 6"
    using sample_vote by blast
  have r: "runs (undefined :: unit zk_api) ((), sample 0) ((), t)"
    by (rule runs.step [OF runs.start node_step.packet [OF t(1)]]) simp_all
  have "supporters {0, 1, 2 :: nat} (\<lambda>_ l. l) (\<lambda>_. t) 6 12 = {0, 1, 2}"
    unfolding supporters_def t(2) by (simp add: ack_epoch_def ack_link_def t(3)) blast
  then have q: "voter_quorum {0, 1, 2 :: nat} (supporters {0, 1, 2} (\<lambda>_ l. l) (\<lambda>_. t) 6 12)"
    unfolding voter_quorum_def needed_quorum_def Let_def by simp
  have "d = 12" if d: "voter_quorum {0, 1, 2 :: nat} (supporters {0, 1, 2} (\<lambda>_ l. l) (\<lambda>_. t) 6 d)" for d
    by (rule unique_winner_per_epoch [where st = "\<lambda>_. sample 0" and zs = "\<lambda>_. ()" and zs' = "\<lambda>_. ()"
          and zk = undefined and st' = "\<lambda>_. t", OF conjI [OF sample_votes r] d q])
  moreover have "length (acks t) = 1" by (simp add: t(2))
  ultimately show ?thesis using q by blast
qed

text \<open>C3. A vote is granted, that is an acknowledgement is sent, only by a master with slots
  that has not voted in the current epoch, to a replica whose master failed (or that was
  told to take over), no earlier than two node timeouts after the last vote for that
  master, and never if a slot that the replica claims has an owner with a greater
  configuration epoch than the claim.\<close>

theorem vote_granted_only_if:
  assumes "lastVoteEpoch s \<le> currentEpoch s"
    and "acks (clusterSendFailoverAuthIfNeeded n req s) \<noteq> acks s"
  shows "h_currentEpoch req \<ge> currentEpoch s \<and> lastVoteEpoch s < currentEpoch s \<and>
     \<not> nodeIsSlave (me s) \<and> numslots (me s) \<noteq> 0 \<and> \<not> nodeIsMaster (nd s n) \<and>
     (\<exists>m. slaveof (nd s n) = Some m \<and>
        (nodeFailed (nd s m) \<or> h_mflags0 req AND CLUSTERMSG_FLAG0_FORCEACK \<noteq> 0) \<and>
        mstime s - voted_time (nd s m) \<ge> cluster_node_timeout s * 2) \<and>
     (\<forall>j < CLUSTER_SLOTS. \<forall>m. bitmapTestBit (h_myslots req) j \<and> slots s j = Some m \<longrightarrow>
        configEpoch (nd s m) \<le> h_configEpoch req)"
  using clusterSendFailoverAuthIfNeeded_vote(4) [OF assms] by (auto simp: claim_outdated_iff not_less)

theorem vote_granted_only_if_witness:
  "lastVoteEpoch sample_heard < currentEpoch sample_heard \<and>
   \<not> (\<exists>j < CLUSTER_SLOTS. \<exists>m. bitmapTestBit (h_myslots sample_request) j \<and> slots sample_heard j = Some m \<and>
      h_configEpoch sample_request < configEpoch (nd sample_heard m))"
proof -
  have "acks (clusterSendFailoverAuthIfNeeded 2 sample_request sample_heard) \<noteq> acks sample_heard"
    using sample_heard_vote sample_heard_fields(7) by auto
  then show ?thesis using vote_granted_only_if [of sample_heard 2 sample_request] sample_heard_fields(1,2) by (auto simp: not_less [symmetric])
qed

text \<open>C4. In a cluster of three masters or more two majorities share a voter; with the
  quorums of one or two masters that the code computes they need not.\<close>

theorem quorums_intersect_iff:
  assumes "0 \<le> n"
  shows "(\<forall>a b. needed_quorum n \<le> a \<and> needed_quorum n \<le> b \<longrightarrow> n < a + b) \<longleftrightarrow> 3 \<le> n"
proof
  assume all: "\<forall>a b. needed_quorum n \<le> a \<and> needed_quorum n \<le> b \<longrightarrow> n < a + b"
  show "3 \<le> n"
  proof (rule ccontr)
    assume "\<not> 3 \<le> n"
    then have "n = 0 \<or> n = 1 \<or> n = 2" using assms by auto
    then show False
      using all [THEN spec [of _ "needed_quorum n"], THEN spec [of _ "needed_quorum n"]] by (auto simp: needed_quorum_small)
  qed
next
  assume "3 \<le> n"
  then have "n < 2 * needed_quorum n" by (rule needed_quorum_majority)
  then show "\<forall>a b. needed_quorum n \<le> a \<and> needed_quorum n \<le> b \<longrightarrow> n < a + b" by auto
qed

theorem quorums_intersect_iff_witness:
  "\<not> (\<forall>a b. needed_quorum 2 \<le> a \<and> needed_quorum 2 \<le> b \<longrightarrow> 2 < a + b)"
  using quorums_intersect_iff [of 2] by simp

text \<open>C5. \<open>clusterHandleSlaveFailover\<close> never crashes and keeps the tables consistent; the node
  becomes a master only if it is a replica, its master has slots and failed (or a manual
  failover is on; without one the replica must be allowed to fail over), it was elected,
  by votes or by ZooKeeper, and then it owns exactly its slots and those of the old master;
  otherwise its slots, its role and its other flags stay as they were.\<close>

theorem failover_promotes_only_elected:
  assumes "cluster_inv s" "master_ok s"
  shows "\<exists>z' t. clusterHandleSlaveFailover zk z s = Some (z', t) \<and> cluster_inv t \<and>
     (elected zk z s \<and> \<not> nodeIsMaster (me s) \<and>
      (\<exists>m. slaveof (me s) = Some m \<and> numslots (nd s m) \<noteq> 0 \<and>
         (mf_end s \<noteq> 0 \<and> mf_can_start s \<noteq> 0 \<or> nodeFailed (nd s m) \<and> \<not> cluster_slave_no_failover s)) \<and>
      promotion s t \<or>
      slots t = slots s \<and> flags (me t) = flags (me s) \<and> myself t = myself s)"
  using clusterHandleSlaveFailover_result [OF assms, of zk z] by (simp only: failover_has_cause_iff conj_assoc)

theorem failover_promotes_only_elected_witness:
  "\<exists>t. clusterHandleSlaveFailover (undefined :: unit zk_api) () (sample 2) = Some ((), t) \<and> cluster_inv t \<and>
     (slots t = slots (sample 2))"
proof -
  have "\<not> elected (undefined :: unit zk_api) () (sample 2)"
    by (simp add: elected_def sample_def)
  then show ?thesis
    using failover_promotes_only_elected [OF sample_inv [of 2] sample_role(2) [of 2], of "undefined :: unit zk_api" "()"] by auto
qed

section \<open>Keys and slots\<close>

text \<open>C6. The table-driven CRC16 that maps a key to its slot computes, for every buffer, the
  bit-by-bit division by the CCITT polynomial 0x1021 with initial value 0.\<close>

theorem crc16_table_correct: "crc16 buf = crc16_ref buf"
  by (rule crc16_eq_ref)

section \<open>Packets\<close>

text \<open>C7. \<open>clusterProcessPacket\<close> returns, without following a NULL pointer, reading beyond the packet
  or failing an assertion, and leaves the tables consistent (the slots table, the bitmaps and
  counters of the nodes, the names and the reports), for a packet of any type and from any
  sender, known or not, under three conditions: the data of the packet has the length that the
  packet announces; the node is a master, or a replica that has a master and no slots
  of its own; and the link of the packet belongs to no node, or to another node of the table,
  and then the packet is not a MEET.\<close>

theorem packet_keeps_tables:
  assumes "cluster_inv s" "role_ok s" "link_ok s l hdr" "packet_wf hdr"
  shows "\<exists>r t. clusterProcessPacket l hdr s = Some (r, t) \<and> cluster_inv t"
  by (rule clusterProcessPacket_returns [OF assms])

theorem packet_keeps_tables_witness:
  "\<exists>r t. clusterProcessPacket 12 sample_request (sample 0) = Some (r, t) \<and> cluster_inv t"
proof (rule packet_keeps_tables)
  show "link_ok (sample 0) 12 sample_request" by (simp add: link_ok_def sample_def msgtype_defs live_def)
  show "packet_wf sample_request" by (simp add: packet_wf_def msgtype_defs)
qed (simp_all add: sample_inv sample_role)

text \<open>C10. The length check of a PUBLISH packet adds the two announced lengths in 32 bits:
  a packet whose lengths sum to \<open>2 ^ 32\<close> passes it with no data at all, and a node with
  subscribers then reads beyond the packet.\<close>

theorem publish_length_wraps:
  "\<exists>hdr clen mlen. h_type hdr = CLUSTERMSG_TYPE_PUBLISH \<and> h_data hdr = PublishData clen mlen [] \<and>
     unat clen + unat mlen = 2 ^ 32 \<and> packet_length_ok hdr \<and>
     clusterProcessPacket l hdr (s\<lparr>pubsub_in_use := True\<rparr>) = None"
proof -
  define hdr where "hdr = sample_request\<lparr>h_type := CLUSTERMSG_TYPE_PUBLISH,
     h_totlen := CLUSTERMSG_MIN_LEN + (sizeof_clusterMsgDataPublish - 8), h_data := PublishData 0xFFFFFFFF 1 []\<rparr>"
  have f: "h_type hdr = CLUSTERMSG_TYPE_PUBLISH" "h_data hdr = PublishData 0xFFFFFFFF 1 []"
    by (simp_all add: hdr_def)
  have len: "packet_length_ok hdr"
    by (simp add: hdr_def packet_length_ok_def is_ping_type_def msgtype_defs CLUSTERMSG_MIN_LEN_def
        sizeof_clusterMsgDataPublish_def Let_def)
  have keep: "pubsub_in_use (packet_sender_info sd h u) = pubsub_in_use u" for sd h u
    by (auto simp: packet_sender_info_def Let_def upd_node_def clusterDoBeforeSleep_def split: option.splits)
  have "clusterProcessPacket l hdr (s\<lparr>pubsub_in_use := True\<rparr>) = None"
    by (simp add: clusterProcessPacket_def Let_def len f is_ping_type_def msgtype_defs packet_other_def
        packet_publish_def keep)
  then show ?thesis using f len by (intro exI [of _ hdr] exI [of _ "0xFFFFFFFF"] exI [of _ 1]) simp
qed

text \<open>C11. \<open>clusterUpdateSlotsConfigWith\<close> rebinds exactly the slots that the sender claims, that
  are not being imported and whose owner has a smaller configuration epoch (or that have
  no owner); every other slot keeps its owner, and the tables stay consistent.\<close>

theorem update_slots_rebinds:
  assumes "cluster_inv s" "n \<in> live s" "n \<noteq> myself s" "role_ok s"
  shows "\<exists>t. clusterUpdateSlotsConfigWith n e claimed s = Some t \<and> cluster_inv t \<and> live t = live s \<and>
     slots t = (\<lambda>j. if j < CLUSTER_SLOTS \<and> rebound s n e claimed j then Some n else slots s j)"
proof -
  obtain t where t: "clusterUpdateSlotsConfigWith n e claimed s = Some t" "cluster_inv t" "live t = live s"
    using update_slots_returns [OF assms(1,2)] assms(4) by metis
  then show ?thesis using clusterUpdateSlotsConfigWith_keep(5) [OF assms(1,2) t(1) assms(3)] by blast
qed

theorem update_slots_rebinds_witness:
  "\<exists>t. clusterUpdateSlotsConfigWith 1 3 (sample_slots 0) (sample 0) = Some t \<and> cluster_inv t \<and>
     slots t 5 = Some 1 \<and> slots t 9000 = Some 1"
proof -
  obtain t where t: "clusterUpdateSlotsConfigWith 1 3 (sample_slots 0) (sample 0) = Some t" "cluster_inv t"
    "slots t = (\<lambda>j. if j < CLUSTER_SLOTS \<and> rebound (sample 0) 1 3 (sample_slots 0) j then Some 1 else slots (sample 0) j)"
    using update_slots_rebinds [of "sample 0" 1 3 "sample_slots 0"] sample_inv [of 0] sample_role(1) [of 0] by auto
  have "rebound (sample 0) 1 3 (sample_slots 0) 5"
    by (simp add: rebound_def sample_slots_bit)
  then have "slots t 5 = Some 1" unfolding t(3) by (simp add: CLUSTER_SLOTS_def)
  moreover have "slots t 9000 = Some 1" unfolding t(3) by simp
  ultimately show ?thesis using t(1,2) by blast
qed

section \<open>The slots table\<close>

text \<open>C12. Assigning and releasing a slot refine the partial map from slots to owners: a free
  slot is bound and nothing else changes, an assigned one is refused; a bound slot is
  released, an unbound one is refused; bitmap and counter of the owners follow.\<close>

theorem slot_assignment_refines:
  assumes "slot_inv s" "j < CLUSTER_SLOTS" "n \<in> live s"
  shows "\<exists>s' r t. clusterAddSlot n j s = (if slots s j = None then C_OK else C_ERR, s') \<and> slot_inv s' \<and>
     slots s' = (if slots s j = None then (slots s)(j \<mapsto> n) else slots s) \<and> slot_frame s' = slot_frame s \<and>
     clusterDelSlot j s = Some (r, t) \<and> (r = C_OK \<longleftrightarrow> slots s j \<noteq> None) \<and> slot_inv t \<and>
     slots t = (slots s)(j := None) \<and> slot_frame t = slot_frame s"
proof -
  obtain r t where t: "clusterDelSlot j s = Some (r, t)" "(r = C_OK) = (slots s j \<noteq> None)" "slot_inv t"
    "slots t = (slots s)(j := None)" "slot_frame t = slot_frame s"
    using clusterDelSlot_effect [OF assms(1,2)] by blast
  obtain s' where "clusterAddSlot n j s = (if slots s j = None then C_OK else C_ERR, s')" "slot_inv s'"
    "slots s' = (if slots s j = None then (slots s)(j \<mapsto> n) else slots s)" "slot_frame s' = slot_frame s"
  proof (cases "slots s j")
    case None
    then show ?thesis using clusterAddSlot_free [OF assms(1,2,3)] that by auto
  next
    case (Some m)
    then have "clusterAddSlot n j s = (C_ERR, s)" by (simp add: clusterAddSlot_def)
    then show ?thesis using that Some assms(1) by simp
  qed
  with t show ?thesis by blast
qed

theorem slot_assignment_refines_witness:
  "\<exists>s'. clusterAddSlot 0 9000 (sample 0) = (C_ERR, s') \<and> slots s' 9000 = Some 1"
proof -
  have "slot_inv (sample 0)" using sample_inv [of 0] cluster_invD(1) by blast
  then show ?thesis using slot_assignment_refines [of "sample 0" 9000 0] by (auto simp: CLUSTER_SLOTS_def)
qed

section \<open>The nodes table\<close>

text \<open>C13. \<open>clusterDelNode\<close> forgets a node completely: its name is no longer found, no slot is
  bound to it, none is imported from it or migrated to it, no failure report of it and no
  replica or master link to it is left, and the tables stay consistent.\<close>

theorem del_node_leaves_no_trace:
  assumes "cluster_inv s" "repl_inv s" "d \<in> live s" "d \<noteq> myself s"
  shows "\<exists>t. clusterDelNode d s = Some t \<and> cluster_inv t \<and> repl_inv t \<and> live t = live s - {d} \<and>
     clusterLookupNode (name (nd s d)) t = None \<and>
     slots t = (\<lambda>i. if i < CLUSTER_SLOTS \<and> slots s i = Some d then None else slots s i) \<and>
     (\<forall>j<CLUSTER_SLOTS. importing_slots_from t j \<noteq> Some d \<and> migrating_slots_to t j \<noteq> Some d) \<and>
     (\<forall>a \<in> live t. d \<notin> reporters t a \<and> d \<notin> set (slaves (nd t a)) \<and> slaveof (nd t a) \<noteq> Some d)"
  using clusterDelNode_effect [OF cluster_invD(1-2) [OF assms(1)] assms(2) cluster_invD(3) [OF assms(1)] assms(3)]
    clusterDelNode_inv [OF assms(1,3,4)] by force

theorem del_node_leaves_no_trace_witness:
  "\<exists>t. clusterDelNode 1 (sample 0) = Some t \<and> cluster_inv t \<and> live t = {0, 2} \<and> slaveof (nd t 2) \<noteq> Some 1"
proof -
  have "repl_inv (sample 0)" by (auto simp: repl_inv_def)
  then obtain t where "clusterDelNode 1 (sample 0) = Some t" "cluster_inv t" "live t = live (sample 0) - {1}"
    "\<forall>a \<in> live t. slaveof (nd t a) \<noteq> Some 1"
    using del_node_leaves_no_trace [of "sample 0" 1] sample_inv [of 0] by auto
  moreover have "live (sample 0) - {1} = {0, 2}" by auto
  ultimately show ?thesis by auto
qed

section \<open>Failure detection\<close>

text \<open>C14. A node keeps at most one failure report per reporter: a new report is added or the
  old one renewed, a withdrawn one is gone, and the count is the number of reporters whose
  report is no older than twice the node timeout.\<close>

theorem failure_reports_per_reporter:
  assumes "distinct (map fst (fail_reports (nd s a)))"
  shows "map_of (fail_reports (nd (snd (clusterNodeAddFailureReport a b s)) a)) =
       (map_of (fail_reports (nd s a)))(b \<mapsto> mstime s) \<and>
     fst (clusterNodeAddFailureReport a b s) = (if b \<in> reporters s a then 0 else 1) \<and>
     distinct (map fst (fail_reports (nd (snd (clusterNodeAddFailureReport a b s)) a))) \<and>
     b \<notin> reporters (snd (clusterNodeDelFailureReport a b s)) a \<and>
     distinct (map fst (fail_reports (nd (snd (clusterNodeDelFailureReport a b s)) a))) \<and>
     fst (clusterNodeFailureReportsCount a s) = int (card (valid_reporters s a))"
  using clusterNodeAddFailureReport_reports [OF assms] clusterNodeFailureReportsCount_card [OF assms]
    clusterNodeDelFailureReport_effect(4,5) [OF refl assms] by blast

theorem failure_reports_per_reporter_witness:
  "fst (clusterNodeAddFailureReport 1 2 (sample 0)) = 1 \<and> fst (clusterNodeFailureReportsCount 1 (sample 0)) = 0"
  using failure_reports_per_reporter [of "sample 0" 1 2] by (simp add: reporters_def valid_reporters_def)

text \<open>C15. \<open>markNodeAsFailingIfNeeded\<close> marks a suspect node as failed exactly if no ZooKeeper
  client is configured and the masters that reported it recently, with this node if it is a
  master, reach the quorum; then the time of the failure is recorded and the suspicion is
  cleared.\<close>

theorem node_failed_iff_agreed:
  assumes "distinct (map fst (fail_reports (nd s a)))"
  shows "(nodeFailed (nd (markNodeAsFailingIfNeeded a s) a) \<longleftrightarrow>
       nodeFailed (nd s a) \<or> (zklc s = None \<and> nodeTimedOut (nd s a) \<and> failure_agreed s a)) \<and>
     (\<not> nodeFailed (nd s a) \<and> nodeFailed (nd (markNodeAsFailingIfNeeded a s) a) \<longrightarrow>
       fail_time (nd (markNodeAsFailingIfNeeded a s) a) = mstime s \<and>
       \<not> nodeTimedOut (nd (markNodeAsFailingIfNeeded a s) a))"
  using markNodeAsFailingIfNeeded_effect [OF assms] by blast

theorem node_failed_iff_agreed_witness:
  "nodeFailed (nd (markNodeAsFailingIfNeeded 2 sample_suspect) 2)"
proof -
  have "distinct (map fst (fail_reports (nd sample_suspect 2)))" "zklc sample_suspect = None"
    "nodeTimedOut (nd sample_suspect 2)" "failure_agreed sample_suspect 2"
    by (simp_all add: sample_suspect_def failure_agreed_def needed_quorum_def nodeTimedOut_def flag_defs)
  then show ?thesis using node_failed_iff_agreed by blast
qed

text \<open>C16. A master that a two-master cluster marks as failed on its own has no time of failure:
  once the clock passed twice the node timeout, the failure is taken back by the first
  packet of the node, without the wait that protects the other failed masters.\<close>

theorem lone_failure_has_no_time:
  assumes "cluster_size s = 2" "nodeIsMaster (me s)" "flags (nd s a) AND (CLUSTER_NODE_PFAIL OR CLUSTER_NODE_FAIL) = 0"
    and "mstime s - ping_sent (nd s a) > cluster_node_timeout s" "mstime s - data_received (nd s a) > cluster_node_timeout s"
    and "nodeIsMaster (nd s a)" "numslots (nd s a) > 0" "fail_time (nd s a) = 0"
    and "mstime s > cluster_node_timeout s * CLUSTER_FAIL_UNDO_TIME_MULT"
  shows "nodeFailed (nd (snd (clusterCron_checkTimeout a (u, s))) a) \<and>
     (\<exists>t. clearNodeFailureIfNeeded a (snd (clusterCron_checkTimeout a (u, s))) = Some t \<and> \<not> nodeFailed (nd t a))"
proof -
  define v where "v = snd (clusterCron_checkTimeout a (u, s))"
  have v: "v = clusterSendFail (name (nd s a)) (upd_node a (\<lambda>x. x\<lparr>flags := flags x OR CLUSTER_NODE_FAIL\<rparr>) s)"
    using assms(1-5) unfolding v_def clusterCron_checkTimeout_def Let_def by simp
  have n: "nd v a = (nd s a)\<lparr>flags := flags (nd s a) OR CLUSTER_NODE_FAIL\<rparr>"
    by (simp add: v)
  define w where "w = upd_node a (\<lambda>x. x\<lparr>flags := flags x OR CLUSTER_NODE_FAIL\<rparr>) s"
  obtain m where "sent m w v" using sent_fail [of "name (nd s a)" w] unfolding v w_def by blast
  then obtain ls st where "v = w\<lparr>effects := ls, stats_bus_messages_sent := st\<rparr>"
    unfolding sent_def by blast
  then have t: "mstime v = mstime s" "cluster_node_timeout v = cluster_node_timeout s"
    by (simp_all add: w_def upd_node_def)
  have f: "nodeFailed (nd v a)" "nodeIsMaster (nd v a)"
    using assms(6) by (simp_all add: n node_flag_bits bit_or_iff flag_defs flag_simps)
  have late: "mstime v - fail_time (nd v a) > cluster_node_timeout v * CLUSTER_FAIL_UNDO_TIME_MULT" "numslots (nd v a) > 0"
    using assms(7-9) by (simp_all add: t n)
  obtain t where "clearNodeFailureIfNeeded a v = Some t" "\<not> nodeFailed (nd t a)"
    using clearNodeFailureIfNeeded_effect [OF f(1)] f(2) late by blast
  then show ?thesis using f(1) unfolding v_def by blast
qed

theorem lone_failure_has_no_time_witness:
  "nodeFailed (nd (snd (clusterCron_checkTimeout 1 (False, sample_silent))) 1)"
proof -
  have "cluster_node_timeout (sample 0) = 1000" by (simp add: sample_def)
  then have f: "cluster_size sample_silent = 2" "nodeIsMaster (me sample_silent)"
    "flags (nd sample_silent 1) AND (CLUSTER_NODE_PFAIL OR CLUSTER_NODE_FAIL) = 0" "mstime sample_silent = 100000"
    "cluster_node_timeout sample_silent = 1000" "ping_sent (nd sample_silent 1) = 90000"
    "data_received (nd sample_silent 1) = 90000" "nodeIsMaster (nd sample_silent 1)" "numslots (nd sample_silent 1) = 8192"
    "fail_time (nd sample_silent 1) = 0"
    by (simp_all add: sample_silent_def upd_node_def) (simp_all add: node_flag_defs flag_defs)
  show ?thesis
    by (rule conjunct1 [OF lone_failure_has_no_time]) (simp_all add: f [unfolded One_nat_def] CLUSTER_FAIL_UNDO_TIME_MULT_def)
qed

section \<open>Epochs\<close>

text \<open>C17. When two masters with the same configuration epoch hear of each other, the one with the
  smaller name (byte by byte, the first difference decides) takes a new epoch, which is one
  more than its current epoch and becomes its current epoch; the other one does nothing.\<close>

theorem collision_moves_one:
  assumes "nodeIsMaster (me s)" "nodeIsMaster (nd s b)" "configEpoch (nd s b) = configEpoch (me s)"
    and "nodeIsMaster (me t)" "nodeIsMaster (nd t a)" "configEpoch (nd t a) = configEpoch (me t)"
    and "name (nd s b) = name (me t)" "name (nd t a) = name (me s)"
    and "name (me s) = p @ x # u" "name (me t) = p @ y # v" "x < y"
  shows "configEpoch (me (clusterHandleConfigEpochCollision b s)) = currentEpoch s + 1 \<and>
     currentEpoch (clusterHandleConfigEpochCollision b s) = currentEpoch s + 1 \<and>
     clusterHandleConfigEpochCollision a t = t"
proof -
  have "0 < memcmp_bytes (name (me t)) (name (me s))" using memcmp_first [OF assms(11), of p v u] assms(9,10) by simp
  moreover from this have "memcmp_bytes (name (me s)) (name (me t)) < 0"
    using memcmp_antisym [of "name (me s)" "name (me t)"] by simp
  ultimately show ?thesis using assms(1-8) by (simp add: clusterHandleConfigEpochCollision_def Let_def)
qed

theorem collision_moves_one_witness:
  "configEpoch (me (clusterHandleConfigEpochCollision 1 sample_twin0)) = 6 \<and>
   clusterHandleConfigEpochCollision 0 sample_twin1 = sample_twin1"
proof -
  have names: "sample_name 0 = [] @ 97 # replicate 39 97" "sample_name 1 = [] @ 98 # replicate 39 98"
    using replicate_Suc [of 39 "97 :: byte"] replicate_Suc [of 39 "98 :: byte"]
    by (simp_all add: sample_name_def CLUSTER_NAMELEN_def)
  have "configEpoch (me (clusterHandleConfigEpochCollision 1 sample_twin0)) = currentEpoch sample_twin0 + 1 \<and>
      currentEpoch (clusterHandleConfigEpochCollision 1 sample_twin0) = currentEpoch sample_twin0 + 1 \<and>
      clusterHandleConfigEpochCollision 0 sample_twin1 = sample_twin1"
    by (rule collision_moves_one [of sample_twin0 1 sample_twin1 0 "[]" 97 "replicate 39 97" 98 "replicate 39 98"])
      (simp_all only: sample_twin_simps names [symmetric], simp_all)
  then show ?thesis by (simp add: sample_twin_simps)
qed

text \<open>C18. Along every run of a node its current epoch and the epoch of its last vote never
  decrease, and the votes that it adds are for epochs above the last one it voted in.\<close>

theorem epochs_never_decrease:
  assumes "runs zk (z, s) (z', t)" "vote_inv s"
  shows "currentEpoch s \<le> currentEpoch t \<and> lastVoteEpoch s \<le> lastVoteEpoch t \<and> myself t = myself s \<and>
     (\<exists>new. acks t = acks s @ new \<and> (\<forall>a \<in> set new. lastVoteEpoch s < ack_epoch a))"
  using runs_grow [OF assms(1)] assms(2) by (auto simp: votes_grow_def)

theorem epochs_never_decrease_witness:
  "\<exists>t m. clusterProcessPacket 12 sample_request (sample 0) = Some (1, t) \<and> 5 \<le> currentEpoch t \<and> 4 \<le> lastVoteEpoch t"
proof -
  obtain t m where t: "clusterProcessPacket 12 sample_request (sample 0) = Some (1, t)"
    using sample_vote by blast
  have "runs (undefined :: unit zk_api) ((), sample 0) ((), t)"
    by (rule runs.step [OF runs.start node_step.packet [OF t]]) simp_all
  then show ?thesis using epochs_never_decrease [OF _ sample_votes] t by fastforce
qed

text \<open>C19. In a cluster of one master a replica that asked for votes is promoted with no vote at
  all.\<close>

theorem promotion_without_votes:
  assumes "cluster_inv s" "master_ok s" "slaveof (me s) = Some m" "\<not> nodeIsMaster (me s)" "zklc s = None"
    and "cluster_size s = 1" "failover_auth_sent s \<noteq> 0" "failover_auth_count s = 0"
  shows "\<exists>t. failover_by_votes s = Some t \<and> cluster_inv t \<and> promotion s t"
proof -
  have "elected (undefined :: unit zk_api) () s"
    using assms(5-8) by (simp add: elected_def needed_quorum_small)
  then show ?thesis
    using failover_by_votes_result [OF assms(1-5), of "undefined :: unit zk_api" "()"] by auto
qed

theorem promotion_without_votes_witness:
  "\<exists>t. failover_by_votes ((sample 2)\<lparr>cluster_size := 1, failover_auth_sent := 1\<rparr>) = Some t \<and> nodeIsMaster (me t)"
proof -
  define s where "s = (sample 2)\<lparr>cluster_size := 1, failover_auth_sent := 1\<rparr>"
  have "inv_view s = inv_view (sample 2)" by (simp add: s_def inv_view_def view_defs)
  then have "cluster_inv s" using cluster_inv_cong [of s "sample 2"] sample_inv [of 2] by simp
  moreover have "master_ok s" using sample_role(2) [of 2] by (simp add: s_def master_ok_def live_def)
  moreover have "slaveof (me s) = Some 1" "\<not> nodeIsMaster (me s)" "zklc s = None" "cluster_size s = 1"
    "failover_auth_sent s \<noteq> 0" by (simp_all add: s_def)
  moreover have "failover_auth_count s = 0" by (simp add: s_def sample_def)
  ultimately obtain t where "failover_by_votes s = Some t" "promotion s t"
    using promotion_without_votes [of s 1] by blast
  then show ?thesis unfolding s_def promotion_def by blast
qed

section \<open>Periodic work\<close>

text \<open>C20. \<open>clusterCron\<close> and \<open>clusterBeforeSleep\<close> of a consistent node never crash, whatever the
  ZooKeeper ensemble answers and whatever connections fail, and leave the tables consistent.\<close>

theorem cron_keeps_tables:
  assumes "me_ok s"
  shows "\<exists>z1 t1 z2 t2. clusterCron zk z s = Some (z1, t1) \<and> cluster_inv t1 \<and>
     clusterBeforeSleep zk z s = Some (z2, t2) \<and> cluster_inv t2"
  using clusterCron_returns [OF assms, of zk z] clusterBeforeSleep_returns [OF me_okD(1,2) [OF assms], of zk z] by blast

theorem cron_keeps_tables_witness:
  "\<exists>z t. clusterCron sample_ensemble {} (sample 2) = Some (z, t) \<and> cluster_inv t"
  using cron_keeps_tables [OF sample_me_ok [of 2], of sample_ensemble "{}"] by auto

section \<open>ZooKeeper\<close>

text \<open>C23. Two replicas of the same master cannot both win the takeover through ZooKeeper: once one of
  them won, no other one does as long as the znode \<open>/replace-\<close> with the name of that master exists,
  whatever else happens to the ensemble and whatever master the replicas watched
  before. Of the client library it is only used that a create that succeeds found no such
  znode and leaves one.\<close>

theorem takeover_exclusive:
  assumes "\<And>h p d x x'. zoo_create zk h p d x = (ZOK, x') \<Longrightarrow> p \<notin> paths x \<and> p \<in> paths x'"
    and "slaveof (me s) = Some m" "slaveof (me t) = Some n" "name (nd t n) = name (nd s m)"
    and "length (name (nd s m)) = CLUSTER_NAMELEN" "0 \<notin> set (name (nd s m))"
    and "zklinkTryCreateOldMasterPath zk z s = Some (1, z', s')"
    and "str ''/replace-'' @ take (CLUSTER_NAMELEN - 1) (name (nd s m)) \<in> paths z' \<Longrightarrow>
         str ''/replace-'' @ take (CLUSTER_NAMELEN - 1) (name (nd s m)) \<in> paths y"
    and "zklinkTryCreateOldMasterPath zk y t = Some (r, y', t')"
  shows "r = 0"
  by (rule zklinkTry_exclusive [where paths = paths, OF assms])

theorem takeover_exclusive_witness:
  "\<exists>s' z' r y' t'. zklinkTryCreateOldMasterPath sample_ensemble {} (sample_zk sample_master_name) = Some (1, z', s') \<and>
     zklinkTryCreateOldMasterPath sample_ensemble z' (sample_zk sample_master_name) = Some (r, y', t') \<and> r = 0"
proof -
  let ?s = "sample_zk sample_master_name"
  obtain s' p where w: "zklinkTryCreateOldMasterPath sample_ensemble {} ?s = Some (1, {p}, s')"
    using sample_zk_try by blast
  obtain r y' t' where l: "zklinkTryCreateOldMasterPath sample_ensemble {p} ?s = Some (r, y', t')"
    using zklinkTry_result [of ?s _ sample_ensemble "{p}"] by fastforce
  have c: "p' \<notin> x \<and> p' \<in> x'" if "zoo_create sample_ensemble h p' d x = (ZOK, x')" for h p' d x x'
    using that by (auto simp: sample_ensemble_def zk_code_defs split: if_splits)
  have "r = 0"
    by (rule takeover_exclusive [where paths = "\<lambda>x. x" and m = 1 and n = 1, OF c _ _ _ _ _ w _ l])
      (simp_all add: sample_name_def CLUSTER_NAMELEN_def)
  then show ?thesis using w l by blast
qed

text \<open>C24. A replica that watches the znode of its master and is then given another master never
  watches the new one while its session lasts: however often the ZooKeeper cron runs,
  whatever events arrive (none can arrive for a znode that is not watched), whatever it
  tries and whatever else happens to the node, as long as it stays a replica of a master with
  that name its client is left as it was, with the old znode on watch, and it can not take over.\<close>

theorem stale_watch_is_never_renewed:
  assumes "zklc s = Some c" "zkstate c = ZKS_CONNECTED" "zk_on_wath c = 1" "zk_create_path c = 0" "replace_path c = Some rp"
    and "nodeIsSlave (me s)" "length (name (nd s n)) = CLUSTER_NAMELEN" "0 \<notin> set (name (nd s n))"
    and "take CLUSTER_NAMELEN rp \<noteq> name (nd s n)"
    and "clusterSetMaster n s = Some s1" "zk_run zk (name (nd s n)) (z, s1) (z', t)"
  shows "zklc t = Some c \<and> zklinkCron zk y t = (y, t) \<and> zklinkTryCreateOldMasterPath zk y t = Some (0, y, t)"
proof -
  note m = clusterSetMaster_client [OF assms(10,6)]
  have t: "zklc t = Some c" "nodeIsSlave (me t)" "\<exists>m. slaveof (me t) = Some m \<and> name (nd t m) = name (nd s n)"
    using zk_run_stuck [OF assms(11) snd_conv _ assms(2-5) _ _ _ assms(7-9)] m assms(1) by auto
  then obtain k where k: "slaveof (me t) = Some k" "name (nd t k) = name (nd s n)" by blast
  then have "\<not> strneq CLUSTER_NAMELEN rp (name_cstr (nd t k))"
    using assms(7-9) strneq_name [of "nd t k"] by (simp add: strneq_def)
  then show ?thesis using zklink_stuck [OF t(1) assms(2-5) t(2) k(1), where zk = zk and z = y] t(1) by simp
qed

theorem stale_watch_is_never_renewed_witness:
  "\<exists>t. clusterSetMaster 0 (sample_zk (sample_name 1)) = Some t \<and> zklc t = zklc (sample_zk (sample_name 1)) \<and>
     zklinkCron sample_ensemble {} t = ({}, t)"
proof -
  let ?s = "sample_zk (sample_name 1)"
  obtain t where t: "clusterSetMaster 0 ?s = Some t" using clusterSetMaster_Some [of 0 ?s] by auto
  have names: "length (sample_name 0) = CLUSTER_NAMELEN" "0 \<notin> set (sample_name 0)" "take CLUSTER_NAMELEN (sample_name 1) \<noteq> sample_name 0"
    by (simp_all add: sample_name_def CLUSTER_NAMELEN_def replicate_eq_replicate)
  have "zk_run sample_ensemble (sample_name 0) ({}, t) ({}, t)" by (rule zk_run.start)
  then have "zklc t = zklc ?s \<and> zklinkCron sample_ensemble {} t = ({}, t)"
    using stale_watch_is_never_renewed [OF sample_zk_fields(3), of "sample_name 1" "sample_name 1" 0 t sample_ensemble "{}" "{}" t "{}"]
      t names by simp
  then show ?thesis using t by blast
qed

text \<open>C25. The path of a znode holds only 39 of the 40 characters of a name: of two masters whose names
  differ in the last character only the first one can publish itself. The other one finds
  its znode taken and stays unpublished as long as that of the first one exists. Of the client library it is
  used that a create that succeeds leaves the znode and that one that exists cannot
  be created.\<close>

theorem znode_paths_collide:
  assumes "\<And>h p d x. p \<in> paths x \<Longrightarrow> fst (zoo_create zk h p d x) = ZNODEEXISTS"
    and "\<And>h p d x x'. zoo_create zk h p d x = (ZOK, x') \<Longrightarrow> p \<in> paths x'"
    and "\<not> nodeIsSlave (me s)" "\<not> nodeIsSlave (me t)"
    and "length (name (me s)) = CLUSTER_NAMELEN" "0 \<notin> set (name (me s))" "length (name (me t)) = CLUSTER_NAMELEN"
      "0 \<notin> set (name (me t))" "take (CLUSTER_NAMELEN - 1) (name (me t)) = take (CLUSTER_NAMELEN - 1) (name (me s))"
    and "zklc s = Some c" "zk_create_path c = 0" "replace_path_del_tm c = 0"
    and "zklc t = Some d" "zk_create_path d = 0" "replace_path_del_tm d = 0"
    and "zklinkCreatePath zk c z s = (z', s')" "zklc s' \<noteq> zklc s"
    and "str ''/'' @ take (CLUSTER_NAMELEN - 1) (name (me s)) \<in> paths z' \<Longrightarrow>
         str ''/'' @ take (CLUSTER_NAMELEN - 1) (name (me s)) \<in> paths y"
  shows "zklc s' = Some (c\<lparr>zk_create_path := 1\<rparr>) \<and> snd (zklinkCreatePath zk d y t) = t"
  using zklinkCreatePath_collides [OF assms(1-17)] assms(18) by (simp add: str_def)

theorem znode_paths_collide_witness:
  "\<exists>s t z' s'. name (me s) \<noteq> name (me t) \<and> zklinkCreatePath sample_ensemble zklinkCreateClient {} s = (z', s') \<and>
     zklc s' \<noteq> zklc s \<and> snd (zklinkCreatePath sample_ensemble zklinkCreateClient z' t) = t"
proof -
  define s where "s = (sample 0)\<lparr>zklc := Some zklinkCreateClient\<rparr>"
  define t where "t = upd_node 0 (\<lambda>x. x\<lparr>name := replicate 39 97 @ [98]\<rparr>) s"
  have s: "name (me s) = replicate 39 97 @ [97]" "\<not> nodeIsSlave (me s)" "zklc s = Some zklinkCreateClient"
    using replicate_append_same [of 39 "97 :: byte"] replicate_Suc [of 39 "97 :: byte"]
    by (simp_all add: s_def sample_name_def CLUSTER_NAMELEN_def sample_node_def node_flag_bits flag_defs flag_simps bit_simps)
  have t: "name (me t) = replicate 39 97 @ [98]" "\<not> nodeIsSlave (me t)" "zklc t = Some zklinkCreateClient"
    using s by (simp_all add: t_def s_def nodeIsSlave_def)
  have c: "zk_create_path zklinkCreateClient = 0" "replace_path_del_tm zklinkCreateClient = 0"
    by (simp_all add: zklinkCreateClient_def)
  obtain z' s' where w: "zklinkCreatePath sample_ensemble zklinkCreateClient {} s = (z', s')" by fastforce
  then have ne: "zklc s' \<noteq> zklc s"
    using s by (auto simp: zklinkCreatePath_def sample_ensemble_def zk_code_defs Let_def zklinkCreateClient_def)
  have e: "fst (zoo_create sample_ensemble h p d x) = ZNODEEXISTS" if "p \<in> x" for h p d x
    using that by (simp add: sample_ensemble_def)
  have k: "p \<in> x'" if "zoo_create sample_ensemble h p d x = (ZOK, x')" for h p d x x'
    using that by (auto simp: sample_ensemble_def zk_code_defs split: if_splits)
  have "zklc s' = Some (zklinkCreateClient\<lparr>zk_create_path := 1\<rparr>) \<and> snd (zklinkCreatePath sample_ensemble zklinkCreateClient z' t) = t"
    by (rule znode_paths_collide [where paths = "\<lambda>x. x", OF e k s(2) t(2) _ _ _ _ _ s(3) c t(3) c w ne])
      (simp_all add: s(1) t(1) CLUSTER_NAMELEN_def)
  moreover have "name (me s) \<noteq> name (me t)" by (simp add: s(1) t(1))
  ultimately show ?thesis using w ne by blast
qed

section \<open>Routing\<close>

text \<open>C26. When \<open>getNodeByQuery\<close> names a node for a slot, all keys of the command, or of all
  commands of the transaction, hash to that slot and the cluster is up; "no redirection"
  means that this node owns the slot, imports it, or is a read-only replica of its owner;
  ASK that this node owns the slot and migrates it to the named node and some key is gone;
  MOVED that another node, the named one, owns the slot.\<close>

theorem query_routes_to_server:
  assumes "getNodeByQuery mk present c cmd argv s = Some (Some n, Some j, Some e)"
  shows "\<exists>ks. command_keys mk (if cmd_proc cmd = ExecCommand then mstate c else [(cmd, argv)]) = Some ks \<and>
     ks \<noteq> [] \<and> (\<forall>k \<in> set ks. keyHashSlot k = j) \<and> state s = CLUSTER_OK \<and> route_ok present c s ks j n e"
  by (rule getNodeByQuery_ok [OF assms])

theorem query_routes_to_server_witness:
  "\<exists>n. getNodeByQuery (\<lambda>_ _. None) (\<lambda>_. True) sample_client sample_get [[103], [97]] (sample 1) =
     Some (Some n, Some (keyHashSlot [97]), Some (if n = 1 then CLUSTER_REDIR_NONE else CLUSTER_REDIR_MOVED)) \<and>
     slots (sample 1) (keyHashSlot [97]) = Some n"
proof -
  obtain n where n: "getNodeByQuery (\<lambda>_ _. None) (\<lambda>_. True) sample_client sample_get [[103], [97]] (sample 1) =
     Some (Some n, Some (keyHashSlot [97]), Some (if n = 1 then CLUSTER_REDIR_NONE else CLUSTER_REDIR_MOVED))"
    using sample_get_query by blast
  then obtain ks where r: "route_ok (\<lambda>_. True) sample_client (sample 1) ks (keyHashSlot [97]) n
      (if n = 1 then CLUSTER_REDIR_NONE else CLUSTER_REDIR_MOVED)"
    using query_routes_to_server by blast
  have "slots (sample 1) (keyHashSlot [97]) = Some n"
    using r by (cases "n = 1") (simp_all add: route_ok_def redir_defs sample_client_def del: sample_fields(7))
  then show ?thesis using n by blast
qed

text \<open>C27. Only the part between the first opening brace and the next closing brace is hashed, if it
  is not empty: keys with the same tag live in the same slot.\<close>

theorem hash_tag_decides_slot:
  assumes "123 \<notin> set pre" "125 \<notin> set tag" "tag \<noteq> []" "123 \<notin> set pre'"
  shows "keyHashSlot (pre @ 123 # tag @ 125 # post) = unat (crc16 tag AND 0x3FFF) \<and>
     keyHashSlot (pre @ 123 # tag @ 125 # post) = keyHashSlot (pre' @ 123 # tag @ 125 # post')"
  using keyHashSlot_tag [OF assms(1-3)] keyHashSlot_tag [OF assms(4,2,3)] by simp

theorem hash_tag_decides_slot_witness:
  "keyHashSlot [1, 123, 2, 125] = keyHashSlot [123, 2, 125, 3]"
  using hash_tag_decides_slot [of "[1]" "[2]" "[]" "[]" "[3]"] by simp

text \<open>C28. The positions of the keys that \<open>getKeysFromCommand\<close> finds, by the command table or by the
  function of the command, lie inside the arguments, whatever numbers the arguments hold.\<close>

theorem key_positions_inside_argv:
  assumes "getKeysFromCommand mk cmd argv = Some ks" "cmd_flags cmd AND CMD_MODULE_GETKEYS = 0"
    and "0 < keystep cmd" "0 \<le> firstkey cmd" "2 \<le> length argv"
    and "getkeys_proc cmd = Some MigrateGetKeys \<Longrightarrow> 6 \<le> length argv"
  shows "\<forall>k \<in> set ks. 0 < k \<and> k < int (length argv)"
  using getKeysFromCommand_ok [OF assms] by (simp add: positions_ok_def)

theorem key_positions_inside_argv_witness:
  "\<exists>ks. getKeysFromCommand (\<lambda>_ _. None) sample_get [[103], [97]] = Some ks \<and> (\<forall>k \<in> set ks. k < 2)"
proof -
  have k: "getKeysFromCommand (\<lambda>_ _. None) sample_get [[103], [97]] = Some [1]" by (rule sample_get_keys)
  have "\<forall>k \<in> set [1 :: int]. 0 < k \<and> k < int (length [[103], [97 :: byte]])"
    by (rule key_positions_inside_argv [OF k]) (simp_all add: sample_get_def flag_defs CMD_MODULE_GETKEYS_def)
  then show ?thesis using k by simp
qed

section \<open>The state of the cluster and of the data\<close>

text \<open>C29. The state that \<open>clusterUpdateState\<close> leaves is down exactly if some slot has no owner or a
  failed one (and full coverage is required), or too few of the masters that own a slot are
  neither failed nor suspected: no more than half of three or more, none of two. Otherwise
  it is up. A master that is down stays so during two delays: after its start and after it
  was in a minority. The size of the cluster becomes the number of masters that own a slot.\<close>

theorem cluster_state_reflects_health:
  assumes "cluster_inv s"
  shows "state (clusterUpdateState s) =
     (if startup_delay s then state s
      else if healthy s = False then CLUSTER_FAIL
      else if state s \<noteq> CLUSTER_OK \<and> rejoin_delay s then state s
      else CLUSTER_OK) \<and>
    cluster_size (clusterUpdateState s) = (if startup_delay s then cluster_size s else int (card (slot_masters s)))"
  using clusterUpdateState_state [OF assms] by simp

theorem cluster_state_reflects_health_witness: "state (clusterUpdateState (sample 0)) = CLUSTER_FAIL"
proof -
  have "\<not> startup_delay (sample 0)" by (simp add: startup_delay_def CLUSTER_OK_def CLUSTER_FAIL_def sample_def)
  moreover have "\<exists>j < CLUSTER_SLOTS. \<forall>n. slots (sample 0) j = Some n \<longrightarrow> nodeFailed (nd (sample 0) n)"
    by (rule exI [of _ 8192]) (simp add: sample_def CLUSTER_SLOTS_def node_flag_bits flag_defs flag_simps bit_simps sample_node_def)
  then have "\<not> healthy (sample 0)" by (auto simp: healthy_def sample_def)
  ultimately show ?thesis using cluster_state_reflects_health [OF sample_inv [of 0]] by simp
qed

text \<open>C30. \<open>clusterReset\<close> leaves a consistent node that knows only itself and serves no slot; a hard
  reset also clears the epochs, a soft one keeps them.\<close>

theorem reset_forgets_cluster:
  assumes "cluster_inv s"
  shows "\<exists>t. clusterReset hard s = Some t \<and> cluster_inv t \<and> live t = {myself s} \<and> myself t = myself s \<and>
     (\<forall>j < CLUSTER_SLOTS. slots t j = None) \<and>
     (if hard then currentEpoch t = 0 \<and> lastVoteEpoch t = 0 \<and> configEpoch (me t) = 0 \<and>
                   (\<exists>nm. nodes t = [(nm, myself s)])
      else epoch_view t = epoch_view s)"
  by (rule clusterReset_effect [OF assms])

theorem reset_forgets_cluster_witness:
  "\<exists>t. clusterReset True (sample 0) = Some t \<and> live t = {0} \<and> currentEpoch t = 0"
  using reset_forgets_cluster [of "sample 0" True] sample_inv [of 0] by auto

text \<open>C31. After \<open>verifyClusterConfigWithData\<close> every slot with keys is served or being imported by this
  node: unassigned slots are taken over, slots of other nodes are marked as importing from
  their owner, and nothing else changes in the tables.\<close>

theorem loaded_keys_are_covered:
  assumes "cluster_inv s" "cluster_module_flags s AND CLUSTER_MODULE_FLAG_NO_REDIRECTION = 0"
    and "\<not> nodeIsSlave (me s)" "\<forall>n \<in> set (tl (db_sizes s)). n = 0"
  shows "\<exists>t. verifyClusterConfigWithData s = (C_OK, t) \<and> cluster_inv t \<and>
     slots t = (\<lambda>j. if j < CLUSTER_SLOTS \<and> stray s j \<and> slots s j = None then Some (myself s) else slots s j) \<and>
     importing_slots_from t =
       (\<lambda>j. if j < CLUSTER_SLOTS \<and> stray s j \<and> slots s j \<noteq> None then slots s j else importing_slots_from s j) \<and>
     (\<forall>j < CLUSTER_SLOTS. \<not> stray t j)"
  by (rule verifyClusterConfigWithData_effect [OF assms])

theorem loaded_keys_are_covered_witness:
  "\<exists>t. verifyClusterConfigWithData ((sample 0)\<lparr>countKeysInSlot := \<lambda>j. j\<rparr>) = (C_OK, t) \<and>
     importing_slots_from t 9000 = Some 1 \<and> importing_slots_from t 5 = None"
proof -
  define s where "s = (sample 0)\<lparr>countKeysInSlot := \<lambda>j. j\<rparr>"
  have "inv_view s = inv_view (sample 0)" by (simp add: s_def inv_view_def view_defs)
  then have "cluster_inv s" using cluster_inv_cong [of s "sample 0"] sample_inv [of 0] by simp
  moreover have "cluster_module_flags s AND CLUSTER_MODULE_FLAG_NO_REDIRECTION = 0" "\<not> nodeIsSlave (me s)"
    "\<forall>n \<in> set (tl (db_sizes s)). n = 0"
    by (simp_all add: s_def) (simp_all add: sample_def)
  ultimately obtain t where t: "verifyClusterConfigWithData s = (C_OK, t)"
    "importing_slots_from t =
       (\<lambda>j. if j < CLUSTER_SLOTS \<and> stray s j \<and> slots s j \<noteq> None then slots s j else importing_slots_from s j)"
    using loaded_keys_are_covered [of s] by blast
  have imp: "importing_slots_from (sample 0) j = None" for j by (simp add: sample_def)
  have "stray s 9000" "\<not> stray s 5" by (simp_all add: stray_def s_def imp)
  then have "importing_slots_from t 9000 = Some 1" "importing_slots_from t 5 = None"
    unfolding t(2) by (simp_all add: s_def CLUSTER_SLOTS_def imp)
  then show ?thesis using t(1) unfolding s_def by blast
qed

section \<open>Numbers\<close>

text \<open>C33. \<open>string2ll\<close> accepts exactly the decimal notations of the 64-bit signed integers, with no
  leading zero, plus sign or minus zero, and returns the integer they denote.\<close>

theorem string2ll_roundtrip: "string2ll s = Some i \<longleftrightarrow> llong i \<and> s = dec_int i"
  by (rule string2ll_iff)

section \<open>The CLUSTER command\<close>

text \<open>C21. Every CLUSTER command, with any arguments that have room for the node names they stand for,
  returns from every consistent node and keeps the tables consistent. The node itself stays
  consistent but for one command: ADDSLOTS on a replica.\<close>

theorem command_keeps_node:
  assumes "me_ok s" "node_args_ok argv" "2 \<le> length argv"
  shows "\<exists>r t. clusterCommand enabled write_ok db argv s = Some (r, t) \<and> cluster_inv t \<and>
     (nodeIsMaster (me s) \<or> \<not> arg_is (argv ! 1) ''addslots'' \<longrightarrow> me_ok t)"
  by (rule clusterCommand_returns [OF assms])

theorem command_keeps_node_witness:
  "\<exists>r t. clusterCommand True True 0 [str ''CLUSTER'', str ''FORGET'', sample_name 2] (sample 0) = Some (r, t) \<and> me_ok t"
proof -
  have "\<exists>r t. clusterCommand True True 0 [str ''CLUSTER'', str ''FORGET'', sample_name 2] (sample 0) = Some (r, t) \<and> cluster_inv t \<and>
     (nodeIsMaster (me (sample 0)) \<or> \<not> arg_is ([str ''CLUSTER'', str ''FORGET'', sample_name 2] ! 1) ''addslots'' \<longrightarrow> me_ok t)"
    by (rule command_keeps_node) (simp_all add: sample_me_ok node_args_ok_def sample_name_def CLUSTER_NAMELEN_def)
  then show ?thesis by auto
qed

text \<open>C32. ADDSLOTS and DELSLOTS succeed exactly when all their arguments are slots, pairwise different,
  and all unassigned (ADDSLOTS) or all assigned (DELSLOTS). Then exactly these slots change
  owner; otherwise the state is left as it was.\<close>

theorem addslots_all_or_nothing:
  assumes "cluster_inv s"
  shows "\<exists>r t. cluster_addslots del as s = Some (r, t) \<and>
     (r = ReplyOK \<longleftrightarrow> (\<exists>js. map getSlotOrReply as = map Inr js \<and> distinct js \<and> (\<forall>j \<in> set js. (slots s j \<noteq> None) = del))) \<and>
     (r \<noteq> ReplyOK \<longrightarrow> t = s) \<and>
     (\<forall>js. r = ReplyOK \<and> map getSlotOrReply as = map Inr js \<longrightarrow> cluster_inv t \<and>
        slots t = (\<lambda>j. if j \<in> set js then if del then None else Some (myself s) else slots s j))"
proof -
  have same: "js = js'" if "slots_ok del s as js" "map getSlotOrReply as = map Inr js'" for js js'
  proof -
    have "map Inr js = (map Inr js' :: (reply + nat) list)" using that by (simp add: slots_ok_def)
    then show ?thesis by (rule map_injective [OF _ inj_Inr])
  qed
  obtain r t where t: "cluster_addslots del as s = Some (r, t)" and c:
    "r = ReplyOK \<and> cluster_inv t \<and> (\<exists>js. slots_ok del s as js \<and>
        slots t = (\<lambda>j. if j \<in> set js then if del then None else Some (myself s) else slots s j)) \<or>
      r \<noteq> ReplyOK \<and> t = s \<and> (\<nexists>js. slots_ok del s as js)"
    using cluster_addslots_effect [OF assms, of del as] by blast
  from c show ?thesis
  proof (elim disjE conjE exE)
    fix js assume r: "r = ReplyOK" "cluster_inv t" and js: "slots_ok del s as js"
      and sl: "slots t = (\<lambda>j. if j \<in> set js then if del then None else Some (myself s) else slots s j)"
    have m: "js' = js" if "map getSlotOrReply as = map Inr js'" for js' using same [OF js that] by simp
    show ?thesis
    proof (intro exI conjI allI impI)
      show "cluster_addslots del as s = Some (r, t)" by (rule t)
      show "r = ReplyOK \<longleftrightarrow> (\<exists>js. map getSlotOrReply as = map Inr js \<and> distinct js \<and> (\<forall>j \<in> set js. (slots s j \<noteq> None) = del))"
        using r(1) js unfolding slots_ok_def by blast
      show "slots t = (\<lambda>j. if j \<in> set js' then if del then None else Some (myself s) else slots s j)"
        if "r = ReplyOK \<and> map getSlotOrReply as = map Inr js'" for js' using that m sl by simp
    qed (use r in simp_all)
  next
    assume "r \<noteq> ReplyOK" "t = s" "\<nexists>js. slots_ok del s as js"
    then show ?thesis using t unfolding slots_ok_def by (intro exI [of _ r] exI [of _ t]) simp
  qed
qed

theorem addslots_all_or_nothing_witness:
  "\<exists>t. cluster_addslots True [dec_int (int 8191), dec_int (int 0)] (sample 0) = Some (ReplyOK, t) \<and> slots t 0 = None \<and> slots t 8191 = None"
proof -
  have g: "map getSlotOrReply [dec_int (int 8191), dec_int (int 0)] = map Inr [8191, 0]"
    using getSlotOrReply_dec [of 8191] getSlotOrReply_dec [of 0] by (simp add: CLUSTER_SLOTS_def)
  define js :: "nat list" where "js = [8191, 0]"
  have ok: "distinct js" "\<forall>j \<in> set js. (slots (sample 0) j \<noteq> None) = True" by (simp_all add: js_def)
  obtain r t where t: "cluster_addslots True [dec_int (int 8191), dec_int (int 0)] (sample 0) = Some (r, t)"
    "r = ReplyOK" "slots t = (\<lambda>j. if j \<in> set js then None else slots (sample 0) j)"
    using addslots_all_or_nothing [OF sample_inv [of 0], of True "[dec_int (int 8191), dec_int (int 0)]"] g ok
    unfolding js_def [symmetric] by auto
  then show ?thesis by (simp add: js_def)
qed

text \<open>C22. ADDSLOTS does not ask whether the node is a master. A replica that was given a slot passes
  the checks of a later REPLICATE of another master and fails the assertion of
  \<open>clusterSetMaster\<close>: the server aborts.\<close>

theorem replica_with_slots_aborts:
  assumes "me_ok s" "nodeIsSlave (me s)" "j < CLUSTER_SLOTS" "slots s j = None"
    and "clusterLookupNode nm s = Some n" "length nm = CLUSTER_NAMELEN" "n \<noteq> myself s" "\<not> nodeIsSlave (nd s n)"
  shows "\<exists>t. clusterCommand True write_ok db [cmd, str ''addslots'', dec_int (int j)] s = Some (ReplyOK, t) \<and>
     clusterCommand True write_ok db [cmd, str ''replicate'', nm] t = None"
proof -
  note inv = me_okD(1) [OF assms(1)]
  have g: "getSlotOrReply (dec_int (int j)) = Inr j" by (rule getSlotOrReply_dec [OF assms(3)])
  have "slots_ok False s [dec_int (int j)] [j]" using g assms(4) by (simp add: slots_ok_def)
  then obtain js t u where t: "cluster_addslots False [dec_int (int j)] s = Some (ReplyOK, t)" "cluster_inv t"
    and js: "slots_ok False s [dec_int (int j)] js"
    and u: "t = clusterDoBeforeSleep (CLUSTER_TODO_UPDATE_STATE OR CLUSTER_TODO_SAVE_CONFIG) u"
      "slot_frame u = slot_frame (s\<lparr>importing_slots_from := (\<lambda>j. if j \<in> set js then None else importing_slots_from s j)\<rparr>)"
      "slots t = (\<lambda>j. if j \<in> set js then if False then None else Some (myself s) else slots s j)"
    using cluster_addslots_effect [OF inv, of False "[dec_int (int j)]"] by blast
  have j: "j \<in> set js" using js g by (auto simp: slots_ok_def)
  have same: "nodes t = nodes s" "myself t = myself s" "nodeIsSlave (nd t a) = nodeIsSlave (nd s a)"
    "nodeIsMaster (nd t a) = nodeIsMaster (nd s a)" for a
    using slot_frame_server(1,2) [OF u(2)] slot_frame_node(5,6) [OF u(2), of a]
    by (simp_all add: u(1) clusterDoBeforeSleep_def)
  have "j \<in> {i. i < CLUSTER_SLOTS \<and> slots t i = Some (myself t)}" using j u(3) same assms(3) by simp
  then have "numslots (me t) \<noteq> 0"
    using slot_inv_numslots [OF cluster_invD(1,4) [OF t(2)]] card_gt_0_iff [of "{i. i < CLUSTER_SLOTS \<and> slots t i = Some (myself t)}"]
    by auto
  moreover have "lookup_arg nm t = Some (Some n)"
    using assms(5,6) same by (simp add: lookup_arg_def clusterLookupNode_def)
  moreover have "\<not> nodeIsMaster (me s)" using me_okD(5) [OF assms(1)] assms(2) by simp
  ultimately have "cluster_replicate nm t = None"
    using assms(7,8) same by (simp add: cluster_replicate_def clusterSetMaster_def)
  moreover note kw = arg_is_def cstr_def strcaseeq_def str_def tolower_def
  have "clusterCommand True write_ok db [cmd, str ''addslots'', dec_int (int j)] s = Some (ReplyOK, t)"
    using t(1) by (simp add: clusterCommand_def kw)
  moreover have "clusterCommand True write_ok db [cmd, str ''replicate'', nm] t = cluster_replicate nm t"
    by (simp add: clusterCommand_def kw)
  ultimately show ?thesis by simp
qed

theorem replica_with_slots_aborts_witness:
  "\<exists>s t. clusterCommand True True 0 [str ''CLUSTER'', str ''addslots'', dec_int (int 0)] s = Some (ReplyOK, t) \<and>
     clusterCommand True True 0 [str ''CLUSTER'', str ''replicate'', sample_name 0] t = None"
proof -
  have g: "map getSlotOrReply [dec_int (int 0)] = map Inr [0]"
    using getSlotOrReply_dec [of 0] by (simp add: CLUSTER_SLOTS_def)
  have "slots_ok True (sample 2) [dec_int (int 0)] [0]" unfolding slots_ok_def g by simp
  then obtain js t u where t: "cluster_addslots True [dec_int (int 0)] (sample 2) = Some (ReplyOK, t)"
    and js: "slots_ok True (sample 2) [dec_int (int 0)] js"
    and u: "t = clusterDoBeforeSleep (CLUSTER_TODO_UPDATE_STATE OR CLUSTER_TODO_SAVE_CONFIG) u"
      "slot_frame u = slot_frame ((sample 2)\<lparr>importing_slots_from := (\<lambda>j. if j \<in> set js then None else importing_slots_from (sample 2) j)\<rparr>)"
      "slots t = (\<lambda>j. if j \<in> set js then if True then None else Some (myself (sample 2)) else slots (sample 2) j)"
    using cluster_addslots_effect [OF sample_inv [of 2], of True "[dec_int (int 0)]"] by auto
  have "0 \<in> set js" using js g by (auto simp: slots_ok_def)
  moreover have "me_ok t" using me_ok_addslots [OF sample_me_ok [of 2], of True "[dec_int (int 0)]"] t by simp
  moreover have "nodes t = nodes (sample 2)" "myself t = 2" "nodeIsSlave (nd t a) = nodeIsSlave (nd (sample 2) a)" for a
    using slot_frame_server(1,2) [OF u(2)] slot_frame_node(6) [OF u(2), of a]
    by (simp_all add: u(1) clusterDoBeforeSleep_def)
  ultimately have "\<exists>t'. clusterCommand True True 0 [str ''CLUSTER'', str ''addslots'', dec_int (int 0)] t = Some (ReplyOK, t') \<and>
     clusterCommand True True 0 [str ''CLUSTER'', str ''replicate'', sample_name 0] t' = None"
    by (intro replica_with_slots_aborts [where n = 0])
      (simp_all add: u(3) CLUSTER_SLOTS_def clusterLookupNode_def dictFind_def sample_name_def CLUSTER_NAMELEN_def)
  then show ?thesis by blast
qed

section \<open>Sets of integers\<close>

text \<open>C34. The binary search of an intset returns for every well-formed set and every value,
  says exactly whether the value is an element, and gives as position the number of smaller
  elements: where the value is, or where it has to be inserted.\<close>

theorem intset_search_exact:
  assumes "intset_inv is"
  shows "intsetSearch is v =
    Some (v \<in> set (elements is), of_nat (length (filter (\<lambda>x. x < v) (elements is))))"
  using intsetSearch_correct [OF intset_inv_rep [OF assms]] by (simp add: rank_def)

theorem intset_search_exact_witness:
  "intsetSearch sample_set 5 = Some (True, 1) \<and> intsetSearch sample_set 70000 = Some (False, 3)"
  using intset_search_exact [OF sample_set_inv(1)] by (simp add: sample_set_inv(2))

text \<open>C35. The operations of an intset, on its bytes, are those of a finite set of 64-bit
  integers: adding (with a change of the encoding of all elements where the value needs it),
  removing and looking up return, report whether they changed or found something, and keep
  the elements sorted and well encoded. Adding needs room: the new block has to stay
  below 2^32 bytes.\<close>

theorem intset_refines_set:
  assumes "intset_inv is" "int64 v"
  shows "(room_for is v \<longrightarrow> (\<exists>is'. intsetAdd is v = Some (v \<notin> set (elements is), is') \<and> intset_inv is' \<and>
       set (elements is') = insert v (set (elements is)))) \<and>
     (\<exists>is'. intsetRemove is v = Some (v \<in> set (elements is), is') \<and> intset_inv is' \<and>
       set (elements is') = set (elements is) - {v}) \<and>
     intsetFind is v = Some (v \<in> set (elements is))"
  using intset_insert [OF assms] intset_delete [OF assms] intsets.member [OF assms] by blast

theorem intset_refines_set_witness:
  "\<exists>is'. intsetAdd sample_set (- 3000000000) = Some (True, is') \<and> intset_inv is' \<and>
     set (elements is') = {- 3000000000, 1, 5, 300}"
proof -
  have "int64 (- 3000000000)" by (simp add: int64_def)
  moreover have "room_for sample_set (- 3000000000)"
    by (simp add: room_for_def sample_set_def intsetValueEncoding_def enc_size_def enc_defs)
  ultimately show ?thesis
    using intset_refines_set [OF sample_set_inv(1), of "- 3000000000"] by (auto simp: sample_set_inv(2))
qed

text \<open>C36. The size that \<open>intsetResize\<close> computes has 32 bits. When a set of 64-bit integers
  with 2^29 - 1 elements gets one more, the size wraps to 0, the block is shrunk to its
  header, and \<open>intsetAdd\<close> goes on to write outside it.\<close>

theorem intset_size_wraps:
  assumes "intset_inv is" "encoding is = INTSET_ENC_INT64" "is_length is = 2 ^ 29 - 1"
    and "int64 v" "v \<notin> set (elements is)"
  shows "contents (intsetResize is (is_length is + 1)) = [] \<and> intsetAdd is v = None"
  using intsetAdd_wraps [OF intset_inv_rep] resize_wraps assms by (simp add: int64_fits)

theorem intset_size_wraps_witness:
  "\<exists>is. intset_inv is \<and> intsetAdd is (- 1) = None"
proof -
  obtain s where s: "intset_rep s (map int [0..<2 ^ 29 - 1])" "encoding s = INTSET_ENC_INT64"
    "is_length s = of_nat (2 ^ 29 - 1)"
    using full_set [of "2 ^ 29 - 1"] by auto
  have "elements s = map int [0..<2 ^ 29 - 1]" by (rule elements_rep [OF s(1)])
  then have "- 1 \<notin> set (elements s)" by auto
  moreover have "intset_inv s" using s(1) by (auto simp: intset_inv_iff)
  moreover have "int64 (- 1)" by (simp add: int64_def)
  ultimately show ?thesis using intset_size_wraps [OF _ s(2)] s(3) by auto
qed

section \<open>Starting a node\<close>

text \<open>C37. Whatever bytes the configuration file holds, and whatever state the server was in,
  a node that starts has well-formed tables: every name of the table of nodes is the name of
  its node, bitmaps, counters and owners of slots agree, the replica links and the failure
  reports point at nodes of the table, and the node itself is one of them.\<close>

theorem startup_consistent:
  assumes "clusterInit locked save listening file s = Inr t"
  shows "cluster_inv t"
  by (rule clusterInit_consistent [OF assms])

theorem startup_consistent_witness:
  "\<exists>t. clusterInit True True True Missing (sample 0) = Inr t \<and> cluster_inv t"
proof -
  have "\<not> isl (clusterInit True True True Missing (sample 0))"
    by (simp add: clusterInit_def clusterLoadConfig_def init_state_def init_myself_def clusterCloseAllSlots_def
        createClusterNode_def clusterAddNode_def dictAdd_def clusterSaveConfig_def sample_def
        C_OK_def C_ERR_def CLUSTER_PORT_INCR_def Let_def split_def emit_def)
  then show ?thesis
    using startup_consistent [of True True True Missing "sample 0"]
    by (cases "clusterInit True True True Missing (sample 0)") simp_all
qed

text \<open>C38. Splitting a line into arguments undoes quoting: arguments written by
  \<open>sdscatrepr\<close>, whatever their bytes, and separated by spaces, are what
  \<open>sdssplitargs\<close> reads.\<close>

theorem quoted_args_roundtrip: "sdssplitargs (concat (map (\<lambda>p. sdscatrepr [] p @ [32]) ps)) = Some ps"
  by (rule sdssplitargs_reprs)

section \<open>Restarting a node\<close>

text \<open>C8. A node that restarts is the node that saved its configuration: loading the file that
  \<open>clusterSaveConfig\<close> wrote succeeds, if the addresses of the nodes can be read back and no
  node in handshake is referred to (\<open>saveable\<close>), and gives back under the
  same names every node that was not in handshake, with its address, flags, master, epoch and
  slots, the open slots of the node itself, which node it is, its current epoch and the
  epoch of its last vote. No line overflows the buffer of the reader. A slot that is both
  migrating and importing is saved as migrating.\<close>

theorem restart_restores_config:
  assumes "saveable S"
  shows "\<exists>t. clusterLoadConfig (Contents (config_file S)) (init_state s) = Inr (C_OK, t) \<and> cluster_inv t \<and>
    conf_of t = conf_of S |` saved_names S \<and> open_names t = saved_open S \<and> name (me t) = name (me S) \<and>
    currentEpoch t = currentEpoch S \<and> lastVoteEpoch t = lastVoteEpoch S"
  using config_reloaded [OF assms, of "init_state s"] by (simp add: init_state_def clusterCloseAllSlots_def)

theorem restart_restores_config_witness:
  "\<exists>t. clusterLoadConfig (Contents (config_file (sample 0))) (init_state (sample 0)) = Inr (C_OK, t) \<and>
     map_option c_master (conf_of t (sample_name 2)) = Some (Some (sample_name 1)) \<and>
     map_option c_slots (conf_of t (sample_name 1)) = Some {8192..<16384} \<and> lastVoteEpoch t = 4"
proof -
  have nodes: "saved_nodes (sample 0) = [0, 1, 2]" by (simp add: saved_nodes_def)
  then have names: "saved_names (sample 0) = {sample_name 0, sample_name 1, sample_name 2}" by (simp add: saved_names_def)
  have name: "name_ok (sample_name a)" if "a \<le> 2" for a
  proof -
    have "a = 0 \<or> a = 1 \<or> a = 2" using that by auto
    then show ?thesis by (elim disjE) (simp_all add: name_ok_def sample_name_def CLUSTER_NAMELEN_def list_all_iff)
  qed
  have addr: "addr_ok (sample_node 0 a) \<and> time_ok (ping_sent (sample_node 0 a)) \<and> time_ok (pong_received (sample_node 0 a))" if "a \<le> 2" for a
    using that by (simp add: addr_ok_def time_ok_def sample_node_def str_def isspace_def NET_IP_STR_LEN_def)
  have line: "line_ok {sample_name 0, sample_name 1, sample_name 2} (sample 0) a" if "a \<le> 2" for a
    using that name addr [OF that] by (simp add: line_ok_def)
  have my: "is_myself (sample 0) a = (a = 0)" for a
    by (simp add: is_myself_def sample_node_def flag_defs)
  have "saveable (sample 0)"
    unfolding saveable_def nodes names using sample_inv [of 0] line my
    by (simp add: epochs_ok_def open_ok_def saved_open_def open_names_def)
  then obtain t where t: "clusterLoadConfig (Contents (config_file (sample 0))) (init_state (sample 0)) = Inr (C_OK, t)"
    "conf_of t = conf_of (sample 0) |` saved_names (sample 0)" "lastVoteEpoch t = 4"
    using restart_restores_config [of "sample 0" "sample 0"] by auto
  have conf: "conf_of (sample 0) (sample_name a) = Some (node_conf (sample 0) a)" if "a \<le> 2" for a
  proof -
    have "names_inv (sample 0)" "a \<in> live (sample 0)" using sample_inv [of 0] that by (auto simp: cluster_inv_def)
    then show ?thesis using conf_of_live [of "sample 0" a] by simp
  qed
  have "map_option c_master (conf_of t (sample_name 2)) = Some (Some (sample_name 1))"
    using conf [of 2] by (simp add: t(2) names node_conf_fields)
  moreover have "owned (sample 0) 1 = {8192..<16384}"
  proof -
    have "slot_inv (sample 0)" "1 \<in> live (sample 0)" using sample_inv [of 0] by (auto simp: cluster_inv_def)
    then have "owned (sample 0) 1 = {j. j < CLUSTER_SLOTS \<and> slots (sample 0) j = Some 1}" by (rule slot_inv_owned)
    also have "\<dots> = {8192..<16384}" by (rule set_eqI) (simp add: CLUSTER_SLOTS_def)
    finally show ?thesis .
  qed
  then have "map_option c_slots (conf_of t (sample_name 1)) = Some {8192..<16384}"
    using conf [of 1] by (simp add: t(2) names node_conf_fields)
  ultimately show ?thesis using t(1,3) by blast
qed

section \<open>The bus\<close>

text \<open>C9. The bus delivers what was sent. Messages queued on a link, whatever pieces of the send
  buffer the socket takes at a time, and read at the other end in whatever segments the network
  delivers, are processed one after the other as the messages they were, once each, in the order in
  which they were queued, up to one that makes the receiver drop the link. At any time the write
  handler is installed exactly if the send buffer holds something.\<close>

theorem bus_in_order:
  assumes "fold (send_step l) es ([], Some \<lparr>sndbuf = [], writable = False\<rparr>, a) = (w, Some lk, a')"
    and "queued es = concat (map encode_msg ms)" "list_all wire_ok ms"
    and "orderly inp" "stream inp = w" "arrival_size inp \<le> k"
  shows "(writable lk \<longleftrightarrow> sndbuf lk \<noteq> []) \<and> (sndbuf lk = [] \<longrightarrow> read_calls k l' [] inp s = receive l' ms s)"
proof -
  have sent: "w @ sndbuf lk = concat (map encode_msg ms) \<and> (writable lk \<longleftrightarrow> sndbuf lk \<noteq> [])"
    using sends_in_order [OF assms(1)] assms(2) by simp
  have "partial []" by (simp add: partial_def)
  then have "read_calls k l' [] inp s = deliver l' w s"
    using read_calls_deliver [of "[]" inp k l' s] assms(4-6) by simp
  then show ?thesis using sent deliver_messages [OF assms(3)] by auto
qed

theorem bus_in_order_witness:
  "\<exists>m. wire_ok m \<and> h_type m = CLUSTERMSG_TYPE_FAIL \<and>
     read_calls 3000 10 [] [Segment (take 5 (encode_msg m)), Again, Segment (drop 5 (encode_msg m))] (sample 1) =
     receive 10 [m] (sample 1)"
proof -
  define m where "m = (clusterBuildMessageHdr CLUSTERMSG_TYPE_FAIL (sample 0))\<lparr>h_data := FailData (sample_name 1)\<rparr>"
  have f: "h_type m = CLUSTERMSG_TYPE_FAIL" "h_data m = FailData (sample_name 1)" "h_sender m = sample_name 0"
    "h_myslots m = sample_slots 0" "h_slaveof m = replicate CLUSTER_NAMELEN 0" "h_myip m = []" "h_totlen m = 2296"
    by (simp_all add: m_def clusterBuildMessageHdr_def Let_def CLUSTERMSG_MIN_LEN_def sizeof_clusterMsgDataFail_def sample_def sample_node_def)
  have names: "length (sample_name a) = 40" "length (sample_slots a) = 2048" for a
    by (simp_all add: sample_name_def sample_slots_def CLUSTER_NAMELEN_def)
  have len: "length (encode_msg m) = 2296"
    by (simp add: encode_msg_def encode_header_def f names NET_IP_STR_LEN_def CLUSTER_NAMELEN_def CLUSTER_SLOTS_def str_def)
  have ok: "wire_ok m"
    using len by (simp add: wire_ok_def data_ok_def ip_ok_def f names CLUSTER_NAMELEN_def CLUSTER_SLOTS_def NET_IP_STR_LEN_def CLUSTERMSG_TYPE_FAIL_def)
  define lk where "lk = \<lparr>sndbuf = encode_msg m, writable = True\<rparr>"
  have "encode_msg m \<noteq> []" using len by auto
  then have run: "fold (send_step 0) [Queue (encode_msg m), Writable 4000] ([], Some \<lparr>sndbuf = [], writable = False\<rparr>, sample 0) =
      (encode_msg m, Some \<lparr>sndbuf = [], writable = False\<rparr>, sample 0)"
    using len sdsrange_rest [of 2296 "encode_msg m"] by (simp add: clusterSendBytes_def clusterWriteHandler_def Let_def)
  let ?inp = "[Segment (take 5 (encode_msg m)), Again, Segment (drop 5 (encode_msg m))]"
  have "(writable \<lparr>sndbuf = [], writable = False\<rparr> \<longleftrightarrow> sndbuf \<lparr>sndbuf = [], writable = False\<rparr> \<noteq> []) \<and>
      (sndbuf \<lparr>sndbuf = [], writable = False\<rparr> = [] \<longrightarrow> read_calls 3000 10 [] ?inp (sample 1) = receive 10 [m] (sample 1))"
    by (rule bus_in_order [OF run]) (use len ok in \<open>auto simp: queued_def orderly_def arrival_size_def\<close>)
  then show ?thesis using ok f(1) by auto
qed

text \<open>C40. A header that announces a packet of eight bytes is complete as soon as it is read: the
  packet is processed before its signature and its length are checked, and its type is read from
  memory beyond the bytes that were received, so that the result is undefined. Any other
  eight bytes with a bad signature or length close the link at once.\<close>

theorem short_packet_unchecked:
  assumes "length bs = 8" "bad_start bs"
  shows "clusterReadHandler l [] [Segment bs] s =
    (if msg_totlen bs = 8 then None else Some (None, [], freeClusterLink l s))"
proof -
  have p: "partial []" "\<not> (length [] = 8 \<and> bad_start [])" "orderly [Segment bs]"
    using assms(1) by (auto simp: partial_def orderly_def)
  have r: "sock_read (unat (bytes_wanted [])) [Segment bs] = (Got bs, [])"
    using assms(1) by (auto simp: bytes_wanted_def)
  have "process_bytes l bs s = None" using assms(1) by (simp add: process_bytes_def reads_beyond_def)
  moreover have "clusterReadHandler l bs [] s = Some (None, [], freeClusterLink l s)"
    using assms by (subst clusterReadHandler.simps) simp
  ultimately show ?thesis
    using read_step(1) [OF p r, of l s] assms by (auto simp: word_unat_eq_iff)
qed

theorem short_packet_unchecked_witness:
  "clusterReadHandler 10 [] [Segment [120, 120, 120, 120, 0, 0, 0, 8]] (sample 0) = None"
proof -
  have "msg_totlen [120, 120, 120, 120, 0, 0, 0, 8] = 8"
    by (simp add: msg_totlen_def net_field_def field_def be_uint_def le_uint_def)
  moreover from this have "bad_start [120, 120, 120, 120, 0, 0, 0, 8]" by (simp add: bad_start_def CLUSTERMSG_MIN_LEN_def)
  ultimately show ?thesis
    using short_packet_unchecked [of "[120, 120, 120, 120, 0, 0, 0, 8]" 10 "sample 0"] by simp
qed

section \<open>DUMP payloads\<close>

text \<open>C39. RESTORE and MIGRATE accept the payload that DUMP made of any serialised value, and
  reject it if one of its bytes was changed: a byte of the value, of the version or of the
  checksum.\<close>

theorem dump_payload_protected:
  assumes "i < length (createDumpPayload rdb)" and "b \<noteq> createDumpPayload rdb ! i"
  shows "verifyDumpPayload (createDumpPayload rdb) = C_OK \<and>
         verifyDumpPayload ((createDumpPayload rdb)[i := b]) = C_ERR"
  using verify_created verify_changed [OF verify_created assms] by blast

theorem dump_payload_protected_witness:
  "verifyDumpPayload (createDumpPayload [0, 1, 97]) = C_OK \<and>
   verifyDumpPayload ((createDumpPayload [0, 1, 97])[2 := 98]) = C_ERR"
  by (rule dump_payload_protected) (simp_all add: createDumpPayload_def Let_def)

end
